(* ===== verification/Prelude.thy ===== *)
theory Prelude
  imports Main "HOL-Library.Word" "HOL-Library.Monad_Syntax"
begin

text \<open>
  Shared vocabulary of the development: the fixed-width integers of the C sources, their
  little-endian byte representation, and memory objects as byte lists. An access outside an
  object, which C leaves undefined, is the value \<^const>\<open>None\<close>.
\<close>

unbundle bit_operations_syntax

type_synonym u8 = "8 word"
type_synonym u16 = "16 word"
type_synonym u32 = "32 word"
type_synonym u64 = "64 word"
type_synonym byte = "8 word"

named_theorems mem_simps \<open>facts about memory objects\<close>

section \<open>Little-endian integers\<close>

primrec le_bytes :: "nat \<Rightarrow> 'a::len word \<Rightarrow> byte list" where
  "le_bytes 0 w = []"
| "le_bytes (Suc n) w = ucast w # le_bytes n (drop_bit 8 w)"

primrec le_val :: "byte list \<Rightarrow> 'a::len word" where
  "le_val [] = 0"
| "le_val (b # bs) = ucast b OR push_bit 8 (le_val bs)"

lemma length_le_bytes [simp]: "length (le_bytes n w) = n"
  by (induction n arbitrary: w) auto

lemma bit_le_val_le_bytes:
  "bit (le_val (le_bytes n w) :: 'a::len word) i \<longleftrightarrow> i < LENGTH('a) \<and> i < 8 * n \<and> bit (w :: 'a word) i"
proof (induction n arbitrary: w i)
  case 0
  then show ?case by simp
next
  case (Suc n)
  show ?case
  proof (cases "i < 8")
    case True
    then show ?thesis
      by (auto simp: bit_simps dest: bit_imp_le_length)
  next
    case False
    then show ?thesis
      by (auto simp: bit_simps Suc.IH dest: bit_imp_le_length)
  qed
qed

lemma le_val_le_bytes [simp]:
  "LENGTH('a) \<le> 8 * n \<Longrightarrow> le_val (le_bytes n w) = (w :: 'a::len word)"
  by (rule bit_word_eqI) (auto simp: bit_le_val_le_bytes)

lemma bit_le_val:
  "bit (le_val bs :: 'a::len word) i \<longleftrightarrow>
     i < LENGTH('a) \<and> i < 8 * length bs \<and> bit (bs ! (i div 8)) (i mod 8)"
proof (induction bs arbitrary: i)
  case Nil
  then show ?case by simp
next
  case (Cons b bs)
  show ?case
  proof (cases "i < 8")
    case True
    then show ?thesis by (auto simp: bit_simps)
  next
    case False
    then obtain j where "i = j + 8" by (metis add.commute le_Suc_ex not_less)
    moreover have "(j + 8) div 8 = Suc (j div 8)" by simp
    ultimately show ?thesis
      by (auto simp: bit_simps Cons.IH simp del: div_add_self2 dest: bit_imp_le_length)
  qed
qed

lemma ucast_le_val_take:
  assumes "8 * n = LENGTH('b)" and "LENGTH('b) \<le> LENGTH('a)"
  shows "(le_val (take n bs) :: 'b::len word) = ucast (le_val bs :: 'a::len word)"
proof (rule bit_word_eqI)
  fix i assume "i < LENGTH('b)"
  then have "i div 8 < n" using assms(1) by auto
  with \<open>i < LENGTH('b)\<close> assms show "bit (le_val (take n bs) :: 'b word) i
      \<longleftrightarrow> bit (ucast (le_val bs :: 'a word) :: 'b word) i"
    by (auto simp: bit_le_val bit_simps)
qed

declare le_bytes.simps [simp del] le_val.simps [simp del]

section \<open>Memory objects\<close>

text \<open>
  An object is the list of its cells: bytes for a buffer, elements for an array. Block copies
  (\<open>memcpy\<close>, \<open>memmove\<close>) are a \<open>load\<close> followed by a \<open>store\<close>.
\<close>

definition load :: "nat \<Rightarrow> 'a list \<Rightarrow> nat \<Rightarrow> 'a list option" where
  "load n m p = (if p + n \<le> length m then Some (take n (drop p m)) else None)"

definition put :: "'a list \<Rightarrow> 'a list \<Rightarrow> nat \<Rightarrow> 'a list" where
  "put bs m p = take p m @ bs @ drop (p + length bs) m"

definition store :: "'a list \<Rightarrow> 'a list \<Rightarrow> nat \<Rightarrow> 'a list option" where
  "store bs m p = (if p + length bs \<le> length m then Some (put bs m p) else None)"

definition move :: "nat \<Rightarrow> nat \<Rightarrow> nat \<Rightarrow> 'a list \<Rightarrow> 'a list option" where
  "move dst src n m = do { bs \<leftarrow> load n m src; store bs m dst }"

text \<open>Typed access: \<open>*(uintN_t *)\<close> reads and writes of the C code.\<close>

definition load8 :: "byte list \<Rightarrow> nat \<Rightarrow> u8 option" where
  "load8 m p = map_option le_val (load 1 m p)"
definition load16 :: "byte list \<Rightarrow> nat \<Rightarrow> u16 option" where
  "load16 m p = map_option le_val (load 2 m p)"
definition load32 :: "byte list \<Rightarrow> nat \<Rightarrow> u32 option" where
  "load32 m p = map_option le_val (load 4 m p)"
definition load64 :: "byte list \<Rightarrow> nat \<Rightarrow> u64 option" where
  "load64 m p = map_option le_val (load 8 m p)"

definition store8 :: "u8 \<Rightarrow> byte list \<Rightarrow> nat \<Rightarrow> byte list option" where
  "store8 w m p = store (le_bytes 1 w) m p"
definition store16 :: "u16 \<Rightarrow> byte list \<Rightarrow> nat \<Rightarrow> byte list option" where
  "store16 w m p = store (le_bytes 2 w) m p"
definition store32 :: "u32 \<Rightarrow> byte list \<Rightarrow> nat \<Rightarrow> byte list option" where
  "store32 w m p = store (le_bytes 4 w) m p"
definition store64 :: "u64 \<Rightarrow> byte list \<Rightarrow> nat \<Rightarrow> byte list option" where
  "store64 w m p = store (le_bytes 8 w) m p"

lemmas load_defs = load8_def load16_def load32_def load64_def
lemmas store_defs = store8_def store16_def store32_def store64_def

lemma store_Some_iff [mem_simps]:
  "store bs m p = Some m' \<longleftrightarrow> p + length bs \<le> length m \<and> m' = put bs m p"
  by (auto simp: store_def)

lemma length_put [mem_simps]: "p + length bs \<le> length m \<Longrightarrow> length (put bs m p) = length m"
  by (simp add: put_def)

lemma take_put [mem_simps]:
  "q \<le> p \<Longrightarrow> p + length bs \<le> length m \<Longrightarrow> take q (put bs m p) = take q m"
  by (simp add: put_def)

lemma load_put_same [mem_simps]:
  "n = length bs \<Longrightarrow> p + length bs \<le> length m \<Longrightarrow> load n (put bs m p) p = Some bs"
  by (simp add: put_def load_def)

text \<open>
  Two memories agree below an address when they have the same prefix. A read below the
  address sees the same bytes in both.
\<close>

lemma load_agree: "take q m' = take q m \<Longrightarrow> p + n \<le> q \<Longrightarrow> load n m' p = load n m p"
proof -
  assume eq: "take q m' = take q m" and le: "p + n \<le> q"
  have "min (length m') q = min (length m) q"
    using arg_cong [OF eq, of length] by simp
  then have len: "p + n \<le> length m' \<longleftrightarrow> p + n \<le> length m"
    using le by linarith
  have "take n (drop p m') = take n (drop p (take q m'))"
    using le by (simp add: take_drop min_def)
  also have "\<dots> = take n (drop p m)"
    using le by (simp add: eq take_drop min_def)
  finally show ?thesis by (simp add: load_def len)
qed

lemma load_put_before [mem_simps]:
  "q + n \<le> p \<Longrightarrow> p + length bs \<le> length m \<Longrightarrow> load n (put bs m p) q = load n m q"
  by (rule load_agree [of p]) (simp_all add: mem_simps)

lemma load_prefix: "load n m p = Some bs \<Longrightarrow> k \<le> n \<Longrightarrow> load k m p = Some (take k bs)"
  by (auto simp: load_def min_def split: if_splits)

text \<open>The 16-bit field at an address is the low half-word of the 64-bit one.\<close>

lemma load64_load16: "load64 m p = Some w \<Longrightarrow> load16 m p = Some (ucast w)"
  by (auto simp: load_defs load_prefix [of 8 _ _ _ 2] ucast_le_val_take [of 2, where 'b = 16 and 'a = 64])

lemma load_append: "p + n \<le> length xs \<Longrightarrow> load n (xs @ ys) p = load n xs p"
  by (simp add: load_def)

text \<open>Cells of a memory after a write; consecutive and overlapping writes.\<close>

lemma nth_put:
  "p + length bs \<le> length m \<Longrightarrow> i < length m \<Longrightarrow>
     put bs m p ! i = (if i < p then m ! i else if i < p + length bs then bs ! (i - p) else m ! i)"
  by (auto simp: put_def nth_append min_def)

lemma put_append:
  "p + length a + length b \<le> length m \<Longrightarrow> put b (put a m p) (p + length a) = put (a @ b) m p"
  by (rule nth_equalityI) (auto simp: length_put nth_put nth_append)

lemma put_overwrite:
  "length x = length y \<Longrightarrow> p + length a + length y + length b \<le> length m \<Longrightarrow>
     put x (put (a @ y @ b) m p) (p + length a) = put (a @ x @ b) m p"
  by (rule nth_equalityI) (auto simp: length_put nth_put nth_append)

lemma put_between:
  "p + length a + length x + length b \<le> length m \<Longrightarrow>
     put x (put b (put a m p) (p + length a + length x)) (p + length a) = put (a @ x @ b) m p"
  by (rule nth_equalityI) (auto simp: length_put nth_put nth_append)

lemma load_put_inside:
  assumes "p + length (a @ x @ b) \<le> length m"
  shows "load (length x) (put (a @ x @ b) m p) (p + length a) = Some x"
  using assms by (simp add: load_def put_def)

lemma agree_mono: "take q m' = take q m \<Longrightarrow> r \<le> q \<Longrightarrow> take r m' = take r m"
  by (metis min.absorb2 take_take min.commute)

end
