(* ===== verification/Wire_Codec.thy ===== *)
theory Wire_Codec
  imports Prelude "HOL-Library.Multiset"
begin

text \<open>
  The interface the wire format's element types share: an encoder that writes a value at a
  position of a buffer and returns the new position, and a decoder that reads it back. The
  address \<open>a\<close> of the buffer is an argument because the code aligns absolute addresses; the
  counter \<open>h\<close> numbers the objects the decoder allocates. The loops the generated code runs
  over arrays are defined once, and their laws are proved once, inside the locale.
\<close>

type_synonym 'v enc = "nat \<Rightarrow> 'v \<Rightarrow> byte list \<Rightarrow> nat \<Rightarrow> (byte list \<times> nat) option"
type_synonym 'v dec = "nat \<Rightarrow> byte list \<Rightarrow> nat \<Rightarrow> nat \<Rightarrow> ('v \<times> nat \<times> nat) option"

text \<open>
  \<open>for(size_t i = 0; i < n; i++) { e0 = data[i]; buf += serialize(e0, buf); }\<close>; reading
  \<open>data[i]\<close> past the end of the array is \<^const>\<open>None\<close>.
\<close>

fun enc_loop :: "'v enc \<Rightarrow> nat \<Rightarrow> nat \<Rightarrow> 'v list \<Rightarrow> byte list \<Rightarrow> nat \<Rightarrow> (byte list \<times> nat) option" where
  "enc_loop enc a 0 vs m p = Some (m, p)"
| "enc_loop enc a (Suc n) [] m p = None"
| "enc_loop enc a (Suc n) (v # vs) m p = do {
     (m1, p1) \<leftarrow> enc a v m p;
     enc_loop enc a n vs m1 p1
   }"

text \<open>\<open>for(size_t i = 0; i < n; i++) { buf += deserialize(&data[i], buf); }\<close>.\<close>

fun dec_loop :: "'v dec \<Rightarrow> nat \<Rightarrow> nat \<Rightarrow> byte list \<Rightarrow> nat \<Rightarrow> nat \<Rightarrow> ('v list \<times> nat \<times> nat) option" where
  "dec_loop dec b 0 m p h = Some ([], p, h)"
| "dec_loop dec b (Suc n) m p h = do {
     (v, p1, h1) \<leftarrow> dec b m p h;
     (vs, p2, h2) \<leftarrow> dec_loop dec b n m p1 h1;
     Some (v # vs, p2, h2)
   }"

lemma dec_loop_length: "dec_loop dec b n m p h = Some (vs, p', h') \<Longrightarrow> length vs = n"
  by (induction n arbitrary: vs p h) (auto split: Option.bind_splits)

text \<open>The position the encoding loop reaches, when one element moves \<open>p\<close> to \<open>nxt a v p\<close>.\<close>

fun end_loop :: "(nat \<Rightarrow> 'v \<Rightarrow> nat \<Rightarrow> nat) \<Rightarrow> nat \<Rightarrow> 'v list \<Rightarrow> nat \<Rightarrow> nat" where
  "end_loop nxt a [] p = p"
| "end_loop nxt a (v # vs) p = end_loop nxt a vs (nxt a v p)"

locale codec =
  fixes enc :: "nat \<Rightarrow> 'v \<Rightarrow> byte list \<Rightarrow> nat \<Rightarrow> (byte list \<times> nat) option"
    and dec :: "nat \<Rightarrow> byte list \<Rightarrow> nat \<Rightarrow> nat \<Rightarrow> ('v \<times> nat \<times> nat) option"
    and same :: "'v \<Rightarrow> 'v \<Rightarrow> bool"
    and nxt :: "nat \<Rightarrow> 'v \<Rightarrow> nat \<Rightarrow> nat"
    and wf :: "'v \<Rightarrow> bool"
  assumes enc_frame: "enc a v m p = Some (m', p') \<Longrightarrow> 0 < a \<Longrightarrow>
      p' = nxt a v p \<and> length m' = length m \<and> take p m' = take p m"
    and nxt_mono: "0 < a \<Longrightarrow> p \<le> nxt a v p"
    and enc_dec: "enc a v m p = Some (m', p') \<Longrightarrow> 0 < a \<Longrightarrow> 0 < b \<Longrightarrow> a mod 8 = b mod 8 \<Longrightarrow>
      take p' m'' = take p' m' \<Longrightarrow> \<exists>v' h'. dec b m'' p h = Some (v', p', h') \<and> same v v'"
    and enc_total: "wf v \<Longrightarrow> 0 < a \<Longrightarrow> nxt a v p \<le> length m \<Longrightarrow> \<exists>m'. enc a v m p = Some (m', nxt a v p)"
begin

lemma end_loop_mono: "0 < a \<Longrightarrow> p \<le> end_loop nxt a vs p"
  by (induction vs arbitrary: p) (auto intro: le_trans nxt_mono)

lemma enc_loop_frame:
  assumes "0 < a" and "enc_loop enc a n vs m p = Some (m', p')"
  shows "n \<le> length vs \<and> p' = end_loop nxt a (take n vs) p \<and> length m' = length m
    \<and> take p m' = take p m"
  using assms(2)
proof (induction n arbitrary: vs m p)
  case 0
  then show ?case by simp
next
  case (Suc n)
  then obtain v ws m1 p1 where vs: "vs = v # ws" and 1: "enc a v m p = Some (m1, p1)"
    and 2: "enc_loop enc a n ws m1 p1 = Some (m', p')"
    by (cases vs) (auto split: Option.bind_splits)
  have le: "p \<le> p1"
    using enc_frame [OF 1 assms(1)] nxt_mono [OF assms(1)] by simp
  show ?case
    using enc_frame [OF 1 assms(1)] Suc.IH [OF 2] agree_mono [OF _ le, of m' m1] vs by auto
qed

lemma enc_dec_loop:
  assumes "0 < a" and "0 < b" and "a mod 8 = b mod 8"
    and "enc_loop enc a n vs m p = Some (m', p')" and "take p' m'' = take p' m'"
  shows "\<exists>vs' h'. dec_loop dec b n m'' p h = Some (vs', p', h') \<and> list_all2 same (take n vs) vs'"
  using assms(4)
proof (induction n arbitrary: vs m p h)
  case 0
  then show ?case by simp
next
  case (Suc n)
  then obtain v ws m1 p1 where vs: "vs = v # ws" and 1: "enc a v m p = Some (m1, p1)"
    and 2: "enc_loop enc a n ws m1 p1 = Some (m', p')"
    by (cases vs) (auto split: Option.bind_splits)
  have "p1 \<le> p'" and "take p1 m' = take p1 m1"
    using enc_loop_frame [OF assms(1) 2] end_loop_mono [OF assms(1)] by auto
  then have agree: "take p1 m'' = take p1 m1"
    using agree_mono [OF assms(5)] by simp
  obtain v' h1 where dec1: "dec b m'' p h = Some (v', p1, h1)" and same1: "same v v'"
    using enc_dec [OF 1 assms(1,2,3) agree] by blast
  obtain vs' h' where "dec_loop dec b n m'' p1 h1 = Some (vs', p', h')"
    and "list_all2 same (take n ws) vs'"
    using Suc.IH [OF 2] by blast
  with dec1 same1 vs show ?case by simp
qed

lemma enc_loop_total:
  assumes "0 < a" and "list_all wf (take n vs)" and "n \<le> length vs"
    and "end_loop nxt a (take n vs) p \<le> length m"
  shows "\<exists>m'. enc_loop enc a n vs m p = Some (m', end_loop nxt a (take n vs) p)"
  using assms(2-)
proof (induction n arbitrary: vs m p)
  case 0
  then show ?case by simp
next
  case (Suc n)
  then obtain v ws where vs: "vs = v # ws" by (cases vs) auto
  have "nxt a v p \<le> length m"
    using Suc.prems(3) end_loop_mono [OF assms(1)] vs by (auto intro: le_trans)
  then obtain m1 where 1: "enc a v m p = Some (m1, nxt a v p)"
    using enc_total [of v, OF _ assms(1)] Suc.prems(1) vs by fastforce
  show ?case
    using Suc.IH [of ws "nxt a v p" m1] Suc.prems vs 1 enc_frame [OF 1 assms(1)] by auto
qed

end

text \<open>
  Three arrays in a row, the shape of a device description and of a report.
\<close>

locale codec3 =
  c1: codec enc1 dec1 same1 nxt1 wf1 + c2: codec enc2 dec2 same2 nxt2 wf2
    + c3: codec enc3 dec3 same3 nxt3 wf3
  for enc1 :: "nat \<Rightarrow> 'v1 \<Rightarrow> byte list \<Rightarrow> nat \<Rightarrow> (byte list \<times> nat) option" and dec1 same1 nxt1 wf1
    and enc2 :: "nat \<Rightarrow> 'v2 \<Rightarrow> byte list \<Rightarrow> nat \<Rightarrow> (byte list \<times> nat) option" and dec2 same2 nxt2 wf2
    and enc3 :: "nat \<Rightarrow> 'v3 \<Rightarrow> byte list \<Rightarrow> nat \<Rightarrow> (byte list \<times> nat) option" and dec3 same3 nxt3 wf3
begin

lemma enc3_frame:
  assumes "0 < a"
    and "enc_loop enc1 a n1 xs m p = Some (m1, p1)"
    and "enc_loop enc2 a n2 ys m1 p1 = Some (m2, p2)"
    and "enc_loop enc3 a n3 zs m2 p2 = Some (m3, p3)"
  shows "p3 = end_loop nxt3 a (take n3 zs) (end_loop nxt2 a (take n2 ys) (end_loop nxt1 a (take n1 xs) p))"
    and "p \<le> p3" and "length m3 = length m" and "take p m3 = take p m"
    and "p1 \<le> p2" and "p2 \<le> p3" and "take p1 m3 = take p1 m1" and "take p2 m3 = take p2 m2"
    and "n1 \<le> length xs" and "n2 \<le> length ys" and "n3 \<le> length zs"
proof -
  note f1 = c1.enc_loop_frame [OF assms(1,2)] c1.end_loop_mono [OF assms(1), of p "take n1 xs"]
  note f2 = c2.enc_loop_frame [OF assms(1,3)] c2.end_loop_mono [OF assms(1), of p1 "take n2 ys"]
  note f3 = c3.enc_loop_frame [OF assms(1,4)] c3.end_loop_mono [OF assms(1), of p2 "take n3 zs"]
  show "p3 = end_loop nxt3 a (take n3 zs) (end_loop nxt2 a (take n2 ys) (end_loop nxt1 a (take n1 xs) p))"
    and "p1 \<le> p2" and "p2 \<le> p3" and "p \<le> p3" and "length m3 = length m"
    and "take p2 m3 = take p2 m2"
    and "n1 \<le> length xs" and "n2 \<le> length ys" and "n3 \<le> length zs"
    using f1 f2 f3 by auto
  show "take p1 m3 = take p1 m1"
    using f1 f2 f3 agree_mono [of p2 m3 m2 p1] by auto
  then show "take p m3 = take p m"
    using f1 agree_mono [of p1 m3 m1 p] by auto
qed

lemma enc3_dec3:
  assumes "0 < a" and "0 < b" and "a mod 8 = b mod 8"
    and "enc_loop enc1 a n1 xs m p = Some (m1, p1)"
    and "enc_loop enc2 a n2 ys m1 p1 = Some (m2, p2)"
    and "enc_loop enc3 a n3 zs m2 p2 = Some (m3, p3)"
    and "take p3 m'' = take p3 m3"
  obtains xs' ys' zs' h1 h2 h3 where "dec_loop dec1 b n1 m'' p h = Some (xs', p1, h1)"
    and "dec_loop dec2 b n2 m'' p1 h1 = Some (ys', p2, h2)"
    and "dec_loop dec3 b n3 m'' p2 h2 = Some (zs', p3, h3)"
    and "list_all2 same1 (take n1 xs) xs'" and "list_all2 same2 (take n2 ys) ys'"
    and "list_all2 same3 (take n3 zs) zs'"
proof -
  note fr = enc3_frame [OF assms(1,4,5,6)]
  have "take p2 m'' = take p2 m2"
    using agree_mono [OF assms(7) fr(6)] fr(8) by simp
  moreover have "take p1 m'' = take p1 m1"
    using agree_mono [OF assms(7), of p1] fr(5,6,7) by simp
  ultimately show thesis
    using that c1.enc_dec_loop [OF assms(1-4)] c2.enc_dec_loop [OF assms(1-3,5)]
      c3.enc_dec_loop [OF assms(1-3,6,7)] by metis
qed

lemma enc3_total:
  assumes "0 < a" and "list_all wf1 xs" and "list_all wf2 ys" and "list_all wf3 zs"
    and "n1 \<le> length xs" and "n2 \<le> length ys" and "n3 \<le> length zs"
    and "end_loop nxt3 a (take n3 zs) (end_loop nxt2 a (take n2 ys) (end_loop nxt1 a (take n1 xs) p))
      \<le> length m"
  obtains m1 p1 m2 p2 m3 p3 where "enc_loop enc1 a n1 xs m p = Some (m1, p1)"
    and "enc_loop enc2 a n2 ys m1 p1 = Some (m2, p2)"
    and "enc_loop enc3 a n3 zs m2 p2 = Some (m3, p3)"
proof -
  define p1 p2 where "p1 = end_loop nxt1 a (take n1 xs) p" and "p2 = end_loop nxt2 a (take n2 ys) p1"
  have le: "p2 \<le> length m" "p1 \<le> length m"
    using assms(8) c2.end_loop_mono [OF assms(1), of p1 "take n2 ys"]
      c3.end_loop_mono [OF assms(1), of p2 "take n3 zs"] by (auto simp: p1_def p2_def)
  have wf: "list_all wf1 (take n1 xs)" "list_all wf2 (take n2 ys)" "list_all wf3 (take n3 zs)"
    using assms(2-4) by (auto simp: list_all_iff dest: in_set_takeD)
  obtain m1 where 1: "enc_loop enc1 a n1 xs m p = Some (m1, p1)"
    using c1.enc_loop_total [OF assms(1) wf(1) assms(5), of p m] le by (auto simp: p1_def)
  then have l1: "length m1 = length m" using c1.enc_loop_frame [OF assms(1)] by blast
  obtain m2 where 2: "enc_loop enc2 a n2 ys m1 p1 = Some (m2, p2)"
    using c2.enc_loop_total [OF assms(1) wf(2) assms(6), of p1 m1] le l1 by (auto simp: p2_def)
  then have l2: "length m2 = length m" using c2.enc_loop_frame [OF assms(1)] l1 by simp
  obtain m3 where "enc_loop enc3 a n3 zs m2 p2 = Some (m3, end_loop nxt3 a (take n3 zs) p2)"
    using c3.enc_loop_total [OF assms(1) wf(3) assms(7), of p2 m2] assms(8) l2
    by (auto simp: p1_def p2_def)
  with 1 2 show thesis using that by blast
qed

end

text \<open>
  A decoder that allocates: the objects a decoded value owns, in the order the free function
  releases them, are exactly the ones numbered by the counter during the decoding.
\<close>

locale owner =
  fixes dec :: "nat \<Rightarrow> byte list \<Rightarrow> nat \<Rightarrow> nat \<Rightarrow> ('v \<times> nat \<times> nat) option"
    and owned :: "'v \<Rightarrow> nat list"
  assumes dec_owned: "dec b m p h = Some (v, p', h') \<Longrightarrow> h \<le> h' \<and> mset (owned v) = mset [h..<h']"
begin

lemma dec_loop_owned:
  "dec_loop dec b n m p h = Some (vs, p', h') \<Longrightarrow>
     h \<le> h' \<and> length vs = n \<and> mset (concat (map owned vs)) = mset [h..<h']"
proof (induction n arbitrary: vs p h)
  case 0
  then show ?case by simp
next
  case (Suc n)
  then obtain v p1 h1 ws where vs: "vs = v # ws" and 1: "dec b m p h = Some (v, p1, h1)"
    and 2: "dec_loop dec b n m p1 h1 = Some (ws, p', h')"
    by (auto split: Option.bind_splits)
  have "[h..<h'] = [h..<h1] @ [h1..<h']"
    using dec_owned [OF 1] Suc.IH [OF 2] by (metis upt_add_eq_append le_add_diff_inverse)
  then show ?case
    using dec_owned [OF 1] Suc.IH [OF 2] vs by auto
qed

end

end
