(* ===== verification/Net.thy ===== *)
theory Net
  imports Wire_Codec
begin

text \<open>
  The wire protocol, \<^verbatim>\<open>net.h\<close> and \<^verbatim>\<open>net.c\<close>: the message structs, the serializer, the
  deserializer and the free function. A C array field is a list of its elements; the length
  field the code keeps beside it is a field of its own, as in the struct. A pointer field is
  the number of the object it points to, beside the contents of that object.
\<close>

section \<open>Message types\<close>

definition MSG_MAGIC_START :: u64 where "MSG_MAGIC_START = 0xCAFEF00DBEEFDEAD"
definition MSG_MAGIC_END :: u64 where "MSG_MAGIC_END = 0xF00DBEEFCAFEDEAD"
definition MSG_MAGIC_SIZE :: nat where "MSG_MAGIC_SIZE = 8"

record Abs =
  abs_id :: u16
  abs_min :: u32
  abs_max :: u32
  abs_fuzz :: u32
  abs_flat :: u32
  abs_res :: u32

record Key =
  key_id :: u16

record Rel =
  rel_id :: u16

record Tag =
  name_len :: u16
  name_data :: "byte list"
  name_ptr :: nat

record TagList =
  tags_len :: u16
  tags_data :: "Tag list"
  tags_ptr :: nat

datatype DeviceTag =
  DeviceTagNone | DeviceTagInfo | DeviceTagReport | DeviceTagControllerState | DeviceTagRequest
| DeviceTagDestroy

fun device_tag_val :: "DeviceTag \<Rightarrow> u16" where
  "device_tag_val DeviceTagNone = 0"
| "device_tag_val DeviceTagInfo = 1"
| "device_tag_val DeviceTagReport = 2"
| "device_tag_val DeviceTagControllerState = 3"
| "device_tag_val DeviceTagRequest = 4"
| "device_tag_val DeviceTagDestroy = 5"

record DeviceInfo =
  info_slot :: u8
  info_index :: u8
  info_abs_len :: u8
  info_abs :: "Abs list"
  info_rel_len :: u8
  info_rel :: "Rel list"
  info_key_len :: u16
  info_key :: "Key list"

record DeviceReport =
  report_slot :: u8
  report_index :: u8
  report_abs_len :: u8
  report_abs :: "u32 list"
  report_rel_len :: u8
  report_rel :: "u32 list"
  report_key_len :: u16
  report_key :: "u8 list"

record DeviceControllerState =
  cs_index :: u16
  cs_led0 :: u8
  cs_led1 :: u8
  cs_led2 :: u8
  cs_small_rumble :: u8
  cs_big_rumble :: u8
  cs_flash_on :: u8
  cs_flash_off :: u8

record DeviceRequest =
  req_len :: u16
  req_data :: "TagList list"
  req_ptr :: nat
  req_version :: u64

record DeviceDestroy =
  destroy_index :: u16

text \<open>
  The union \<^verbatim>\<open>DeviceMessage\<close>, by its views: the tag, which every view starts with, and the
  view each tag selects. The code reads no other view than the tag's.
\<close>

record DeviceMessage =
  msg_tag :: DeviceTag
  msg_info :: DeviceInfo
  msg_report :: DeviceReport
  msg_controller_state :: DeviceControllerState
  msg_request :: DeviceRequest
  msg_destroy :: DeviceDestroy

section \<open>Serialization\<close>

text \<open>
  \<open>buf = (byte*)(((((uintptr_t)buf - 1) >> k) + 1) << k)\<close>, for the buffer at address \<open>a\<close>
  and \<open>buf\<close> at offset \<open>p\<close>; the result is again an offset.
\<close>

definition align_ptr :: "nat \<Rightarrow> nat \<Rightarrow> nat \<Rightarrow> nat" where
  "align_ptr k a p = push_bit k (drop_bit k (a + p - 1) + 1) - a"

definition abs_serialize :: "nat \<Rightarrow> Abs \<Rightarrow> byte list \<Rightarrow> nat \<Rightarrow> (byte list \<times> nat) option" where
  "abs_serialize a val m buf = do {
     m \<leftarrow> store32 (abs_min val) m buf;
     m \<leftarrow> store32 (abs_max val) m (buf + 4);
     m \<leftarrow> store32 (abs_fuzz val) m (buf + 8);
     m \<leftarrow> store32 (abs_flat val) m (buf + 12);
     m \<leftarrow> store32 (abs_res val) m (buf + 16);
     m \<leftarrow> store16 (abs_id val) m (buf + 20);
     Some (m, buf + 24)
   }"

definition key_serialize :: "nat \<Rightarrow> Key \<Rightarrow> byte list \<Rightarrow> nat \<Rightarrow> (byte list \<times> nat) option" where
  "key_serialize a val m buf = do { m \<leftarrow> store16 (key_id val) m buf; Some (m, buf + 2) }"

definition rel_serialize :: "nat \<Rightarrow> Rel \<Rightarrow> byte list \<Rightarrow> nat \<Rightarrow> (byte list \<times> nat) option" where
  "rel_serialize a val m buf = do { m \<leftarrow> store16 (rel_id val) m buf; Some (m, buf + 2) }"

text \<open>The loop bodies that store a plain array element.\<close>

definition byte_store :: "nat \<Rightarrow> u8 \<Rightarrow> byte list \<Rightarrow> nat \<Rightarrow> (byte list \<times> nat) option" where
  "byte_store a e0 m buf = do { m \<leftarrow> store8 e0 m buf; Some (m, buf + 1) }"

definition word_store :: "nat \<Rightarrow> u32 \<Rightarrow> byte list \<Rightarrow> nat \<Rightarrow> (byte list \<times> nat) option" where
  "word_store a e0 m buf = do { m \<leftarrow> store32 e0 m buf; Some (m, buf + 4) }"

definition tag_serialize :: "nat \<Rightarrow> Tag \<Rightarrow> byte list \<Rightarrow> nat \<Rightarrow> (byte list \<times> nat) option" where
  "tag_serialize a val m buf = do {
     m \<leftarrow> store16 (name_len val) m buf;
     (m, buf) \<leftarrow> enc_loop byte_store a (unat (name_len val)) (name_data val) m (buf + 2);
     Some (m, align_ptr 1 a buf)
   }"

definition tag_list_serialize :: "nat \<Rightarrow> TagList \<Rightarrow> byte list \<Rightarrow> nat \<Rightarrow> (byte list \<times> nat) option" where
  "tag_list_serialize a val m buf = do {
     m \<leftarrow> store16 (tags_len val) m buf;
     (m, buf) \<leftarrow> enc_loop tag_serialize a (unat (tags_len val)) (tags_data val) m (buf + 2);
     Some (m, align_ptr 1 a buf)
   }"

text \<open>The cases of the switch of \<^verbatim>\<open>msg_device_serialize\<close>.\<close>

definition serialize_info :: "nat \<Rightarrow> DeviceInfo \<Rightarrow> byte list \<Rightarrow> nat \<Rightarrow> (byte list \<times> nat) option" where
  "serialize_info a info m buf = do {
     m \<leftarrow> store16 (device_tag_val DeviceTagInfo) m buf;
     m \<leftarrow> store16 (info_key_len info) m (buf + 2);
     m \<leftarrow> store8 (info_slot info) m (buf + 4);
     m \<leftarrow> store8 (info_index info) m (buf + 5);
     m \<leftarrow> store8 (info_abs_len info) m (buf + 6);
     m \<leftarrow> store8 (info_rel_len info) m (buf + 7);
     (m, buf) \<leftarrow> enc_loop abs_serialize a (unat (info_abs_len info)) (info_abs info) m (buf + 8);
     (m, buf) \<leftarrow> enc_loop rel_serialize a (unat (info_rel_len info)) (info_rel info) m buf;
     (m, buf) \<leftarrow> enc_loop key_serialize a (unat (info_key_len info)) (info_key info) m buf;
     Some (m, align_ptr 3 a buf)
   }"

definition serialize_report :: "nat \<Rightarrow> DeviceReport \<Rightarrow> byte list \<Rightarrow> nat \<Rightarrow> (byte list \<times> nat) option" where
  "serialize_report a report m buf = do {
     m \<leftarrow> store16 (device_tag_val DeviceTagReport) m buf;
     m \<leftarrow> store16 (report_key_len report) m (buf + 2);
     m \<leftarrow> store8 (report_slot report) m (buf + 4);
     m \<leftarrow> store8 (report_index report) m (buf + 5);
     m \<leftarrow> store8 (report_abs_len report) m (buf + 6);
     m \<leftarrow> store8 (report_rel_len report) m (buf + 7);
     (m, buf) \<leftarrow> enc_loop word_store a (unat (report_abs_len report)) (report_abs report) m (buf + 8);
     (m, buf) \<leftarrow> enc_loop word_store a (unat (report_rel_len report)) (report_rel report) m buf;
     (m, buf) \<leftarrow> enc_loop byte_store a (unat (report_key_len report)) (report_key report) m buf;
     Some (m, align_ptr 3 a buf)
   }"

definition serialize_controller_state ::
    "DeviceControllerState \<Rightarrow> byte list \<Rightarrow> nat \<Rightarrow> (byte list \<times> nat) option" where
  "serialize_controller_state cs m buf = do {
     m \<leftarrow> store16 (device_tag_val DeviceTagControllerState) m buf;
     m \<leftarrow> store16 (cs_index cs) m (buf + 2);
     m \<leftarrow> store8 (cs_led0 cs) m (buf + 4);
     m \<leftarrow> store8 (cs_led1 cs) m (buf + 5);
     m \<leftarrow> store8 (cs_led2 cs) m (buf + 6);
     m \<leftarrow> store8 (cs_small_rumble cs) m (buf + 7);
     m \<leftarrow> store8 (cs_big_rumble cs) m (buf + 8);
     m \<leftarrow> store8 (cs_flash_on cs) m (buf + 9);
     m \<leftarrow> store8 (cs_flash_off cs) m (buf + 10);
     Some (m, buf + 16)
   }"

text \<open>\<open>msg->request._version\<close> has been set by \<open>stamp_version\<close> below.\<close>

definition serialize_request ::
    "nat \<Rightarrow> DeviceRequest \<Rightarrow> byte list \<Rightarrow> nat \<Rightarrow> (byte list \<times> nat) option" where
  "serialize_request a req m buf = do {
     m \<leftarrow> store16 (device_tag_val DeviceTagRequest) m buf;
     m \<leftarrow> store64 (req_version req) m (buf + 8);
     m \<leftarrow> store16 (req_len req) m (buf + 16);
     (m, buf) \<leftarrow> enc_loop tag_list_serialize a (unat (req_len req)) (req_data req) m (buf + 18);
     Some (m, align_ptr 3 a buf)
   }"

definition serialize_destroy :: "DeviceDestroy \<Rightarrow> byte list \<Rightarrow> nat \<Rightarrow> (byte list \<times> nat) option" where
  "serialize_destroy d m buf = do {
     m \<leftarrow> store16 (device_tag_val DeviceTagDestroy) m buf;
     m \<leftarrow> store16 (destroy_index d) m (buf + 2);
     Some (m, buf + 8)
   }"

text \<open>
  \<open>msg->request._version = 1UL\<close>, the one store the serializer makes to the message.
\<close>

definition stamp_version :: "DeviceMessage \<Rightarrow> DeviceMessage" where
  "stamp_version msg = (if msg_tag msg = DeviceTagRequest
     then msg\<lparr>msg_request := (msg_request msg)\<lparr>req_version := 1\<rparr>\<rparr> else msg)"

definition serialize_body :: "nat \<Rightarrow> DeviceMessage \<Rightarrow> byte list \<Rightarrow> nat \<Rightarrow> (byte list \<times> nat) option" where
  "serialize_body a msg m buf = (case msg_tag msg of
     DeviceTagNone \<Rightarrow> Some (m, buf)
   | DeviceTagInfo \<Rightarrow> serialize_info a (msg_info msg) m buf
   | DeviceTagReport \<Rightarrow> serialize_report a (msg_report msg) m buf
   | DeviceTagControllerState \<Rightarrow> serialize_controller_state (msg_controller_state msg) m buf
   | DeviceTagRequest \<Rightarrow> serialize_request a (msg_request msg) m buf
   | DeviceTagDestroy \<Rightarrow> serialize_destroy (msg_destroy msg) m buf)"

text \<open>
  The whole function, on the buffer \<open>m\<close> at address \<open>a\<close>, of which the caller says it has
  \<open>len\<close> bytes: the return code, the buffer and the message afterwards.
\<close>

definition msg_device_serialize ::
    "nat \<Rightarrow> byte list \<Rightarrow> nat \<Rightarrow> DeviceMessage \<Rightarrow> (int \<times> byte list \<times> DeviceMessage) option" where
  "msg_device_serialize a m len msg =
    (if len < 2 * MSG_MAGIC_SIZE then Some (- 1, m, msg)
     else do {
       m \<leftarrow> store64 MSG_MAGIC_START m 0;
       let msg = stamp_version msg;
       (m, buf) \<leftarrow> serialize_body a msg m MSG_MAGIC_SIZE;
       m \<leftarrow> store64 MSG_MAGIC_END m buf;
       let buf = buf + MSG_MAGIC_SIZE;
       if len < buf then Some (- 1, m, msg) else Some (int buf, m, msg)
     })"

section \<open>Deserialization\<close>

definition abs_deserialize :: "nat \<Rightarrow> byte list \<Rightarrow> nat \<Rightarrow> nat \<Rightarrow> (Abs \<times> nat \<times> nat) option" where
  "abs_deserialize b m buf h = do {
     mi \<leftarrow> load32 m buf;
     ma \<leftarrow> load32 m (buf + 4);
     fu \<leftarrow> load32 m (buf + 8);
     fl \<leftarrow> load32 m (buf + 12);
     re \<leftarrow> load32 m (buf + 16);
     i \<leftarrow> load16 m (buf + 20);
     Some (\<lparr>abs_id = i, abs_min = mi, abs_max = ma, abs_fuzz = fu, abs_flat = fl, abs_res = re\<rparr>,
           buf + 24, h)
   }"

definition key_deserialize :: "nat \<Rightarrow> byte list \<Rightarrow> nat \<Rightarrow> nat \<Rightarrow> (Key \<times> nat \<times> nat) option" where
  "key_deserialize b m buf h = do { i \<leftarrow> load16 m buf; Some (\<lparr>key_id = i\<rparr>, buf + 2, h) }"

definition rel_deserialize :: "nat \<Rightarrow> byte list \<Rightarrow> nat \<Rightarrow> nat \<Rightarrow> (Rel \<times> nat \<times> nat) option" where
  "rel_deserialize b m buf h = do { i \<leftarrow> load16 m buf; Some (\<lparr>rel_id = i\<rparr>, buf + 2, h) }"

definition byte_load :: "nat \<Rightarrow> byte list \<Rightarrow> nat \<Rightarrow> nat \<Rightarrow> (u8 \<times> nat \<times> nat) option" where
  "byte_load b m buf h = do { e0 \<leftarrow> load8 m buf; Some (e0, buf + 1, h) }"

definition word_load :: "nat \<Rightarrow> byte list \<Rightarrow> nat \<Rightarrow> nat \<Rightarrow> (u32 \<times> nat \<times> nat) option" where
  "word_load b m buf h = do { e0 \<leftarrow> load32 m buf; Some (e0, buf + 4, h) }"

text \<open>\<open>malloc\<close> returns the object numbered by the counter and advances it.\<close>

definition tag_deserialize :: "nat \<Rightarrow> byte list \<Rightarrow> nat \<Rightarrow> nat \<Rightarrow> (Tag \<times> nat \<times> nat) option" where
  "tag_deserialize b m buf h = do {
     n \<leftarrow> load16 m buf;
     (cs, buf, h') \<leftarrow> dec_loop byte_load b (unat n) m (buf + 2) (Suc h);
     Some (\<lparr>name_len = n, name_data = cs, name_ptr = h\<rparr>, align_ptr 1 b buf, h')
   }"

definition tag_list_deserialize :: "nat \<Rightarrow> byte list \<Rightarrow> nat \<Rightarrow> nat \<Rightarrow> (TagList \<times> nat \<times> nat) option" where
  "tag_list_deserialize b m buf h = do {
     n \<leftarrow> load16 m buf;
     (ts, buf, h') \<leftarrow> dec_loop tag_deserialize b (unat n) m (buf + 2) (Suc h);
     Some (\<lparr>tags_len = n, tags_data = ts, tags_ptr = h\<rparr>, align_ptr 1 b buf, h')
   }"

text \<open>
  \<open>for (i < n) msg->x.data[i] = ...\<close> into an array of fixed size: storing past its last
  element is \<^const>\<open>None\<close>, the elements from \<open>n\<close> on keep their old contents.
\<close>

definition fill_array :: "'v list \<Rightarrow> 'v list \<Rightarrow> 'v list option" where
  "fill_array old vs = (if length vs \<le> length old then Some (vs @ drop (length vs) old) else None)"

definition deserialize_info ::
    "nat \<Rightarrow> byte list \<Rightarrow> nat \<Rightarrow> nat \<Rightarrow> DeviceInfo \<Rightarrow> (DeviceInfo \<times> nat \<times> nat) option" where
  "deserialize_info b m buf h info = do {
     kn \<leftarrow> load16 m (buf + 2);
     sl \<leftarrow> load8 m (buf + 4);
     ix \<leftarrow> load8 m (buf + 5);
     an \<leftarrow> load8 m (buf + 6);
     rn \<leftarrow> load8 m (buf + 7);
     (as, buf, h) \<leftarrow> dec_loop abs_deserialize b (unat an) m (buf + 8) h;
     as \<leftarrow> fill_array (info_abs info) as;
     (rs, buf, h) \<leftarrow> dec_loop rel_deserialize b (unat rn) m buf h;
     rs \<leftarrow> fill_array (info_rel info) rs;
     (ks, buf, h) \<leftarrow> dec_loop key_deserialize b (unat kn) m buf h;
     ks \<leftarrow> fill_array (info_key info) ks;
     Some (\<lparr>info_slot = sl, info_index = ix, info_abs_len = an, info_abs = as,
            info_rel_len = rn, info_rel = rs, info_key_len = kn, info_key = ks\<rparr>,
           align_ptr 3 b buf, h)
   }"

definition deserialize_report ::
    "nat \<Rightarrow> byte list \<Rightarrow> nat \<Rightarrow> nat \<Rightarrow> DeviceReport \<Rightarrow> (DeviceReport \<times> nat \<times> nat) option" where
  "deserialize_report b m buf h report = do {
     kn \<leftarrow> load16 m (buf + 2);
     sl \<leftarrow> load8 m (buf + 4);
     ix \<leftarrow> load8 m (buf + 5);
     an \<leftarrow> load8 m (buf + 6);
     rn \<leftarrow> load8 m (buf + 7);
     (as, buf, h) \<leftarrow> dec_loop word_load b (unat an) m (buf + 8) h;
     as \<leftarrow> fill_array (report_abs report) as;
     (rs, buf, h) \<leftarrow> dec_loop word_load b (unat rn) m buf h;
     rs \<leftarrow> fill_array (report_rel report) rs;
     (ks, buf, h) \<leftarrow> dec_loop byte_load b (unat kn) m buf h;
     ks \<leftarrow> fill_array (report_key report) ks;
     Some (\<lparr>report_slot = sl, report_index = ix, report_abs_len = an, report_abs = as,
            report_rel_len = rn, report_rel = rs, report_key_len = kn, report_key = ks\<rparr>,
           align_ptr 3 b buf, h)
   }"

definition deserialize_controller_state ::
    "byte list \<Rightarrow> nat \<Rightarrow> (DeviceControllerState \<times> nat) option" where
  "deserialize_controller_state m buf = do {
     i \<leftarrow> load16 m (buf + 2);
     l0 \<leftarrow> load8 m (buf + 4);
     l1 \<leftarrow> load8 m (buf + 5);
     l2 \<leftarrow> load8 m (buf + 6);
     sr \<leftarrow> load8 m (buf + 7);
     br \<leftarrow> load8 m (buf + 8);
     fo \<leftarrow> load8 m (buf + 9);
     ff \<leftarrow> load8 m (buf + 10);
     Some (\<lparr>cs_index = i, cs_led0 = l0, cs_led1 = l1, cs_led2 = l2, cs_small_rumble = sr,
            cs_big_rumble = br, cs_flash_on = fo, cs_flash_off = ff\<rparr>, buf + 16)
   }"

definition deserialize_request ::
    "nat \<Rightarrow> byte list \<Rightarrow> nat \<Rightarrow> nat \<Rightarrow> (DeviceRequest \<times> nat \<times> nat) option" where
  "deserialize_request b m buf h = do {
     v \<leftarrow> load64 m (buf + 8);
     n \<leftarrow> load16 m (buf + 16);
     (ts, buf, h') \<leftarrow> dec_loop tag_list_deserialize b (unat n) m (buf + 18) (Suc h);
     Some (\<lparr>req_len = n, req_data = ts, req_ptr = h, req_version = v\<rparr>, align_ptr 3 b buf, h')
   }"

definition deserialize_destroy :: "byte list \<Rightarrow> nat \<Rightarrow> (DeviceDestroy \<times> nat) option" where
  "deserialize_destroy m buf = do { i \<leftarrow> load16 m (buf + 2); Some (\<lparr>destroy_index = i\<rparr>, buf + 8) }"

text \<open>The free functions: the objects passed to \<open>free\<close>, in order.\<close>

definition tag_free :: "Tag \<Rightarrow> nat list" where
  "tag_free val = [name_ptr val]"

definition tag_list_free :: "TagList \<Rightarrow> nat list" where
  "tag_list_free val =
     concat (map tag_free (take (unat (tags_len val)) (tags_data val))) @ [tags_ptr val]"

definition msg_device_free :: "DeviceMessage \<Rightarrow> nat list" where
  "msg_device_free msg = (case msg_tag msg of
     DeviceTagNone \<Rightarrow> []
   | DeviceTagInfo \<Rightarrow> []
   | DeviceTagReport \<Rightarrow> []
   | DeviceTagControllerState \<Rightarrow> []
   | DeviceTagRequest \<Rightarrow>
       concat (map tag_list_free (take (unat (req_len (msg_request msg))) (req_data (msg_request msg))))
       @ [req_ptr (msg_request msg)]
   | DeviceTagDestroy \<Rightarrow> [])"

text \<open>
  The switch of \<^verbatim>\<open>msg_device_deserialize\<close>: the message and position after the case, and
  whether the case returned early (a request of another version). A tag no case names falls
  through and leaves the message alone.
\<close>

definition deserialize_body ::
    "nat \<Rightarrow> byte list \<Rightarrow> nat \<Rightarrow> nat \<Rightarrow> u16 \<Rightarrow> DeviceMessage
      \<Rightarrow> (DeviceMessage \<times> nat \<times> nat \<times> bool) option" where
  "deserialize_body b m buf h tag msg =
    (if tag = device_tag_val DeviceTagInfo then do {
       (info, buf, h) \<leftarrow> deserialize_info b m buf h (msg_info msg);
       Some (msg\<lparr>msg_tag := DeviceTagInfo, msg_info := info\<rparr>, buf, h, False) }
     else if tag = device_tag_val DeviceTagReport then do {
       (report, buf, h) \<leftarrow> deserialize_report b m buf h (msg_report msg);
       Some (msg\<lparr>msg_tag := DeviceTagReport, msg_report := report\<rparr>, buf, h, False) }
     else if tag = device_tag_val DeviceTagControllerState then do {
       (cs, buf) \<leftarrow> deserialize_controller_state m buf;
       Some (msg\<lparr>msg_tag := DeviceTagControllerState, msg_controller_state := cs\<rparr>, buf, h, False) }
     else if tag = device_tag_val DeviceTagRequest then do {
       (req, buf, h) \<leftarrow> deserialize_request b m buf h;
       Some (msg\<lparr>msg_tag := DeviceTagRequest, msg_request := req\<rparr>, buf, h, req_version req \<noteq> 1) }
     else if tag = device_tag_val DeviceTagDestroy then do {
       (d, buf) \<leftarrow> deserialize_destroy m buf;
       Some (msg\<lparr>msg_tag := DeviceTagDestroy, msg_destroy := d\<rparr>, buf, h, False) }
     else Some (msg, buf, h, False))"

text \<open>
  The whole function: the return code, the message afterwards, the objects freed on the way
  and the allocation counter.
\<close>

definition msg_device_deserialize ::
    "nat \<Rightarrow> byte list \<Rightarrow> nat \<Rightarrow> nat \<Rightarrow> DeviceMessage
      \<Rightarrow> (int \<times> DeviceMessage \<times> nat list \<times> nat) option" where
  "msg_device_deserialize b m len h msg =
    (if len < 2 * MSG_MAGIC_SIZE then Some (- 1, msg, [], h)
     else do {
       magic \<leftarrow> load64 m 0;
       if magic \<noteq> MSG_MAGIC_START then Some (- 1, msg, [], h)
       else do {
         tag \<leftarrow> load16 m MSG_MAGIC_SIZE;
         (msg, buf, h, mismatch) \<leftarrow> deserialize_body b m MSG_MAGIC_SIZE h tag msg;
         if mismatch then Some (- 1, msg, msg_device_free msg, h)
         else do {
           magic \<leftarrow> load64 m buf;
           if magic \<noteq> MSG_MAGIC_END then Some (- 1, msg, msg_device_free msg, h)
           else if len < buf + MSG_MAGIC_SIZE then Some (- 1, msg, msg_device_free msg, h)
           else Some (int (buf + MSG_MAGIC_SIZE), msg, [], h)
         }
       }
     })"

end
