(* ===== verification/Net_Codecs.thy ===== *)
theory Net_Codecs
  imports Net
begin

text \<open>
  The serializer of each wire type and its deserializer form a \<open>codec\<close>, and the decoders that
  allocate form an \<open>owner\<close>: the interpretations below discharge the laws on the model of
  \<^verbatim>\<open>net.c\<close>, so the array loops inherit theirs from the locales.
\<close>

section \<open>Alignment of the write position\<close>

lemma align_ptr_mod:
  assumes "0 < a"
  shows "align_ptr k a p = (a mod 2 ^ k + p + (2 ^ k - 1)) div 2 ^ k * 2 ^ k - a mod 2 ^ k"
proof -
  define n :: nat where "n = 2 ^ k"
  define r u where "r = a mod n" and "u = a div n"
  have n: "0 < n" and a: "a = u * n + r" by (simp_all only: n_def r_def u_def div_mult_mod_eq) simp
  have "a + p - 1 + n = (r + p + (n - 1)) + u * n" using assms n a by linarith
  then have "(a + p - 1) div n + 1 = (r + p + (n - 1) + u * n) div n"
    using n by (metis div_add_self2 less_irrefl)
  also have "\<dots> = (r + p + (n - 1)) div n + u"
    using n div_mult_self1 [of n "r + p + (n - 1)" u] by (simp only:)
  finally have "((a + p - 1) div n + 1) * n - a = (r + p + (n - 1)) div n * n - r"
    by (simp add: add_mult_distrib a)
  then show ?thesis
    by (simp add: align_ptr_def push_bit_eq_mult drop_bit_eq_div n_def r_def)
qed

lemma align_ptr_bounds:
  assumes "0 < a"
  shows "p \<le> align_ptr k a p" and "align_ptr k a p \<le> p + (2 ^ k - 1)"
proof -
  define n :: nat where "n = 2 ^ k"
  define s where "s = a mod n + p + (n - 1)"
  have n: "0 < n" by (simp add: n_def)
  have "s div n * n + s mod n = s" and "s mod n \<le> n - 1"
    using n by (simp_all add: less_Suc_eq_le [symmetric])
  then have "s - (n - 1) \<le> s div n * n" and "s div n * n \<le> s" by linarith+
  moreover have "align_ptr k a p = s div n * n - a mod n"
    by (simp only: align_ptr_mod [OF assms] n_def s_def)
  ultimately show "p \<le> align_ptr k a p" and "align_ptr k a p \<le> p + (2 ^ k - 1)"
    unfolding n_def [symmetric] using s_def by linarith+
qed

lemma align_ptr_cong:
  assumes "0 < a" and "0 < b" and "a mod 8 = b mod (8::nat)" and "k \<le> 3"
  shows "align_ptr k b p = align_ptr k a p"
proof -
  have "(2::nat) ^ k dvd 2 ^ 3" using assms(4) by (rule le_imp_power_dvd)
  then have "b mod 2 ^ k = a mod 2 ^ k"
    using assms(3) mod_mod_cancel [of "2 ^ k" 8 a] mod_mod_cancel [of "2 ^ k" 8 b] by simp
  then show ?thesis by (simp add: align_ptr_mod [OF assms(1)] align_ptr_mod [OF assms(2)])
qed

section \<open>Interpretations\<close>

lemmas codec_unfold = store_defs load_defs mem_simps bind_eq_Some_conv

interpretation byte_codec: codec byte_store byte_load "(=)" "\<lambda>a v p. p + 1" "\<lambda>_. True"
proof (unfold_locales, goal_cases)
  case (3 a v m p m' p' b m'' h)
  then show ?case
    by (auto simp: byte_store_def byte_load_def codec_unfold load_agree [OF 3(5)])
qed (auto simp: byte_store_def codec_unfold)

interpretation word_codec: codec word_store word_load "(=)" "\<lambda>a v p. p + 4" "\<lambda>_. True"
proof (unfold_locales, goal_cases)
  case (3 a v m p m' p' b m'' h)
  then show ?case
    by (auto simp: word_store_def word_load_def codec_unfold load_agree [OF 3(5)])
qed (auto simp: word_store_def codec_unfold)

interpretation key_codec: codec key_serialize key_deserialize "(=)" "\<lambda>a v p. p + 2" "\<lambda>_. True"
proof (unfold_locales, goal_cases)
  case (3 a v m p m' p' b m'' h)
  then show ?case
    by (auto simp: key_serialize_def key_deserialize_def codec_unfold load_agree [OF 3(5)])
qed (auto simp: key_serialize_def codec_unfold)

interpretation rel_codec: codec rel_serialize rel_deserialize "(=)" "\<lambda>a v p. p + 2" "\<lambda>_. True"
proof (unfold_locales, goal_cases)
  case (3 a v m p m' p' b m'' h)
  then show ?case
    by (auto simp: rel_serialize_def rel_deserialize_def codec_unfold load_agree [OF 3(5)])
qed (auto simp: rel_serialize_def codec_unfold)

interpretation abs_codec: codec abs_serialize abs_deserialize "(=)" "\<lambda>a v p. p + 24" "\<lambda>_. True"
proof (unfold_locales, goal_cases)
  case (3 a v m p m' p' b m'' h)
  then show ?case
    by (auto simp: abs_serialize_def abs_deserialize_def codec_unfold load_agree [OF 3(5)])
qed (auto simp: abs_serialize_def codec_unfold)

text \<open>The end of an array of elements of one size.\<close>

lemma end_loop_const [simp]: "end_loop (\<lambda>a v p. p + k) a vs p = p + length vs * k"
  by (induction vs arbitrary: p) auto

lemma end_loop_Suc [simp]: "end_loop (\<lambda>a v p. Suc p) a vs p = p + length vs"
  by (induction vs arbitrary: p) auto

lemma end_loop_Suc_Suc [simp]: "end_loop (\<lambda>a v p. Suc (Suc p)) a vs p = p + 2 * length vs"
  by (induction vs arbitrary: p) auto

lemma list_all_True [simp]: "list_all (\<lambda>_. True) xs"
  by (induction xs) auto

text \<open>
  A decoded string or list agrees with the encoded one in its length and in the elements below
  it; the objects it lives in are new.
\<close>

definition same_tag :: "Tag \<Rightarrow> Tag \<Rightarrow> bool" where
  "same_tag v v' \<longleftrightarrow> name_len v' = name_len v \<and> name_data v' = take (unat (name_len v)) (name_data v)"

definition same_tag_list :: "TagList \<Rightarrow> TagList \<Rightarrow> bool" where
  "same_tag_list v v' \<longleftrightarrow> tags_len v' = tags_len v
     \<and> list_all2 same_tag (take (unat (tags_len v)) (tags_data v)) (tags_data v')"

definition wf_tag :: "Tag \<Rightarrow> bool" where
  "wf_tag v \<longleftrightarrow> unat (name_len v) \<le> length (name_data v)"

definition wf_tag_list :: "TagList \<Rightarrow> bool" where
  "wf_tag_list v \<longleftrightarrow> unat (tags_len v) \<le> length (tags_data v)
     \<and> list_all wf_tag (take (unat (tags_len v)) (tags_data v))"

definition tag_end :: "nat \<Rightarrow> Tag \<Rightarrow> nat \<Rightarrow> nat" where
  "tag_end a v p = align_ptr 1 a (p + 2 + unat (name_len v))"

definition tag_list_end :: "nat \<Rightarrow> TagList \<Rightarrow> nat \<Rightarrow> nat" where
  "tag_list_end a v p =
     align_ptr 1 a (end_loop tag_end a (take (unat (tags_len v)) (tags_data v)) (p + 2))"

lemma list_all2_eq_conv: "list_all2 (=) xs ys \<longleftrightarrow> xs = ys"
  by (simp add: list_all2_eq)

lemma enc_frame_step:
  assumes "take q m'' = take q m'" and "take p m' = take p (m :: 'a list)" and "p \<le> q"
  shows "take p m'' = take p m"
  using agree_mono [OF assms(1,3)] assms(2) by simp

text \<open>One decoding step of a length-prefixed array, for both of the formats below.\<close>

lemma length_prefix:
  assumes "store16 n m p = Some m1" and "take (p + 2) m2 = take (p + 2) m1"
  shows "load16 m2 p = Some n" and "length m1 = length m" and "take p m1 = take p m"
    and "p + 2 \<le> length m"
  using assms by (auto simp: codec_unfold load_agree [OF assms(2)])

lemma tag_serialize_SomeE:
  assumes "tag_serialize a v m p = Some (m', p')" and "0 < a"
  obtains m1 where "store16 (name_len v) m p = Some m1"
    and "enc_loop byte_store a (unat (name_len v)) (name_data v) m1 (p + 2)
       = Some (m', p + 2 + unat (name_len v))"
    and "p' = tag_end a v p" and "length m' = length m" and "take (p + 2) m' = take (p + 2) m1"
    and "unat (name_len v) \<le> length (name_data v)"
proof -
  from assms(1) obtain m1 q where 1: "store16 (name_len v) m p = Some m1"
    and 2: "enc_loop byte_store a (unat (name_len v)) (name_data v) m1 (p + 2) = Some (m', q)"
    and 3: "p' = align_ptr 1 a q"
    by (auto simp: tag_serialize_def bind_eq_Some_conv)
  show thesis
    using that [OF 1] 1 2 3 byte_codec.enc_loop_frame [OF assms(2) 2]
    by (auto simp: tag_end_def codec_unfold min_def)
qed

interpretation tag_codec: codec tag_serialize tag_deserialize same_tag tag_end wf_tag
proof (unfold_locales, goal_cases)
  case (1 a v m p m' p')
  then obtain m1 where "store16 (name_len v) m p = Some m1" "p' = tag_end a v p"
    "length m' = length m" "take (p + 2) m' = take (p + 2) m1"
    using tag_serialize_SomeE by metis
  then show ?case
    using length_prefix(3) enc_frame_step [of "p + 2" m' m1 p m] by auto
next
  case (2 a p v)
  have "p \<le> p + 2 + unat (name_len v)" by simp
  also have "\<dots> \<le> tag_end a v p"
    unfolding tag_end_def by (rule align_ptr_bounds(1) [OF 2])
  finally show ?case .
next
  case (3 a v m p m' p' b m'' h)
  obtain m1 where e: "store16 (name_len v) m p = Some m1"
    "enc_loop byte_store a (unat (name_len v)) (name_data v) m1 (p + 2)
       = Some (m', p + 2 + unat (name_len v))"
    "p' = tag_end a v p" "take (p + 2) m' = take (p + 2) m1"
    using tag_serialize_SomeE [OF 3(1,2)] by metis
  have le: "p + 2 + unat (name_len v) \<le> p'"
    unfolding e(3) tag_end_def by (rule align_ptr_bounds(1) [OF 3(2)])
  have "load16 m'' p = Some (name_len v)"
    by (rule length_prefix(1) [OF e(1) enc_frame_step [OF 3(5) e(4)]]) (use le in simp)
  moreover obtain h' where "dec_loop byte_load b (unat (name_len v)) m'' (p + 2) (Suc h)
      = Some (take (unat (name_len v)) (name_data v), p + 2 + unat (name_len v), h')"
    using byte_codec.enc_dec_loop [OF 3(2,3,4) e(2) agree_mono [OF 3(5) le], of "Suc h"]
    by (auto simp: list_all2_eq_conv)
  ultimately show ?case
    using align_ptr_cong [OF 3(2,3,4), of 1]
    by (auto simp: tag_deserialize_def same_tag_def e(3) tag_end_def)
next
  case (4 v a p m)
  define n where "n = unat (name_len v)"
  have le: "p + 2 + n \<le> length m"
    using 4(3) align_ptr_bounds(1) [OF 4(2), of "p + 2 + n" 1] by (simp add: tag_end_def n_def)
  then obtain m1 where 1: "store16 (name_len v) m p = Some m1" and "length m1 = length m"
    by (auto simp: codec_unfold)
  moreover have "n \<le> length (name_data v)" using 4(1) by (simp add: wf_tag_def n_def)
  ultimately show ?case
    using byte_codec.enc_loop_total [OF 4(2), of n "name_data v" "p + 2" m1] le
    by (auto simp: tag_serialize_def tag_end_def n_def)
qed

lemma tag_list_serialize_SomeE:
  assumes "tag_list_serialize a v m p = Some (m', p')" and "0 < a"
  obtains m1 q where "store16 (tags_len v) m p = Some m1"
    and "enc_loop tag_serialize a (unat (tags_len v)) (tags_data v) m1 (p + 2) = Some (m', q)"
    and "q = end_loop tag_end a (take (unat (tags_len v)) (tags_data v)) (p + 2)"
    and "p + 2 \<le> q" and "p' = tag_list_end a v p" and "p' = align_ptr 1 a q"
    and "length m' = length m" and "take (p + 2) m' = take (p + 2) m1"
proof -
  from assms(1) obtain m1 q where 1: "store16 (tags_len v) m p = Some m1"
    and 2: "enc_loop tag_serialize a (unat (tags_len v)) (tags_data v) m1 (p + 2) = Some (m', q)"
    and 3: "p' = align_ptr 1 a q"
    by (auto simp: tag_list_serialize_def bind_eq_Some_conv)
  show thesis
    using that [OF 1 2] 1 3 tag_codec.enc_loop_frame [OF assms(2) 2]
      tag_codec.end_loop_mono [OF assms(2)]
    by (auto simp: tag_list_end_def codec_unfold)
qed

interpretation tag_list_codec:
  codec tag_list_serialize tag_list_deserialize same_tag_list tag_list_end wf_tag_list
proof (unfold_locales, goal_cases)
  case (1 a v m p m' p')
  then obtain m1 where "store16 (tags_len v) m p = Some m1" "p' = tag_list_end a v p"
    "length m' = length m" "take (p + 2) m' = take (p + 2) m1"
    using tag_list_serialize_SomeE by metis
  then show ?case
    using length_prefix(3) enc_frame_step [of "p + 2" m' m1 p m] by auto
next
  case (2 a p v)
  let ?q = "end_loop tag_end a (take (unat (tags_len v)) (tags_data v)) (p + 2)"
  have "p + 2 \<le> ?q" by (rule tag_codec.end_loop_mono [OF 2])
  also have "\<dots> \<le> tag_list_end a v p"
    unfolding tag_list_end_def by (rule align_ptr_bounds(1) [OF 2])
  finally show ?case by simp
next
  case (3 a v m p m' p' b m'' h)
  obtain m1 q where e: "store16 (tags_len v) m p = Some m1"
    "enc_loop tag_serialize a (unat (tags_len v)) (tags_data v) m1 (p + 2) = Some (m', q)"
    "p + 2 \<le> q" "p' = align_ptr 1 a q" "take (p + 2) m' = take (p + 2) m1"
    using tag_list_serialize_SomeE [OF 3(1,2)] by metis
  have le: "q \<le> p'" unfolding e(4) by (rule align_ptr_bounds(1) [OF 3(2)])
  have "load16 m'' p = Some (tags_len v)"
    by (rule length_prefix(1) [OF e(1) enc_frame_step [OF 3(5) e(5)]]) (use le e(3) in simp)
  moreover obtain ts h' where "dec_loop tag_deserialize b (unat (tags_len v)) m'' (p + 2) (Suc h)
      = Some (ts, q, h')" and "list_all2 same_tag (take (unat (tags_len v)) (tags_data v)) ts"
    using tag_codec.enc_dec_loop [OF 3(2,3,4) e(2) agree_mono [OF 3(5) le], of "Suc h"] by auto
  ultimately show ?case
    using align_ptr_cong [OF 3(2,3,4), of 1]
    by (auto simp: tag_list_deserialize_def same_tag_list_def e(4))
next
  case (4 v a p m)
  define n ts q where "n = unat (tags_len v)" and "ts = take n (tags_data v)"
    and "q = end_loop tag_end a ts (p + 2)"
  have le: "q \<le> length m" and "p + 2 \<le> q"
    using 4(3) align_ptr_bounds(1) [OF 4(2), of q 1] tag_codec.end_loop_mono [OF 4(2)]
    by (simp_all add: tag_list_end_def n_def ts_def q_def)
  then obtain m1 where 1: "store16 (tags_len v) m p = Some m1" and "length m1 = length m"
    by (auto simp: codec_unfold)
  then obtain m2 where "enc_loop tag_serialize a n (tags_data v) m1 (p + 2) = Some (m2, q)"
    using tag_codec.enc_loop_total [OF 4(2), of n "tags_data v" "p + 2" m1] le 4(1)
    by (auto simp: wf_tag_list_def n_def ts_def q_def)
  with 1 show ?case
    by (auto simp: tag_list_serialize_def tag_list_end_def n_def ts_def q_def)
qed

section \<open>Allocation\<close>

lemma concat_Nils [simp]: "concat (map (\<lambda>_. []) xs) = []"
  by (induction xs) auto

interpretation byte_owner: owner byte_load "\<lambda>_. []"
  by unfold_locales (auto simp: byte_load_def bind_eq_Some_conv)

interpretation tag_owner: owner tag_deserialize tag_free
proof (unfold_locales, goal_cases)
  case (1 b m p h v p' h')
  then obtain n cs q where "dec_loop byte_load b n m (p + 2) (Suc h) = Some (cs, q, h')"
    and "name_ptr v = h"
    by (auto simp: tag_deserialize_def bind_eq_Some_conv)
  with byte_owner.dec_loop_owned [OF this(1)] show ?case
    by (auto simp: tag_free_def upt_conv_Cons)
qed

interpretation tag_list_owner: owner tag_list_deserialize tag_list_free
proof (unfold_locales, goal_cases)
  case (1 b m p h v p' h')
  then obtain q where "dec_loop tag_deserialize b (unat (tags_len v)) m (p + 2) (Suc h)
      = Some (tags_data v, q, h')" and "tags_ptr v = h"
    by (auto simp: tag_list_deserialize_def bind_eq_Some_conv)
  with tag_owner.dec_loop_owned [OF this(1)] show ?case
    by (auto simp: tag_list_free_def upt_conv_Cons)
qed

end
