(* ===== verification/Net_Correct.thy ===== *)
theory Net_Correct
  imports Net_Codecs
begin

text \<open>
  What the message functions of \<^verbatim>\<open>net.c\<close> guarantee: the deserializer inverts the serializer on
  buffers of equal alignment, the sizes the serializer reports, the buffer overflows neither
  function detects, and who frees what.
\<close>

interpretation info_arrays: codec3
  abs_serialize abs_deserialize "(=)" "\<lambda>a v p. p + 24" "\<lambda>_. True"
  rel_serialize rel_deserialize "(=)" "\<lambda>a v p. p + 2" "\<lambda>_. True"
  key_serialize key_deserialize "(=)" "\<lambda>a v p. p + 2" "\<lambda>_. True" ..

interpretation report_arrays: codec3
  word_store word_load "(=)" "\<lambda>a v p. p + 4" "\<lambda>_. True"
  word_store word_load "(=)" "\<lambda>a v p. p + 4" "\<lambda>_. True"
  byte_store byte_load "(=)" "\<lambda>a v p. p + 1" "\<lambda>_. True" ..

text \<open>The array sizes the struct declarations fix.\<close>

definition info_arrays_ok :: "DeviceInfo \<Rightarrow> bool" where
  "info_arrays_ok i \<longleftrightarrow>
     length (info_abs i) = 64 \<and> length (info_rel i) = 16 \<and> length (info_key i) = 768"

definition report_arrays_ok :: "DeviceReport \<Rightarrow> bool" where
  "report_arrays_ok r \<longleftrightarrow>
     length (report_abs r) = 64 \<and> length (report_rel r) = 16 \<and> length (report_key r) = 768"

definition arrays_ok :: "DeviceMessage \<Rightarrow> bool" where
  "arrays_ok msg \<longleftrightarrow> info_arrays_ok (msg_info msg) \<and> report_arrays_ok (msg_report msg)"

text \<open>Two messages say the same: equal tags, and equal fields and used elements in the tag's view.\<close>

definition same_info :: "DeviceInfo \<Rightarrow> DeviceInfo \<Rightarrow> bool" where
  "same_info i j \<longleftrightarrow> info_slot j = info_slot i \<and> info_index j = info_index i
     \<and> info_abs_len j = info_abs_len i \<and> info_rel_len j = info_rel_len i
     \<and> info_key_len j = info_key_len i
     \<and> take (unat (info_abs_len i)) (info_abs j) = take (unat (info_abs_len i)) (info_abs i)
     \<and> take (unat (info_rel_len i)) (info_rel j) = take (unat (info_rel_len i)) (info_rel i)
     \<and> take (unat (info_key_len i)) (info_key j) = take (unat (info_key_len i)) (info_key i)"

definition same_report :: "DeviceReport \<Rightarrow> DeviceReport \<Rightarrow> bool" where
  "same_report i j \<longleftrightarrow> report_slot j = report_slot i \<and> report_index j = report_index i
     \<and> report_abs_len j = report_abs_len i \<and> report_rel_len j = report_rel_len i
     \<and> report_key_len j = report_key_len i
     \<and> take (unat (report_abs_len i)) (report_abs j) = take (unat (report_abs_len i)) (report_abs i)
     \<and> take (unat (report_rel_len i)) (report_rel j) = take (unat (report_rel_len i)) (report_rel i)
     \<and> take (unat (report_key_len i)) (report_key j) = take (unat (report_key_len i)) (report_key i)"

definition same_request :: "DeviceRequest \<Rightarrow> DeviceRequest \<Rightarrow> bool" where
  "same_request i j \<longleftrightarrow> req_len j = req_len i \<and> req_version j = req_version i
     \<and> list_all2 same_tag_list (take (unat (req_len i)) (req_data i)) (req_data j)"

definition same_message :: "DeviceMessage \<Rightarrow> DeviceMessage \<Rightarrow> bool" where
  "same_message m n \<longleftrightarrow> msg_tag n = msg_tag m \<and> (case msg_tag m of
     DeviceTagNone \<Rightarrow> True
   | DeviceTagInfo \<Rightarrow> same_info (msg_info m) (msg_info n)
   | DeviceTagReport \<Rightarrow> same_report (msg_report m) (msg_report n)
   | DeviceTagControllerState \<Rightarrow> msg_controller_state n = msg_controller_state m
   | DeviceTagRequest \<Rightarrow> same_request (msg_request m) (msg_request n)
   | DeviceTagDestroy \<Rightarrow> msg_destroy n = msg_destroy m)"

section \<open>One case of the switch at a time\<close>

lemma fill_array_ok:
  "length vs \<le> length old \<Longrightarrow> fill_array old vs = Some (vs @ drop (length vs) old)"
  by (simp add: fill_array_def)

text \<open>The eight bytes both array messages start with, and reading them back.\<close>

definition header_mem :: "u16 \<Rightarrow> u16 \<Rightarrow> u8 \<Rightarrow> u8 \<Rightarrow> u8 \<Rightarrow> u8 \<Rightarrow> byte list \<Rightarrow> nat \<Rightarrow> byte list" where
  "header_mem t kn sl ix an rn m p =
     put (le_bytes 1 rn) (put (le_bytes 1 an) (put (le_bytes 1 ix) (put (le_bytes 1 sl)
       (put (le_bytes 2 kn) (put (le_bytes 2 t) m p) (p + 2)) (p + 4)) (p + 5)) (p + 6)) (p + 7)"

lemma header_stores:
  "do {
     m \<leftarrow> store16 t m p; m \<leftarrow> store16 kn m (p + 2); m \<leftarrow> store8 sl m (p + 4);
     m \<leftarrow> store8 ix m (p + 5); m \<leftarrow> store8 an m (p + 6); m \<leftarrow> store8 rn m (p + 7); f m
   } = (if p + 8 \<le> length m then f (header_mem t kn sl ix an rn m p) else None)"
  by (auto simp: header_mem_def store_defs store_def length_put)

lemma header_mem_frame:
  assumes "p + 8 \<le> length m"
  shows "length (header_mem t kn sl ix an rn m p) = length m"
    and "take p (header_mem t kn sl ix an rn m p) = take p m"
  using assms by (simp_all add: header_mem_def mem_simps)

lemma header_loads:
  assumes "take (p + 8) m'' = take (p + 8) (header_mem t kn sl ix an rn m p)"
    and "p + 8 \<le> length m"
  shows "load16 m'' p = Some t" and "load16 m'' (p + 2) = Some kn" and "load8 m'' (p + 4) = Some sl"
    and "load8 m'' (p + 5) = Some ix" and "load8 m'' (p + 6) = Some an" and "load8 m'' (p + 7) = Some rn"
  using assms(2) by (simp_all add: load_defs load_agree [OF assms(1)]) (simp_all add: header_mem_def mem_simps)

lemma list_all2_eq_append:
  "list_all2 (=) (take n xs) ys \<Longrightarrow> n \<le> length xs \<Longrightarrow> take n (ys @ zs) = take n xs \<and> length ys = n"
  by (auto simp: list_all2_eq_conv)

lemma serialize_info_SomeE:
  assumes "serialize_info a i m p = Some (m', p')"
  obtains m1 p1 m2 p2 p3 where "p + 8 \<le> length m"
    and "enc_loop abs_serialize a (unat (info_abs_len i)) (info_abs i)
        (header_mem 1 (info_key_len i) (info_slot i) (info_index i) (info_abs_len i) (info_rel_len i) m p)
        (p + 8) = Some (m1, p1)"
    and "enc_loop rel_serialize a (unat (info_rel_len i)) (info_rel i) m1 p1 = Some (m2, p2)"
    and "enc_loop key_serialize a (unat (info_key_len i)) (info_key i) m2 p2 = Some (m', p3)"
    and "p' = align_ptr 3 a p3"
  using assms unfolding serialize_info_def header_stores device_tag_val.simps
  by (auto simp: bind_eq_Some_conv split: if_splits)

lemma serialize_info_frame:
  assumes "serialize_info a i m p = Some (m', p')" and "0 < a"
  shows "length m' = length m" and "take p m' = take p m" and "p + 8 \<le> p'"
    and "p' = align_ptr 3 a (p + 8 + 24 * unat (info_abs_len i) + 2 * unat (info_rel_len i)
       + 2 * unat (info_key_len i))"
proof -
  obtain m1 p1 m2 p2 p3 where le: "p + 8 \<le> length m"
    and e: "enc_loop abs_serialize a (unat (info_abs_len i)) (info_abs i)
        (header_mem 1 (info_key_len i) (info_slot i) (info_index i) (info_abs_len i) (info_rel_len i) m p)
        (p + 8) = Some (m1, p1)"
      "enc_loop rel_serialize a (unat (info_rel_len i)) (info_rel i) m1 p1 = Some (m2, p2)"
      "enc_loop key_serialize a (unat (info_key_len i)) (info_key i) m2 p2 = Some (m', p3)"
    and p': "p' = align_ptr 3 a p3"
    by (rule serialize_info_SomeE [OF assms(1)])
  note fr = info_arrays.enc3_frame [OF assms(2) e]
  show "length m' = length m"
    using fr(3) header_mem_frame(1) [OF le] by simp
  show "take p m' = take p m"
    using enc_frame_step [OF fr(4) _ , of p m] header_mem_frame(2) [OF le]
      agree_mono [OF fr(4), of p] by simp
  show "p + 8 \<le> p'"
    using fr(2) align_ptr_bounds(1) [OF assms(2), of p3 3] p' by simp
  show "p' = align_ptr 3 a (p + 8 + 24 * unat (info_abs_len i) + 2 * unat (info_rel_len i)
       + 2 * unat (info_key_len i))"
    unfolding p' fr(1) using fr(9-11) by (simp add: min_def mult.commute)
qed

lemma serialize_info_inverse:
  assumes "serialize_info a i m p = Some (m', p')" and "0 < a" and "0 < b" and "a mod 8 = b mod 8"
    and "take p' m'' = take p' m'" and "info_arrays_ok i" and "info_arrays_ok old"
  shows "load16 m'' p = Some 1"
    and "\<exists>i' h'. deserialize_info b m'' p h old = Some (i', p', h') \<and> same_info i i'"
proof -
  obtain m1 p1 m2 p2 p3 where le: "p + 8 \<le> length m"
    and e: "enc_loop abs_serialize a (unat (info_abs_len i)) (info_abs i)
        (header_mem 1 (info_key_len i) (info_slot i) (info_index i) (info_abs_len i) (info_rel_len i) m p)
        (p + 8) = Some (m1, p1)"
      "enc_loop rel_serialize a (unat (info_rel_len i)) (info_rel i) m1 p1 = Some (m2, p2)"
      "enc_loop key_serialize a (unat (info_key_len i)) (info_key i) m2 p2 = Some (m', p3)"
    and p': "p' = align_ptr 3 a p3"
    by (rule serialize_info_SomeE [OF assms(1)])
  note fr = info_arrays.enc3_frame [OF assms(2) e]
  have agree: "take p3 m'' = take p3 m'"
    by (rule agree_mono [OF assms(5)]) (simp add: p' align_ptr_bounds [OF assms(2)])
  note hd = header_loads [OF enc_frame_step [OF agree fr(4) fr(2)] le]
  show "load16 m'' p = Some 1" by (rule hd(1))
  obtain xs ys zs h1 h2 h3 where
      "dec_loop abs_deserialize b (unat (info_abs_len i)) m'' (p + 8) h = Some (xs, p1, h1)"
      "dec_loop rel_deserialize b (unat (info_rel_len i)) m'' p1 h1 = Some (ys, p2, h2)"
      "dec_loop key_deserialize b (unat (info_key_len i)) m'' p2 h2 = Some (zs, p3, h3)"
    and eqs: "list_all2 (=) (take (unat (info_abs_len i)) (info_abs i)) xs"
      "list_all2 (=) (take (unat (info_rel_len i)) (info_rel i)) ys"
      "list_all2 (=) (take (unat (info_key_len i)) (info_key i)) zs"
    by (rule info_arrays.enc3_dec3 [OF assms(2,3,4) e agree])
  then show "\<exists>i' h'. deserialize_info b m'' p h old = Some (i', p', h') \<and> same_info i i'"
    using hd fr(9-11) assms(6,7) p' align_ptr_cong [OF assms(2,3,4), of 3]
    by (auto simp: deserialize_info_def fill_array_def same_info_def info_arrays_ok_def list_all2_eq_conv)
qed

lemma serialize_report_SomeE:
  assumes "serialize_report a i m p = Some (m', p')"
  obtains m1 p1 m2 p2 p3 where "p + 8 \<le> length m"
    and "enc_loop word_store a (unat (report_abs_len i)) (report_abs i)
        (header_mem 2 (report_key_len i) (report_slot i) (report_index i) (report_abs_len i) (report_rel_len i) m p)
        (p + 8) = Some (m1, p1)"
    and "enc_loop word_store a (unat (report_rel_len i)) (report_rel i) m1 p1 = Some (m2, p2)"
    and "enc_loop byte_store a (unat (report_key_len i)) (report_key i) m2 p2 = Some (m', p3)"
    and "p' = align_ptr 3 a p3"
  using assms unfolding serialize_report_def header_stores device_tag_val.simps
  by (auto simp: bind_eq_Some_conv split: if_splits)

lemma serialize_report_frame:
  assumes "serialize_report a i m p = Some (m', p')" and "0 < a"
  shows "length m' = length m" and "take p m' = take p m" and "p + 8 \<le> p'"
    and "p' = align_ptr 3 a (p + 8 + 4 * unat (report_abs_len i) + 4 * unat (report_rel_len i)
       + unat (report_key_len i))"
proof -
  obtain m1 p1 m2 p2 p3 where le: "p + 8 \<le> length m"
    and e: "enc_loop word_store a (unat (report_abs_len i)) (report_abs i)
        (header_mem 2 (report_key_len i) (report_slot i) (report_index i) (report_abs_len i) (report_rel_len i) m p)
        (p + 8) = Some (m1, p1)"
      "enc_loop word_store a (unat (report_rel_len i)) (report_rel i) m1 p1 = Some (m2, p2)"
      "enc_loop byte_store a (unat (report_key_len i)) (report_key i) m2 p2 = Some (m', p3)"
    and p': "p' = align_ptr 3 a p3"
    by (rule serialize_report_SomeE [OF assms(1)])
  note fr = report_arrays.enc3_frame [OF assms(2) e]
  show "length m' = length m"
    using fr(3) header_mem_frame(1) [OF le] by simp
  show "take p m' = take p m"
    using enc_frame_step [OF fr(4) _ , of p m] header_mem_frame(2) [OF le]
      agree_mono [OF fr(4), of p] by simp
  show "p + 8 \<le> p'"
    using fr(2) align_ptr_bounds(1) [OF assms(2), of p3 3] p' by simp
  show "p' = align_ptr 3 a (p + 8 + 4 * unat (report_abs_len i) + 4 * unat (report_rel_len i)
       + unat (report_key_len i))"
    unfolding p' fr(1) using fr(9-11) by (simp add: min_def mult.commute)
qed

lemma serialize_report_inverse:
  assumes "serialize_report a i m p = Some (m', p')" and "0 < a" and "0 < b" and "a mod 8 = b mod 8"
    and "take p' m'' = take p' m'" and "report_arrays_ok i" and "report_arrays_ok old"
  shows "load16 m'' p = Some 2"
    and "\<exists>i' h'. deserialize_report b m'' p h old = Some (i', p', h') \<and> same_report i i'"
proof -
  obtain m1 p1 m2 p2 p3 where le: "p + 8 \<le> length m"
    and e: "enc_loop word_store a (unat (report_abs_len i)) (report_abs i)
        (header_mem 2 (report_key_len i) (report_slot i) (report_index i) (report_abs_len i) (report_rel_len i) m p)
        (p + 8) = Some (m1, p1)"
      "enc_loop word_store a (unat (report_rel_len i)) (report_rel i) m1 p1 = Some (m2, p2)"
      "enc_loop byte_store a (unat (report_key_len i)) (report_key i) m2 p2 = Some (m', p3)"
    and p': "p' = align_ptr 3 a p3"
    by (rule serialize_report_SomeE [OF assms(1)])
  note fr = report_arrays.enc3_frame [OF assms(2) e]
  have agree: "take p3 m'' = take p3 m'"
    by (rule agree_mono [OF assms(5)]) (simp add: p' align_ptr_bounds [OF assms(2)])
  note hd = header_loads [OF enc_frame_step [OF agree fr(4) fr(2)] le]
  show "load16 m'' p = Some 2" by (rule hd(1))
  obtain xs ys zs h1 h2 h3 where
      "dec_loop word_load b (unat (report_abs_len i)) m'' (p + 8) h = Some (xs, p1, h1)"
      "dec_loop word_load b (unat (report_rel_len i)) m'' p1 h1 = Some (ys, p2, h2)"
      "dec_loop byte_load b (unat (report_key_len i)) m'' p2 h2 = Some (zs, p3, h3)"
    and eqs: "list_all2 (=) (take (unat (report_abs_len i)) (report_abs i)) xs"
      "list_all2 (=) (take (unat (report_rel_len i)) (report_rel i)) ys"
      "list_all2 (=) (take (unat (report_key_len i)) (report_key i)) zs"
    by (rule report_arrays.enc3_dec3 [OF assms(2,3,4) e agree])
  then show "\<exists>i' h'. deserialize_report b m'' p h old = Some (i', p', h') \<and> same_report i i'"
    using hd fr(9-11) assms(6,7) p' align_ptr_cong [OF assms(2,3,4), of 3]
    by (auto simp: deserialize_report_def fill_array_def same_report_def report_arrays_ok_def list_all2_eq_conv)
qed


lemma serialize_controller_state_frame:
  assumes "serialize_controller_state cs m p = Some (m', p')"
  shows "length m' = length m" and "take p m' = take p m" and "p' = p + 16" and "p + 11 \<le> length m"
  using assms by (auto simp: serialize_controller_state_def codec_unfold)

lemma serialize_controller_state_inverse:
  assumes "serialize_controller_state cs m p = Some (m', p')" and "take p' m'' = take p' m'"
  shows "load16 m'' p = Some 3" and "deserialize_controller_state m'' p = Some (cs, p')"
proof -
  let ?w = "put (le_bytes 1 (cs_flash_off cs)) (put (le_bytes 1 (cs_flash_on cs))
    (put (le_bytes 1 (cs_big_rumble cs)) (put (le_bytes 1 (cs_small_rumble cs))
    (put (le_bytes 1 (cs_led2 cs)) (put (le_bytes 1 (cs_led1 cs)) (put (le_bytes 1 (cs_led0 cs))
    (put (le_bytes 2 (cs_index cs)) (put (le_bytes 2 (3 :: u16)) m p) (p + 2)) (p + 4)) (p + 5))
    (p + 6)) (p + 7)) (p + 8)) (p + 9)) (p + 10)"
  have le: "p + 11 \<le> length m" and p': "p' = p + 16" and m': "m' = ?w"
    using assms(1) serialize_controller_state_frame [OF assms(1)]
    by (simp_all add: serialize_controller_state_def store_defs bind_eq_Some_conv store_Some_iff)
  note ld = load_defs load_agree [OF assms(2)] p' m' load_put_same load_put_before length_put
  show "load16 m'' p = Some 3" using le by (simp add: ld)
  show "deserialize_controller_state m'' p = Some (cs, p')"
    using le by (simp add: deserialize_controller_state_def ld)
qed

lemma serialize_destroy_frame:
  assumes "serialize_destroy d m p = Some (m', p')"
  shows "length m' = length m" and "take p m' = take p m" and "p' = p + 8" and "p + 4 \<le> length m"
  using assms by (auto simp: serialize_destroy_def codec_unfold)

lemma serialize_destroy_inverse:
  assumes "serialize_destroy d m p = Some (m', p')" and "take p' m'' = take p' m'"
  shows "load16 m'' p = Some 5" and "deserialize_destroy m'' p = Some (d, p')"
  using assms(1)
  by (auto simp: serialize_destroy_def deserialize_destroy_def codec_unfold load_agree [OF assms(2)])

lemma serialize_request_SomeE:
  assumes "serialize_request a r m p = Some (m', p')"
  obtains mh q where "p + 18 \<le> length m" and "length mh = length m" and "take p mh = take p m"
    and "\<forall>m''. take (p + 18) m'' = take (p + 18) mh \<longrightarrow> load16 m'' p = Some 4
      \<and> load64 m'' (p + 8) = Some (req_version r) \<and> load16 m'' (p + 16) = Some (req_len r)"
    and "enc_loop tag_list_serialize a (unat (req_len r)) (req_data r) mh (p + 18) = Some (m', q)"
    and "p' = align_ptr 3 a q"
proof -
  define mh where "mh = put (le_bytes 2 (req_len r)) (put (le_bytes 8 (req_version r))
    (put (le_bytes 2 (4::u16)) m p) (p + 8)) (p + 16)"
  from assms obtain q where 1: "p + 18 \<le> length m"
    and 2: "enc_loop tag_list_serialize a (unat (req_len r)) (req_data r) mh (p + 18) = Some (m', q)"
    and 3: "p' = align_ptr 3 a q"
    by (auto simp: serialize_request_def codec_unfold mh_def)
  have "load16 m'' p = Some 4 \<and> load64 m'' (p + 8) = Some (req_version r)
      \<and> load16 m'' (p + 16) = Some (req_len r)"
    if ag: "take (p + 18) m'' = take (p + 18) mh" for m''
    using 1 by (simp add: load_defs load_agree [OF ag]) (simp add: mh_def mem_simps)
  moreover have "length mh = length m" and "take p mh = take p m"
    using 1 by (simp_all add: mh_def mem_simps)
  ultimately show thesis using that 1 2 3 by blast
qed

lemma serialize_request_frame:
  assumes "serialize_request a r m p = Some (m', p')" and "0 < a"
  shows "length m' = length m" and "take p m' = take p m" and "p + 18 \<le> p'"
    and "p' = align_ptr 3 a (end_loop tag_list_end a (take (unat (req_len r)) (req_data r)) (p + 18))"
proof -
  obtain mh q where e: "length mh = length m" "take p mh = take p m"
    "enc_loop tag_list_serialize a (unat (req_len r)) (req_data r) mh (p + 18) = Some (m', q)"
    "p' = align_ptr 3 a q"
    by (rule serialize_request_SomeE [OF assms(1)])
  note fr = tag_list_codec.enc_loop_frame [OF assms(2) e(3)]
  have "p + 18 \<le> q"
    using fr tag_list_codec.end_loop_mono [OF assms(2)] by simp
  then show "p + 18 \<le> p'"
    using align_ptr_bounds(1) [OF assms(2), of q 3] e(4) by simp
  show "length m' = length m" and "take p m' = take p m"
    using fr e agree_mono [of "p + 18" m' mh p] by auto
  show "p' = align_ptr 3 a (end_loop tag_list_end a (take (unat (req_len r)) (req_data r)) (p + 18))"
    using fr e(4) by simp
qed

lemma serialize_request_inverse:
  assumes "serialize_request a r m p = Some (m', p')" and "0 < a" and "0 < b" and "a mod 8 = b mod 8"
    and "take p' m'' = take p' m'"
  shows "load16 m'' p = Some 4"
    and "\<exists>r' h'. deserialize_request b m'' p h = Some (r', p', h') \<and> same_request r r'"
proof -
  obtain mh q where "p + 18 \<le> length m" "length mh = length m" "take p mh = take p m"
    and ld: "\<forall>m''. take (p + 18) m'' = take (p + 18) mh \<longrightarrow> load16 m'' p = Some 4
      \<and> load64 m'' (p + 8) = Some (req_version r) \<and> load16 m'' (p + 16) = Some (req_len r)"
    and e: "enc_loop tag_list_serialize a (unat (req_len r)) (req_data r) mh (p + 18) = Some (m', q)"
      "p' = align_ptr 3 a q"
    by (rule serialize_request_SomeE [OF assms(1)])
  note fr = tag_list_codec.enc_loop_frame [OF assms(2) e(1)]
  have agree: "take q m'' = take q m'"
    by (rule agree_mono [OF assms(5)]) (simp add: e(2) align_ptr_bounds [OF assms(2)])
  have "p + 18 \<le> q"
    using fr tag_list_codec.end_loop_mono [OF assms(2)] by simp
  then have hd: "load16 m'' p = Some 4 \<and> load64 m'' (p + 8) = Some (req_version r)
      \<and> load16 m'' (p + 16) = Some (req_len r)"
    using ld enc_frame_step [OF agree, of "p + 18" mh] fr by simp
  then show "load16 m'' p = Some 4" by simp
  obtain ts h' where "dec_loop tag_list_deserialize b (unat (req_len r)) m'' (p + 18) (Suc h)
      = Some (ts, q, h')" and "list_all2 same_tag_list (take (unat (req_len r)) (req_data r)) ts"
    using tag_list_codec.enc_dec_loop [OF assms(2,3,4) e(1) agree, of "Suc h"] by auto
  with hd show "\<exists>r' h'. deserialize_request b m'' p h = Some (r', p', h') \<and> same_request r r'"
    using align_ptr_cong [OF assms(2,3,4), of 3]
    by (auto simp: deserialize_request_def same_request_def e(2))
qed


section \<open>Whole messages\<close>

lemma serialize_body_frame:
  assumes "serialize_body a msg m p = Some (m', p')" and "0 < a"
  shows "length m' = length m" and "take p m' = take p m" and "p \<le> p'"
  using assms(1) serialize_info_frame [OF _ assms(2)] serialize_report_frame [OF _ assms(2)]
    serialize_request_frame [OF _ assms(2)]
  by (auto simp: serialize_body_def split: DeviceTag.splits
      dest: serialize_controller_state_frame serialize_destroy_frame)
    (fastforce dest: serialize_controller_state_frame serialize_destroy_frame)+

lemma msg_device_serialize_SomeE:
  assumes "msg_device_serialize a m len msg = Some (rc, m', msg')" and "0 < a"
    and "16 \<le> len"
  obtains m1 m2 p where "8 \<le> length m" and "m1 = put (le_bytes 8 MSG_MAGIC_START) m 0"
    and "msg' = stamp_version msg" and "serialize_body a msg' m1 8 = Some (m2, p)"
    and "m' = put (le_bytes 8 MSG_MAGIC_END) m2 p" and "p + 8 \<le> length m"
    and "length m2 = length m" and "length m' = length m"
    and "8 \<le> p" and "take 8 m2 = take 8 m1" and "rc = (if len < p + 8 then - 1 else int (p + 8))"
proof -
  from assms(1,3) obtain m1 m2 p where 1: "8 \<le> length m" "m1 = put (le_bytes 8 MSG_MAGIC_START) m 0"
    and 2: "msg' = stamp_version msg" "serialize_body a msg' m1 8 = Some (m2, p)"
    and 3: "m' = put (le_bytes 8 MSG_MAGIC_END) m2 p" "p + 8 \<le> length m2"
      "rc = (if len < p + 8 then - 1 else int (p + 8))"
    by (auto simp: msg_device_serialize_def MSG_MAGIC_SIZE_def store64_def store_Some_iff
        bind_eq_Some_conv Let_def split: if_splits)
  note fr = serialize_body_frame [OF 2(2) assms(2)]
  have "length m1 = length m" using 1 by (simp add: length_put)
  then show thesis
    using that [OF 1 2 3(1)] 3 fr by (simp add: length_put)
qed

lemma deserialize_body_inverse:
  assumes "serialize_body a msg m p = Some (m', p')" and "0 < a" and "0 < b" and "a mod 8 = b mod 8"
    and "take p' m'' = take p' m'" and "arrays_ok msg" and "arrays_ok old"
    and "msg_tag msg \<noteq> DeviceTagNone"
    and "msg_tag msg = DeviceTagRequest \<longrightarrow> req_version (msg_request msg) = 1"
  obtains new h' where "load16 m'' p = Some (device_tag_val (msg_tag msg))"
    and "deserialize_body b m'' p h (device_tag_val (msg_tag msg)) old = Some (new, p', h', False)"
    and "same_message msg new"
proof (cases "msg_tag msg")
  case DeviceTagNone
  with assms(8) show ?thesis by simp
next
  case DeviceTagInfo
  then have s: "serialize_info a (msg_info msg) m p = Some (m', p')"
    using assms(1) by (simp add: serialize_body_def)
  have ok: "info_arrays_ok (msg_info msg)" "info_arrays_ok (msg_info old)"
    using assms(6,7) by (simp_all add: arrays_ok_def)
  obtain i h' where "deserialize_info b m'' p h (msg_info old) = Some (i, p', h')"
    and "same_info (msg_info msg) i"
    using serialize_info_inverse(2) [OF s assms(2-5) ok, of h] by blast
  with DeviceTagInfo that serialize_info_inverse(1) [OF s assms(2-5) ok] show ?thesis
    by (simp add: deserialize_body_def same_message_def)
next
  case DeviceTagReport
  then have s: "serialize_report a (msg_report msg) m p = Some (m', p')"
    using assms(1) by (simp add: serialize_body_def)
  have ok: "report_arrays_ok (msg_report msg)" "report_arrays_ok (msg_report old)"
    using assms(6,7) by (simp_all add: arrays_ok_def)
  obtain i h' where "deserialize_report b m'' p h (msg_report old) = Some (i, p', h')"
    and "same_report (msg_report msg) i"
    using serialize_report_inverse(2) [OF s assms(2-5) ok, of h] by blast
  with DeviceTagReport that serialize_report_inverse(1) [OF s assms(2-5) ok] show ?thesis
    by (simp add: deserialize_body_def same_message_def)
next
  case DeviceTagControllerState
  then show ?thesis
    using that assms serialize_controller_state_inverse [OF _ assms(5)]
    by (auto simp: serialize_body_def deserialize_body_def same_message_def)
next
  case DeviceTagRequest
  then have s: "serialize_request a (msg_request msg) m p = Some (m', p')"
    using assms(1) by (simp add: serialize_body_def)
  obtain r h' where "deserialize_request b m'' p h = Some (r, p', h')"
    and "same_request (msg_request msg) r"
    using serialize_request_inverse(2) [OF s assms(2-5), of h] by blast
  with DeviceTagRequest that serialize_request_inverse(1) [OF s assms(2-5)] assms(9) show ?thesis
    by (simp add: deserialize_body_def same_message_def same_request_def)
next
  case DeviceTagDestroy
  then show ?thesis
    using that assms serialize_destroy_inverse [OF _ assms(5)]
    by (auto simp: serialize_body_def deserialize_body_def same_message_def)
qed

section \<open>Sample messages\<close>

definition blank_message :: DeviceMessage where
  "blank_message = \<lparr>msg_tag = DeviceTagNone,
     msg_info = \<lparr>info_slot = 0, info_index = 0, info_abs_len = 0,
       info_abs = replicate 64 \<lparr>abs_id = 0, abs_min = 0, abs_max = 0, abs_fuzz = 0, abs_flat = 0, abs_res = 0\<rparr>,
       info_rel_len = 0, info_rel = replicate 16 \<lparr>rel_id = 0\<rparr>,
       info_key_len = 0, info_key = replicate 768 \<lparr>key_id = 0\<rparr>\<rparr>,
     msg_report = \<lparr>report_slot = 0, report_index = 0, report_abs_len = 0, report_abs = replicate 64 0,
       report_rel_len = 0, report_rel = replicate 16 0, report_key_len = 0, report_key = replicate 768 0\<rparr>,
     msg_controller_state = \<lparr>cs_index = 0, cs_led0 = 0, cs_led1 = 0, cs_led2 = 0,
       cs_small_rumble = 0, cs_big_rumble = 0, cs_flash_on = 0, cs_flash_off = 0\<rparr>,
     msg_request = \<lparr>req_len = 0, req_data = [], req_ptr = 0, req_version = 0\<rparr>,
     msg_destroy = \<lparr>destroy_index = 0\<rparr>\<rparr>"

definition sample_request :: DeviceMessage where
  "sample_request = blank_message\<lparr>msg_tag := DeviceTagRequest, msg_request :=
     \<lparr>req_len = 1, req_data = [\<lparr>tags_len = 1,
        tags_data = [\<lparr>name_len = 1, name_data = [0x6A], name_ptr = 0\<rparr>], tags_ptr = 1\<rparr>],
      req_ptr = 2, req_version = 0\<rparr>\<rparr>"

definition sample_bytes :: "byte list" where
  "sample_bytes = [173, 222, 239, 190, 13, 240, 254, 202, 4, 0, 0, 0, 0, 0, 0, 0, 1, 0, 0, 0, 0, 0,
     0, 0, 1, 0, 1, 0, 1, 0, 106, 0, 173, 222, 254, 202, 239, 190, 13, 240]"

lemma sample_arrays [simp]: "arrays_ok blank_message" "arrays_ok sample_request"
  by (simp_all add: arrays_ok_def info_arrays_ok_def report_arrays_ok_def blank_message_def
      sample_request_def)

lemma sample_tag [simp]: "msg_tag sample_request = DeviceTagRequest"
  by (simp add: sample_request_def)

lemma sample_serialized:
  "msg_device_serialize 8 (replicate 40 0) 40 sample_request
     = Some (40, sample_bytes, stamp_version sample_request)"
proof -
  have "map_option (\<lambda>(rc, m, _). (rc, m)) (msg_device_serialize 8 (replicate 40 0) 40 sample_request)
      = Some (40, sample_bytes)"
    by code_simp
  then show ?thesis
    by (auto simp: msg_device_serialize_def Let_def bind_eq_Some_conv split: if_splits)
qed

lemma serialized_is_read:
  assumes "msg_device_serialize a m len msg = Some (rc, m', msg')" and "0 \<le> rc"
    and "msg_tag msg \<noteq> DeviceTagNone" and "arrays_ok msg" and "arrays_ok old"
    and "0 < a" and "0 < b" and "a mod 8 = b mod 8"
    and "take (nat rc) received = take (nat rc) m'" and "nat rc \<le> n"
  shows "\<exists>new h'. msg_device_deserialize b received n h old = Some (rc, new, [], h')
    \<and> same_message msg' new"
proof -
  have len: "16 \<le> len"
    using assms(1,2) by (auto simp: msg_device_serialize_def MSG_MAGIC_SIZE_def split: if_splits)
  obtain m1 m2 p where m: "8 \<le> length m" "m1 = put (le_bytes 8 MSG_MAGIC_START) m 0"
    "msg' = stamp_version msg" "serialize_body a msg' m1 8 = Some (m2, p)"
    "m' = put (le_bytes 8 MSG_MAGIC_END) m2 p" "p + 8 \<le> length m" "length m2 = length m"
    "length m' = length m" "8 \<le> p" "take 8 m2 = take 8 m1"
    "rc = (if len < p + 8 then - 1 else int (p + 8))"
    by (rule msg_device_serialize_SomeE [OF assms(1,6) len])
  have rc: "rc = int (p + 8)" using m(11) assms(2) by (auto split: if_splits)
  have agree: "take (p + 8) received = take (p + 8) m'" using assms(9) by (simp only: rc nat_int)
  have agree2: "take p received = take p m2"
    using agree_mono [OF agree, of p] m(5-7) by (simp add: take_put)
  have agree8: "take 8 received = take 8 m1"
    using agree_mono [OF agree2 m(9)] m(10) by simp
  have start: "load64 received 0 = Some MSG_MAGIC_START"
    using m(1) by (simp add: load_defs load_agree [OF agree8]) (simp add: m(2) mem_simps)
  have "end": "load64 received p = Some MSG_MAGIC_END"
    using m(6,7) by (simp add: load_defs load_agree [OF agree]) (simp add: m(5) mem_simps)
  have msg': "msg_tag msg' = msg_tag msg" "arrays_ok msg'"
    "msg_tag msg' = DeviceTagRequest \<longrightarrow> req_version (msg_request msg') = 1"
    using assms(4) by (auto simp: m(3) stamp_version_def arrays_ok_def)
  obtain new h' where "load16 received 8 = Some (device_tag_val (msg_tag msg'))"
    and "deserialize_body b received 8 h (device_tag_val (msg_tag msg')) old = Some (new, p, h', False)"
    and "same_message msg' new"
    using deserialize_body_inverse [OF m(4) assms(6-8) agree2 msg'(2) assms(5) _ msg'(3)]
      assms(3) msg'(1) by metis
  moreover have "\<not> n < 16" "\<not> n < p + 8" using assms(10) rc m(9) by auto
  ultimately show ?thesis
    using start "end" rc by (auto simp: msg_device_deserialize_def MSG_MAGIC_SIZE_def)
qed



end
