(* ===== verification/Net_Safety.thy ===== *)
theory Net_Safety
  imports Net_Correct
begin

text \<open>
  Sizes, overflows and ownership at the message interface of \<^verbatim>\<open>net.c\<close>.
\<close>

section \<open>Sizes\<close>

text \<open>The position after the serialized message, from the struct layouts alone.\<close>

definition wire_size :: "nat \<Rightarrow> DeviceMessage \<Rightarrow> nat" where
  "wire_size a msg = (case msg_tag msg of
     DeviceTagNone \<Rightarrow> 8
   | DeviceTagInfo \<Rightarrow> align_ptr 3 a (16 + 24 * unat (info_abs_len (msg_info msg))
       + 2 * unat (info_rel_len (msg_info msg)) + 2 * unat (info_key_len (msg_info msg)))
   | DeviceTagReport \<Rightarrow> align_ptr 3 a (16 + 4 * unat (report_abs_len (msg_report msg))
       + 4 * unat (report_rel_len (msg_report msg)) + unat (report_key_len (msg_report msg)))
   | DeviceTagControllerState \<Rightarrow> 24
   | DeviceTagRequest \<Rightarrow> align_ptr 3 a (end_loop tag_list_end a
       (take (unat (req_len (msg_request msg))) (req_data (msg_request msg))) 26)
   | DeviceTagDestroy \<Rightarrow> 16) + 8"

definition wf_message :: "DeviceMessage \<Rightarrow> bool" where
  "wf_message msg \<longleftrightarrow> (case msg_tag msg of
     DeviceTagInfo \<Rightarrow> unat (info_abs_len (msg_info msg)) \<le> length (info_abs (msg_info msg))
       \<and> unat (info_rel_len (msg_info msg)) \<le> length (info_rel (msg_info msg))
       \<and> unat (info_key_len (msg_info msg)) \<le> length (info_key (msg_info msg))
   | DeviceTagReport \<Rightarrow> unat (report_abs_len (msg_report msg)) \<le> length (report_abs (msg_report msg))
       \<and> unat (report_rel_len (msg_report msg)) \<le> length (report_rel (msg_report msg))
       \<and> unat (report_key_len (msg_report msg)) \<le> length (report_key (msg_report msg))
   | DeviceTagRequest \<Rightarrow> unat (req_len (msg_request msg)) \<le> length (req_data (msg_request msg))
       \<and> list_all wf_tag_list (take (unat (req_len (msg_request msg))) (req_data (msg_request msg)))
   | _ \<Rightarrow> True)"

lemma stamp_version_simps [simp]:
  "msg_tag (stamp_version msg) = msg_tag msg"
  "msg_info (stamp_version msg) = msg_info msg"
  "msg_report (stamp_version msg) = msg_report msg"
  "req_len (msg_request (stamp_version msg)) = req_len (msg_request msg)"
  "req_data (msg_request (stamp_version msg)) = req_data (msg_request msg)"
  by (simp_all add: stamp_version_def)

lemma serialize_body_end:
  assumes "serialize_body a msg m 8 = Some (m', p)" and "0 < a"
  shows "wire_size a msg = p + 8"
  using assms(1)
  by (auto simp: serialize_body_def wire_size_def split: DeviceTag.splits
      dest!: serialize_info_frame(4) [OF _ assms(2)] serialize_report_frame(4) [OF _ assms(2)]
        serialize_request_frame(4) [OF _ assms(2)]
        serialize_controller_state_frame(3) serialize_destroy_frame(3))

lemma wire_size_stamp [simp]: "wire_size a (stamp_version msg) = wire_size a msg"
  by (simp add: wire_size_def split: DeviceTag.splits)

lemma serialize_Some_size:
  assumes "msg_device_serialize a m len msg = Some (rc, m', msg')" and "0 < a" and "16 \<le> len"
  shows "wire_size a msg \<le> length m"
    and "rc = (if len < wire_size a msg then - 1 else int (wire_size a msg))"
proof -
  obtain m1 m2 p where "serialize_body a msg' m1 8 = Some (m2, p)" "p + 8 \<le> length m"
    "msg' = stamp_version msg" "rc = (if len < p + 8 then - 1 else int (p + 8))"
    by (rule msg_device_serialize_SomeE [OF assms]) 
  with serialize_body_end [OF this(1) assms(2)]
  show "wire_size a msg \<le> length m"
    and "rc = (if len < wire_size a msg then - 1 else int (wire_size a msg))"
    by simp_all
qed

text \<open>
  The serializer compares the message's size with the buffer's only after writing, so a
  message larger than the buffer is written past its end whatever length the caller passes
  (16 or more); the error return the header promises for this case is never reached.
\<close>

theorem serialize_overflows:
  assumes "0 < a" and "16 \<le> len" and "length m < wire_size a msg"
  shows "msg_device_serialize a m len msg = None"
proof (cases "msg_device_serialize a m len msg")
  case (Some r)
  obtain rc m' msg' where "r = (rc, m', msg')" by (cases r) auto
  with Some serialize_Some_size(1) [OF _ assms(1,2)] assms(3) show ?thesis by fastforce
qed simp

theorem serialize_overflows_witness:
  "msg_device_serialize 8 (replicate 32 0) 32 sample_request = None"
  by (rule serialize_overflows) code_simp+

lemma serialize_info_total:
  assumes "0 < a" and "unat (info_abs_len i) \<le> length (info_abs i)"
    and "unat (info_rel_len i) \<le> length (info_rel i)" and "unat (info_key_len i) \<le> length (info_key i)"
    and "p + 8 + 24 * unat (info_abs_len i) + 2 * unat (info_rel_len i) + 2 * unat (info_key_len i)
      \<le> length m"
  shows "\<exists>m' p'. serialize_info a i m p = Some (m', p')"
proof -
  have le: "p + 8 \<le> length m" using assms(5) by simp
  obtain m1 p1 m2 p2 m3 p3 where "enc_loop abs_serialize a (unat (info_abs_len i)) (info_abs i)
      (header_mem 1 (info_key_len i) (info_slot i) (info_index i) (info_abs_len i) (info_rel_len i) m p)
      (p + 8) = Some (m1, p1)"
    "enc_loop rel_serialize a (unat (info_rel_len i)) (info_rel i) m1 p1 = Some (m2, p2)"
    "enc_loop key_serialize a (unat (info_key_len i)) (info_key i) m2 p2 = Some (m3, p3)"
    by (rule info_arrays.enc3_total [OF assms(1) list_all_True list_all_True list_all_True assms(2,3,4),
          of "p + 8" "header_mem 1 (info_key_len i) (info_slot i) (info_index i) (info_abs_len i)
            (info_rel_len i) m p"])
      (use assms(2-5) header_mem_frame(1) [OF le] in \<open>simp add: min_def mult.commute\<close>)
  with le show ?thesis
    unfolding serialize_info_def header_stores device_tag_val.simps by simp
qed

lemma serialize_report_total:
  assumes "0 < a" and "unat (report_abs_len i) \<le> length (report_abs i)"
    and "unat (report_rel_len i) \<le> length (report_rel i)"
    and "unat (report_key_len i) \<le> length (report_key i)"
    and "p + 8 + 4 * unat (report_abs_len i) + 4 * unat (report_rel_len i) + unat (report_key_len i)
      \<le> length m"
  shows "\<exists>m' p'. serialize_report a i m p = Some (m', p')"
proof -
  have le: "p + 8 \<le> length m" using assms(5) by simp
  obtain m1 p1 m2 p2 m3 p3 where "enc_loop word_store a (unat (report_abs_len i)) (report_abs i)
      (header_mem 2 (report_key_len i) (report_slot i) (report_index i) (report_abs_len i)
        (report_rel_len i) m p) (p + 8) = Some (m1, p1)"
    "enc_loop word_store a (unat (report_rel_len i)) (report_rel i) m1 p1 = Some (m2, p2)"
    "enc_loop byte_store a (unat (report_key_len i)) (report_key i) m2 p2 = Some (m3, p3)"
    by (rule report_arrays.enc3_total [OF assms(1) list_all_True list_all_True list_all_True assms(2,3,4),
          of "p + 8" "header_mem 2 (report_key_len i) (report_slot i) (report_index i) (report_abs_len i)
            (report_rel_len i) m p"])
      (use assms(2-5) header_mem_frame(1) [OF le] in \<open>simp add: min_def mult.commute\<close>)
  with le show ?thesis
    unfolding serialize_report_def header_stores device_tag_val.simps by simp
qed

lemma serialize_request_total:
  assumes "0 < a" and "unat (req_len r) \<le> length (req_data r)"
    and "list_all wf_tag_list (take (unat (req_len r)) (req_data r))"
    and "end_loop tag_list_end a (take (unat (req_len r)) (req_data r)) (p + 18) \<le> length m"
  shows "\<exists>m' p'. serialize_request a r m p = Some (m', p')"
proof -
  let ?m = "put (le_bytes 2 (req_len r)) (put (le_bytes 8 (req_version r))
    (put (le_bytes 2 (4::u16)) m p) (p + 8)) (p + 16)"
  have le: "p + 18 \<le> length m"
    using assms(4) tag_list_codec.end_loop_mono [OF assms(1), of "p + 18"] by (rule order_trans [rotated])
  then have "length ?m = length m" by (simp add: mem_simps)
  then show ?thesis
    using tag_list_codec.enc_loop_total [OF assms(1,3,2), of "p + 18" ?m] assms(4) le
    by (auto simp: serialize_request_def store_defs store_def length_put)
qed

lemma serialize_body_total:
  assumes "0 < a" and "wf_message msg" and "wire_size a msg \<le> length m + 8"
  shows "\<exists>m' p'. serialize_body a msg m 8 = Some (m', p')"
proof (cases "msg_tag msg")
  case DeviceTagInfo
  then show ?thesis
    using assms(2,3) align_ptr_bounds(1) [OF assms(1), of "16 + 24 * unat (info_abs_len (msg_info msg))
      + 2 * unat (info_rel_len (msg_info msg)) + 2 * unat (info_key_len (msg_info msg))" 3]
      serialize_info_total [OF assms(1), of "msg_info msg" 8 m]
    by (simp add: serialize_body_def wf_message_def wire_size_def)
next
  case DeviceTagReport
  then show ?thesis
    using assms(2,3) align_ptr_bounds(1) [OF assms(1), of "16 + 4 * unat (report_abs_len (msg_report msg))
      + 4 * unat (report_rel_len (msg_report msg)) + unat (report_key_len (msg_report msg))" 3]
      serialize_report_total [OF assms(1), of "msg_report msg" 8 m]
    by (simp add: serialize_body_def wf_message_def wire_size_def)
next
  case DeviceTagRequest
  then show ?thesis
    using assms(2,3) align_ptr_bounds(1) [OF assms(1), of "end_loop tag_list_end a
        (take (unat (req_len (msg_request msg))) (req_data (msg_request msg))) 26" 3]
      serialize_request_total [OF assms(1), of "msg_request msg" 8 m]
    by (simp add: serialize_body_def wf_message_def wire_size_def)
qed (use assms(3) in \<open>auto simp: serialize_body_def wire_size_def serialize_controller_state_def
    serialize_destroy_def store_defs store_def length_put\<close>)

lemma serialize_wire_size:
  assumes "0 < a" and "16 \<le> len" and "wf_message msg" and "wire_size a msg \<le> length m"
  shows "\<exists>m'. msg_device_serialize a m len msg =
    Some (if len < wire_size a msg then - 1 else int (wire_size a msg), m', stamp_version msg)"
proof -
  let ?m = "put (le_bytes 8 MSG_MAGIC_START) m 0"
  have le: "8 \<le> length m" using assms(4) by (simp add: wire_size_def)
  then have len: "length ?m = length m" by (simp add: length_put)
  have wf: "wf_message (stamp_version msg)"
    using assms(3) by (simp add: wf_message_def split: DeviceTag.splits)
  obtain m2 p where b: "serialize_body a (stamp_version msg) ?m 8 = Some (m2, p)"
    using serialize_body_total [OF assms(1) wf, of ?m] assms(4) len by auto
  have "length m2 = length m" and "wire_size a msg = p + 8"
    using serialize_body_frame(1) [OF b assms(1)] serialize_body_end [OF b assms(1)] len by simp_all
  with b le assms(2,4) show ?thesis
    by (auto simp: msg_device_serialize_def MSG_MAGIC_SIZE_def store64_def store_def Let_def)
qed

text \<open>
  C22: A message whose counts stay within its arrays is serialized in full when the buffer holds
  it: the code returns its size, computed from the struct layout, or an error if the caller
  claims fewer bytes than that; the message is unchanged but for the version stamp.
\<close>

theorem serialize_total:
  assumes "0 < a" and "16 \<le> len" and "wf_message msg" and "wire_size a msg \<le> length m"
  shows "\<exists>m'. msg_device_serialize a m len msg =
    Some (if len < wire_size a msg then - 1 else int (wire_size a msg), m', stamp_version msg)"
  using assms by (rule serialize_wire_size)

theorem serialize_total_witness:
  "\<exists>m'. msg_device_serialize 8 (replicate 40 0) 39 sample_request = Some (- 1, m', stamp_version sample_request)"
proof -
  have "wire_size 8 sample_request = 40" by code_simp
  moreover have "wf_message sample_request" by code_simp
  ultimately show ?thesis using serialize_total [of 8 39 sample_request "replicate 40 0"] by simp
qed

section \<open>What an accepted packet is\<close>

lemma msg_device_deserialize_ok:
  assumes "msg_device_deserialize b m n h old = Some (rc, new, freed, h')" and "0 \<le> rc"
  obtains tag p where "load64 m 0 = Some MSG_MAGIC_START" and "load16 m 8 = Some tag"
    and "deserialize_body b m 8 h tag old = Some (new, p, h', False)"
    and "load64 m p = Some MSG_MAGIC_END" and "rc = int (p + 8)" and "p + 8 \<le> n" and "freed = []"
  using assms
  by (auto simp: msg_device_deserialize_def MSG_MAGIC_SIZE_def bind_eq_Some_conv split: if_splits)

text \<open>
  C21: An accepted packet starts with the start magic and ends, within the received length, with
  the end magic; an accepted request carries protocol version 1.
\<close>

theorem accepted_packet:
  assumes "msg_device_deserialize b m n h old = Some (rc, new, freed, h')" and "0 \<le> rc"
  shows "load64 m 0 = Some MSG_MAGIC_START \<and> 8 \<le> rc \<and> rc \<le> int n \<and> freed = []
    \<and> load64 m (nat rc - 8) = Some MSG_MAGIC_END
    \<and> (load16 m 8 = Some 4 \<longrightarrow> msg_tag new = DeviceTagRequest \<and> req_version (msg_request new) = 1)"
proof -
  obtain tag p where "load64 m 0 = Some MSG_MAGIC_START" and tag: "load16 m 8 = Some tag"
    and body: "deserialize_body b m 8 h tag old = Some (new, p, h', False)"
    and "load64 m p = Some MSG_MAGIC_END" and "rc = int (p + 8)" and "p + 8 \<le> n" "freed = []"
    by (rule msg_device_deserialize_ok [OF assms])
  moreover have "msg_tag new = DeviceTagRequest \<and> req_version (msg_request new) = 1"
    if "load16 m 8 = Some 4"
    using that tag body by (auto simp: deserialize_body_def bind_eq_Some_conv)
  ultimately show ?thesis by (simp add: nat_add_distrib)
qed

theorem accepted_packet_witness:
  "load64 sample_bytes (nat 40 - 8) = Some MSG_MAGIC_END"
proof -
  have "map_option fst (msg_device_deserialize 16 sample_bytes 40 0 blank_message) = Some 40" by code_simp
  then obtain new freed h' where
      "msg_device_deserialize 16 sample_bytes 40 0 blank_message = Some (40, new, freed, h')"
    by auto
  from accepted_packet [OF this] show ?thesis by simp
qed

section \<open>Ownership\<close>

lemma deserialize_request_owned:
  assumes "deserialize_request b m p h = Some (r, p', h')" and "msg_tag msg = DeviceTagRequest"
    and "msg_request msg = r"
  shows "mset (msg_device_free msg) = mset [h..<h']"
proof -
  from assms(1) obtain q where "dec_loop tag_list_deserialize b (unat (req_len r)) m (p + 18) (Suc h)
      = Some (req_data r, q, h')" and "req_ptr r = h"
    by (auto simp: deserialize_request_def bind_eq_Some_conv)
  with tag_list_owner.dec_loop_owned [OF this(1)] assms(2,3) show ?thesis
    by (auto simp: msg_device_free_def upt_conv_Cons)
qed

text \<open>
  C20: A received request leaks nothing and frees nothing twice. If it is refused (wrong
  version, missing end magic, longer than the received length), the objects freed on the way
  are exactly the ones allocated for it; if it is accepted, none is freed, and freeing the
  message later releases exactly those.
\<close>

theorem request_ownership:
  assumes "msg_device_deserialize b m n h old = Some (rc, new, freed, h')"
    and "16 \<le> n" and "load64 m 0 = Some MSG_MAGIC_START" and "load16 m 8 = Some 4"
  shows "(if rc < 0 then mset freed = mset [h..<h']
    else freed = [] \<and> mset (msg_device_free new) = mset [h..<h'])"
proof -
  from assms obtain r p where r: "deserialize_request b m 8 h = Some (r, p, h')"
    and new: "new = old\<lparr>msg_tag := DeviceTagRequest, msg_request := r\<rparr>"
    and freed: "freed = (if rc < 0 then msg_device_free new else [])"
    by (auto simp: msg_device_deserialize_def MSG_MAGIC_SIZE_def deserialize_body_def
        bind_eq_Some_conv split: if_splits)
  have "mset (msg_device_free new) = mset [h..<h']"
    by (rule deserialize_request_owned [OF r]) (simp_all add: new)
  then show ?thesis using freed by simp
qed

theorem request_ownership_witness:
  "\<exists>new freed h'. msg_device_deserialize 16 (take 32 sample_bytes @ replicate 8 0) 40 7 blank_message
     = Some (- 1, new, freed, h') \<and> mset freed = {#7, 8, 9#} \<and> h' = 10"
proof -
  let ?r = "msg_device_deserialize 16 (take 32 sample_bytes @ replicate 8 0) 40 7 blank_message"
  have "map_option (\<lambda>(rc, _, _, h'). (rc, h')) ?r = Some (- 1, 10)" by code_simp
  then obtain new freed where r: "?r = Some (- 1, new, freed, 10)" by auto
  have l: "load64 (take 32 sample_bytes @ replicate 8 0) 0 = Some MSG_MAGIC_START"
    "load16 (take 32 sample_bytes @ replicate 8 0) 8 = Some 4" by code_simp+
  have "[7..<10] = [7, 8, 9 :: nat]" by code_simp
  with request_ownership [OF r _ l] r show ?thesis by simp
qed

text \<open>
  A packet with tag 0 (or any tag the protocol does not name) is not decoded, but when its
  end magic is missing the error path still frees the message: the pointers of whatever request
  the caller's variable held before are freed, a second time if that request was handled.
\<close>

theorem unknown_tag_frees_stale_message:
  assumes "16 \<le> n" and "load64 m 0 = Some MSG_MAGIC_START" and "load16 m 8 = Some tag"
    and "tag = 0 \<or> 5 < tag" and "load64 m 8 = Some w" and "w \<noteq> MSG_MAGIC_END"
  shows "msg_device_deserialize b m n h old = Some (- 1, old, msg_device_free old, h)"
proof -
  have "tag \<notin> {1, 2, 3, 4, 5}"
    using assms(4) by (auto simp: word_less_nat_alt)
  then show ?thesis
    using assms by (auto simp: msg_device_deserialize_def MSG_MAGIC_SIZE_def deserialize_body_def)
qed

theorem unknown_tag_frees_stale_message_witness:
  "msg_device_deserialize 8 (le_bytes 8 MSG_MAGIC_START @ replicate 8 0) 16 9 sample_request
     = Some (- 1, sample_request, [0, 1, 2], 9)"
proof -
  have l: "load64 (le_bytes 8 MSG_MAGIC_START @ replicate 8 0) 0 = Some MSG_MAGIC_START"
    "load16 (le_bytes 8 MSG_MAGIC_START @ replicate 8 0) 8 = Some 0"
    "load64 (le_bytes 8 MSG_MAGIC_START @ replicate 8 0) 8 = Some 0" by code_simp+
  have f: "msg_device_free sample_request = [0, 1, 2]" by code_simp
  have "(0 :: u64) \<noteq> MSG_MAGIC_END" by (simp add: MSG_MAGIC_END_def)
  from unknown_tag_frees_stale_message [OF _ l(1,2) _ l(3) this, of 16 8 9 sample_request]
  show ?thesis by (simp add: f)
qed

text \<open>
  The sixteen bytes of the two magics alone are accepted as a message: the caller gets
  success and a message nobody wrote.
\<close>

theorem bare_magics_accepted:
  assumes "16 \<le> n" and "load64 m 0 = Some MSG_MAGIC_START" and "load64 m 8 = Some MSG_MAGIC_END"
  shows "msg_device_deserialize b m n h old = Some (16, old, [], h)"
proof -
  have "load16 m 8 = Some 0xDEAD" using load64_load16 [OF assms(3)] by (simp add: MSG_MAGIC_END_def)
  then show ?thesis
    using assms by (auto simp: msg_device_deserialize_def MSG_MAGIC_SIZE_def deserialize_body_def)
qed

theorem bare_magics_accepted_witness:
  "msg_device_deserialize 8 (le_bytes 8 MSG_MAGIC_START @ le_bytes 8 MSG_MAGIC_END) 16 0 sample_request
     = Some (16, sample_request, [], 0)"
proof -
  have "load64 (le_bytes 8 MSG_MAGIC_START @ le_bytes 8 MSG_MAGIC_END) 0 = Some MSG_MAGIC_START"
    "load64 (le_bytes 8 MSG_MAGIC_START @ le_bytes 8 MSG_MAGIC_END) 8 = Some MSG_MAGIC_END" by code_simp+
  from bare_magics_accepted [OF _ this] show ?thesis by simp
qed

text \<open>
  A device description that announces more than 64 axes is never refused: decoding it
  stores past the end of the message's array (or reads past the packet).
\<close>

theorem axis_count_unchecked:
  assumes "16 \<le> n" and "load64 m 0 = Some MSG_MAGIC_START" and "load16 m 8 = Some 1"
    and "load8 m 14 = Some an" and "64 < unat an" and "info_arrays_ok (msg_info old)"
  shows "msg_device_deserialize b m n h old = None"
proof -
  have "deserialize_info b m 8 h (msg_info old) = None"
    using assms(4-6) dec_loop_length [of abs_deserialize b "unat an" m 16 h]
    by (auto simp: deserialize_info_def info_arrays_ok_def fill_array_def split: Option.bind_splits)
  then show ?thesis
    using assms by (auto simp: msg_device_deserialize_def MSG_MAGIC_SIZE_def deserialize_body_def)
qed

theorem axis_count_unchecked_witness:
  "msg_device_deserialize 8 ((le_bytes 8 MSG_MAGIC_START @ [1, 0, 0, 0, 0, 0, 65, 0]) @ replicate 1568 0
     @ le_bytes 8 MSG_MAGIC_END) 1592 0 blank_message = None"
proof -
  let ?hd = "le_bytes 8 MSG_MAGIC_START @ [1, 0, 0, 0, 0, 0, 65, 0]"
  let ?m = "?hd @ replicate 1568 0 @ le_bytes 8 MSG_MAGIC_END"
  have "load64 ?hd 0 = Some MSG_MAGIC_START" "load16 ?hd 8 = Some 1" "load8 ?hd 14 = Some 65"
    by code_simp+
  then have "load64 ?m 0 = Some MSG_MAGIC_START" "load16 ?m 8 = Some 1" "load8 ?m 14 = Some 65"
    unfolding load_defs by (subst load_append, simp, simp only:)+
  moreover have "info_arrays_ok (msg_info blank_message)"
    by (simp add: info_arrays_ok_def blank_message_def)
  ultimately show ?thesis using axis_count_unchecked [of 1592 ?m 65 blank_message 8 0] by simp
qed

text \<open>
  The padding depends on the buffer's address, not on the position in the message: a
  description written at an address that is 4 modulo 8 (a buffer the server declares
  \<open>aligned(4)\<close>) is refused by a reader at a multiple of 8 (the client's buffer).
\<close>

theorem alignment_is_part_of_the_format:
  "\<exists>m msg'. msg_device_serialize 12 (replicate 40 0) 40 (blank_message\<lparr>msg_tag := DeviceTagInfo,
       msg_info := (msg_info blank_message)\<lparr>info_rel_len := 1\<rparr>\<rparr>) = Some (28, m, msg')
     \<and> map_option fst (msg_device_deserialize 12 m 40 0 blank_message) = Some 28
     \<and> map_option fst (msg_device_deserialize 8 m 40 0 blank_message) = Some (- 1)"
proof -
  let ?msg = "blank_message\<lparr>msg_tag := DeviceTagInfo,
    msg_info := (msg_info blank_message)\<lparr>info_rel_len := 1\<rparr>\<rparr>"
  let ?s = "msg_device_serialize 12 (replicate 40 0) 40 ?msg"
  define m :: "byte list" where "m = le_bytes 8 MSG_MAGIC_START @ [1, 0, 0, 0, 0, 0, 0, 1, 0, 0, 0, 0]
    @ le_bytes 8 MSG_MAGIC_END @ replicate 12 0"
  have "map_option (\<lambda>(rc, m, _). (rc, m)) ?s = Some (28, m)" unfolding m_def by code_simp
  then obtain msg' where "?s = Some (28, m, msg')" by auto
  moreover have "map_option fst (msg_device_deserialize 12 m 40 0 blank_message) = Some 28"
    unfolding m_def by code_simp
  moreover have "map_option fst (msg_device_deserialize 8 m 40 0 blank_message) = Some (- 1)"
    unfolding m_def by code_simp
  ultimately show ?thesis by blast
qed

end
