(* ===== verification/Vec.thy ===== *)
theory Vec
  imports Prelude
begin

text \<open>
  Growable arrays: the type-erased \<^verbatim>\<open>Vec\<close> of \<^verbatim>\<open>vec.c\<close>, at the granularity of its elements (every
  offset in the code is a multiple of the stride). A slot that was allocated but never written
  is \<^const>\<open>None\<close>; reading or writing outside the allocation makes the operation \<^const>\<open>None\<close>.
  Allocation is taken to succeed. The contract both array libraries of the program share is the
  locale \<open>sequence\<close>.
\<close>

section \<open>Contract\<close>

fun push_all :: "('a \<Rightarrow> 'v \<Rightarrow> 'v option) \<Rightarrow> 'a list \<Rightarrow> 'v \<Rightarrow> 'v option" where
  "push_all push [] v = Some v"
| "push_all push (x # xs) v = do { v \<leftarrow> push x v; push_all push xs v }"

fun pop_many :: "('v \<Rightarrow> ('v \<times> 'a) option) \<Rightarrow> nat \<Rightarrow> 'v \<Rightarrow> ('v \<times> 'a list) option" where
  "pop_many pop 0 v = Some (v, [])"
| "pop_many pop (Suc n) v = do {
     (v, x) \<leftarrow> pop v;
     (v, xs) \<leftarrow> pop_many pop n v;
     Some (v, x # xs)
   }"

locale sequence =
  fixes inv :: "'v \<Rightarrow> bool"
    and elems :: "'v \<Rightarrow> 'a list"
    and push :: "'a \<Rightarrow> 'v \<Rightarrow> 'v option"
    and pop :: "'v \<Rightarrow> ('v \<times> 'a) option"
    and lookup :: "'v \<Rightarrow> nat \<Rightarrow> 'a option"
  assumes push_ok: "inv v \<Longrightarrow> \<exists>v'. push x v = Some v' \<and> inv v' \<and> elems v' = elems v @ [x]"
    and pop_ok: "inv v \<Longrightarrow> elems v \<noteq> [] \<Longrightarrow>
      \<exists>v'. pop v = Some (v', last (elems v)) \<and> inv v' \<and> elems v' = butlast (elems v)"
    and lookup_ok: "inv v \<Longrightarrow> lookup v i = (if i < length (elems v) then Some (elems v ! i) else None)"
begin

lemma push_all_ok: "inv v \<Longrightarrow> \<exists>v'. push_all push xs v = Some v' \<and> inv v' \<and> elems v' = elems v @ xs"
proof (induction xs arbitrary: v)
  case Nil
  then show ?case by simp
next
  case (Cons x xs)
  then show ?case using push_ok [OF Cons.prems, of x] by fastforce
qed

lemma pop_many_ok:
  "inv v \<Longrightarrow> n \<le> length (elems v) \<Longrightarrow> \<exists>v'. pop_many pop n v = Some (v', take n (rev (elems v)))
     \<and> inv v' \<and> elems v' = take (length (elems v) - n) (elems v)"
proof (induction n arbitrary: v)
  case 0
  then show ?case by simp
next
  case (Suc n)
  then have "elems v \<noteq> []" by auto
  then obtain xs x where xs: "elems v = xs @ [x]" by (metis rev_exhaust)
  then obtain v1 where "pop v = Some (v1, x)" "inv v1" "elems v1 = xs"
    using pop_ok [OF Suc.prems(1)] by auto
  with Suc.IH [of v1] Suc.prems(2) xs show ?case by auto
qed

lemma push_pop_ok:
  assumes "inv v"
  obtains v' v'' where "push_all push xs v = Some v'" and "pop_many pop (length xs) v' = Some (v'', rev xs)"
    and "inv v''" and "elems v'' = elems v"
proof -
  obtain v' where v': "push_all push xs v = Some v'" "inv v'" "elems v' = elems v @ xs"
    using push_all_ok [OF assms] by blast
  then show thesis
    using that [OF v'(1)] pop_many_ok [OF v'(2), of "length xs"] by auto
qed

lemma push_all_lookup:
  assumes "inv v" and "elems v = []" and "push_all push xs v = Some v'" and "i < length xs"
  shows "lookup v' i = Some (xs ! i)"
  using push_all_ok [OF assms(1), of xs] assms lookup_ok by auto

end

section \<open>Slots\<close>

text \<open>\<open>realloc\<close> keeps the common prefix.\<close>

definition realloc :: "'a option list \<Rightarrow> nat \<Rightarrow> 'a option list" where
  "realloc data n = take n data @ replicate (n - length data) None"

lemma length_realloc [simp]: "length (realloc data n) = n"
  by (simp add: realloc_def)

lemma take_realloc [simp]: "k \<le> n \<Longrightarrow> k \<le> length data \<Longrightarrow> take k (realloc data n) = take k data"
  by (simp add: realloc_def min_def)

text \<open>The first \<open>n\<close> slots hold \<open>xs\<close>.\<close>

definition holds :: "'a option list \<Rightarrow> nat \<Rightarrow> 'a list \<Rightarrow> bool" where
  "holds data n xs \<longleftrightarrow> n \<le> length data \<and> take n data = map Some xs"

lemma holds_length: "holds data n xs \<Longrightarrow> length xs = n"
  by (auto simp: holds_def dest: arg_cong [of _ _ length])

lemma holds_unique: "holds data n xs \<Longrightarrow> holds data n ys \<Longrightarrow> xs = ys"
  by (auto simp: holds_def)

lemma holds_realloc: "holds data n xs \<Longrightarrow> n \<le> k \<Longrightarrow> holds (realloc data k) n xs"
  by (simp add: holds_def)

lemma holds_load:
  assumes "holds data n xs" and "i + k \<le> n"
  shows "load k data i = Some (map Some (take k (drop i xs)))"
proof -
  have "take k (drop i data) = take k (drop i (take n data))"
    using assms(2) by (simp add: take_drop min_def)
  then show ?thesis
    using assms by (simp add: load_def holds_def take_map drop_map)
qed

lemma holds_store:
  assumes "holds data n xs" and "i \<le> n" and "i + length ys \<le> length data"
  shows "store (map Some ys) data i = Some (put (map Some ys) data i)"
    and "holds (put (map Some ys) data i) (max n (i + length ys))
      (take i xs @ ys @ drop (i + length ys) xs)"
proof -
  show "store (map Some ys) data i = Some (put (map Some ys) data i)"
    using assms(3) by (simp add: store_def)
  have t: "take i data = map Some (take i xs)"
    using assms(1,2) by (metis holds_def take_take min.absorb1 take_map)
  have d: "take (n - (i + length ys)) (drop (i + length ys) data) = map Some (drop (i + length ys) xs)"
    using assms(1) by (metis drop_map drop_take holds_def)
  show "holds (put (map Some ys) data i) (max n (i + length ys))
      (take i xs @ ys @ drop (i + length ys) xs)"
    using assms holds_length [OF assms(1)] d
    by (auto simp: holds_def put_def t max_def)
qed

text \<open>Opening and closing a gap with \<open>memmove\<close>.\<close>

lemma move_up:
  assumes "holds data n xs" and "i \<le> n" and "n + k \<le> length data"
  obtains data' where "move (i + k) i (n - i) data = Some data'" and "length data' = length data"
    and "take i data' = map Some (take i xs)"
    and "take (n - i) (drop (i + k) data') = map Some (drop i xs)"
proof -
  have "load (n - i) data i = Some (map Some (take (n - i) (drop i xs)))"
    by (rule holds_load [OF assms(1)]) (use assms(2) in simp)
  moreover have "take (n - i) (drop i xs) = drop i xs"
    using holds_length [OF assms(1)] by simp
  ultimately have "move (i + k) i (n - i) data = Some (put (map Some (drop i xs)) data (i + k))"
    using assms(2,3) holds_length [OF assms(1)] by (simp add: move_def store_def)
  moreover have "take i data = map Some (take i xs)"
    using assms(1,2) by (metis holds_def take_take min.absorb1 take_map)
  ultimately show thesis
    using that [of "put (map Some (drop i xs)) data (i + k)"] assms(2,3) holds_length [OF assms(1)]
    by (simp add: put_def)
qed

lemma move_down:
  assumes "holds data n xs" and "i + k \<le> n"
  obtains data' where "move i (i + k) (n - (i + k)) data = Some data'" and "length data' = length data"
    and "holds data' (n - k) (take i xs @ drop (i + k) xs)"
proof -
  have "load (n - (i + k)) data (i + k) = Some (map Some (drop (i + k) xs))"
    using holds_load [OF assms(1), of "i + k" "n - (i + k)"] assms(2) holds_length [OF assms(1)] by simp
  moreover have le: "i + length (drop (i + k) xs) \<le> length data" "i \<le> n"
    using assms holds_length [OF assms(1)] by (auto simp: holds_def)
  moreover have "take i data = map Some (take i xs)"
    using assms(1) le(2) by (metis holds_def take_take min.absorb1 take_map)
  then have "holds (put (map Some (drop (i + k) xs)) data i) (n - k) (take i xs @ drop (i + k) xs)"
    using le assms(2) holds_length [OF assms(1)] by (auto simp: holds_def put_def min_def)
  ultimately show thesis
    using that by (simp add: length_put move_def store_def)
qed

section \<open>Operations\<close>

definition INIT_CAP :: nat where "INIT_CAP = 8"

record 'a Vec =
  v_data :: "'a option list"
  v_cap :: nat
  v_len :: nat
  v_stride :: nat

definition vec_cap :: "nat \<Rightarrow> nat \<Rightarrow> 'a Vec" where
  "vec_cap data_size initial_capacity =
     \<lparr>v_data = replicate initial_capacity None, v_cap = initial_capacity, v_len = 0, v_stride = data_size\<rparr>"

definition vec_new :: "nat \<Rightarrow> 'a Vec" where
  "vec_new data_size = vec_cap data_size INIT_CAP"

definition vec_grow :: "'a Vec \<Rightarrow> nat \<Rightarrow> 'a Vec" where
  "vec_grow v cap =
    (if v_cap v \<ge> cap then v
     else let new_cap = (if cap > v_cap v * 2 then cap else v_cap v * 2)
       in v\<lparr>v_data := realloc (v_data v) new_cap, v_cap := new_cap\<rparr>)"

definition vec_push :: "'a \<Rightarrow> 'a Vec \<Rightarrow> 'a Vec option" where
  "vec_push data v = do {
     let v = vec_grow v (v_len v + 1);
     d \<leftarrow> store [Some data] (v_data v) (v_len v);
     Some (v\<lparr>v_data := d, v_len := v_len v + 1\<rparr>)
   }"

text \<open>
  The slots copied to \<open>data\<close> are part of the result; none when the code copies nothing
  (\<open>data\<close> is \<open>NULL\<close>, or the error message is printed).
\<close>

definition vec_pop :: "'a Vec \<Rightarrow> bool \<Rightarrow> ('a Vec \<times> 'a option list) option" where
  "vec_pop v want =
    (if v_len v = 0 then Some (v, [])
     else do {
       out \<leftarrow> (if want then load 1 (v_data v) (v_len v - 1) else Some []);
       Some (v\<lparr>v_len := v_len v - 1\<rparr>, out)
     })"

text \<open>The pointer, as an element index.\<close>

definition vec_get :: "'a Vec \<Rightarrow> nat \<Rightarrow> nat option" where
  "vec_get v index = (if index \<ge> v_len v then None else Some index)"

definition vec_insert :: "'a Vec \<Rightarrow> 'a \<Rightarrow> nat \<Rightarrow> 'a Vec option" where
  "vec_insert v data index =
    (if index > v_len v then Some v
     else do {
       let v = vec_grow v (v_len v + 1);
       d \<leftarrow> (if index < v_len v then move (index + 1) index (v_len v - index) (v_data v)
         else Some (v_data v));
       d \<leftarrow> store [Some data] d index;
       Some (v\<lparr>v_data := d, v_len := v_len v + 1\<rparr>)
     })"

definition vec_remove :: "'a Vec \<Rightarrow> nat \<Rightarrow> bool \<Rightarrow> ('a Vec \<times> 'a option list) option" where
  "vec_remove v index want =
    (if v_len v = 0 then Some (v, [])
     else if index \<ge> v_len v then Some (v, [])
     else do {
       out \<leftarrow> (if want then load 1 (v_data v) index else Some []);
       let v = v\<lparr>v_len := v_len v - 1\<rparr>;
       d \<leftarrow> (if index < v_len v then move index (index + 1) (v_len v - index) (v_data v)
         else Some (v_data v));
       Some (v\<lparr>v_data := d\<rparr>, out)
     })"

definition vec_clear :: "'a Vec \<Rightarrow> 'a Vec" where
  "vec_clear v = v\<lparr>v_len := 0\<rparr>"

definition vec_extend :: "'a Vec \<Rightarrow> 'a list \<Rightarrow> 'a Vec option" where
  "vec_extend v data =
    (if length data = 0 then Some v
     else do {
       let v = vec_grow v (v_len v + length data);
       d \<leftarrow> store (map Some data) (v_data v) (v_len v);
       Some (v\<lparr>v_data := d, v_len := v_len v + length data\<rparr>)
     })"

section \<open>Refinement of lists\<close>

text \<open>The capacity is the size of the allocation and the slots in use are initialised.\<close>

definition vec_rep :: "'a Vec \<Rightarrow> 'a list \<Rightarrow> bool" where
  "vec_rep v xs \<longleftrightarrow> length (v_data v) = v_cap v \<and> holds (v_data v) (v_len v) xs"

lemma vec_rep_len: "vec_rep v xs \<Longrightarrow> v_len v = length xs"
  by (auto simp: vec_rep_def dest: holds_length)

lemma vec_grow_rep:
  assumes "vec_rep v xs"
  shows "vec_rep (vec_grow v n) xs" and "n \<le> v_cap (vec_grow v n)"
    and "v_len (vec_grow v n) = v_len v" and "v_stride (vec_grow v n) = v_stride v"
  using assms
  by (auto simp: vec_grow_def vec_rep_def Let_def intro!: holds_realloc) (auto simp: holds_def)

lemma vec_cap_rep: "vec_rep (vec_cap s n) []"
  by (simp add: vec_cap_def vec_rep_def holds_def)

lemma vec_extend_rep:
  assumes "vec_rep v xs"
  shows "\<exists>v'. vec_extend v ys = Some v' \<and> vec_rep v' (xs @ ys) \<and> v_stride v' = v_stride v"
proof (cases "ys = []")
  case True
  then show ?thesis using assms by (simp add: vec_extend_def)
next
  case False
  let ?v = "vec_grow v (v_len v + length ys)"
  have h: "holds (v_data ?v) (v_len v) xs" and l: "v_len v + length ys \<le> length (v_data ?v)"
    using vec_grow_rep [OF assms, of "v_len v + length ys"] by (simp_all add: vec_rep_def)
  then show ?thesis
    using False holds_store [OF h order_refl l] vec_grow_rep [OF assms, of "v_len v + length ys"]
      holds_length [OF h]
    by (auto simp: vec_extend_def Let_def vec_rep_def length_put max_def)
qed

lemma vec_push_extend: "vec_push x v = vec_extend v [x]"
  by (simp add: vec_push_def vec_extend_def)

lemma vec_pop_rep:
  assumes "vec_rep v (xs @ [x])"
  shows "\<exists>v'. vec_pop v w = Some (v', if w then [Some x] else []) \<and> vec_rep v' xs"
proof -
  have h: "holds (v_data v) (Suc (length xs)) (xs @ [x])" and n: "v_len v = Suc (length xs)"
    using assms vec_rep_len [OF assms] by (simp_all add: vec_rep_def)
  have "holds (v_data v) (length xs) xs"
    using h by (auto simp: holds_def dest: arg_cong [of _ _ "take (length xs)"])
  then show ?thesis
    using holds_load [OF h, of "length xs" 1] n assms
    by (auto simp: vec_pop_def vec_rep_def)
qed

definition vec_elems :: "'a Vec \<Rightarrow> 'a list" where
  "vec_elems v = map the (take (v_len v) (v_data v))"

lemma vec_elems_rep: "vec_rep v xs \<Longrightarrow> vec_elems v = xs"
  by (simp add: vec_elems_def vec_rep_def holds_def comp_def)

definition vec_inv :: "'a Vec \<Rightarrow> bool" where
  "vec_inv v \<longleftrightarrow> vec_rep v (vec_elems v)"

lemma vec_inv_rep: "vec_rep v xs \<Longrightarrow> vec_inv v"
  by (simp add: vec_inv_def vec_elems_rep)

text \<open>Popping into a variable, and reading through the pointer \<open>vec_get\<close> returns.\<close>

definition vec_pop_elem :: "'a Vec \<Rightarrow> ('a Vec \<times> 'a) option" where
  "vec_pop_elem v = do { (v, out) \<leftarrow> vec_pop v True; case out of [Some x] \<Rightarrow> Some (v, x) | _ \<Rightarrow> None }"

definition vec_get_elem :: "'a Vec \<Rightarrow> nat \<Rightarrow> 'a option" where
  "vec_get_elem v i = do { p \<leftarrow> vec_get v i; s \<leftarrow> load 1 (v_data v) p; hd s }"

interpretation vec_seq: sequence vec_inv vec_elems vec_push vec_pop_elem vec_get_elem
proof (unfold_locales, goal_cases)
  case (1 v x)
  then have "vec_rep v (vec_elems v)" by (simp add: vec_inv_def)
  from vec_extend_rep [OF this, of "[x]"]
  obtain v' where "vec_push x v = Some v'" and r: "vec_rep v' (vec_elems v @ [x])"
    by (auto simp: vec_push_extend)
  then show ?case using vec_elems_rep [OF r] vec_inv_rep [OF r] by simp
next
  case (2 v)
  then obtain ys y where y: "vec_elems v = ys @ [y]" by (metis rev_exhaust)
  with 2 have "vec_rep v (ys @ [y])" by (simp add: vec_inv_def)
  from vec_pop_rep [OF this, of True]
  obtain v' where "vec_pop v True = Some (v', [Some y])" and r: "vec_rep v' ys" by auto
  then show ?case
    using y vec_elems_rep [OF r] vec_inv_rep [OF r] by (simp add: vec_pop_elem_def)
next
  case (3 v i)
  then have r: "vec_rep v (vec_elems v)" by (simp add: vec_inv_def)
  have n: "v_len v = length (vec_elems v)" by (rule vec_rep_len [OF r])
  show ?case
  proof (cases "i < v_len v")
    case True
    then have "load 1 (v_data v) i = Some [Some (vec_elems v ! i)]"
      using holds_load [of "v_data v" "v_len v" "vec_elems v" i 1] r n
      by (simp add: vec_rep_def take_Suc hd_drop_conv_nth)
    with True n show ?thesis by (simp add: vec_get_def vec_get_elem_def)
  qed (use n in \<open>simp add: vec_get_def vec_get_elem_def\<close>)
qed

definition sample_vec :: "nat Vec" where
  "sample_vec = \<lparr>v_data = [Some 3, Some 4, Some 5], v_cap = 3, v_len = 3, v_stride = 8\<rparr>"

lemma sample_vec_rep: "vec_rep sample_vec [3, 4, 5]"
  by (simp add: sample_vec_def vec_rep_def holds_def)

text \<open>
  C23: Inserting refines list insertion: at any index up to the length, the elements before it
  stay, the ones after it move up by one; past the end nothing changes.
\<close>

theorem vec_insert_refines:
  assumes "vec_rep v xs"
  shows "\<exists>v'. vec_insert v x i = Some v' \<and> v_stride v' = v_stride v
    \<and> vec_rep v' (if i \<le> length xs then take i xs @ x # drop i xs else xs)"
proof (cases "i \<le> length xs")
  case False
  then show ?thesis using assms vec_rep_len [OF assms] by (simp add: vec_insert_def)
next
  case True
  let ?v = "vec_grow v (v_len v + 1)" and ?n = "length xs"
  note n = vec_rep_len [OF assms] and g = vec_grow_rep [OF assms, of "v_len v + 1"]
  have h: "holds (v_data ?v) ?n xs" and l: "?n + 1 \<le> length (v_data ?v)"
    using g n by (simp_all add: vec_rep_def)
  obtain d where d: "(if i < ?n then move (i + 1) i (?n - i) (v_data ?v) else Some (v_data ?v)) = Some d"
    "length d = length (v_data ?v)" "take i d = map Some (take i xs)"
    "take (?n - i) (drop (i + 1) d) = map Some (drop i xs)"
  proof (cases "i < ?n")
    case True
    then show ?thesis
      using that move_up [OF h less_imp_le [OF True] l] by metis
  next
    case False
    then have "i = ?n" using True by simp
    then show ?thesis using that [of "v_data ?v"] h by (simp add: holds_def)
  qed
  have "holds (put [Some x] d i) (?n + 1) (take i xs @ x # drop i xs)"
    using d(2-4) True l by (auto simp: holds_def put_def min_def Suc_diff_le)
  moreover have "store [Some x] d i = Some (put [Some x] d i)"
    using d(2) True l by (simp add: store_def)
  ultimately show ?thesis
    using True n g d(1,2) l by (auto simp: vec_insert_def Let_def vec_rep_def length_put)
qed

theorem vec_insert_refines_witness:
  "\<exists>v'. vec_insert sample_vec 9 1 = Some v' \<and> v_stride v' = 8 \<and> vec_rep v' [3, 9, 4, 5]"
  using vec_insert_refines [OF sample_vec_rep, of 9 1] by (simp add: sample_vec_def)

text \<open>
  Removing refines list removal, and what is copied out is the removed element; past the
  end nothing changes.
\<close>

theorem vec_remove_refines:
  assumes "vec_rep v xs"
  shows "\<exists>v'. vec_remove v i want = Some (v', if want \<and> i < length xs then [Some (xs ! i)] else [])
    \<and> vec_rep v' (take i xs @ drop (Suc i) xs)"
proof (cases "i < length xs")
  case False
  then show ?thesis using assms vec_rep_len [OF assms] by (auto simp: vec_remove_def)
next
  case True
  let ?n = "length xs"
  have n: "v_len v = ?n" by (rule vec_rep_len [OF assms])
  have h: "holds (v_data v) ?n xs" using assms n by (simp add: vec_rep_def)
  have "load 1 (v_data v) i = Some [Some (xs ! i)]"
    using holds_load [OF h, of i 1] True by (simp add: take_Suc hd_drop_conv_nth)
  moreover have "\<exists>d. (if i < ?n - 1 then move i (i + 1) (?n - 1 - i) (v_data v) else Some (v_data v)) = Some d
      \<and> length d = length (v_data v) \<and> holds d (?n - 1) (take i xs @ drop (Suc i) xs)"
  proof (cases "i < ?n - 1")
    case False
    then have "i = ?n - 1" using True by simp
    moreover have "take (?n - 1) (v_data v) = map Some (take (?n - 1) xs)" "?n - 1 \<le> length (v_data v)"
      using h by (auto simp: holds_def take_map [symmetric] dest: arg_cong [of _ _ "take (?n - 1)"])
    ultimately show ?thesis using True by (simp add: holds_def)
  next
    case inner: True
    obtain d where "move i (i + 1) (?n - (i + 1)) (v_data v) = Some d" "length d = length (v_data v)"
      "holds d (?n - 1) (take i xs @ drop (i + 1) xs)"
      by (rule move_down [OF h, of i 1]) (use True in simp)
    with inner show ?thesis by (simp add: diff_commute)
  qed
  ultimately show ?thesis
    using True n assms by (auto simp: vec_remove_def Let_def vec_rep_def)
qed

theorem vec_remove_refines_witness:
  "\<exists>v'. vec_remove sample_vec 1 True = Some (v', [Some 4]) \<and> vec_rep v' [3, 5]"
  using vec_remove_refines [OF sample_vec_rep, of 1 True] by simp

text \<open>
  The array is a stack: after pushing the elements of a list, each is at its index, and as
  many pops return them in reverse order and leave the elements there were before.
\<close>

theorem vec_is_a_stack:
  assumes "vec_rep v xs"
  shows "\<exists>v' v''. push_all vec_push ys v = Some v' \<and> vec_rep v' (xs @ ys)
    \<and> pop_many vec_pop_elem (length ys) v' = Some (v'', rev ys) \<and> vec_rep v'' xs"
proof -
  have inv: "vec_inv v" and e: "vec_elems v = xs"
    using vec_inv_rep [OF assms] vec_elems_rep [OF assms] by simp_all
  obtain v' where 1: "push_all vec_push ys v = Some v'" "vec_inv v'" "vec_elems v' = xs @ ys"
    using vec_seq.push_all_ok [OF inv, of ys] e by auto
  obtain v'' where "pop_many vec_pop_elem (length ys) v' = Some (v'', rev ys)" "vec_inv v''" "vec_elems v'' = xs"
    using vec_seq.pop_many_ok [OF 1(2), of "length ys"] 1(3) by auto
  with 1 show ?thesis by (auto simp: vec_inv_def)
qed

theorem vec_is_a_stack_witness:
  "\<exists>v' v''. push_all vec_push [7, 8] sample_vec = Some v' \<and> vec_rep v' [3, 4, 5, 7, 8]
     \<and> pop_many vec_pop_elem 2 v' = Some (v'', [8, 7]) \<and> vec_rep v'' [3, 4, 5]"
  using vec_is_a_stack [OF sample_vec_rep, of "[7, 8]"] by (simp add: numeral_2_eq_2)

end
