(* ===== verification/Vectors.thy ===== *)
theory Vectors
  imports Vec
begin

text \<open>
  The vectors \<^verbatim>\<open>ser/vector_impl.h\<close> generates for an element type: one definition per generated
  function. A pointer that may be \<open>NULL\<close> is an option. A failed \<open>debug_assert\<close> stops the
  program, and is \<^const>\<open>None\<close> like an access outside the allocation. The elements the type's
  destructor is called on, in order, are part of the result of the operations that call it.
\<close>

record 'a Vector =
  data :: "'a option list option"
  len :: nat
  cap :: nat

definition slots :: "'a Vector \<Rightarrow> 'a option list" where
  "slots vec = (case data vec of None \<Rightarrow> [] | Some d \<Rightarrow> d)"

text \<open>Writing through the pointer leaves a \<open>NULL\<close> one alone: nothing was stored.\<close>

definition with_slots :: "'a Vector \<Rightarrow> 'a option list \<Rightarrow> 'a Vector" where
  "with_slots vec d = (case data vec of None \<Rightarrow> vec | Some _ \<Rightarrow> vec\<lparr>data := Some d\<rparr>)"

lemma with_slots_simps [simp]:
  "length d = length (slots vec) \<Longrightarrow> slots (with_slots vec d) = d"
  "len (with_slots vec d) = len vec" "cap (with_slots vec d) = cap vec"
  by (auto simp: with_slots_def slots_def split: option.split)

definition vector_init :: "'a Vector" where
  "vector_init = \<lparr>data = None, len = 0, cap = 0\<rparr>"

definition vector_drop :: "'a Vector \<Rightarrow> 'a option list option" where
  "vector_drop vec = load (len vec) (slots vec) 0"

definition vector_grow :: "'a Vector \<Rightarrow> nat \<Rightarrow> 'a Vector" where
  "vector_grow vec n =
    (if n \<le> cap vec then vec
     else if data vec = None \<or> cap vec = 0 then vec\<lparr>data := Some (replicate n None), cap := n\<rparr>
     else let n = (if n < 2 * cap vec then 2 * cap vec else n);
              n = (if n < 4 then 4 else n)
       in vec\<lparr>data := Some (realloc (slots vec) n), cap := n\<rparr>)"

definition vector_init_with_cap :: "nat \<Rightarrow> 'a Vector" where
  "vector_init_with_cap n = vector_grow vector_init n"

text \<open>\<open>realloc(vec->data, vec->len)\<close>: a size in bytes, so \<open>len / sizeof(T)\<close> whole elements.\<close>

definition vector_shrink :: "nat \<Rightarrow> 'a Vector \<Rightarrow> 'a Vector" where
  "vector_shrink sz vec =
    (if len vec > 0 then vec\<lparr>data := Some (realloc (slots vec) (len vec div sz)), cap := len vec\<rparr>
     else vec\<lparr>data := None, cap := 0\<rparr>)"

definition vector_push :: "'a \<Rightarrow> 'a Vector \<Rightarrow> 'a Vector option" where
  "vector_push val vec = do {
     let vec = vector_grow vec (len vec + 1);
     d \<leftarrow> store [Some val] (slots vec) (len vec);
     Some (vec\<lparr>data := Some d, len := len vec + 1\<rparr>)
   }"

definition vector_push_array :: "'a Vector \<Rightarrow> 'a list \<Rightarrow> 'a Vector option" where
  "vector_push_array vec vals = do {
     let vec = vector_grow vec (len vec + length vals);
     if vals = [] then Some vec
     else do {
       d \<leftarrow> store (map Some vals) (slots vec) (len vec);
       Some (vec\<lparr>data := Some d, len := len vec + length vals\<rparr>)
     }
   }"

text \<open>\<open>clone\<close> copies the source's slots; \<open>those\<close> fails on one that was never written.\<close>

definition vector_clone :: "'a Vector \<Rightarrow> 'a Vector option" where
  "vector_clone vec =
    (if len vec = 0 then Some vector_init
     else do {
       let res = vector_grow vector_init (len vec);
       vals \<leftarrow> load (len vec) (slots vec) 0;
       vals \<leftarrow> those vals;
       vector_push_array res vals
     })"

text \<open>The result flag, the vector, the slot copied to \<open>val\<close> and the element dropped instead.\<close>

definition vector_pop_opt ::
    "'a Vector \<Rightarrow> bool \<Rightarrow> (bool \<times> 'a Vector \<times> 'a option list \<times> 'a option list) option" where
  "vector_pop_opt vec want =
    (if len vec = 0 then Some (False, vec, [], [])
     else do {
       let vec = vec\<lparr>len := len vec - 1\<rparr>;
       s \<leftarrow> load 1 (slots vec) (len vec);
       Some (if want then (True, vec, s, []) else (True, vec, [], s))
     })"

definition vector_pop :: "'a Vector \<Rightarrow> ('a Vector \<times> 'a) option" where
  "vector_pop vec =
    (if len vec > 0 then do {
       s \<leftarrow> load 1 (slots vec) (len vec - 1);
       x \<leftarrow> hd s;
       Some (vec\<lparr>len := len vec - 1\<rparr>, x)
     } else None)"

definition vector_clear :: "'a Vector \<Rightarrow> ('a Vector \<times> 'a option list) option" where
  "vector_clear vec = do { ds \<leftarrow> load (len vec) (slots vec) 0; Some (vec\<lparr>len := 0\<rparr>, ds) }"

definition vector_get :: "'a Vector \<Rightarrow> nat \<Rightarrow> 'a option" where
  "vector_get vec index =
    (if index < len vec then do { s \<leftarrow> load 1 (slots vec) index; hd s } else None)"

definition vector_get_opt :: "'a Vector \<Rightarrow> nat \<Rightarrow> bool \<Rightarrow> (bool \<times> 'a option list) option" where
  "vector_get_opt vec index want =
    (if index \<ge> len vec then Some (False, [])
     else if want then do { s \<leftarrow> load 1 (slots vec) index; Some (True, s) }
     else Some (True, []))"

definition vector_take :: "'a Vector \<Rightarrow> nat \<Rightarrow> ('a Vector \<times> 'a) option" where
  "vector_take vec index =
    (if index < len vec then do {
       s \<leftarrow> load 1 (slots vec) index;
       res \<leftarrow> hd s;
       d \<leftarrow> (if index \<noteq> len vec - 1 then move index (index + 1) (len vec - index) (slots vec)
         else Some (slots vec));
       Some (vec\<lparr>data := Some d, len := len vec - 1\<rparr>, res)
     } else None)"

definition vector_fill_range :: "'a Vector \<Rightarrow> nat \<Rightarrow> nat \<Rightarrow> 'a \<Rightarrow> 'a Vector option" where
  "vector_fill_range vec from to item =
    (if from \<le> len vec then do {
       let vec = vector_grow vec to;
       d \<leftarrow> (if from < to then store (replicate (to - from) (Some item)) (slots vec) from
         else Some (slots vec));
       Some ((with_slots vec d)\<lparr>len := (if len vec > to then len vec else to)\<rparr>)
     } else None)"

definition vector_fill :: "'a Vector \<Rightarrow> 'a \<Rightarrow> 'a Vector option" where
  "vector_fill vec item = vector_fill_range vec 0 (len vec) item"

definition vector_insert :: "'a Vector \<Rightarrow> nat \<Rightarrow> 'a \<Rightarrow> 'a Vector option" where
  "vector_insert vec index val =
    (if index \<le> len vec then do {
       let vec = vector_grow vec (len vec + 1);
       d \<leftarrow> (if index < len vec then move (index + 1) index (len vec - index) (slots vec)
         else Some (slots vec));
       d \<leftarrow> store [Some val] d index;
       Some (vec\<lparr>data := Some d, len := len vec + 1\<rparr>)
     } else None)"

definition vector_insert_array :: "'a Vector \<Rightarrow> nat \<Rightarrow> 'a list \<Rightarrow> 'a Vector option" where
  "vector_insert_array vec index vals =
    (if index \<le> len vec then do {
       let vec = vector_grow vec (len vec + length vals);
       d \<leftarrow> (if index < len vec then move (index + length vals) index (len vec - index) (slots vec)
         else Some (slots vec));
       d \<leftarrow> store (map Some vals) d index;
       Some ((with_slots vec d)\<lparr>len := len vec + length vals\<rparr>)
     } else None)"

definition vector_set_array :: "'a Vector \<Rightarrow> nat \<Rightarrow> 'a list \<Rightarrow> 'a Vector option" where
  "vector_set_array vec index vals =
    (if index \<le> len vec then do {
       let vec = vector_grow vec (index + length vals);
       d \<leftarrow> store (map Some vals) (slots vec) index;
       Some ((with_slots vec d)\<lparr>
         len := (if len vec > index + length vals then len vec else index + length vals)\<rparr>)
     } else None)"

definition vector_splice :: "'a Vector \<Rightarrow> nat \<Rightarrow> nat \<Rightarrow> 'a Vector option" where
  "vector_splice vec index count =
    (if index < len vec then
       if count = 0 then Some vec
       else do {
         d \<leftarrow> (if index + count < len vec then move index (index + count) (len vec - index - count) (slots vec)
           else Some (slots vec));
         Some (vec\<lparr>data := Some d, len := len vec - count\<rparr>)
       }
     else None)"

section \<open>Refinement of lists\<close>

definition vector_rep :: "'a Vector \<Rightarrow> 'a list \<Rightarrow> bool" where
  "vector_rep vec xs \<longleftrightarrow> length (slots vec) = cap vec \<and> holds (slots vec) (len vec) xs"

lemma vector_rep_len: "vector_rep vec xs \<Longrightarrow> len vec = length xs"
  by (auto simp: vector_rep_def dest: holds_length)

lemma slots_simps [simp]:
  "slots (vec\<lparr>data := Some d\<rparr>) = d" "slots (vec\<lparr>len := n\<rparr>) = slots vec"
  "slots (vec\<lparr>data := Some d, len := n\<rparr>) = d" "slots (vec\<lparr>data := Some d, cap := n\<rparr>) = d"
  "slots (vec\<lparr>data := Some d, len := n, cap := k\<rparr>) = d"
  by (simp_all add: slots_def)

lemma vector_init_rep: "vector_rep vector_init []"
  by (simp add: vector_init_def vector_rep_def slots_def holds_def)

lemma vector_grow_rep:
  assumes "vector_rep vec xs"
  shows "vector_rep (vector_grow vec n) xs" and "n \<le> cap (vector_grow vec n)"
    and "len (vector_grow vec n) = len vec"
proof -
  have "xs = []" if "data vec = None \<or> cap vec = 0"
    using assms that by (auto simp: vector_rep_def slots_def holds_def)
  then show "vector_rep (vector_grow vec n) xs" and "n \<le> cap (vector_grow vec n)"
    and "len (vector_grow vec n) = len vec"
    using assms vector_rep_len [OF assms]
    by (auto simp: vector_grow_def vector_rep_def Let_def intro!: holds_realloc) (auto simp: holds_def)
qed

lemma vector_push_rep:
  assumes "vector_rep vec xs"
  shows "\<exists>vec'. vector_push x vec = Some vec' \<and> vector_rep vec' (xs @ [x])"
proof -
  let ?v = "vector_grow vec (len vec + 1)"
  have h: "holds (slots ?v) (len vec) xs" and l: "len vec + length [x] \<le> length (slots ?v)"
    using vector_grow_rep [OF assms, of "len vec + 1"] by (simp_all add: vector_rep_def)
  then show ?thesis
    using holds_store [OF h order_refl l] vector_grow_rep [OF assms, of "len vec + 1"] holds_length [OF h]
    by (auto simp: vector_push_def Let_def vector_rep_def length_put max_def)
qed

lemma vector_pop_rep:
  assumes "vector_rep vec (xs @ [x])"
  shows "\<exists>vec'. vector_pop vec = Some (vec', x) \<and> vector_rep vec' xs"
proof -
  have h: "holds (slots vec) (Suc (length xs)) (xs @ [x])" and n: "len vec = Suc (length xs)"
    using assms vector_rep_len [OF assms] by (simp_all add: vector_rep_def)
  have "holds (slots vec) (length xs) xs"
    using h by (auto simp: holds_def dest: arg_cong [of _ _ "take (length xs)"])
  then show ?thesis
    using holds_load [OF h, of "length xs" 1] n assms
    by (auto simp: vector_pop_def vector_rep_def)
qed

lemma vector_get_rep:
  assumes "vector_rep vec xs"
  shows "vector_get vec i = (if i < length xs then Some (xs ! i) else None)"
proof (cases "i < length xs")
  case True
  then have "load 1 (slots vec) i = Some [Some (xs ! i)]"
    using holds_load [of "slots vec" "len vec" xs i 1] assms vector_rep_len [OF assms]
    by (simp add: vector_rep_def take_Suc hd_drop_conv_nth)
  with True show ?thesis using vector_rep_len [OF assms] by (simp add: vector_get_def)
qed (simp add: vector_get_def vector_rep_len [OF assms])

definition vector_elems :: "'a Vector \<Rightarrow> 'a list" where
  "vector_elems vec = map the (take (len vec) (slots vec))"

definition vector_inv :: "'a Vector \<Rightarrow> bool" where
  "vector_inv vec \<longleftrightarrow> vector_rep vec (vector_elems vec)"

lemma vector_elems_rep: "vector_rep vec xs \<Longrightarrow> vector_elems vec = xs"
  by (simp add: vector_elems_def vector_rep_def holds_def comp_def)

lemma vector_inv_rep: "vector_rep vec xs \<Longrightarrow> vector_inv vec"
  by (simp add: vector_inv_def vector_elems_rep)

interpretation vector_seq: sequence vector_inv vector_elems vector_push vector_pop vector_get
proof (unfold_locales, goal_cases)
  case (1 v x)
  then have "vector_rep v (vector_elems v)" by (simp add: vector_inv_def)
  from vector_push_rep [OF this, of x]
  obtain v' where "vector_push x v = Some v'" and r: "vector_rep v' (vector_elems v @ [x])" by auto
  then show ?case using vector_elems_rep [OF r] vector_inv_rep [OF r] by simp
next
  case (2 v)
  then obtain ys y where y: "vector_elems v = ys @ [y]" by (metis rev_exhaust)
  with 2 have "vector_rep v (ys @ [y])" by (simp add: vector_inv_def)
  from vector_pop_rep [OF this]
  obtain v' where "vector_pop v = Some (v', y)" and r: "vector_rep v' ys" by auto
  then show ?case using y vector_elems_rep [OF r] vector_inv_rep [OF r] by simp
next
  case (3 v i)
  then show ?case using vector_get_rep [of v "vector_elems v" i] by (simp add: vector_inv_def)
qed

definition sample_vector :: "nat Vector" where
  "sample_vector = \<lparr>data = Some [Some 3, Some 4, Some 5], len = 3, cap = 3\<rparr>"

lemma sample_vector_rep: "vector_rep sample_vector [3, 4, 5]"
  by (simp add: sample_vector_def vector_rep_def holds_def slots_def)

text \<open>
  C24: Inserting an array refines inserting a list at the index; an index past the end stops
  the program.
\<close>

theorem vector_insert_array_refines:
  assumes "vector_rep vec xs"
  shows "if i \<le> length xs
    then \<exists>vec'. vector_insert_array vec i vals = Some vec' \<and> vector_rep vec' (take i xs @ vals @ drop i xs)
    else vector_insert_array vec i vals = None"
proof (cases "i \<le> length xs")
  case False
  then show ?thesis using vector_rep_len [OF assms] by (simp add: vector_insert_array_def)
next
  case True
  let ?n = "length xs" and ?k = "length vals"
  let ?v = "vector_grow vec (?n + ?k)"
  note n = vector_rep_len [OF assms] and g = vector_grow_rep [OF assms, of "?n + ?k"]
  have h: "holds (slots ?v) ?n xs" and l: "?n + ?k \<le> length (slots ?v)"
    using g n by (simp_all add: vector_rep_def)
  obtain d where d: "(if i < ?n then move (i + ?k) i (?n - i) (slots ?v) else Some (slots ?v)) = Some d"
    "length d = length (slots ?v)" "take i d = map Some (take i xs)"
    "take (?n - i) (drop (i + ?k) d) = map Some (drop i xs)"
  proof (cases "i < ?n")
    case True
    then show ?thesis
      using that move_up [OF h less_imp_le [OF True] l] by metis
  next
    case False
    then have "i = ?n" using True by simp
    then show ?thesis using that [of "slots ?v"] h by (simp add: holds_def)
  qed
  have hp: "holds (put (map Some vals) d i) (?n + ?k) (take i xs @ vals @ drop i xs)"
    using d(2-4) True l by (auto simp: holds_def put_def min_def)
  have st: "store (map Some vals) d i = Some (put (map Some vals) d i)"
    and lp: "length (put (map Some vals) d i) = length d"
    using d(2) True l by (simp_all add: store_def length_put)
  then show ?thesis
    using True n g d(1,2) hp st lp
    by (auto simp: vector_insert_array_def Let_def vector_rep_def)
qed

theorem vector_insert_array_refines_witness:
  "\<exists>vec'. vector_insert_array sample_vector 2 [8, 9] = Some vec' \<and> vector_rep vec' [3, 4, 8, 9, 5]"
  using vector_insert_array_refines [OF sample_vector_rep, of 2 "[8, 9]"] by (simp add: numeral_2_eq_2)

text \<open>
  Taking an element out moves one element too many: from a full vector, unless the last
  element is taken, the move reads past the allocation. Otherwise it refines list removal.
\<close>

theorem vector_take_overread:
  assumes "vector_rep vec xs" and "i < length xs"
  shows "if Suc i < length xs \<and> len vec = cap vec then vector_take vec i = None
    else \<exists>vec'. vector_take vec i = Some (vec', xs ! i) \<and> vector_rep vec' (take i xs @ drop (Suc i) xs)"
proof -
  let ?n = "length xs"
  have n: "len vec = ?n" by (rule vector_rep_len [OF assms(1)])
  have h: "holds (slots vec) ?n xs" and c: "length (slots vec) = cap vec"
    using assms n by (simp_all add: vector_rep_def)
  have s: "load 1 (slots vec) i = Some [Some (xs ! i)]"
    using holds_load [OF h, of i 1] assms(2) by (simp add: take_Suc hd_drop_conv_nth)
  consider "Suc i < ?n" "?n = cap vec" | "Suc i < ?n" "?n < cap vec" | "Suc i = ?n"
    using assms(2) h c by (fastforce simp: holds_def)
  then show ?thesis
  proof cases
    case 1
    then show ?thesis using n c s by (auto simp: vector_take_def move_def load_def)
  next
    case 2
    have "load (?n - i) (slots vec) (i + 1) = Some (take (?n - i) (drop (i + 1) (slots vec)))"
      using 2 c by (simp add: load_def)
    moreover define e where "e = take (?n - i) (drop (i + 1) (slots vec))"
    moreover have le: "length e = ?n - i" using 2 c by (simp add: e_def)
    moreover have te: "take (?n - Suc i) e = map Some (drop (Suc i) xs)"
      using h 2 by (simp add: e_def holds_def min_def) (metis drop_map drop_take)
    ultimately have mv: "move i (i + 1) (?n - i) (slots vec) = Some (put e (slots vec) i)"
      using 2 c by (simp add: move_def store_def)
    have "take i (slots vec) = map Some (take i xs)"
      using h 2 by (metis holds_def take_take min.absorb1 take_map less_imp_le Suc_lessD)
    then have "holds (put e (slots vec) i) (?n - 1) (take i xs @ drop (Suc i) xs)"
      using 2 c le te by (auto simp: holds_def put_def min_def)
    then show ?thesis
      using 2 n c s mv le by (auto simp: vector_take_def vector_rep_def length_put)
  next
    case 3
    then obtain ys where ys: "xs = ys @ [xs ! i]" "length ys = i"
      by (metis append_butlast_last_id diff_Suc_1 last_conv_nth length_butlast length_0_conv nat.simps(3))
    have "holds (slots vec) i ys"
      using h ys 3 by (metis holds_def Suc_leD butlast_snoc butlast_take diff_Suc_1 map_butlast le_refl)
    moreover have "i = ?n - 1" "take i xs = ys" using 3 ys by (simp_all, metis append_eq_conv_conj)
    ultimately show ?thesis
      using 3 n c s by (auto simp: vector_take_def vector_rep_def)
  qed
qed

theorem vector_take_overread_witness: "vector_take sample_vector 0 = None"
  using vector_take_overread [OF sample_vector_rep, of 0] by (simp add: sample_vector_def)

text \<open>
  Shrinking reallocates to as many bytes as there are elements: unless elements are one
  byte wide, the last element is no longer inside the allocation although capacity and length
  say it is.
\<close>

theorem vector_shrink_loses_elements:
  assumes "vector_rep vec xs" and "xs \<noteq> []" and "1 < sz"
  shows "cap (vector_shrink sz vec) = length xs \<and> len (vector_shrink sz vec) = length xs
    \<and> vector_get (vector_shrink sz vec) (length xs - 1) = None"
proof -
  have "length xs div sz < length xs" using assms(2,3) by simp
  then show ?thesis
    using assms(2) vector_rep_len [OF assms(1)]
    by (auto simp: vector_shrink_def vector_get_def load_def)
qed

theorem vector_shrink_loses_elements_witness:
  "vector_get (vector_shrink 8 sample_vector) 2 = None"
  using vector_shrink_loses_elements [OF sample_vector_rep, of 8] by (simp add: numeral_2_eq_2)

end
