(* ===== verification/Hashmap.thy ===== *)
theory Hashmap
  imports Prelude
begin

text \<open>
  The open-addressing hash table of \<^verbatim>\<open>ser/hashmap.c\<close>. A bucket pointer is a bucket index, the
  function pointers are fields holding functions. The item of a bucket that was never written
  is \<^const>\<open>None\<close>; its hash, which no operation reads, is 0. Sizes are natural numbers (the
  table fits the address space). Destructor calls are part of the results.
\<close>

section \<open>The hash function\<close>

definition rotl :: "u32 \<Rightarrow> nat \<Rightarrow> u32" where
  "rotl x b = push_bit b x OR drop_bit (32 - b) x"

type_synonym sip_state = "u32 \<times> u32 \<times> u32 \<times> u32"

definition sipround :: "sip_state \<Rightarrow> sip_state" where
  "sipround = (\<lambda>(v0, v1, v2, v3).
     let v0 = v0 + v1;
         v1 = rotl v1 5;
         v1 = v1 XOR v0;
         v0 = rotl v0 16;
         v2 = v2 + v3;
         v3 = rotl v3 8;
         v3 = v3 XOR v2;
         v0 = v0 + v3;
         v3 = rotl v3 7;
         v3 = v3 XOR v0;
         v2 = v2 + v1;
         v1 = rotl v1 13;
         v1 = v1 XOR v2;
         v2 = rotl v2 16
     in (v0, v1, v2, v3))"

fun hash_blocks :: "sip_state \<Rightarrow> byte list \<Rightarrow> sip_state \<times> byte list" where
  "hash_blocks (v0, v1, v2, v3) (d0 # d1 # d2 # d3 # ds) =
     (let m = le_val [d0, d1, d2, d3];
          (v0, v1, v2, v3) = sipround (sipround (v0, v1, v2, v3 XOR m))
      in hash_blocks (v0 XOR m, v1, v2, v3) ds)"
| "hash_blocks v ds = (v, ds)"

text \<open>The switch on the bytes left over, each case falling through to the next.\<close>

fun hash_left :: "u32 \<Rightarrow> byte list \<Rightarrow> u32" where
  "hash_left b [d0, d1, d2] = b OR push_bit 16 (ucast d2) OR push_bit 8 (ucast d1) OR ucast d0"
| "hash_left b [d0, d1] = b OR push_bit 8 (ucast d1) OR ucast d0"
| "hash_left b [d0] = b OR ucast d0"
| "hash_left b ds = b"

definition hash :: "u64 \<Rightarrow> byte list \<Rightarrow> u32" where
  "hash key data =
    (let k0 = ucast key; k1 = ucast (drop_bit 32 key);
         b = push_bit 24 (of_nat (length data));
         ((v0, v1, v2, v3), left) =
           hash_blocks (k0, k1, 0x6c796765 XOR k0, 0x74656462 XOR k1) data;
         b = hash_left b left;
         (v0, v1, v2, v3) =
           sipround (sipround (sipround (sipround (v0, v1, v2 XOR 0xff, v3 XOR b))))
     in v1 XOR v3)"

text \<open>\<open>hasher_init\<close> computes a key from the clock and returns a constant instead.\<close>

definition hasher_init :: u64 where "hasher_init = 113223440"

section \<open>The table\<close>

record 'a Bucket =
  b_hash :: u32
  b_occupied :: bool
  b_item :: "'a option"

record 'a Hashmap =
  h_size :: nat
  h_aligned_size :: nat
  h_entry_size :: nat
  h_cap :: nat
  h_mask :: nat
  h_count :: nat
  h_max :: nat
  h_state :: u64
  h_buckets :: "'a Bucket list"
  h_hash :: "u64 \<Rightarrow> 'a \<Rightarrow> u32"
  h_equal :: "'a \<Rightarrow> 'a \<Rightarrow> bool"
  h_drop :: bool

definition HASHMAP_BASE_CAP :: nat where "HASHMAP_BASE_CAP = 64"
definition MAX_ITEMS :: "nat \<Rightarrow> nat" where "MAX_ITEMS cap = cap div 2"
definition sizeof_Bucket :: nat where "sizeof_Bucket = 8"

definition empty_bucket :: "'a Bucket" where
  "empty_bucket = \<lparr>b_hash = 0, b_occupied = False, b_item = None\<rparr>"

definition hashmap_init ::
    "(u64 \<Rightarrow> 'a \<Rightarrow> u32) \<Rightarrow> ('a \<Rightarrow> 'a \<Rightarrow> bool) \<Rightarrow> bool \<Rightarrow> nat \<Rightarrow> 'a Hashmap" where
  "hashmap_init hash_fn equal has_drop data_size =
    (let aligned_size = unat (push_bit 3 (drop_bit 3 (of_nat data_size - 1) + 1) :: u64) in
     \<lparr>h_size = data_size, h_aligned_size = aligned_size, h_entry_size = sizeof_Bucket + aligned_size,
      h_cap = HASHMAP_BASE_CAP, h_mask = HASHMAP_BASE_CAP - 1, h_count = 0,
      h_max = MAX_ITEMS HASHMAP_BASE_CAP, h_state = hasher_init,
      h_buckets = replicate HASHMAP_BASE_CAP empty_bucket,
      h_hash = hash_fn, h_equal = equal, h_drop = has_drop\<rparr>)"

text \<open>The next bucket: past the last one the scan goes on at the first.\<close>

definition next_index :: "'b list \<Rightarrow> nat \<Rightarrow> nat" where
  "next_index bs i = (if i + 1 \<ge> length bs then 0 else i + 1)"

text \<open>
  The loop of \<open>hashmap_bucket\<close>. Nothing changes between two visits of a bucket, so a loop that
  has taken as many steps as there are buckets never ends: the fuel is the number of buckets,
  and \<^const>\<open>None\<close> is an endless loop (or a comparison with an item never written).
\<close>

fun probe :: "('a \<Rightarrow> 'a \<Rightarrow> bool) \<Rightarrow> 'a Bucket list \<Rightarrow> 'a \<Rightarrow> u32 \<Rightarrow> nat \<Rightarrow> nat \<Rightarrow> nat option" where
  "probe equal bs item h i 0 = None"
| "probe equal bs item h i (Suc n) =
    (let b = bs ! i in
     if \<not> b_occupied b then Some i
     else if b_hash b \<noteq> h then probe equal bs item h (next_index bs i) n
     else do {
       y \<leftarrow> b_item b;
       if \<not> equal item y then probe equal bs item h (next_index bs i) n else Some i
     })"

definition hashmap_bucket :: "'a Hashmap \<Rightarrow> 'a \<Rightarrow> u32 \<Rightarrow> nat option" where
  "hashmap_bucket m item h =
     probe (h_equal m) (h_buckets m) item h (unat (h AND of_nat (h_mask m))) (length (h_buckets m))"

text \<open>The flag \<open>replace\<close>, the table and the items dropped.\<close>

definition hashmap_insert :: "'a Hashmap \<Rightarrow> 'a \<Rightarrow> u32 \<Rightarrow> (bool \<times> 'a Hashmap \<times> 'a option list) option" where
  "hashmap_insert m item h = do {
     i \<leftarrow> hashmap_bucket m item h;
     let bucket = h_buckets m ! i;
     let replace = b_occupied bucket;
     let dropped = (if h_drop m \<and> replace then [b_item bucket] else []);
     let m = m\<lparr>h_buckets := (h_buckets m)[i := \<lparr>b_hash = h, b_occupied = True, b_item = Some item\<rparr>],
       h_count := (if \<not> replace then h_count m + 1 else h_count m)\<rparr>;
     Some (replace, m, dropped)
   }"

fun insert_old :: "'a Hashmap \<Rightarrow> 'a Bucket list \<Rightarrow> 'a Hashmap option" where
  "insert_old m [] = Some m"
| "insert_old m (b # bs) =
    (if b_occupied b then do {
       item \<leftarrow> b_item b;
       (_, m, _) \<leftarrow> hashmap_insert m item (b_hash b);
       insert_old m bs
     } else insert_old m bs)"

definition hashmap_grow :: "'a Hashmap \<Rightarrow> 'a Hashmap option" where
  "hashmap_grow m =
    (let cap = h_cap m * 2 in
     insert_old (m\<lparr>h_cap := cap, h_mask := cap - 1, h_count := 0, h_max := MAX_ITEMS cap,
       h_buckets := replicate cap empty_bucket\<rparr>) (h_buckets m))"

definition hashmap_set :: "'a Hashmap \<Rightarrow> 'a \<Rightarrow> (bool \<times> 'a Hashmap \<times> 'a option list) option" where
  "hashmap_set m item = do {
     m \<leftarrow> (if h_count m \<ge> h_max m then hashmap_grow m else Some m);
     hashmap_insert m item (h_hash m (h_state m) item)
   }"

text \<open>The inner option is the pointer returned, \<open>NULL\<close> or that of a bucket's item.\<close>

definition hashmap_get :: "'a Hashmap \<Rightarrow> 'a \<Rightarrow> nat option option" where
  "hashmap_get m key = do {
     i \<leftarrow> hashmap_bucket m key (h_hash m (h_state m) key);
     Some (if \<not> b_occupied (h_buckets m ! i) then None else Some i)
   }"

definition hashmap_has :: "'a Hashmap \<Rightarrow> 'a \<Rightarrow> bool option" where
  "hashmap_has m key = do {
     i \<leftarrow> hashmap_bucket m key (h_hash m (h_state m) key);
     Some (b_occupied (h_buckets m ! i))
   }"

text \<open>
  The loops of \<open>hashmap_take\<close>: skipping the buckets whose home is past the hole, and moving
  the others down. Each is given as many steps as there are buckets.
\<close>

fun take_skip :: "nat \<Rightarrow> 'a Bucket list \<Rightarrow> nat \<Rightarrow> nat \<Rightarrow> nat \<Rightarrow> nat option" where
  "take_skip msk bs index n 0 = None"
| "take_skip msk bs index n (Suc k) =
    (if b_occupied (bs ! n) \<and> unat (b_hash (bs ! n) AND of_nat msk) > index
     then take_skip msk bs index (next_index bs n) k else Some n)"

fun take_shift :: "nat \<Rightarrow> 'a Bucket list \<Rightarrow> nat \<Rightarrow> nat \<Rightarrow> 'a Bucket list option" where
  "take_shift msk bs index 0 = None"
| "take_shift msk bs index (Suc k) = do {
     n \<leftarrow> take_skip msk bs index (next_index bs index) (length bs);
     if \<not> b_occupied (bs ! n) then Some (bs[index := (bs ! index)\<lparr>b_occupied := False\<rparr>])
     else take_shift msk (bs[index := bs ! n]) n k
   }"

text \<open>
  The flag, the table, the item copied to \<open>dst\<close> (if \<open>want\<close>, a non-\<open>NULL\<close> pointer) and the
  items dropped.
\<close>

definition hashmap_take ::
    "'a Hashmap \<Rightarrow> 'a \<Rightarrow> bool \<Rightarrow> (bool \<times> 'a Hashmap \<times> 'a option list \<times> 'a option list) option" where
  "hashmap_take m key want = do {
     i \<leftarrow> hashmap_bucket m key (h_hash m (h_state m) key);
     if \<not> b_occupied (h_buckets m ! i) then Some (False, m, [], [])
     else do {
       let item = b_item (h_buckets m ! i);
       bs \<leftarrow> take_shift (h_mask m) (h_buckets m) i (length (h_buckets m));
       Some (True, m\<lparr>h_count := h_count m - 1, h_buckets := bs\<rparr>,
         if want then [item] else [], if \<not> want \<and> h_drop m then [item] else [])
     }
   }"

definition hashmap_delete :: "'a Hashmap \<Rightarrow> 'a \<Rightarrow> (bool \<times> 'a Hashmap \<times> 'a option list \<times> 'a option list) option" where
  "hashmap_delete m key = hashmap_take m key False"

definition hashmap_clear :: "'a Hashmap \<Rightarrow> 'a Hashmap \<times> 'a option list" where
  "hashmap_clear m =
    (if h_count m = 0 then (m, [])
     else (m\<lparr>h_buckets := map (\<lambda>b. b\<lparr>b_occupied := False\<rparr>) (h_buckets m), h_count := 0\<rparr>,
           if h_drop m then map b_item (h_buckets m) else []))"

text \<open>Iteration: the scan for the next occupied bucket, with and without the bound check.\<close>

fun iter_scan :: "'a Bucket list \<Rightarrow> nat \<Rightarrow> nat option" where
  "iter_scan [] i = None"
| "iter_scan (b # bs) i = (if \<not> b_occupied b then iter_scan bs (i + 1) else Some i)"

definition hashmap_iter :: "'a Hashmap \<Rightarrow> nat option \<Rightarrow> (bool \<times> nat option) option" where
  "hashmap_iter m iter = (case iter of
     None \<Rightarrow>
       if h_count m = 0 then Some (False, iter)
       else do { i \<leftarrow> iter_scan (h_buckets m) 0; Some (True, Some i) }
   | Some i \<Rightarrow>
       if i + 1 \<ge> length (h_buckets m) then Some (False, iter)
       else Some (case iter_scan (drop (i + 1) (h_buckets m)) (i + 1) of
           None \<Rightarrow> (False, iter) | Some j \<Rightarrow> (True, Some j)))"

definition hashmap_drop :: "'a Hashmap \<Rightarrow> 'a option list" where
  "hashmap_drop m = (if h_drop m then map b_item (filter b_occupied (h_buckets m)) else [])"

end
