(* ===== verification/Hashmap_Correct.thy ===== *)
theory Hashmap_Correct
  imports Hashmap
begin

text \<open>
  The hash table as a set of items without duplicates up to the key equality. The locale
  \<open>keyed\<close> is what the table asks of its hash and equality functions; under it every probe
  ends, a lookup finds exactly the matching item, and setting an item refines the update of the
  set, growth included. Taking an item is correct as long as no cluster wraps around the end.
\<close>

locale keyed =
  fixes S :: "'a set" and hf :: "'a \<Rightarrow> u32" and eq :: "'a \<Rightarrow> 'a \<Rightarrow> bool"
  assumes eq_refl: "eq x x"
    and eq_sym: "eq x y \<Longrightarrow> eq y x"
    and eq_trans: "eq x y \<Longrightarrow> eq y z \<Longrightarrow> eq x z"
    and eq_hash: "x \<in> S \<Longrightarrow> y \<in> S \<Longrightarrow> eq x y \<Longrightarrow> hf x = hf y"

section \<open>The representation invariant\<close>

definition home :: "'a Bucket list \<Rightarrow> nat \<Rightarrow> nat" where
  "home bs i = unat (b_hash (bs ! i)) mod length bs"

definition occ :: "'a Bucket list \<Rightarrow> nat \<Rightarrow> bool" where
  "occ bs i \<longleftrightarrow> b_occupied (bs ! i)"

text \<open>Every bucket from \<open>s\<close> on, for \<open>n\<close> steps around the table, is occupied.\<close>

definition run :: "'a Bucket list \<Rightarrow> nat \<Rightarrow> nat \<Rightarrow> bool" where
  "run bs s n \<longleftrightarrow> (\<forall>d<n. occ bs ((s + d) mod length bs))"

definition table_ok :: "('a \<Rightarrow> u32) \<Rightarrow> ('a \<Rightarrow> 'a \<Rightarrow> bool) \<Rightarrow> 'a Bucket list \<Rightarrow> bool" where
  "table_ok hf eq bs \<longleftrightarrow>
     (\<forall>i<length bs. occ bs i \<longrightarrow> (\<exists>y. b_item (bs ! i) = Some y \<and> b_hash (bs ! i) = hf y)
        \<and> (\<exists>n<length bs. i = (home bs i + n) mod length bs \<and> run bs (home bs i) n))
   \<and> (\<forall>i<length bs. \<forall>j<length bs. occ bs i \<longrightarrow> occ bs j
        \<longrightarrow> eq (the (b_item (bs ! i))) (the (b_item (bs ! j))) \<longrightarrow> i = j)"

definition items :: "'a Bucket list \<Rightarrow> 'a set" where
  "items bs = {y. \<exists>i<length bs. occ bs i \<and> b_item (bs ! i) = Some y}"

definition occupied :: "'a Bucket list \<Rightarrow> nat" where
  "occupied bs = card {i. i < length bs \<and> occ bs i}"

definition hashmap_ok :: "'a Hashmap \<Rightarrow> bool" where
  "hashmap_ok m \<longleftrightarrow> table_ok (h_hash m (h_state m)) (h_equal m) (h_buckets m)
     \<and> length (h_buckets m) = h_cap m \<and> (\<exists>k. h_cap m = 2 ^ k) \<and> 2 \<le> h_cap m
     \<and> h_mask m = h_cap m - 1 \<and> h_count m = occupied (h_buckets m)"

definition hashmap_inv :: "'a Hashmap \<Rightarrow> bool" where
  "hashmap_inv m \<longleftrightarrow> hashmap_ok m \<and> h_max m = h_cap m div 2 \<and> h_count m \<le> h_max m"

abbreviation hashmap_items :: "'a Hashmap \<Rightarrow> 'a set" where
  "hashmap_items m \<equiv> items (h_buckets m)"

lemma mask_mod: "unat ((h :: u32) AND (2 ^ k - 1)) = unat h mod 2 ^ k"
proof -
  have "h AND (2 ^ k - 1) = take_bit k h"
    by (simp only: take_bit_eq_mask mask_eq_exp_minus_1)
  then show ?thesis by (simp only: unsigned_take_bit_eq) (simp only: take_bit_eq_mod)
qed

lemma mask_mod_of_nat: "unat ((h :: u32) AND of_nat (2 ^ k - 1)) = unat h mod 2 ^ k"
  by (metis mask_mod mask_eq_exp_minus_1 of_nat_mask_eq)

lemma mod_length: "j < length xs \<Longrightarrow> k mod length xs < length xs"
  by (rule mod_less_divisor) linarith

section \<open>Probing\<close>

text \<open>The buckets where the probe for an item stops.\<close>

definition stop :: "('a \<Rightarrow> 'a \<Rightarrow> bool) \<Rightarrow> 'a Bucket list \<Rightarrow> 'a \<Rightarrow> u32 \<Rightarrow> nat \<Rightarrow> bool" where
  "stop eq bs x h i \<longleftrightarrow>
     \<not> occ bs i \<or> (b_hash (bs ! i) = h \<and> eq x (the (b_item (bs ! i))))"

definition written :: "'a Bucket list \<Rightarrow> bool" where
  "written bs \<longleftrightarrow> (\<forall>i<length bs. occ bs i \<longrightarrow> b_item (bs ! i) \<noteq> None)"

lemma next_index_mod: "i < length bs \<Longrightarrow> next_index bs i = (i + 1) mod length bs"
  by (auto simp: next_index_def mod_if)

lemma probe_step:
  assumes "written bs" and "i < length bs"
  shows "probe eq bs x h i (Suc n) =
    (if stop eq bs x h i then Some i else probe eq bs x h ((i + 1) mod length bs) n)"
  using assms by (auto simp: stop_def occ_def written_def next_index_mod Let_def)

lemma probe_Some:
  assumes "written bs" and "s < length bs"
  shows "probe eq bs x h s f = Some i \<longleftrightarrow>
    (\<exists>n<f. i = (s + n) mod length bs \<and> stop eq bs x h i
       \<and> (\<forall>d<n. \<not> stop eq bs x h ((s + d) mod length bs)))"
  using assms(2)
proof (induction f arbitrary: s)
  case 0
  then show ?case by simp
next
  case (Suc f)
  let ?s = "(s + 1) mod length bs"
  have lt: "?s < length bs" by (rule mod_length [OF Suc.prems])
  have shift: "(?s + d) mod length bs = (s + Suc d) mod length bs" for d
    by (simp add: mod_simps)
  show ?case
  proof (cases "stop eq bs x h s")
    case True
    have "n = 0" if "\<forall>d<n. \<not> stop eq bs x h ((s + d) mod length bs)" for n
      using that True Suc.prems by (cases n) (auto dest: spec [of _ 0])
    moreover have "(s + 0) mod length bs = s" using Suc.prems by simp
    ultimately show ?thesis
      unfolding probe_step [OF assms(1) Suc.prems] using True by (metis less_nat_zero_code option.inject zero_less_Suc)
  next
    case False
    have split: "(\<exists>n<Suc f. P n) \<longleftrightarrow> P 0 \<or> (\<exists>n<f. P (Suc n))" for P
      by (auto simp: less_Suc_eq_0_disj)
    have all: "(\<forall>d<Suc n. \<not> stop eq bs x h ((s + d) mod length bs)) \<longleftrightarrow>
        (\<forall>d<n. \<not> stop eq bs x h ((s + Suc d) mod length bs))" for n
      using False Suc.prems by (auto simp: less_Suc_eq_0_disj)
    have IH: "probe eq bs x h ?s f = Some i \<longleftrightarrow> (\<exists>n<f. i = (s + Suc n) mod length bs
        \<and> stop eq bs x h i \<and> (\<forall>d<n. \<not> stop eq bs x h ((s + Suc d) mod length bs)))"
      using Suc.IH [OF lt] by (simp only: shift)
    have "(s + 0) mod length bs = s" using Suc.prems by simp
    with False show ?thesis
      unfolding probe_step [OF assms(1) Suc.prems] split all by (metis IH)
  qed
qed

lemma probe_total:
  assumes "written bs" and "s < length bs" and "j < length bs" and "stop eq bs x h j"
  obtains i n where "probe eq bs x h s (length bs) = Some i" and "n < length bs"
    and "i = (s + n) mod length bs" and "stop eq bs x h i"
    and "\<And>d. d < n \<Longrightarrow> \<not> stop eq bs x h ((s + d) mod length bs)"
proof -
  let ?P = "\<lambda>n. stop eq bs x h ((s + n) mod length bs)"
  define n0 where "n0 = (if s \<le> j then j - s else j + length bs - s)"
  have n0: "n0 < length bs" "(s + n0) mod length bs = j"
    using assms(2,3) by (auto simp: n0_def)
  then have "?P n0" using assms(4) by simp
  then obtain n where n: "n \<le> n0" "\<forall>d<n. \<not> ?P d" "?P n"
    using ex_least_nat_le [of ?P n0] by blast
  then have "probe eq bs x h s (length bs) = Some ((s + n) mod length bs)"
    unfolding probe_Some [OF assms(1,2)] using n0(1) by (intro exI [of _ n]) simp
  then show thesis
    by (rule that [of _ n]) (use n n0(1) in simp_all)
qed

section \<open>Lookup\<close>

context keyed
begin

lemma table_written: "table_ok hf eq bs \<Longrightarrow> written bs"
  by (auto simp: table_ok_def written_def)

lemma table_item: "table_ok hf eq bs \<Longrightarrow> i < length bs \<Longrightarrow> occ bs i \<Longrightarrow>
    b_item (bs ! i) = Some (the (b_item (bs ! i))) \<and> b_hash (bs ! i) = hf (the (b_item (bs ! i)))"
  by (auto simp: table_ok_def)

lemma table_run: "table_ok hf eq bs \<Longrightarrow> i < length bs \<Longrightarrow> occ bs i \<Longrightarrow>
    \<exists>n<length bs. i = (home bs i + n) mod length bs \<and> run bs (home bs i) n"
  by (auto simp: table_ok_def)

lemma table_unique: "table_ok hf eq bs \<Longrightarrow> i < length bs \<Longrightarrow> j < length bs \<Longrightarrow> occ bs i \<Longrightarrow> occ bs j
    \<Longrightarrow> eq (the (b_item (bs ! i))) (the (b_item (bs ! j))) \<Longrightarrow> i = j"
  unfolding table_ok_def by blast

text \<open>
  The bucket the probe stops at: the one holding the matching item if there is one, else an
  empty one reached over occupied buckets.
\<close>

lemma probe_finds:
  assumes ok: "table_ok hf eq bs" and free: "j < length bs" "\<not> occ bs j"
    and keys: "items bs \<subseteq> S" "x \<in> S"
  obtains i n where "probe eq bs x (hf x) (unat (hf x) mod length bs) (length bs) = Some i"
    and "i < length bs" and "n < length bs" and "i = (unat (hf x) mod length bs + n) mod length bs"
    and "run bs (unat (hf x) mod length bs) n"
    and "occ bs i \<longrightarrow> eq x (the (b_item (bs ! i)))"
    and "\<forall>k<length bs. occ bs k \<longrightarrow> eq x (the (b_item (bs ! k))) \<longrightarrow> k = i"
proof -
  let ?l = "length bs" and ?s = "unat (hf x) mod length bs"
  have s: "?s < ?l" by (rule mod_length [OF free(1)])
  obtain i n where p: "probe eq bs x (hf x) ?s ?l = Some i" "n < ?l" "i = (?s + n) mod ?l"
    "stop eq bs x (hf x) i" "\<And>d. d < n \<Longrightarrow> \<not> stop eq bs x (hf x) ((?s + d) mod ?l)"
    using probe_total [OF table_written [OF ok] s free(1), of eq x "hf x"] free(2)
    by (auto simp: stop_def)
  have i: "i < ?l" unfolding p(3) by (rule mod_length [OF free(1)])
  have r: "run bs ?s n" using p(5) by (auto simp: run_def stop_def)
  have "k = i" if k: "k < ?l" "occ bs k" "eq x (the (b_item (bs ! k)))" for k
  proof -
    obtain c where c: "c < ?l" "k = (home bs k + c) mod ?l" "run bs (home bs k) c"
      using table_run [OF ok k(1,2)] by blast
    have h: "b_hash (bs ! k) = hf x"
      using table_item [OF ok k(1,2)] eq_hash [OF keys(2) _ k(3)] keys(1) k(1,2)
      by (auto simp: items_def)
    then have hk: "home bs k = ?s" by (simp add: home_def)
    have "stop eq bs x (hf x) k" using h k(3) by (simp add: stop_def)
    then have "n \<le> c" using p(5) [of c] c(2) hk by (metis not_less)
    show "k = i"
    proof (cases "n = c")
      case True
      then show ?thesis using p(3) c(2) hk by simp
    next
      case False
      then have "occ bs i" using \<open>n \<le> c\<close> c(3) hk p(3) by (auto simp: run_def)
      then have "eq x (the (b_item (bs ! i)))" using p(4) by (simp add: stop_def)
      then show ?thesis
        using table_unique [OF ok k(1) i k(2) \<open>occ bs i\<close>] eq_trans [OF eq_sym [OF k(3)]] by blast
    qed
  qed
  then show thesis
    using that [OF p(1) i p(2,3) r] p(4) by (auto simp: stop_def)
qed

lemma items_conv: "y \<in> items bs \<longleftrightarrow> (\<exists>i<length bs. occ bs i \<and> b_item (bs ! i) = Some y)"
  by (simp add: items_def)

section \<open>Insertion\<close>

lemma run_update: "run bs s n \<Longrightarrow> b_occupied b \<Longrightarrow> run (bs[i := b]) s n"
  unfolding run_def occ_def length_list_update by (metis nth_list_update_eq nth_list_update_neq list_update_beyond not_less)

lemma table_insert:
  assumes ok: "table_ok hf eq bs" and i: "i < length bs" and n: "n < length bs"
    and at: "i = (unat (hf x) mod length bs + n) mod length bs"
    and r: "run bs (unat (hf x) mod length bs) n"
    and match: "occ bs i \<longrightarrow> eq x (the (b_item (bs ! i)))"
    and only: "\<forall>k<length bs. occ bs k \<longrightarrow> eq x (the (b_item (bs ! k))) \<longrightarrow> k = i"
  defines "bs' \<equiv> bs[i := \<lparr>b_hash = hf x, b_occupied = True, b_item = Some x\<rparr>]"
  shows "table_ok hf eq bs'" and "items bs' = insert x {y \<in> items bs. \<not> eq x y}"
    and "occupied bs' = (if occ bs i then occupied bs else Suc (occupied bs))"
    and "occ bs i \<longleftrightarrow> (\<exists>y \<in> items bs. eq x y)"
proof -
  have len: "length bs' = length bs" by (simp add: bs'_def)
  have at_i: "bs' ! i = \<lparr>b_hash = hf x, b_occupied = True, b_item = Some x\<rparr>"
    using i by (simp add: bs'_def)
  have other: "bs' ! k = bs ! k" if "k \<noteq> i" for k using that by (simp add: bs'_def)
  have occ': "occ bs' k \<longleftrightarrow> k = i \<or> occ bs k" for k
    by (cases "k = i") (simp_all add: occ_def at_i other)
  have run': "run bs s m \<Longrightarrow> run bs' s m" for s m
    unfolding bs'_def by (rule run_update) simp_all
  show "table_ok hf eq bs'"
    unfolding table_ok_def len
  proof (intro conjI allI impI)
    fix k assume k: "k < length bs" "occ bs' k"
    show "\<exists>y. b_item (bs' ! k) = Some y \<and> b_hash (bs' ! k) = hf y"
      using k table_item [OF ok k(1)] by (cases "k = i") (auto simp: at_i other occ')
    show "\<exists>m<length bs. k = (home bs' k + m) mod length bs \<and> run bs' (home bs' k) m"
    proof (cases "k = i")
      case True
      have "home bs' i = unat (hf x) mod length bs" by (simp add: home_def at_i len)
      then show ?thesis unfolding True using n at run' [OF r] by metis
    next
      case False
      then have "occ bs k" using k occ' by simp
      from table_run [OF ok k(1) this] run' show ?thesis
        using False by (auto simp: home_def other len)
    qed
  next
    fix k j assume kj: "k < length bs" "j < length bs" "occ bs' k" "occ bs' j"
      "eq (the (b_item (bs' ! k))) (the (b_item (bs' ! j)))"
    have clash: "q = i" if "q < length bs" "occ bs' q" "eq x (the (b_item (bs' ! q)))" for q
      using that only by (cases "q = i") (simp_all add: other occ')
    show "k = j"
    proof (cases "k = i \<or> j = i")
      case True
      then have "k = i" "j = i"
        using clash [OF kj(1,3)] clash [OF kj(2,4)] kj(5) eq_sym [OF kj(5)] by (auto simp: at_i)
      then show ?thesis by simp
    next
      case False
      then show ?thesis using table_unique [OF ok kj(1,2)] kj(3-5) by (simp add: other occ')
    qed
  qed
  show "items bs' = insert x {y \<in> items bs. \<not> eq x y}"
  proof (intro set_eqI iffI)
    fix y assume "y \<in> items bs'"
    then obtain k where k: "k < length bs" "occ bs' k" "b_item (bs' ! k) = Some y"
      by (auto simp: items_def len)
    show "y \<in> insert x {y \<in> items bs. \<not> eq x y}"
    proof (cases "k = i")
      case True
      then show ?thesis using k(3) by (simp add: at_i)
    next
      case False
      then have "occ bs k" "b_item (bs ! k) = Some y" using k(2,3) occ' other by simp_all
      then show ?thesis using k(1) only False by (auto simp: items_conv)
    qed
  next
    fix y assume y: "y \<in> insert x {y \<in> items bs. \<not> eq x y}"
    show "y \<in> items bs'"
    proof (cases "y = x")
      case True
      then show ?thesis using i by (auto simp: items_def len occ' at_i)
    next
      case False
      then obtain k where k: "k < length bs" "occ bs k" "b_item (bs ! k) = Some y" "\<not> eq x y"
        using y by (auto simp: items_def)
      then have "k \<noteq> i" using match by auto
      with k other show ?thesis unfolding items_conv len occ' by auto
    qed
  qed
  have "{k. k < length bs' \<and> occ bs' k} = insert i {k. k < length bs \<and> occ bs k}"
    using i by (auto simp: len occ')
  then show "occupied bs' = (if occ bs i then occupied bs else Suc (occupied bs))"
    using i by (auto simp: occupied_def insert_absorb)
  show "occ bs i \<longleftrightarrow> (\<exists>y \<in> items bs. eq x y)"
  proof
    assume o: "occ bs i"
    then show "\<exists>y \<in> items bs. eq x y"
      using match i table_item [OF ok i o] by (auto simp: items_def)
  next
    assume "\<exists>y \<in> items bs. eq x y"
    then obtain k where "k < length bs" "occ bs k" "eq x (the (b_item (bs ! k)))"
      by (auto simp: items_def)
    then show "occ bs i" using only by blast
  qed
qed

end

lemma free_bucket:
  assumes "occupied bs < length bs"
  obtains j where "j < length bs" and "\<not> occ bs j"
proof -
  have "card {i. i < length bs \<and> occ bs i} \<noteq> card {i. i < length bs}"
    using assms by (simp add: occupied_def)
  then have "{i. i < length bs \<and> occ bs i} \<noteq> {i. i < length bs}" by metis
  then show thesis using that by blast
qed

section \<open>The operations\<close>

text \<open>What the table relies on for its function pointers.\<close>

abbreviation lawful :: "'a set \<Rightarrow> 'a Hashmap \<Rightarrow> bool" where
  "lawful S m \<equiv> keyed S (h_hash m (h_state m)) (h_equal m)"

lemma hashmap_bucket_home:
  "hashmap_ok m \<Longrightarrow> hashmap_bucket m x h =
     probe (h_equal m) (h_buckets m) x h (unat h mod length (h_buckets m)) (length (h_buckets m))"
  by (auto simp: hashmap_bucket_def hashmap_ok_def mask_mod)

lemma hashmap_init_inv:
  "hashmap_inv (hashmap_init hf eq d n)" "hashmap_items (hashmap_init hf eq d n) = {}"
proof -
  have "(64 :: nat) = 2 ^ 6" by simp
  then have "\<exists>k. (64 :: nat) = 2 ^ k" by blast
  moreover have "occupied (replicate 64 empty_bucket) = 0"
    by (simp add: occupied_def occ_def empty_bucket_def cong: conj_cong)
  moreover have "table_ok f g (replicate 64 empty_bucket)" for f :: "'a \<Rightarrow> u32" and g
    by (simp add: table_ok_def occ_def empty_bucket_def)
  ultimately show "hashmap_inv (hashmap_init hf eq d n)"
    by (simp add: hashmap_inv_def hashmap_ok_def hashmap_init_def Let_def HASHMAP_BASE_CAP_def MAX_ITEMS_def)
  show "hashmap_items (hashmap_init hf eq d n) = {}"
    by (simp add: hashmap_init_def Let_def HASHMAP_BASE_CAP_def items_def occ_def empty_bucket_def)
qed

lemma hashmap_bucket_finds:
  assumes "lawful S m" and "hashmap_ok m" and "h_count m < h_cap m"
    and "hashmap_items m \<subseteq> S" and "x \<in> S"
  defines "hf \<equiv> h_hash m (h_state m)" and "eq \<equiv> h_equal m" and "bs \<equiv> h_buckets m"
  obtains i n where "hashmap_bucket m x (hf x) = Some i"
    and "i < length bs" and "n < length bs" and "i = (unat (hf x) mod length bs + n) mod length bs"
    and "run bs (unat (hf x) mod length bs) n"
    and "occ bs i \<longrightarrow> eq x (the (b_item (bs ! i)))"
    and "\<forall>k<length bs. occ bs k \<longrightarrow> eq x (the (b_item (bs ! k))) \<longrightarrow> k = i"
proof -
  have ok: "table_ok hf eq bs" and "occupied bs < length bs"
    using assms(2,3) by (simp_all add: hashmap_ok_def hf_def eq_def bs_def)
  then obtain j where j: "j < length bs" "\<not> occ bs j" using free_bucket by blast
  have b: "hashmap_bucket m x (hf x) = probe eq bs x (hf x) (unat (hf x) mod length bs) (length bs)"
    unfolding eq_def bs_def by (rule hashmap_bucket_home [OF assms(2)])
  show thesis
    by (rule keyed.probe_finds [OF assms(1) [folded hf_def eq_def] ok j _ assms(5)])
      (use assms(4) in \<open>simp add: bs_def\<close>, rule that [unfolded b])
qed

lemma hashmap_insert_ok:
  fixes m :: "'a Hashmap" and x :: 'a
  assumes "lawful S m" and "hashmap_ok m" and "h_count m < h_cap m"
    and "hashmap_items m \<subseteq> S" and "x \<in> S"
  defines "hf \<equiv> h_hash m (h_state m)" and "there \<equiv> \<exists>y \<in> hashmap_items m. h_equal m x y"
  obtains bs c ds where "hashmap_insert m x (hf x) =
      Some (there, m\<lparr>h_buckets := bs, h_count := c\<rparr>, ds)"
    and "hashmap_ok (m\<lparr>h_buckets := bs, h_count := c\<rparr>)"
    and "items bs = insert x {y \<in> hashmap_items m. \<not> h_equal m x y}"
    and "c = (if there then h_count m else Suc (h_count m))"
proof -
  let ?bs = "h_buckets m"
  obtain i n where f: "hashmap_bucket m x (hf x) = Some i" "i < length ?bs" "n < length ?bs"
    "i = (unat (hf x) mod length ?bs + n) mod length ?bs" "run ?bs (unat (hf x) mod length ?bs) n"
    "occ ?bs i \<longrightarrow> h_equal m x (the (b_item (?bs ! i)))"
    "\<forall>k<length ?bs. occ ?bs k \<longrightarrow> h_equal m x (the (b_item (?bs ! k))) \<longrightarrow> k = i"
    unfolding hf_def by (rule hashmap_bucket_finds [OF assms(1-5)])
  have ok: "table_ok hf (h_equal m) ?bs" using assms(2) by (simp add: hashmap_ok_def hf_def)
  note t = keyed.table_insert [OF assms(1) [folded hf_def] ok f(2,3,4,5,6,7)]
  let ?bs' = "?bs[i := \<lparr>b_hash = hf x, b_occupied = True, b_item = Some x\<rparr>]"
  let ?c = "if there then h_count m else Suc (h_count m)"
  have there: "b_occupied (?bs ! i) \<longleftrightarrow> there"
    using t(4) by (simp add: there_def occ_def)
  show thesis
  proof (rule that [of ?c ?bs' "if h_drop m \<and> there then [b_item (?bs ! i)] else []"])
    show "hashmap_insert m x (hf x) = Some (there, m\<lparr>h_buckets := ?bs', h_count := ?c\<rparr>,
        if h_drop m \<and> there then [b_item (?bs ! i)] else [])"
      by (simp add: hashmap_insert_def f(1) there Let_def)
    show "items ?bs' = insert x {y \<in> hashmap_items m. \<not> h_equal m x y}" by (rule t(2))
    have "table_ok hf (h_equal m) ?bs'" by (rule t(1))
    moreover have "occupied ?bs' = ?c"
      using t(3) there assms(2) by (simp add: occ_def hashmap_ok_def)
    ultimately show "hashmap_ok (m\<lparr>h_buckets := ?bs', h_count := ?c\<rparr>)"
      using assms(2) by (simp add: hashmap_ok_def hf_def)
  qed simp
qed

section \<open>Growth\<close>

definition contents :: "'a Bucket list \<Rightarrow> 'a list" where
  "contents bs = map (\<lambda>b. the (b_item b)) (filter b_occupied bs)"

lemma occupied_contents: "occupied bs = length (contents bs)"
  by (simp add: occupied_def contents_def occ_def length_filter_conv_card)

lemma items_contents: "written bs \<Longrightarrow> items bs = set (contents bs)"
  by (force simp: items_def contents_def occ_def written_def in_set_conv_nth)

lemma sorted_wrt_filter_map:
  "sorted_wrt (\<lambda>a b. P a \<longrightarrow> P b \<longrightarrow> R (f a) (f b)) bs \<Longrightarrow> sorted_wrt R (map f (filter P bs))"
  by (induction bs) auto

lemma contents_ok:
  assumes "keyed S hf eq" and "table_ok hf eq bs"
  shows "sorted_wrt (\<lambda>x y. \<not> eq x y) (contents bs)"
    and "\<forall>b \<in> set bs. b_occupied b \<longrightarrow> b_item b \<noteq> None \<and> b_hash b = hf (the (b_item b))"
proof -
  have "sorted_wrt (\<lambda>a b. b_occupied a \<longrightarrow> b_occupied b \<longrightarrow>
      \<not> eq (the (b_item a)) (the (b_item b))) bs"
    unfolding sorted_wrt_iff_nth_less
  proof (intro allI impI notI)
    fix i j assume "i < j" "j < length bs" "b_occupied (bs ! i)" "b_occupied (bs ! j)"
      "eq (the (b_item (bs ! i))) (the (b_item (bs ! j)))"
    then show False
      using keyed.table_unique [OF assms, of i j] by (simp add: occ_def)
  qed
  then show "sorted_wrt (\<lambda>x y. \<not> eq x y) (contents bs)"
    unfolding contents_def by (rule sorted_wrt_filter_map)
  show "\<forall>b \<in> set bs. b_occupied b \<longrightarrow> b_item b \<noteq> None \<and> b_hash b = hf (the (b_item b))"
  proof (intro ballI impI)
    fix b assume "b \<in> set bs" and o: "b_occupied b"
    then obtain i where "i < length bs" "b = bs ! i" by (auto simp: in_set_conv_nth)
    then show "b_item b \<noteq> None \<and> b_hash b = hf (the (b_item b))"
      using keyed.table_item [OF assms, of i] o by (metis occ_def option.distinct(1))
  qed
qed

text \<open>Inserting items without duplicates into a table that holds none of them.\<close>

lemma insert_old_ok:
  assumes "lawful S m" and "hashmap_ok m" and "h_count m + length (contents bs) \<le> h_cap m"
    and "sorted_wrt (\<lambda>x y. \<not> h_equal m x y) (contents bs)"
    and "\<forall>b \<in> set bs. b_occupied b \<longrightarrow> b_item b \<noteq> None \<and> b_hash b = h_hash m (h_state m) (the (b_item b))"
    and "\<forall>x \<in> set (contents bs). \<forall>y \<in> hashmap_items m. \<not> h_equal m x y"
    and "hashmap_items m \<subseteq> S" and "set (contents bs) \<subseteq> S"
  shows "\<exists>bs' c. insert_old m bs = Some (m\<lparr>h_buckets := bs', h_count := c\<rparr>)
    \<and> hashmap_ok (m\<lparr>h_buckets := bs', h_count := c\<rparr>)
    \<and> items bs' = set (contents bs) \<union> hashmap_items m \<and> c = h_count m + length (contents bs)"
  using assms
proof (induction bs arbitrary: m)
  case Nil
  show ?case
    by (rule exI [of _ "h_buckets m"], rule exI [of _ "h_count m"])
      (use Nil(2) in \<open>simp add: contents_def\<close>)
next
  case (Cons b bs)
  show ?case
  proof (cases "b_occupied b")
    case False
    then show ?thesis using Cons.IH [OF Cons.prems(1,2)] Cons.prems(3-) by (simp add: contents_def)
  next
    case True
    define x where "x = the (b_item b)"
    have x: "b_item b = Some x" "b_hash b = h_hash m (h_state m) x"
      using Cons.prems(5) True by (auto simp: x_def)
    have c: "contents (b # bs) = x # contents bs" using True by (simp add: contents_def x_def)
    have new: "\<not> (\<exists>y \<in> hashmap_items m. h_equal m x y)" using Cons.prems(6) c by auto
    have lt: "h_count m < h_cap m" using Cons.prems(3) c by simp
    have xS: "x \<in> S" "set (contents bs) \<subseteq> S" using Cons.prems(8) c by auto
    obtain bs1 ds where 1: "hashmap_insert m x (h_hash m (h_state m) x) =
        Some (False, m\<lparr>h_buckets := bs1, h_count := Suc (h_count m)\<rparr>, ds)"
      and ok1: "hashmap_ok (m\<lparr>h_buckets := bs1, h_count := Suc (h_count m)\<rparr>)"
      and it1: "items bs1 = insert x {y \<in> hashmap_items m. \<not> h_equal m x y}"
      by (rule hashmap_insert_ok [OF Cons.prems(1,2) lt Cons.prems(7) xS(1)]) (use new in auto)
    let ?m1 = "m\<lparr>h_buckets := bs1, h_count := Suc (h_count m)\<rparr>"
    have it: "items bs1 = insert x (hashmap_items m)" using it1 new by auto
    have "\<forall>z \<in> set (contents bs). \<forall>y \<in> hashmap_items ?m1. \<not> h_equal ?m1 z y"
      using Cons.prems(1,4,6) c it by (auto dest: keyed.eq_sym)
    then obtain bs' c' where "insert_old ?m1 bs = Some (?m1\<lparr>h_buckets := bs', h_count := c'\<rparr>)"
      "hashmap_ok (?m1\<lparr>h_buckets := bs', h_count := c'\<rparr>)"
      "items bs' = set (contents bs) \<union> items bs1" "c' = Suc (h_count m) + length (contents bs)"
      using Cons.IH [of ?m1] Cons.prems(1,3,4,5,7) ok1 c it xS by auto
    then show ?thesis using True x 1 c it by auto
  qed
qed

lemma hashmap_grow_ok:
  fixes m :: "'a Hashmap"
  assumes "lawful S m" and "hashmap_inv m" and "hashmap_items m \<subseteq> S"
  obtains m' where "hashmap_grow m = Some m'" and "hashmap_ok m'" and "h_max m' = h_cap m"
    and "h_cap m' = h_cap m * 2" and "h_count m' = h_count m" and "hashmap_items m' = hashmap_items m"
    and "h_hash m' = h_hash m" and "h_state m' = h_state m" and "h_equal m' = h_equal m"
proof -
  let ?m = "m\<lparr>h_cap := h_cap m * 2, h_mask := h_cap m * 2 - 1, h_count := 0,
    h_max := MAX_ITEMS (h_cap m * 2), h_buckets := replicate (h_cap m * 2) empty_bucket\<rparr>"
  have ok: "table_ok (h_hash m (h_state m)) (h_equal m) (h_buckets m)"
    and n: "h_count m = length (contents (h_buckets m))" "h_count m \<le> h_cap m div 2" "2 \<le> h_cap m"
    using assms(2) by (auto simp: hashmap_inv_def hashmap_ok_def occupied_contents)
  note c = contents_ok [OF assms(1) ok]
  note ic = items_contents [OF keyed.table_written [OF assms(1) ok]]
  obtain k where "h_cap m = 2 ^ k" using assms(2) by (auto simp: hashmap_inv_def hashmap_ok_def)
  then have "h_cap m * 2 = 2 ^ Suc k" by simp
  then have "\<exists>k. h_cap m * 2 = 2 ^ k" by blast
  moreover have "table_ok f g (replicate l (empty_bucket :: 'a Bucket))" for f g l
    by (simp add: table_ok_def occ_def empty_bucket_def)
  moreover have "occupied (replicate l (empty_bucket :: 'a Bucket)) = 0" for l
    by (simp add: occupied_contents contents_def empty_bucket_def)
  moreover have it: "items (replicate l (empty_bucket :: 'a Bucket)) = {}" for l
    by (simp add: items_def occ_def empty_bucket_def)
  ultimately have "hashmap_ok ?m" using n(3) by (simp add: hashmap_ok_def)
  moreover have "length (contents (h_buckets m)) \<le> h_cap m * 2" using n by linarith
  ultimately obtain bs d where "insert_old ?m (h_buckets m) = Some (?m\<lparr>h_buckets := bs, h_count := d\<rparr>)"
    "hashmap_ok (?m\<lparr>h_buckets := bs, h_count := d\<rparr>)" "items bs = set (contents (h_buckets m))"
    "d = length (contents (h_buckets m))"
    using insert_old_ok [of S ?m "h_buckets m"] assms(1,3) c n it ic by auto
  then show thesis
    using that [of "?m\<lparr>h_buckets := bs, h_count := d\<rparr>"] n(1) ic
    by (simp add: hashmap_grow_def Let_def MAX_ITEMS_def)
qed

section \<open>Taking an item\<close>

text \<open>
  When the last bucket is empty no cluster wraps: every occupied bucket is reached from its home
  by walking up.
\<close>

definition straight :: "'a Bucket list \<Rightarrow> bool" where
  "straight bs \<longleftrightarrow> (\<forall>i<length bs. occ bs i \<longrightarrow>
     home bs i \<le> i \<and> (\<forall>j. home bs i \<le> j \<and> j \<le> i \<longrightarrow> occ bs j))"

lemma run_straight:
  assumes "h < length bs" and "n < length bs" and "run bs h n" and "\<not> occ bs (length bs - 1)"
    and "occ bs ((h + n) mod length bs)"
  shows "(h + n) mod length bs = h + n \<and> (\<forall>j. h \<le> j \<and> j \<le> h + n \<longrightarrow> occ bs j)"
proof -
  have lt: "h + n < length bs"
  proof (rule ccontr)
    assume *: "\<not> h + n < length bs"
    show False
    proof (cases "h + n = length bs")
      case True
      have "(h + (n - 1)) mod length bs = length bs - 1" "n - 1 < n"
        using True assms(1) by auto
      then show False using assms(3,4) by (metis run_def)
    next
      case False
      define d where "d = length bs - 1 - h"
      have "d < n" "(h + d) mod length bs = length bs - 1" using * False assms(1) by (auto simp: d_def)
      then show False using assms(3,4) by (metis run_def)
    qed
  qed
  then have m: "(h + n) mod length bs = h + n" by simp
  have "occ bs j" if "h \<le> j" "j \<le> h + n" for j
  proof (cases "j = h + n")
    case True
    then show ?thesis using assms(5) m by simp
  next
    case False
    then have "j - h < n" "(h + (j - h)) mod length bs = j" using that lt by simp_all
    then show ?thesis using assms(3) by (metis run_def)
  qed
  with m show ?thesis by blast
qed

lemma straight_run:
  assumes "i < length bs" and "home bs i \<le> i" and "\<forall>j. home bs i \<le> j \<and> j < i \<longrightarrow> occ bs j"
  shows "\<exists>n<length bs. i = (home bs i + n) mod length bs \<and> run bs (home bs i) n"
  using assms by (intro exI [of _ "i - home bs i"]) (auto simp: run_def)

lemma table_straight:
  assumes "table_ok hf eq bs" and "\<not> occ bs (length bs - 1)"
  shows "straight bs"
  unfolding straight_def
proof (intro allI impI)
  fix i assume i: "i < length bs" "occ bs i"
  then obtain n where n: "n < length bs" "i = (home bs i + n) mod length bs" "run bs (home bs i) n"
    using assms(1) by (auto simp: table_ok_def)
  have h: "home bs i < length bs" unfolding home_def by (rule mod_length [OF i(1)])
  have "occ bs ((home bs i + n) mod length bs)" using n(2) i(2) by simp
  note r = run_straight [OF h n(1,3) assms(2) this]
  then have "i = home bs i + n" using n(2) by simp
  with r show "home bs i \<le> i \<and> (\<forall>j. home bs i \<le> j \<and> j \<le> i \<longrightarrow> occ bs j)"
    by (metis le_add1)
qed

text \<open>The scan stops before the end of the table, at the first bucket it may not skip.\<close>

lemma take_skip_finds:
  assumes "s < length bs" and "\<not> occ bs (length bs - 1)" and "length bs = Suc (msk)"
    and "\<And>h :: u32. unat (h AND of_nat msk) = unat h mod length bs" and "length bs - s \<le> k"
  shows "\<exists>n. take_skip msk bs p s k = Some n \<and> s \<le> n \<and> n < length bs
    \<and> (\<forall>j. s \<le> j \<and> j < n \<longrightarrow> occ bs j \<and> p < home bs j) \<and> (occ bs n \<longrightarrow> home bs n \<le> p)"
  using assms(1,5)
proof (induction k arbitrary: s)
  case 0
  then show ?case by simp
next
  case (Suc k)
  have hm: "unat (b_hash (bs ! s) AND of_nat msk) = home bs s" by (simp add: assms(4) home_def)
  show ?case
  proof (cases "occ bs s \<and> p < home bs s")
    case False
    then show ?thesis using Suc.prems hm by (auto simp: occ_def not_less)
  next
    case True
    then have "s \<noteq> length bs - 1" using assms(2) by auto
    then have lt: "Suc s < length bs" using Suc.prems by linarith
    then obtain n where "take_skip msk bs p (Suc s) k = Some n \<and> Suc s \<le> n \<and> n < length bs
        \<and> (\<forall>j. Suc s \<le> j \<and> j < n \<longrightarrow> occ bs j \<and> p < home bs j) \<and> (occ bs n \<longrightarrow> home bs n \<le> p)"
      using Suc.IH [OF lt] Suc.prems(2) by fastforce
    then show ?thesis
      using True lt hm by (auto simp: occ_def next_index_def intro!: exI [of _ n])
        (metis le_antisym not_less_eq_eq)+
  qed
qed

text \<open>The entries other than the hole, whose contents are stale.\<close>

definition good :: "('a \<Rightarrow> u32) \<Rightarrow> ('a \<Rightarrow> 'a \<Rightarrow> bool) \<Rightarrow> 'a Bucket list \<Rightarrow> nat \<Rightarrow> bool" where
  "good hf eq bs p \<longleftrightarrow> (\<forall>i<length bs. occ bs i \<longrightarrow> i \<noteq> p \<longrightarrow>
       (\<exists>y. b_item (bs ! i) = Some y \<and> b_hash (bs ! i) = hf y)
     \<and> (\<forall>j<length bs. occ bs j \<longrightarrow> j \<noteq> p \<longrightarrow>
          eq (the (b_item (bs ! i))) (the (b_item (bs ! j))) \<longrightarrow> i = j))"

definition rest :: "'a Bucket list \<Rightarrow> nat \<Rightarrow> 'a set" where
  "rest bs p = {y. \<exists>i<length bs. occ bs i \<and> i \<noteq> p \<and> b_item (bs ! i) = Some y}"

lemma shift_step:
  assumes "straight bs" and "good hf eq bs p" and "occ bs p" and "p < n" and "n < length bs"
    and "occ bs n" and "home bs n \<le> p"
  defines "bs' \<equiv> bs[p := bs ! n]"
  shows "straight bs'" and "good hf eq bs' n" and "rest bs' n = rest bs p" and "\<And>i. occ bs' i = occ bs i"
proof -
  have p: "p < length bs" using assms(4,5) by simp
  have nth: "bs' ! i = bs ! (if i = p then n else i)" for i
    using p by (simp add: bs'_def)
  have len: "length bs' = length bs" by (simp add: bs'_def)
  show occ': "occ bs' i = occ bs i" for i
    using assms(3,6) by (simp add: occ_def nth)
  have home': "home bs' i = home bs (if i = p then n else i)" for i
    by (simp add: home_def nth len)
  show "straight bs'"
    unfolding straight_def len occ' home'
  proof (intro allI impI)
    fix i assume i: "i < length bs" "occ bs i"
    have sn: "\<forall>j. home bs n \<le> j \<and> j \<le> n \<longrightarrow> occ bs j"
      using assms(1,5,6) by (simp add: straight_def)
    show "home bs (if i = p then n else i) \<le> i
        \<and> (\<forall>j. home bs (if i = p then n else i) \<le> j \<and> j \<le> i \<longrightarrow> occ bs j)"
    proof (cases "i = p")
      case True
      then show ?thesis using sn assms(4,7) by simp
    next
      case False
      then show ?thesis using assms(1) i by (simp add: straight_def)
    qed
  qed
  show "good hf eq bs' n"
    unfolding good_def len occ'
  proof (intro allI impI conjI)
    fix i assume i: "i < length bs" "occ bs i" "i \<noteq> n"
    define i' where "i' = (if i = p then n else i)"
    have i': "i' < length bs" "occ bs i'" "i' \<noteq> p" "bs' ! i = bs ! i'"
      using i assms(4-6) by (auto simp: i'_def nth)
    then show "\<exists>y. b_item (bs' ! i) = Some y \<and> b_hash (bs' ! i) = hf y"
      using assms(2) by (simp add: good_def)
    fix j assume j: "j < length bs" "occ bs j" "j \<noteq> n"
      "eq (the (b_item (bs' ! i))) (the (b_item (bs' ! j)))"
    define j' where "j' = (if j = p then n else j)"
    have j': "j' < length bs" "occ bs j'" "j' \<noteq> p" "bs' ! j = bs ! j'"
      using j assms(4-6) by (auto simp: j'_def nth)
    then have "i' = j'" using i' j(4) assms(2) unfolding good_def by metis
    then show "i = j" using i(3) j(3) by (auto simp: i'_def j'_def split: if_splits)
  qed
  show "rest bs' n = rest bs p"
  proof (intro set_eqI iffI)
    fix y assume "y \<in> rest bs' n"
    then obtain i where "i < length bs" "occ bs i" "i \<noteq> n" "b_item (bs' ! i) = Some y"
      by (auto simp: rest_def len occ')
    then show "y \<in> rest bs p"
      using assms(4-6) by (auto simp: rest_def nth split: if_splits)
  next
    fix y assume "y \<in> rest bs p"
    then obtain i where i: "i < length bs" "occ bs i" "i \<noteq> p" "b_item (bs ! i) = Some y"
      by (auto simp: rest_def)
    have "\<exists>k<length bs. occ bs k \<and> k \<noteq> n \<and> b_item (bs' ! k) = Some y"
      using i p assms(3,4) nth by (cases "i = n") (metis less_irrefl, metis)
    then show "y \<in> rest bs' n" by (simp add: rest_def len occ')
  qed
qed

lemma shift_end:
  assumes "straight bs" and "good hf eq bs p" and "occ bs p" and "p < n" and "n < length bs"
    and "\<not> occ bs n" and "\<forall>j. p < j \<and> j < n \<longrightarrow> p < home bs j"
  defines "bs' \<equiv> bs[p := (bs ! p)\<lparr>b_occupied := False\<rparr>]"
  shows "table_ok hf eq bs'" and "items bs' = rest bs p" and "Suc (occupied bs') = occupied bs"
proof -
  have p: "p < length bs" using assms(4,5) by simp
  have len: "length bs' = length bs" by (simp add: bs'_def)
  have other: "bs' ! i = bs ! i" if "i \<noteq> p" for i using that by (simp add: bs'_def)
  have occ': "occ bs' i \<longleftrightarrow> occ bs i \<and> i \<noteq> p" for i
    using p by (cases "i = p") (simp_all add: occ_def bs'_def)
  have home': "home bs' i = home bs i" if "i \<noteq> p" for i using that by (simp add: home_def other len)
  show "table_ok hf eq bs'"
    unfolding table_ok_def
  proof (intro conjI allI impI)
    fix i assume i: "i < length bs'" "occ bs' i"
    then have i': "i < length bs" "occ bs i" "i \<noteq> p" by (simp_all add: len occ')
    then show "\<exists>y. b_item (bs' ! i) = Some y \<and> b_hash (bs' ! i) = hf y"
      using assms(2) by (simp add: good_def other)
    have st: "home bs i \<le> i" "\<forall>j. home bs i \<le> j \<and> j \<le> i \<longrightarrow> occ bs j"
      using assms(1) i' by (auto simp: straight_def)
    have "p < home bs i" if "p < i"
    proof (cases "i < n")
      case True
      then show ?thesis using assms(7) that by blast
    next
      case False
      then have "\<not> home bs i \<le> n" using st(2) assms(6) by auto
      then show ?thesis using assms(4) by simp
    qed
    then have "\<forall>j. home bs' i \<le> j \<and> j < i \<longrightarrow> occ bs' j"
      using st(2) i'(3) by (auto simp: occ' home')
    then show "\<exists>m<length bs'. i = (home bs' i + m) mod length bs' \<and> run bs' (home bs' i) m"
      using straight_run [OF i(1)] st(1) home' i'(3) by simp
  next
    fix i j assume "i < length bs'" "j < length bs'" "occ bs' i" "occ bs' j"
      "eq (the (b_item (bs' ! i))) (the (b_item (bs' ! j)))"
    then show "i = j" using assms(2) by (simp add: good_def len occ' other)
  qed
  show "items bs' = rest bs p"
    using other by (auto simp: items_def rest_def len occ')
  have "{i. i < length bs' \<and> occ bs' i} = {i. i < length bs \<and> occ bs i} - {p}"
    by (auto simp: len occ')
  then have "occupied bs' = occupied bs - 1"
    using p assms(3) by (simp add: occupied_def)
  moreover have "occupied bs \<noteq> 0" using p assms(3) by (auto simp: occupied_def)
  ultimately show "Suc (occupied bs') = occupied bs" by simp
qed

lemma take_shift_ok:
  assumes "straight bs" and "good hf eq bs p" and "occ bs p" and "p < length bs"
    and "\<not> occ bs (length bs - 1)" and "length bs = Suc msk" and "\<And>h :: u32. unat (h AND of_nat msk) = unat h mod length bs"
    and "length bs - p \<le> k"
  shows "\<exists>bs'. take_shift msk bs p k = Some bs' \<and> length bs' = length bs \<and> table_ok hf eq bs'
    \<and> items bs' = rest bs p \<and> Suc (occupied bs') = occupied bs"
  using assms
proof (induction k arbitrary: bs p)
  case 0
  then show ?case by simp
next
  case (Suc k)
  have "p \<noteq> length bs - 1" using Suc.prems(3,5) by auto
  then have nx: "next_index bs p = Suc p" and lt: "Suc p < length bs"
    using Suc.prems(4) by (auto simp: next_index_def)
  obtain n where n: "take_skip msk bs p (Suc p) (length bs) = Some n" "Suc p \<le> n" "n < length bs"
    "\<forall>j. Suc p \<le> j \<and> j < n \<longrightarrow> occ bs j \<and> p < home bs j" "occ bs n \<longrightarrow> home bs n \<le> p"
    using take_skip_finds [OF lt Suc.prems(5,6,7), of "length bs" p] by auto
  have pn: "p < n" using n(2) by simp
  show ?case
  proof (cases "occ bs n")
    case False
    have "\<forall>j. p < j \<and> j < n \<longrightarrow> p < home bs j" using n(4) by (simp add: Suc_le_eq)
    note e = shift_end [OF Suc.prems(1-3) pn n(3) False this]
    then show ?thesis using n(1) False nx by (simp add: occ_def)
  next
    case True
    let ?bs = "bs[p := bs ! n]"
    note st = shift_step [OF Suc.prems(1-3) pn n(3) True n(5) [rule_format, OF True]]
    have "occupied ?bs = occupied bs" by (simp add: occupied_def st(4))
    moreover have "\<exists>bs'. take_shift msk ?bs n k = Some bs' \<and> length bs' = length ?bs \<and> table_ok hf eq bs'
        \<and> items bs' = rest ?bs n \<and> Suc (occupied bs') = occupied ?bs"
      by (rule Suc.IH [OF st(1,2)]) (use st(4) True n(2,3) Suc.prems(5-8) in auto)
    ultimately show ?thesis using n(1) True nx st(3) by (simp add: occ_def)
  qed
qed

section \<open>Iteration\<close>

text \<open>The loop \<open>while (hashmap_iter(map, &iter))\<close>: the buckets it visits.\<close>

fun iterate :: "'a Hashmap \<Rightarrow> nat \<Rightarrow> nat option \<Rightarrow> nat list option" where
  "iterate m 0 iter = None"
| "iterate m (Suc k) iter = do {
     (more, iter) \<leftarrow> hashmap_iter m iter;
     if more then do { i \<leftarrow> iter; is \<leftarrow> iterate m k iter; Some (i # is) } else Some []
   }"

lemma iter_scan_filter:
  "i \<le> length bs \<Longrightarrow> filter (occ bs) [i..<length bs] = (case iter_scan (drop i bs) i of
     None \<Rightarrow> [] | Some j \<Rightarrow> j # filter (occ bs) [j + 1..<length bs])
   \<and> (\<forall>j. iter_scan (drop i bs) i = Some j \<longrightarrow> i \<le> j \<and> j < length bs)"
proof (induction "length bs - i" arbitrary: i)
  case 0
  then show ?case by simp
next
  case (Suc d)
  then have i: "i < length bs" by linarith
  have d: "drop i bs = bs ! i # drop (Suc i) bs" by (rule Cons_nth_drop_Suc [symmetric, OF i])
  have u: "[i..<length bs] = i # [Suc i..<length bs]" by (rule upt_conv_Cons [OF i])
  show ?case
  proof (cases "b_occupied (bs ! i)")
    case True
    then show ?thesis using i by (simp add: d u occ_def)
  next
    case False
    have "d = length bs - Suc i" "Suc i \<le> length bs" using Suc.hyps(2) i by linarith+
    from Suc.hyps(1) [OF this] False show ?thesis
      by (auto simp: d u occ_def split: option.splits)
  qed
qed

lemma iterate_from:
  "i < length (h_buckets m) \<Longrightarrow> length (h_buckets m) - i \<le> k \<Longrightarrow>
     iterate m k (Some i) = Some (filter (occ (h_buckets m)) [i + 1..<length (h_buckets m)])"
proof (induction k arbitrary: i)
  case 0
  then show ?case by simp
next
  case (Suc k)
  show ?case
  proof (cases "i + 1 \<ge> length (h_buckets m)")
    case True
    then show ?thesis by (simp add: hashmap_iter_def)
  next
    case False
    note f = iter_scan_filter [of "i + 1" "h_buckets m"]
    show ?thesis
    proof (cases "iter_scan (drop (i + 1) (h_buckets m)) (i + 1)")
      case None
      then show ?thesis using f False by (simp add: hashmap_iter_def)
    next
      case (Some j)
      then have "i + 1 \<le> j" "j < length (h_buckets m)" using f False by auto
      then have "iterate m k (Some j) = Some (filter (occ (h_buckets m)) [j + 1..<length (h_buckets m)])"
        using Suc by simp
      then show ?thesis using f False Some by (simp add: hashmap_iter_def)
    qed
  qed
qed

section \<open>String slices as keys\<close>

text \<open>
  The compiler's tables are keyed by string slices: \<open>string_slice_hash\<close> hashes the bytes and
  \<open>string_slice_equal\<close> compares them, or by a field of the item that is one
  (\<open>impl_hashmap_delegate\<close>).
\<close>

definition string_slice_hash :: "u64 \<Rightarrow> byte list \<Rightarrow> u32" where
  "string_slice_hash state item = hash state item"

text \<open>
  \<open>strncmp(a, b, len) == 0\<close>: the comparison ends at the first NUL byte, so the law asked of
  the two functions holds for slices without one, which every name of a source file is.
\<close>

definition string_slice_equal :: "byte list \<Rightarrow> byte list \<Rightarrow> bool" where
  "string_slice_equal a b \<longleftrightarrow> (if length a \<noteq> length b then False
     else takeWhile (\<lambda>c. c \<noteq> 0) a = takeWhile (\<lambda>c. c \<noteq> 0) b)"

definition delegate_hash :: "('a \<Rightarrow> byte list) \<Rightarrow> u64 \<Rightarrow> 'a \<Rightarrow> u32" where
  "delegate_hash field state v = string_slice_hash state (field v)"

definition delegate_equal :: "('a \<Rightarrow> byte list) \<Rightarrow> 'a \<Rightarrow> 'a \<Rightarrow> bool" where
  "delegate_equal field a b = string_slice_equal (field a) (field b)"

definition text_slices :: "byte list set" where
  "text_slices = {s. 0 \<notin> set s}"

lemma text_slice_equal:
  "a \<in> text_slices \<Longrightarrow> b \<in> text_slices \<Longrightarrow> string_slice_equal a b \<longleftrightarrow> a = b"
proof -
  assume "a \<in> text_slices" "b \<in> text_slices"
  then have "takeWhile (\<lambda>c. c \<noteq> 0) a = a" "takeWhile (\<lambda>c. c \<noteq> 0) b = b"
    by (auto simp: text_slices_def takeWhile_eq_all_conv)
  then show "string_slice_equal a b \<longleftrightarrow> a = b"
    unfolding string_slice_equal_def by metis
qed

interpretation slices: keyed text_slices "string_slice_hash state" string_slice_equal for state
  by unfold_locales (auto simp: text_slice_equal, auto simp: string_slice_equal_def split: if_splits)

interpretation delegate:
  keyed "{v. field v \<in> text_slices}" "delegate_hash field state" "delegate_equal field" for field state
  by unfold_locales
    (auto simp: delegate_equal_def delegate_hash_def text_slice_equal,
     auto simp: string_slice_equal_def split: if_splits)

section \<open>Properties\<close>

text \<open>A table of numbers, hashed to themselves, that holds one of them.\<close>

definition sample_hash :: "u64 \<Rightarrow> nat \<Rightarrow> u32" where
  "sample_hash state k = of_nat k"

definition sample_map :: "nat Hashmap" where
  "sample_map = (case hashmap_set (hashmap_init sample_hash (=) True 8) 3 of Some (_, m, _) \<Rightarrow> m)"

interpretation numbers: keyed UNIV "sample_hash state" "(=)" for state
  by unfold_locales auto

lemma sample_map_ok:
  "hashmap_inv sample_map" "lawful UNIV sample_map" "hashmap_items sample_map = {3}"
  "hashmap_items sample_map \<subseteq> UNIV" "h_equal sample_map = (=)"
proof -
  let ?m = "hashmap_init sample_hash (=) True 8" and ?k = "3 :: nat"
  have f: "h_hash ?m = sample_hash" "h_equal ?m = (=)" "h_count ?m = 0"
    "h_cap ?m = 64" "h_max ?m = 32"
    by (simp_all add: hashmap_init_def Let_def HASHMAP_BASE_CAP_def MAX_ITEMS_def)
  have l: "lawful UNIV ?m" unfolding f by unfold_locales
  have k: "?k \<in> UNIV" by simp
  have ok: "hashmap_ok ?m"
    using hashmap_init_inv(1) [of sample_hash "(=)" True 8] by (simp add: hashmap_inv_def)
  have e: "hashmap_items ?m \<subseteq> UNIV" and lt: "h_count ?m < h_cap ?m"
    by (simp_all add: hashmap_init_inv f)
  obtain bs c ds where i: "hashmap_insert ?m ?k (h_hash ?m (h_state ?m) ?k) =
      Some (\<exists>y \<in> hashmap_items ?m. h_equal ?m ?k y, ?m\<lparr>h_buckets := bs, h_count := c\<rparr>, ds)"
    and r: "hashmap_ok (?m\<lparr>h_buckets := bs, h_count := c\<rparr>)"
      "items bs = insert ?k {y \<in> hashmap_items ?m. \<not> h_equal ?m ?k y}"
      "c = (if \<exists>y \<in> hashmap_items ?m. h_equal ?m ?k y then h_count ?m else Suc (h_count ?m))"
    by (rule hashmap_insert_ok [OF l ok lt e k])
  have sm: "sample_map = ?m\<lparr>h_buckets := bs, h_count := c\<rparr>"
    unfolding sample_map_def hashmap_set_def using i f by simp
  show "hashmap_inv sample_map" "lawful UNIV sample_map"
      "hashmap_items sample_map = {?k}" "hashmap_items sample_map \<subseteq> UNIV"
      "h_equal sample_map = (=)"
    using r l k f hashmap_init_inv(2) [of sample_hash "(=)" True 8] unfolding sm by (simp_all add: hashmap_inv_def)
qed

text \<open>
  C8: Setting an item always ends, growing the table when it is half full, and refines the
  update of the set: the item replaces the one with an equal key, if any, which the result flag
  reports; every other item is kept.
\<close>

theorem hashmap_set_refines:
  assumes "lawful S m" and "hashmap_inv m" and "hashmap_items m \<subseteq> S" and "x \<in> S"
  shows "\<exists>m' ds. hashmap_set m x = Some (\<exists>y \<in> hashmap_items m. h_equal m x y, m', ds)
    \<and> hashmap_inv m' \<and> h_hash m' = h_hash m \<and> h_state m' = h_state m \<and> h_equal m' = h_equal m
    \<and> hashmap_items m' = insert x {y \<in> hashmap_items m. \<not> h_equal m x y}"
proof -
  obtain m1 where 1: "(if h_count m \<ge> h_max m then hashmap_grow m else Some m) = Some m1"
    and ok1: "hashmap_ok m1" and lt: "Suc (h_count m1) \<le> h_max m1" and mx: "h_max m1 = h_cap m1 div 2"
    and same: "h_hash m1 = h_hash m" "h_state m1 = h_state m" "h_equal m1 = h_equal m"
      "hashmap_items m1 = hashmap_items m"
  proof (cases "h_count m \<ge> h_max m")
    case False
    then show ?thesis using that [of m] assms(2) by (auto simp: hashmap_inv_def)
  next
    case True
    obtain m' where g: "hashmap_grow m = Some m'" "hashmap_ok m'" "h_max m' = h_cap m"
      "h_cap m' = h_cap m * 2" "h_count m' = h_count m" "hashmap_items m' = hashmap_items m"
      "h_hash m' = h_hash m" "h_state m' = h_state m" "h_equal m' = h_equal m"
      by (rule hashmap_grow_ok [OF assms(1-3)])
    have "Suc (h_count m) \<le> h_cap m"
      using assms(2) by (auto simp: hashmap_inv_def hashmap_ok_def)
    with g True show ?thesis using that [of m'] by simp
  qed
  have lt1: "h_count m1 < h_cap m1" using lt mx by linarith
  have l1: "lawful S m1" using assms(1) same by simp
  obtain bs c ds where "hashmap_insert m1 x (h_hash m (h_state m) x) =
      Some (\<exists>y \<in> hashmap_items m. h_equal m x y, m1\<lparr>h_buckets := bs, h_count := c\<rparr>, ds)"
    and "hashmap_ok (m1\<lparr>h_buckets := bs, h_count := c\<rparr>)"
    and "items bs = insert x {y \<in> hashmap_items m. \<not> h_equal m x y}"
    and "c = (if \<exists>y \<in> hashmap_items m. h_equal m x y then h_count m1 else Suc (h_count m1))"
    by (rule hashmap_insert_ok [OF l1 ok1 lt1 _ assms(4), unfolded same, OF assms(3)])
  then show ?thesis
    using 1 same lt mx by (auto simp: hashmap_set_def hashmap_inv_def)
qed

theorem hashmap_set_refines_witness:
  "\<exists>m' ds. hashmap_set sample_map 67 = Some (False, m', ds) \<and> hashmap_inv m'
     \<and> hashmap_items m' = {67, 3}"
  using hashmap_set_refines [OF sample_map_ok(2,1,4), of 67] by (auto simp: sample_map_ok)

text \<open>
  C18: A lookup always ends, and returns the bucket of the item whose key equals the one asked
  for, or \<open>NULL\<close> when no item of the table has that key.
\<close>

theorem hashmap_get_refines:
  assumes "lawful S m" and "hashmap_inv m" and "hashmap_items m \<subseteq> S" and "x \<in> S"
  shows "\<exists>r. hashmap_get m x = Some r \<and> (case r of
      None \<Rightarrow> \<forall>y \<in> hashmap_items m. \<not> h_equal m x y
    | Some i \<Rightarrow> i < h_cap m \<and> (\<exists>y \<in> hashmap_items m. b_item (h_buckets m ! i) = Some y \<and> h_equal m x y))"
proof -
  let ?bs = "h_buckets m"
  have ok: "hashmap_ok m" and lt: "h_count m < h_cap m" and cap: "length ?bs = h_cap m"
    and t: "table_ok (h_hash m (h_state m)) (h_equal m) ?bs"
    using assms(2) by (auto simp: hashmap_inv_def hashmap_ok_def)
  obtain i n where f: "hashmap_bucket m x (h_hash m (h_state m) x) = Some i" "i < length ?bs"
    "occ ?bs i \<longrightarrow> h_equal m x (the (b_item (?bs ! i)))"
    "\<forall>k<length ?bs. occ ?bs k \<longrightarrow> h_equal m x (the (b_item (?bs ! k))) \<longrightarrow> k = i"
    by (rule hashmap_bucket_finds [OF assms(1) ok lt assms(3,4)])
  show ?thesis
  proof (cases "occ ?bs i")
    case True
    from keyed.table_item [OF assms(1) t f(2) True] f(3) True
    show ?thesis
      using f(1,2) cap by (auto simp: hashmap_get_def occ_def items_def)
  next
    case False
    then have "\<forall>y \<in> hashmap_items m. \<not> h_equal m x y" using f(4) by (auto simp: items_def)
    then show ?thesis using f(1) False by (simp add: hashmap_get_def occ_def)
  qed
qed

theorem hashmap_get_refines_witness:
  "\<exists>i. hashmap_get sample_map 3 = Some (Some i) \<and> b_item (h_buckets sample_map ! i) = Some 3"
  using hashmap_get_refines [OF sample_map_ok(2,1,4), of 3]
  by (auto simp: sample_map_ok split: option.splits)

text \<open>
  C19: While the last bucket is empty, taking an item refines deletion: it reports whether an
  item with that key was there, hands out or drops that item and no other, and keeps all others
  reachable.
\<close>

theorem hashmap_take_refines:
  assumes "lawful S m" and "hashmap_inv m" and "hashmap_items m \<subseteq> S" and "x \<in> S"
    and "\<not> occ (h_buckets m) (h_cap m - 1)"
  shows "\<exists>m' out ds. hashmap_take m x want = Some (\<exists>y \<in> hashmap_items m. h_equal m x y, m', out, ds)
    \<and> hashmap_inv m' \<and> hashmap_items m' = {y \<in> hashmap_items m. \<not> h_equal m x y}
    \<and> (\<forall>z \<in> set (out @ ds). \<exists>y \<in> hashmap_items m. z = Some y \<and> h_equal m x y)"
proof -
  let ?bs = "h_buckets m" and ?hf = "h_hash m (h_state m)" and ?eq = "h_equal m"
  have ok: "hashmap_ok m" and lt: "h_count m < h_cap m" and cap: "length ?bs = h_cap m"
    and t: "table_ok ?hf ?eq ?bs"
    using assms(2) by (auto simp: hashmap_inv_def hashmap_ok_def)
  obtain i n where f: "hashmap_bucket m x (?hf x) = Some i" "i < length ?bs"
    "occ ?bs i \<longrightarrow> ?eq x (the (b_item (?bs ! i)))"
    "\<forall>k<length ?bs. occ ?bs k \<longrightarrow> ?eq x (the (b_item (?bs ! k))) \<longrightarrow> k = i"
    by (rule hashmap_bucket_finds [OF assms(1) ok lt assms(3,4)])
  show ?thesis
  proof (cases "occ ?bs i")
    case False
    then have "\<forall>y \<in> hashmap_items m. \<not> ?eq x y" using f(4) by (auto simp: items_def)
    then show ?thesis using f(1) False assms(2) by (auto simp: hashmap_take_def occ_def)
  next
    case True
    obtain y where y: "b_item (?bs ! i) = Some y" "?eq x y" "y \<in> hashmap_items m"
      using keyed.table_item [OF assms(1) t f(2) True] f(2,3) True by (auto simp: items_def)
    have g: "good ?hf ?eq ?bs i"
      using t keyed.table_unique [OF assms(1) t] by (auto simp: good_def table_ok_def)
    have last: "\<not> occ ?bs (length ?bs - 1)" using assms(5) cap by simp
    obtain e where e: "h_cap m = 2 ^ e" "h_mask m = 2 ^ e - 1"
      using ok by (auto simp: hashmap_ok_def)
    have am: "\<And>h :: u32. unat (h AND of_nat (h_mask m)) = unat h mod length ?bs"
      unfolding e cap by (rule mask_mod_of_nat)
    have lm: "length ?bs = Suc (h_mask m)" using e cap by simp
    obtain bs' where b: "take_shift (h_mask m) ?bs i (length ?bs) = Some bs'"
      "length bs' = length ?bs" "table_ok ?hf ?eq bs'" "items bs' = rest ?bs i"
      "Suc (occupied bs') = occupied ?bs"
      using take_shift_ok [OF table_straight [OF t last] g True f(2) last lm am, of "length ?bs"] by auto
    have "k \<noteq> i \<longleftrightarrow> \<not> ?eq x z" if "k < length ?bs" "occ ?bs k" "b_item (?bs ! k) = Some z" for k z
      using f(4) y(1,2) that by (metis option.sel)
    then have "rest ?bs i = {y \<in> hashmap_items m. \<not> ?eq x y}"
      unfolding rest_def items_def by blast
    moreover have "hashmap_inv (m\<lparr>h_count := h_count m - 1, h_buckets := bs'\<rparr>)"
      using assms(2) b(2,3,5) by (auto simp: hashmap_inv_def hashmap_ok_def)
    ultimately show ?thesis
      using f(1) True b y by (auto simp: hashmap_take_def occ_def Let_def)
  qed
qed

theorem hashmap_take_refines_witness:
  "\<exists>m' out ds. hashmap_take sample_map 3 True = Some (True, m', out, ds) \<and> hashmap_items m' = {}
     \<and> set (out @ ds) \<subseteq> {Some 3}"
proof -
  have "\<not> occ (h_buckets sample_map) (h_cap sample_map - 1)" by code_simp
  from hashmap_take_refines [OF sample_map_ok(2,1,4) _ this, of 3 True] show ?thesis
    by (auto simp: sample_map_ok)
qed

text \<open>
  C27: Iterating over a table ends and visits every occupied bucket exactly once, in order.
\<close>

theorem iterate_visits_all:
  assumes "hashmap_inv m"
  shows "iterate m (Suc (h_cap m)) None = Some (filter (occ (h_buckets m)) [0..<h_cap m])"
proof -
  have cap: "length (h_buckets m) = h_cap m" and n: "h_count m = occupied (h_buckets m)"
    using assms by (simp_all add: hashmap_inv_def hashmap_ok_def)
  note f = iter_scan_filter [of 0 "h_buckets m"]
  show ?thesis
  proof (cases "h_count m = 0")
    case True
    then have "\<forall>i<h_cap m. \<not> occ (h_buckets m) i" using n cap by (simp add: occupied_def)
    then show ?thesis using True by (simp add: hashmap_iter_def filter_empty_conv)
  next
    case False
    then have "{i. i < length (h_buckets m) \<and> occ (h_buckets m) i} \<noteq> {}"
      using n by (auto simp: occupied_def)
    then obtain i where "i < length (h_buckets m)" "occ (h_buckets m) i" by blast
    then have "filter (occ (h_buckets m)) [0..<length (h_buckets m)] \<noteq> []"
      by (auto simp: filter_empty_conv)
    then obtain j where j: "iter_scan (h_buckets m) 0 = Some j" "j < length (h_buckets m)"
      using f by (cases "iter_scan (h_buckets m) 0") auto
    then have "iterate m (h_cap m) (Some j) = Some (filter (occ (h_buckets m)) [j + 1..<length (h_buckets m)])"
      by (intro iterate_from) (simp_all add: cap)
    then show ?thesis using f j False cap by (simp add: hashmap_iter_def)
  qed
qed

theorem iterate_visits_all_witness:
  "iterate sample_map 65 None = Some [3]"
proof -
  have "h_cap sample_map = 64" by code_simp
  moreover have "filter (occ (h_buckets sample_map)) [0..<64] = [3]" by code_simp
  ultimately show ?thesis using iterate_visits_all [OF sample_map_ok(1)] by simp
qed

definition wrapped_map :: "nat Hashmap option" where
  "wrapped_map = do {
     let m = hashmap_init sample_hash (=) False 8;
     (_, m, _) \<leftarrow> hashmap_set m 63;
     (_, m, _) \<leftarrow> hashmap_set m 64;
     Some m
   }"


text \<open>
  Clearing a table that is not empty empties it, but calls the destructor on every bucket,
  those that never held an item included.
\<close>

theorem hashmap_clear_drops_every_bucket:
  assumes "hashmap_inv m" and "h_drop m" and "0 < h_count m" and "hashmap_clear m = (m', dropped)"
  shows "hashmap_items m' = {} \<and> h_count m' = 0 \<and> dropped = map b_item (h_buckets m)
    \<and> length (hashmap_drop m) < length dropped"
proof -
  have "occupied (h_buckets m) < length (h_buckets m)"
    using assms(1) by (auto simp: hashmap_inv_def hashmap_ok_def)
  then show ?thesis
    using assms(2-4) by (auto simp: hashmap_clear_def hashmap_drop_def items_def occ_def
        occupied_contents contents_def)
qed

theorem hashmap_clear_drops_every_bucket_witness:
  "length (snd (hashmap_clear sample_map)) = 64 \<and> length (hashmap_drop sample_map) = 1"
proof -
  have "h_drop sample_map" "0 < h_count sample_map" by code_simp+
  moreover have "length (h_buckets sample_map) = 64" "length (hashmap_drop sample_map) = 1" by code_simp+
  ultimately show ?thesis
    using hashmap_clear_drops_every_bucket [OF sample_map_ok(1), of "fst (hashmap_clear sample_map)"
      "snd (hashmap_clear sample_map)"] by simp
qed

end
