(* ===== verification/Util.thy ===== *)
theory Util
  imports Prelude
begin

text \<open>
  The pure helpers of \<^verbatim>\<open>util.h\<close> and \<^verbatim>\<open>util.c\<close>: alignment, hexadecimal digits and the
  transformers that turn a string of the configuration into a number. A string is the list of
  its characters before the NUL; a transformer that prints a message and leaves its target
  alone is \<^const>\<open>None\<close>.
\<close>

definition align_8 :: "u64 \<Rightarrow> u64" where "align_8 n = push_bit 3 (drop_bit 3 (n - 1) + 1)"
definition align_4 :: "u64 \<Rightarrow> u64" where "align_4 n = push_bit 2 (drop_bit 2 (n - 1) + 1)"
definition align_2 :: "u64 \<Rightarrow> u64" where "align_2 n = push_bit 1 (drop_bit 1 (n - 1) + 1)"

definition bit_set :: "byte list \<Rightarrow> nat \<Rightarrow> bool option" where
  "bit_set bits i = map_option (\<lambda>b. b AND push_bit (i mod 8) 1 \<noteq> 0) (load8 bits (i div 8))"

definition parse_hex_digit :: "byte \<Rightarrow> u8" where
  "parse_hex_digit h =
    (if h \<ge> 0x30 \<and> h \<le> 0x39 then h - 0x30
     else if h \<ge> 0x61 \<and> h \<le> 0x66 then h - 0x61 + 10
     else if h \<ge> 0x41 \<and> h \<le> 0x46 then h - 0x41 + 10
     else 0)"

definition hex_digit :: "byte \<Rightarrow> u8" where
  "hex_digit c =
    (if c \<ge> 0x30 \<and> c \<le> 0x39 then c - 0x30
     else if c \<ge> 0x61 \<and> c \<le> 0x66 then c - 0x61 + 10
     else if c \<ge> 0x41 \<and> c \<le> 0x46 then c - 0x41 + 10
     else 16)"

text \<open>\<open>atoll\<close>: leading blanks, an optional sign, then digits up to the first other character.\<close>

fun digits_value :: "int \<Rightarrow> byte list \<Rightarrow> int" where
  "digits_value n [] = n"
| "digits_value n (c # cs) =
    (if c \<ge> 0x30 \<and> c \<le> 0x39 then digits_value (10 * n + uint (c - 0x30)) cs else n)"

definition atoll :: "byte list \<Rightarrow> int" where
  "atoll str = (case dropWhile (\<lambda>c. c = 0x20 \<or> (c \<ge> 9 \<and> c \<le> 13)) str of
     [] \<Rightarrow> 0
   | c # cs \<Rightarrow> if c = 0x2D then - digits_value 0 cs
       else if c = 0x2B then digits_value 0 cs else digits_value 0 (c # cs))"

text \<open>\<open>panicf\<close> ends the program: \<^const>\<open>None\<close>.\<close>

definition parse_port :: "byte list \<Rightarrow> u16 option" where
  "parse_port str = (let n = atoll str in
     if n \<le> 0 \<or> n > 65535 then None else Some (of_int n))"

fun uniq_loop :: "u64 \<Rightarrow> byte list \<Rightarrow> u64 option" where
  "uniq_loop mac [] = Some mac"
| "uniq_loop mac (c # cs) =
    (if c \<ge> 0x30 \<and> c \<le> 0x39 then uniq_loop (push_bit 4 mac OR ucast (c - 0x30)) cs
     else if c \<ge> 0x61 \<and> c \<le> 0x66 then uniq_loop (push_bit 4 mac OR ucast (c - 0x61 + 10)) cs
     else if c \<ge> 0x41 \<and> c \<le> 0x46 then uniq_loop (push_bit 4 mac OR ucast (c - 0x41 + 10)) cs
     else if c = 0x3A then uniq_loop mac cs
     else None)"

definition tsf_uniq_to_u64 :: "byte list \<Rightarrow> u64 option" where
  "tsf_uniq_to_u64 s = (if length s \<noteq> 17 then None else uniq_loop 0 s)"

fun hex_loop :: "u32 \<Rightarrow> byte list \<Rightarrow> u32 option" where
  "hex_loop res [] = Some res"
| "hex_loop res (c # cs) =
    (if c \<ge> 0x30 \<and> c \<le> 0x39 then hex_loop (push_bit 4 res OR ucast (c - 0x30)) cs
     else if c \<ge> 0x61 \<and> c \<le> 0x66 then hex_loop (push_bit 4 res OR ucast (c - 0x61 + 10)) cs
     else if c \<ge> 0x41 \<and> c \<le> 0x46 then hex_loop (push_bit 4 res OR ucast (c - 0x41 + 10)) cs
     else None)"

definition tsf_hex_to_i32 :: "byte list \<Rightarrow> u32 option" where
  "tsf_hex_to_i32 s = hex_loop 0 s"

text \<open>
  The colour bytes written before a bad digit is met stay written: the result is the flag and
  the three bytes.
\<close>

fun color_loop :: "byte list \<Rightarrow> byte list \<Rightarrow> nat \<Rightarrow> bool \<times> byte list" where
  "color_loop (c0 # c1 # cs) color i =
    (let d0 = hex_digit c0; d1 = hex_digit c1 in
     if d0 = 16 \<or> d1 = 16 then (False, color)
     else color_loop cs (color[i := push_bit 4 d0 OR d1]) (i + 1))"
| "color_loop _ color i = (True, color)"

definition tsf_hex_to_color :: "byte list \<Rightarrow> byte list \<Rightarrow> bool \<times> byte list" where
  "tsf_hex_to_color s color =
    (if length s \<noteq> 7 \<or> hd s \<noteq> 0x23 then (False, color) else color_loop (tl s) color 0)"

section \<open>Alignment\<close>

lemma align_unat:
  assumes "unat n \<le> 2 ^ 64 - 2 ^ k" and "k < 64"
  shows "unat (push_bit k (drop_bit k (n - 1) + 1) :: u64) = (unat n + (2 ^ k - 1)) div 2 ^ k * 2 ^ k"
proof (cases "n = 0")
  case True
  have "drop_bit k (- 1 :: u64) + 1 = 2 ^ (64 - k)"
  proof -
    have "drop_bit k (- 1 :: u64) = Bit_Operations.mask (64 - k)"
      by (rule bit_word_eqI) (use assms(2) in \<open>auto simp: bit_simps\<close>)
    then show ?thesis by (simp add: mask_eq_exp_minus_1)
  qed
  moreover have "push_bit k (2 ^ (64 - k)) = (0 :: u64)"
    using assms(2) by (simp add: push_bit_eq_mult power_add [symmetric])
  moreover have "(2 ^ k - 1) div 2 ^ k = (0 :: nat)" by simp
  ultimately show ?thesis using True by simp
next
  case False
  define m where "m = unat n - 1"
  have n: "unat n = Suc m" using False by (simp add: m_def unat_eq_0 [symmetric])
  have m: "unat (n - 1) = m" using False by (simp add: unat_minus_one m_def)
  have d: "unat (drop_bit k (n - 1)) = m div 2 ^ k"
    unfolding unsigned_drop_bit_eq m using unsigned_less [of "n - 1", where 'a = nat] m
    by (simp add: take_bit_nat_eq_self drop_bit_eq_div)
  have p: "(2::nat) ^ k * (m div 2 ^ k + 1) < 2 ^ 64"
  proof -
    have "2 ^ k * (m div 2 ^ k) \<le> m" by simp
    moreover have "(2::nat) ^ k \<le> 2 ^ 64" by (rule power_increasing) (use assms(2) in simp_all)
    ultimately show ?thesis
      using assms(1) n unfolding distrib_left mult_1_right by linarith
  qed
  have q: "m div 2 ^ k + 1 < (2::nat) ^ 64"
    using p by (metis le_less_trans mult.commute mult_le_mono2 nat_mult_1_right one_le_numeral one_le_power)
  have "unat (drop_bit k (n - 1) + 1) = m div 2 ^ k + 1"
    using q d by (simp add: unat_word_ariths)
  then have "unat (push_bit k (drop_bit k (n - 1) + 1)) = 2 ^ k * (m div 2 ^ k + 1)"
    unfolding unsigned_push_bit_eq using p
    by (simp add: push_bit_eq_mult take_bit_nat_eq_self mult.commute)
  also have "m div 2 ^ k + 1 = (m + 2 ^ k) div 2 ^ k"
    by (rule div_add_self2 [symmetric]) simp
  also have "m + 2 ^ k = Suc m + (2 ^ k - 1)" by simp
  also have "2 ^ k * (\<dots> div 2 ^ k) = \<dots> div 2 ^ k * 2 ^ k" by (rule mult.commute)
  finally show ?thesis by (simp only: n)
qed

text \<open>
  The alignment helpers round up to the next multiple, and 0 stays 0, for every size that
  has such a multiple in 64 bits.
\<close>

theorem align_rounds_up:
  assumes "unat n \<le> 2 ^ 64 - 8"
  shows "unat (align_8 n) = (unat n + 7) div 8 * 8 \<and> unat (align_4 n) = (unat n + 3) div 4 * 4
    \<and> unat (align_2 n) = (unat n + 1) div 2 * 2"
  using assms align_unat [of n 3] align_unat [of n 2] align_unat [of n 1]
  by (simp add: align_8_def align_4_def align_2_def)

theorem align_rounds_up_witness: "unat (align_8 13) = 16 \<and> unat (align_4 13) = 16 \<and> unat (align_2 13) = 14"
  using align_rounds_up [of 13] by simp

section \<open>Hardware addresses\<close>

text \<open>The twelve hexadecimal digits of an address, from the top, and its usual spelling.\<close>

fun nibbles :: "nat \<Rightarrow> u64 \<Rightarrow> u64 list" where
  "nibbles 0 w = []"
| "nibbles (Suc n) w = take_bit 4 (drop_bit (4 * n) w) # nibbles n w"

definition hex_char :: "u64 \<Rightarrow> byte" where
  "hex_char d = (if d < 10 then 0x30 + ucast d else 0x61 + (ucast d - 10))"

fun with_colons :: "byte list \<Rightarrow> byte list" where
  "with_colons (a # b # c # cs) = a # b # 0x3A # with_colons (c # cs)"
| "with_colons cs = cs"

definition format_uniq :: "u64 \<Rightarrow> byte list" where
  "format_uniq w = with_colons (map hex_char (nibbles 12 w))"

lemma nibble_less: "d = take_bit 4 (w :: u64) \<Longrightarrow> d < 16"
proof -
  assume d: "d = take_bit 4 w"
  have "unat d = unat w mod 16"
    unfolding d unsigned_take_bit_eq by (simp add: take_bit_eq_mod)
  then show "d < 16" by (simp add: word_less_nat_alt)
qed

lemma nibble_cases:
  assumes "d < (16 :: u64)"
  shows "d \<in> {0, 1, 2, 3, 4, 5, 6, 7, 8, 9, 10, 11, 12, 13, 14, 15}"
proof -
  have "unat d < 16" using assms by (simp add: word_less_nat_alt)
  then have "d \<in> set (map of_nat [0..<16])"
    unfolding set_map set_upt by (intro image_eqI [of _ _ "unat d"]) simp_all
  moreover have "[0..<16] = [0, 1, 2, 3, 4, 5, 6, 7, 8, 9, 10, 11, 12, 13, 14, 15 :: nat]"
    by code_simp
  ultimately show ?thesis by (simp only:) simp
qed

lemma uniq_loop_nibble:
  assumes "d < 16"
  shows "uniq_loop mac (hex_char d # cs) = uniq_loop (push_bit 4 mac OR d) cs"
  using nibble_cases [OF assms] by (elim insertE emptyE) (simp_all add: hex_char_def)

lemma uniq_loop_append:
  "uniq_loop mac (xs @ ys) = do { m \<leftarrow> uniq_loop mac xs; uniq_loop m ys }"
  by (induction xs arbitrary: mac) simp_all

lemma uniq_loop_colons: "uniq_loop mac (with_colons cs) = uniq_loop mac cs"
proof (induction cs arbitrary: mac rule: with_colons.induct)
  case (1 a b c cs)
  have colon: "uniq_loop m (0x3A # ds) = uniq_loop m ds" for m ds by simp
  have "uniq_loop mac (with_colons (a # b # c # cs)) = uniq_loop mac ([a, b] @ 0x3A # with_colons (c # cs))"
    by simp
  also have "\<dots> = uniq_loop mac ([a, b] @ c # cs)"
    by (simp only: uniq_loop_append colon 1)
  finally show ?case by simp
qed simp_all

lemma uniq_loop_nibbles:
  "uniq_loop mac (map hex_char (nibbles n w)) = Some (push_bit (4 * n) mac OR take_bit (4 * n) w)"
proof (induction n arbitrary: mac)
  case 0
  then show ?case by simp
next
  case (Suc n)
  have "push_bit (4 * n) (push_bit 4 mac OR take_bit 4 (drop_bit (4 * n) w)) OR take_bit (4 * n) w
      = push_bit (4 * Suc n) mac OR take_bit (4 * Suc n) w"
    by (rule bit_word_eqI) (auto simp: bit_simps ac_simps)
  then show ?case
    by (simp only: nibbles.simps list.map uniq_loop_nibble [OF nibble_less [OF refl]] Suc.IH)
qed

lemma format_uniq_read:
  assumes "w < 2 ^ 48"
  shows "tsf_uniq_to_u64 (format_uniq w) = Some w"
proof -
  have "take_bit 48 w = w"
    using assms by (intro word_unat_eq_iff [THEN iffD2])
      (simp only: unsigned_take_bit_eq, simp add: take_bit_nat_eq_self word_less_nat_alt)
  moreover have "length (format_uniq w) = 17"
    by (simp add: format_uniq_def eval_nat_numeral)
  ultimately show ?thesis
    using uniq_loop_nibbles [of 0 12 w]
    by (simp add: tsf_uniq_to_u64_def format_uniq_def uniq_loop_colons)
qed

text \<open>
  The address filter of the configuration reads back the usual spelling of every 48-bit
  address, \<open>xx:xx:xx:xx:xx:xx\<close>.
\<close>

theorem uniq_roundtrip:
  assumes "w < 2 ^ 48"
  shows "tsf_uniq_to_u64 (format_uniq w) = Some w"
  using assms by (rule format_uniq_read)

theorem uniq_roundtrip_witness:
  "tsf_uniq_to_u64 [0x30, 0x30, 0x3A, 0x31, 0x61, 0x3A, 0x37, 0x64, 0x3A, 0x64, 0x61, 0x3A, 0x37,
     0x31, 0x3A, 0x31, 0x33] = Some 0x001a7dda7113"
proof -
  have "format_uniq 0x001a7dda7113 = [0x30, 0x30, 0x3A, 0x31, 0x61, 0x3A, 0x37, 0x64, 0x3A, 0x64,
      0x61, 0x3A, 0x37, 0x31, 0x3A, 0x31, 0x33]"
    by code_simp
  with uniq_roundtrip [of "0x001a7dda7113"] show ?thesis by simp
qed

end
