(* ===== verification/Json.thy ===== *)
theory Json
  imports Util
begin

text \<open>
  The JSON parser of \<^verbatim>\<open>json.c\<close>. The source is the byte list \<open>src\<close>, the destination buffer the
  byte list in the state; \<open>*buf\<close> and \<open>*dst\<close> are offsets into them. A result holds the error
  code (\<open>NoError\<close> for return code 0) and the state reached, which the code leaves in place on an
  error too. \<^const>\<open>None\<close> is an access outside the two buffers, or fuel that ran out. Doubles are
  their 64-bit patterns; the operations the parser uses on them are the record \<open>fpu\<close>.
\<close>

section \<open>Types\<close>

datatype JSONType = String | Number | Object | Array | Boolean | Null

fun json_type_val :: "JSONType \<Rightarrow> u32" where
  "json_type_val String = 1"
| "json_type_val Number = 2"
| "json_type_val Object = 3"
| "json_type_val Array = 4"
| "json_type_val Boolean = 5"
| "json_type_val Null = 6"

datatype JSONError =
  NoError | DstOverflow | SrcOverflow | BadKeyword | BadChar | StringBadChar | StringBadUnicode
| StringBadEscape | NumberBadChar | ObjectBadChar | JERRORNO_MAX

record jstate =
  j_buf :: nat
  j_dst :: nat
  j_mem :: "byte list"

type_synonym jresult = "(JSONError \<times> jstate) option"

definition and_then :: "jresult \<Rightarrow> (jstate \<Rightarrow> jresult) \<Rightarrow> jresult" where
  "and_then r k = (case r of None \<Rightarrow> None
     | Some (e, st) \<Rightarrow> if e = NoError then k st else Some (e, st))"

definition advance :: "nat \<Rightarrow> jstate \<Rightarrow> jstate" where
  "advance n st = st\<lparr>j_buf := j_buf st + n\<rparr>"

definition is_whitespace :: "byte \<Rightarrow> bool" where
  "is_whitespace c \<longleftrightarrow> c = 0x20 \<or> c = 0x09 \<or> c = 0x0A"

definition skip_whitespaces :: "byte list \<Rightarrow> jstate \<Rightarrow> jstate" where
  "skip_whitespaces src st = advance (length (takeWhile is_whitespace (drop (j_buf st) src))) st"

definition sizeof_JSONHeader :: nat where "sizeof_JSONHeader = 8"

section \<open>Strings\<close>

definition unicode_digit :: "byte \<Rightarrow> u32 option" where
  "unicode_digit c =
    (if c \<ge> 0x30 \<and> c \<le> 0x39 then Some (ucast (c - 0x30))
     else if c \<ge> 0x61 \<and> c \<le> 0x66 then Some (ucast (c - 0x61 + 10))
     else if c \<ge> 0x41 \<and> c \<le> 0x46 then Some (ucast (c - 0x41 + 10))
     else None)"

text \<open>The encoding of a code point, an \<open>int\<close>; \<^const>\<open>None\<close> is an illegal one.\<close>

definition utf8 :: "u32 \<Rightarrow> byte list option" where
  "utf8 cp =
    (if sint cp \<le> 0x7f then Some [ucast cp]
     else if sint cp \<le> 0x7ff then
       Some [0xC0 OR (ucast (drop_bit 6 cp) AND 0x1F), 0x80 OR (ucast cp AND 0x3F)]
     else if sint cp \<le> 0xffff then
       Some [0xE0 OR (ucast (drop_bit 12 cp) AND 0x0F), 0x80 OR (ucast (drop_bit 6 cp) AND 0x3F),
             0x80 OR (ucast cp AND 0x3F)]
     else if sint cp \<le> 0x10ffff then
       Some [0xF0 OR (ucast (drop_bit 18 cp) AND 0x07), 0x80 OR (ucast (drop_bit 12 cp) AND 0x3F),
             0x80 OR (ucast (drop_bit 6 cp) AND 0x3F), 0x80 OR (ucast cp AND 0x3F)]
     else None)"

definition unescape :: "byte \<Rightarrow> byte option" where
  "unescape c =
    (if c = 0x22 \<or> c = 0x5C \<or> c = 0x2F then Some c
     else if c = 0x62 then Some 0x08
     else if c = 0x66 then Some 0x0C
     else if c = 0x6E then Some 0x0A
     else if c = 0x72 then Some 0x0D
     else if c = 0x74 then Some 0x09
     else None)"

text \<open>Appending bytes to the string whose header is at \<open>header\<close>, after the space check.\<close>

definition string_emit :: "byte list \<Rightarrow> nat \<Rightarrow> jstate \<Rightarrow> jresult" where
  "string_emit bs header st =
    (if j_dst st + length bs \<ge> length (j_mem st) then Some (DstOverflow, st)
     else do {
       m \<leftarrow> store bs (j_mem st) (j_dst st);
       len \<leftarrow> load32 m (header + 4);
       m \<leftarrow> store32 (len + of_nat (length bs)) m (header + 4);
       Some (NoError, st\<lparr>j_dst := j_dst st + length bs, j_mem := m\<rparr>)
     })"

text \<open>The closing quote: padding to a multiple of eight, then skipping the quote.\<close>

definition string_close :: "nat \<Rightarrow> jstate \<Rightarrow> jresult" where
  "string_close header st = do {
     len \<leftarrow> load32 (j_mem st) (header + 4);
     let padded_len = (ucast (align_8 (ucast len)) :: u32);
     if j_dst st + unat (padded_len - len) \<ge> length (j_mem st) then Some (DstOverflow, st)
     else do {
       let pad = unat padded_len - unat len;
       m \<leftarrow> store (replicate pad 0) (j_mem st) (j_dst st);
       Some (NoError, st\<lparr>j_buf := j_buf st + 1, j_dst := j_dst st + pad, j_mem := m\<rparr>)
     }
   }"

text \<open>
  The loop over the characters from \<open>*buf\<close> to \<open>buf_end\<close>, with its variables \<open>esc\<close>,
  \<open>esc_unicode\<close> and \<open>un_codepoint\<close>. Characters are signed.
\<close>

fun string_loop :: "byte list \<Rightarrow> nat \<Rightarrow> bool \<Rightarrow> int \<Rightarrow> u32 \<Rightarrow> jstate \<Rightarrow> jresult" where
  "string_loop [] header esc esc_unicode un_codepoint st = Some (SrcOverflow, st)"
| "string_loop (c # cs) header esc esc_unicode un_codepoint st =
    (if esc_unicode \<ge> 0 then
       (case unicode_digit c of
          None \<Rightarrow> Some (StringBadUnicode, st)
        | Some digit \<Rightarrow>
            let un_codepoint = push_bit 4 un_codepoint + digit; esc_unicode = esc_unicode + 1 in
            if esc_unicode = 4 then
              (case utf8 un_codepoint of
                 None \<Rightarrow> Some (StringBadUnicode, st)
               | Some bs \<Rightarrow> and_then (string_emit bs header st)
                   (\<lambda>st. string_loop cs header esc (- 1) un_codepoint (advance 1 st)))
            else string_loop cs header esc esc_unicode un_codepoint (advance 1 st))
     else if esc then
       (if c = 0x75 then string_loop cs header False 0 un_codepoint (advance 1 st)
        else (case unescape c of
            None \<Rightarrow> Some (StringBadEscape, st)
          | Some r \<Rightarrow> and_then (string_emit [r] header st)
              (\<lambda>st. string_loop cs header False esc_unicode un_codepoint (advance 1 st))))
     else if c = 0x5C then string_loop cs header True esc_unicode un_codepoint (advance 1 st)
     else if c = 0x22 then string_close header st
     else if (sint c < 0x20 \<and> c \<noteq> 0x09) \<or> c = 0x7F then Some (StringBadChar, st)
     else and_then (string_emit [c] header st)
       (\<lambda>st. string_loop cs header esc esc_unicode un_codepoint (advance 1 st)))"

definition json_parse_string :: "byte list \<Rightarrow> jstate \<Rightarrow> jresult" where
  "json_parse_string src st =
    (if j_dst st + sizeof_JSONHeader \<ge> length (j_mem st) then Some (DstOverflow, st)
     else do {
       let header = j_dst st;
       m \<leftarrow> store32 (json_type_val String) (j_mem st) header;
       m \<leftarrow> store32 0 m (header + 4);
       let st = \<lparr>j_buf = j_buf st + 1, j_dst = header + sizeof_JSONHeader, j_mem = m\<rparr>;
       if j_buf st = length src then Some (SrcOverflow, st)
       else string_loop (drop (j_buf st) src) header False (- 1) 0 st
     })"

section \<open>Numbers\<close>

text \<open>
  The operations of the floating-point unit and of \<open>pow\<close>, and the constants of the source.
\<close>

record fpu =
  fp_add :: "u64 \<Rightarrow> u64 \<Rightarrow> u64"
  fp_mul :: "u64 \<Rightarrow> u64 \<Rightarrow> u64"
  fp_pow :: "u64 \<Rightarrow> u64 \<Rightarrow> u64"
  fp_of_int :: "int \<Rightarrow> u64"

definition dbl_0 :: u64 where "dbl_0 = 0"
definition dbl_1 :: u64 where "dbl_1 = 0x3FF0000000000000"
definition dbl_m1 :: u64 where "dbl_m1 = 0xBFF0000000000000"
definition dbl_10 :: u64 where "dbl_10 = 0x4024000000000000"
definition dbl_tenth :: u64 where "dbl_tenth = 0x3FB999999999999A"

definition is_digit :: "byte \<Rightarrow> bool" where
  "is_digit c \<longleftrightarrow> \<not> (c < 0x30 \<or> c > 0x39)"

text \<open>The digit loops: the value, and how many characters were read.\<close>

fun int_digits :: "fpu \<Rightarrow> u64 \<Rightarrow> byte list \<Rightarrow> u64 \<times> nat" where
  "int_digits F v [] = (v, 0)"
| "int_digits F v (c # cs) =
    (if \<not> is_digit c then (v, 0)
     else let (v, n) = int_digits F (fp_add F (fp_mul F v dbl_10) (fp_of_int F (uint (c - 0x30)))) cs
       in (v, Suc n))"

fun frac_digits :: "fpu \<Rightarrow> u64 \<Rightarrow> u64 \<Rightarrow> byte list \<Rightarrow> u64 \<times> nat" where
  "frac_digits F v place [] = (v, 0)"
| "frac_digits F v place (c # cs) =
    (if \<not> is_digit c then (v, 0)
     else let (v, n) = frac_digits F (fp_add F v (fp_mul F (fp_of_int F (uint (c - 0x30))) place))
         (fp_mul F place dbl_tenth) cs
       in (v, Suc n))"

text \<open>The parts of a number: error, value, position.\<close>

definition integer_part :: "fpu \<Rightarrow> byte list \<Rightarrow> nat \<Rightarrow> u64 \<times> nat" where
  "integer_part F src buf =
    (if src ! buf \<noteq> 0x30 then (let (v, n) = int_digits F dbl_0 (drop buf src) in (v, buf + n))
     else (dbl_0, buf + 1))"

definition fraction_part :: "fpu \<Rightarrow> byte list \<Rightarrow> u64 \<Rightarrow> nat \<Rightarrow> JSONError \<times> u64 \<times> nat" where
  "fraction_part F src v buf =
    (if buf < length src \<and> src ! buf = 0x2E then
       (let buf = buf + 1 in
        if buf \<ge> length src then (SrcOverflow, v, buf)
        else if \<not> is_digit (src ! buf) then (NumberBadChar, v, buf)
        else let (v, n) = frac_digits F v dbl_tenth (drop buf src) in (NoError, v, buf + n))
     else (NoError, v, buf))"

definition exponent_part :: "fpu \<Rightarrow> byte list \<Rightarrow> u64 \<Rightarrow> nat \<Rightarrow> JSONError \<times> u64 \<times> nat" where
  "exponent_part F src v buf =
    (if buf < length src \<and> (src ! buf = 0x65 \<or> src ! buf = 0x45) then
       (let buf = buf + 1 in
        if buf \<ge> length src then (SrcOverflow, v, buf)
        else
          let signed = (src ! buf = 0x2B \<or> src ! buf = 0x2D);
              exp_sign = (if src ! buf = 0x2D then dbl_m1 else dbl_1);
              buf = (if signed then buf + 1 else buf) in
          if signed \<and> buf \<ge> length src then (SrcOverflow, v, buf)
          else let (e, n) = int_digits F dbl_0 (drop buf src) in
            (NoError, fp_mul F v (fp_pow F dbl_10 (fp_mul F e exp_sign)), buf + n))
     else (NoError, v, buf))"

text \<open>
  \<open>*value\<close> is written here when the function returns: nothing reads the buffer before that.
\<close>

definition json_parse_number :: "fpu \<Rightarrow> byte list \<Rightarrow> jstate \<Rightarrow> jresult" where
  "json_parse_number F src st =
    (if j_dst st + sizeof_JSONHeader + 8 \<ge> length (j_mem st) then Some (DstOverflow, st)
     else do {
       let header = j_dst st;
       m \<leftarrow> store32 (json_type_val Number) (j_mem st) header;
       m \<leftarrow> store32 8 m (header + 4);
       let finish = (\<lambda>e v buf. do {
         m \<leftarrow> store64 v m (header + sizeof_JSONHeader);
         Some (e, \<lparr>j_buf = buf, j_dst = header + (sizeof_JSONHeader + 8), j_mem = m\<rparr>) });
       if j_buf st \<ge> length src then None
       else let minus = (src ! j_buf st = 0x2D); buf = (if minus then j_buf st + 1 else j_buf st) in
         if buf \<ge> length src then finish SrcOverflow dbl_0 buf
         else
           let (v, buf) = integer_part F src buf; (e, v, buf) = fraction_part F src v buf in
           if e \<noteq> NoError then finish e v buf
           else let (e, v, buf) = exponent_part F src v buf in
             if e \<noteq> NoError then finish e v buf
             else finish NoError (fp_mul F v (if minus then dbl_m1 else dbl_1)) buf
     })"

section \<open>Keywords\<close>

definition kw_true :: "byte list" where "kw_true = [0x74, 0x72, 0x75, 0x65]"
definition kw_false :: "byte list" where "kw_false = [0x66, 0x61, 0x6C, 0x73, 0x65]"
definition kw_null :: "byte list" where "kw_null = [0x6E, 0x75, 0x6C, 0x6C]"

text \<open>The word check all three share: the error, or none.\<close>

definition keyword_at :: "byte list \<Rightarrow> byte list \<Rightarrow> nat \<Rightarrow> JSONError" where
  "keyword_at kw src buf =
    (if buf + length kw > length src then SrcOverflow
     else if take (length kw) (drop buf src) \<noteq> kw then BadKeyword else NoError)"

definition json_parse_boolean :: "byte list \<Rightarrow> jstate \<Rightarrow> jresult" where
  "json_parse_boolean src st =
    (if j_dst st + sizeof_JSONHeader + 8 \<ge> length (j_mem st) then Some (DstOverflow, st)
     else do {
       let header = j_dst st;
       m \<leftarrow> store32 (json_type_val Boolean) (j_mem st) header;
       m \<leftarrow> store32 8 m (header + 4);
       let st = \<lparr>j_buf = j_buf st, j_dst = header + (sizeof_JSONHeader + 8), j_mem = m\<rparr>;
       let finish = (\<lambda>kw v.
         if keyword_at kw src (j_buf st) \<noteq> NoError then Some (keyword_at kw src (j_buf st), st)
         else do {
           m \<leftarrow> store64 v m (header + sizeof_JSONHeader);
           Some (NoError, advance (length kw) (st\<lparr>j_mem := m\<rparr>)) });
       if j_buf st \<ge> length src then None
       else if src ! j_buf st = 0x74 then finish kw_true 1
       else if src ! j_buf st = 0x66 then finish kw_false 0
       else Some (BadKeyword, st)
     })"

definition json_parse_null :: "byte list \<Rightarrow> jstate \<Rightarrow> jresult" where
  "json_parse_null src st =
    (if j_dst st + sizeof_JSONHeader \<ge> length (j_mem st) then Some (DstOverflow, st)
     else do {
       let header = j_dst st;
       m \<leftarrow> store32 (json_type_val Null) (j_mem st) header;
       m \<leftarrow> store32 0 m (header + 4);
       let st = \<lparr>j_buf = j_buf st, j_dst = header + sizeof_JSONHeader, j_mem = m\<rparr>;
       if keyword_at kw_null src (j_buf st) \<noteq> NoError then Some (keyword_at kw_null src (j_buf st), st)
       else Some (NoError, advance (length kw_null) st)
     })"

section \<open>Arrays, objects and values\<close>

text \<open>The start of both: the header's type, the bracket and the blanks after it.\<close>

definition open_bracket :: "JSONType \<Rightarrow> byte list \<Rightarrow> jstate \<Rightarrow> jresult" where
  "open_bracket ty src st =
    (if j_dst st + sizeof_JSONHeader \<ge> length (j_mem st) then Some (DstOverflow, st)
     else do {
       m \<leftarrow> store32 (json_type_val ty) (j_mem st) (j_dst st);
       let st = skip_whitespaces src \<lparr>j_buf = j_buf st + 1, j_dst = j_dst st + sizeof_JSONHeader, j_mem = m\<rparr>;
       Some (if j_buf st = length src then SrcOverflow else NoError, st)
     })"

definition set_header_len :: "nat \<Rightarrow> u32 \<Rightarrow> jstate \<Rightarrow> jresult" where
  "set_header_len header len st = do {
     m \<leftarrow> store32 len (j_mem st) (header + 4);
     Some (NoError, st\<lparr>j_mem := m\<rparr>)
   }"

definition peek :: "byte list \<Rightarrow> jstate \<Rightarrow> byte option" where
  "peek src st = (if j_buf st < length src then Some (src ! j_buf st) else None)"

fun json_parse_value :: "fpu \<Rightarrow> byte list \<Rightarrow> nat \<Rightarrow> jstate \<Rightarrow> jresult"
  and json_parse_array :: "fpu \<Rightarrow> byte list \<Rightarrow> nat \<Rightarrow> jstate \<Rightarrow> jresult"
  and array_loop :: "fpu \<Rightarrow> byte list \<Rightarrow> nat \<Rightarrow> jstate \<Rightarrow> jresult"
  and json_parse_object :: "fpu \<Rightarrow> byte list \<Rightarrow> nat \<Rightarrow> jstate \<Rightarrow> jresult"
  and object_loop :: "fpu \<Rightarrow> byte list \<Rightarrow> nat \<Rightarrow> jstate \<Rightarrow> jresult"
where
  "json_parse_value F src 0 st = None"
| "json_parse_array F src 0 st = None"
| "array_loop F src 0 st = None"
| "json_parse_object F src 0 st = None"
| "object_loop F src 0 st = None"
| "json_parse_value F src (Suc n) st =
    (let st = skip_whitespaces src st in
     case peek src st of
       None \<Rightarrow> Some (if j_buf st = length src then SrcOverflow else NoError, st)
     | Some c \<Rightarrow>
         if c = 0x22 then json_parse_string src st
         else if c = 0x2D \<or> is_digit c then json_parse_number F src st
         else if c = 0x7B then json_parse_object F src n st
         else if c = 0x5B then json_parse_array F src n st
         else if c = 0x74 \<or> c = 0x66 then json_parse_boolean src st
         else if c = 0x6E then json_parse_null src st
         else Some (BadChar, st))"
| "json_parse_array F src (Suc n) st =
    and_then (open_bracket Array src st) (\<lambda>st1. do {
      c \<leftarrow> peek src st1;
      if c = 0x5D then set_header_len (j_dst st) 0 (advance 1 st1)
      else and_then (array_loop F src n st1) (\<lambda>st2.
        set_header_len (j_dst st) (of_nat (j_dst st2 - j_dst st1)) st2)
    })"
| "array_loop F src (Suc n) st =
    and_then (json_parse_value F src n st) (\<lambda>st.
      let st = skip_whitespaces src st in
      if j_buf st = length src then Some (SrcOverflow, st)
      else do {
        c \<leftarrow> peek src st;
        if c = 0x2C then array_loop F src n (advance 1 st)
        else if c = 0x5D then Some (NoError, advance 1 st)
        else Some (BadChar, st)
      })"
| "json_parse_object F src (Suc n) st =
    and_then (open_bracket Object src st) (\<lambda>st1. do {
      c \<leftarrow> peek src st1;
      if c = 0x7D then set_header_len (j_dst st) 0 (advance 1 st1)
      else and_then (object_loop F src n st1) (\<lambda>st2.
        set_header_len (j_dst st) (of_nat (j_dst st2 - j_dst st1)) st2)
    })"
| "object_loop F src (Suc n) st =
    and_then (json_parse_string src (skip_whitespaces src st)) (\<lambda>st.
      let st = skip_whitespaces src st in
      if j_buf st = length src then Some (SrcOverflow, st)
      else do {
        c \<leftarrow> peek src st;
        if c \<noteq> 0x3A then Some (ObjectBadChar, st)
        else and_then (json_parse_value F src n (advance 1 st)) (\<lambda>st.
          let st = skip_whitespaces src st in
          if j_buf st = length src then Some (SrcOverflow, st)
          else do {
            c \<leftarrow> peek src st;
            if c = 0x2C then object_loop F src n (advance 1 st)
            else if c = 0x7D then Some (NoError, advance 1 st)
            else Some (BadChar, st)
          })
      })"

text \<open>
  The entry point: the error code, its location (\<open>jerr_index\<close>) and the destination buffer. Every
  three levels of fuel consume a character (\<open>json_parse_safe\<close>).
\<close>

definition json_parse :: "fpu \<Rightarrow> byte list \<Rightarrow> byte list \<Rightarrow> (JSONError \<times> nat \<times> byte list) option" where
  "json_parse F src dst = do {
     (e, st) \<leftarrow> json_parse_value F src (3 * length src + 3) \<lparr>j_buf = 0, j_dst = 0, j_mem = dst\<rparr>;
     Some (e, j_buf st, j_mem st)
   }"

end
