(* ===== verification/Json_Safety.thy ===== *)
theory Json_Safety
  imports Json
begin

text \<open>
  The JSON parser ends and stays inside its buffers, whatever the input: it reads no byte past
  the source, writes none past the destination or before the place it was told to write, and
  the fuel of the entry point is always enough.
\<close>

section \<open>Safe results\<close>

text \<open>
  A result that exists, with the destination's length and its first \<open>h\<close> bytes unchanged, both
  positions moved forward within bounds, and at least to \<open>b\<close> in the source on success.
\<close>

definition safe :: "byte list \<Rightarrow> nat \<Rightarrow> nat \<Rightarrow> jstate \<Rightarrow> jresult \<Rightarrow> bool" where
  "safe src h b st r \<longleftrightarrow> (\<exists>e st'. r = Some (e, st')
     \<and> length (j_mem st') = length (j_mem st) \<and> take h (j_mem st') = take h (j_mem st)
     \<and> j_dst st \<le> j_dst st' \<and> j_dst st' \<le> length (j_mem st)
     \<and> j_buf st \<le> j_buf st' \<and> j_buf st' \<le> Suc (length src)
     \<and> (e = NoError \<longrightarrow> b \<le> j_buf st' \<and> j_buf st' \<le> length src))"

lemma safe_Some:
  "length (j_mem st') = length (j_mem st) \<Longrightarrow> take h (j_mem st') = take h (j_mem st)
   \<Longrightarrow> j_dst st \<le> j_dst st' \<Longrightarrow> j_dst st' \<le> length (j_mem st) \<Longrightarrow> j_buf st \<le> j_buf st'
   \<Longrightarrow> j_buf st' \<le> Suc (length src)
   \<Longrightarrow> (e = NoError \<Longrightarrow> b \<le> j_buf st' \<and> j_buf st' \<le> length src)
   \<Longrightarrow> safe src h b st (Some (e, st'))"
  by (auto simp: safe_def)

text \<open>The state a successful first step leaves, and composition.\<close>

definition stepped :: "byte list \<Rightarrow> nat \<Rightarrow> nat \<Rightarrow> jstate \<Rightarrow> jstate \<Rightarrow> bool" where
  "stepped src h b st st' \<longleftrightarrow> length (j_mem st') = length (j_mem st)
     \<and> take h (j_mem st') = take h (j_mem st)
     \<and> j_dst st \<le> j_dst st' \<and> j_dst st' \<le> length (j_mem st)
     \<and> j_buf st \<le> j_buf st' \<and> b \<le> j_buf st' \<and> j_buf st' \<le> length src"

lemma safe_weaken:
  assumes "safe src h b st r" and "b' \<le> b" and "h' \<le> h"
  shows "safe src h' b' st r"
proof -
  obtain e t where "r = Some (e, t)" and t: "length (j_mem t) = length (j_mem st)"
    "take h (j_mem t) = take h (j_mem st)" "j_dst st \<le> j_dst t" "j_dst t \<le> length (j_mem st)"
    "j_buf st \<le> j_buf t" "j_buf t \<le> Suc (length src)"
    "e = NoError \<longrightarrow> b \<le> j_buf t \<and> j_buf t \<le> length src"
    using assms(1) unfolding safe_def by blast
  then show ?thesis
    using assms(2) agree_mono [OF t(2) assms(3)] by (auto intro!: safe_Some)
qed

lemma safe_from:
  assumes "safe src h b st' r" and "stepped src h b0 st st'"
  shows "safe src h b st r"
proof -
  obtain e t where "r = Some (e, t)" and t: "length (j_mem t) = length (j_mem st')"
    "take h (j_mem t) = take h (j_mem st')" "j_dst st' \<le> j_dst t" "j_dst t \<le> length (j_mem st')"
    "j_buf st' \<le> j_buf t" "j_buf t \<le> Suc (length src)"
    "e = NoError \<longrightarrow> b \<le> j_buf t \<and> j_buf t \<le> length src"
    using assms(1) unfolding safe_def by blast
  then show ?thesis
    using assms(2) by (auto simp: stepped_def intro!: safe_Some)
qed

lemma safe_and_then:
  assumes "safe src h b1 st r" and "\<And>st'. r = Some (NoError, st') \<Longrightarrow> stepped src h b1 st st' \<Longrightarrow> safe src h b st' (k st')"
  shows "safe src h b st (and_then r k)"
proof -
  obtain e st' where r: "r = Some (e, st')" and s: "safe src h b1 st (Some (e, st'))"
    using assms(1) by (auto simp: safe_def)
  show ?thesis
  proof (cases "e = NoError")
    case True
    then have t: "stepped src h b1 st st'" using s by (auto simp: safe_def stepped_def)
    show ?thesis using safe_from [OF assms(2) [OF _ t] t] True r by (simp add: and_then_def)
  next
    case False
    then show ?thesis using s r by (auto simp: safe_def and_then_def)
  qed
qed

lemma stepped_trans:
  "stepped src h b st st' \<Longrightarrow> stepped src h b' st' st'' \<Longrightarrow> b'' \<le> b' \<Longrightarrow> stepped src h b'' st st''"
  by (auto simp: stepped_def)

lemma skip_whitespaces_simps [simp]:
  "j_mem (skip_whitespaces src st) = j_mem st" "j_dst (skip_whitespaces src st) = j_dst st"
  "j_buf st \<le> j_buf (skip_whitespaces src st)"
  by (simp_all add: skip_whitespaces_def advance_def)

lemma skip_whitespaces_le: "j_buf st \<le> length src \<Longrightarrow> j_buf (skip_whitespaces src st) \<le> length src"
  using length_takeWhile_le [of is_whitespace "drop (j_buf st) src"]
  by (simp add: skip_whitespaces_def advance_def)

lemma stepped_skip:
  "j_buf st \<le> length src \<Longrightarrow> j_dst st \<le> length (j_mem st) \<Longrightarrow>
     stepped src h (j_buf st) st (skip_whitespaces src st)"
  by (simp add: stepped_def skip_whitespaces_le)

lemma stepped_advance:
  "j_buf st + n \<le> length src \<Longrightarrow> j_dst st \<le> length (j_mem st) \<Longrightarrow>
     stepped src h (j_buf st + n) st (advance n st)"
  by (simp add: stepped_def advance_def)

lemma advance_simps [simp]:
  "j_mem (advance n st) = j_mem st" "j_dst (advance n st) = j_dst st"
  "j_buf (advance n st) = j_buf st + n"
  by (simp_all add: advance_def)

section \<open>Scalars\<close>

lemma load_total: "p + n \<le> length m \<Longrightarrow> \<exists>bs. load n m p = Some bs"
  by (simp add: load_def)

lemma string_emit_safe:
  assumes "header + 8 \<le> j_dst st" and "j_dst st \<le> length (j_mem st)" and "j_buf st \<le> length src"
  shows "safe src header (j_buf st) st (string_emit bs header st)"
proof (cases "j_dst st + length bs \<ge> length (j_mem st)")
  case True
  then show ?thesis using assms by (auto simp: string_emit_def intro!: safe_Some)
next
  case False
  let ?m = "put bs (j_mem st) (j_dst st)"
  have "\<exists>w. load32 ?m (header + 4) = Some w"
    using assms False load_total [of "header + 4" 4 ?m] by (auto simp: load32_def length_put)
  then show ?thesis
    using assms False
    by (auto simp: string_emit_def store32_def store_def length_put take_put intro!: safe_Some)
qed

lemma string_emit_buf: "string_emit bs header st = Some (e, st') \<Longrightarrow> j_buf st' = j_buf st"
  by (auto simp: string_emit_def bind_eq_Some_conv split: if_splits)

lemma string_close_safe:
  assumes "header + 8 \<le> j_dst st" and "j_dst st \<le> length (j_mem st)" and "j_buf st < length src"
  shows "safe src header (Suc (j_buf st)) st (string_close header st)"
proof -
  obtain len where len: "load32 (j_mem st) (header + 4) = Some len"
    using assms load_total [of "header + 4" 4 "j_mem st"] by (auto simp: load32_def)
  define p where "p = (ucast (align_8 (ucast len)) :: u32)"
  have "unat p - unat len \<le> unat (p - len)"
    by (metis diff_is_0_eq le_refl linorder_linear unat_sub word_le_nat_alt zero_le)
  then show ?thesis
    using assms len
    by (auto simp: string_close_def Let_def store_def length_put take_put p_def [symmetric] intro!: safe_Some)
qed

lemma string_loop_safe:
  assumes "cs = drop (j_buf st) src" and "j_buf st \<le> Suc (length src)"
    and "header + 8 \<le> j_dst st" and "j_dst st \<le> length (j_mem st)"
  shows "safe src header (Suc (j_buf st)) st (string_loop cs header esc eu cp st)"
  using assms
proof (induction cs arbitrary: esc eu cp st)
  case Nil
  then show ?case by (auto intro!: safe_Some)
next
  case (Cons c cs)
  then have lt: "j_buf st < length src" by (metis drop_all list.distinct(1) not_less)
  then have tl: "cs = drop (j_buf (advance 1 st)) src"
    using Cons.prems(1) by (metis advance_simps(3) add.commute plus_1_eq_Suc Cons_nth_drop_Suc list.inject)
  have st1: "stepped src header (Suc (j_buf st)) st (advance 1 st)"
    using lt Cons.prems(4) by (simp add: stepped_def)
  have IH: "safe src header (Suc (j_buf st)) st (string_loop cs header e u k (advance 1 st))" for e u k
    by (rule safe_from [OF safe_weaken [OF Cons.IH [OF tl]] st1])
      (use lt Cons.prems(3,4) in simp_all)
  have emit: "safe src header (Suc (j_buf st)) st
      (and_then (string_emit bs header st) (\<lambda>s. string_loop cs header e u k (advance 1 s)))" for bs e u k
  proof (rule safe_and_then [OF string_emit_safe])
    fix s assume "string_emit bs header st = Some (NoError, s)" and s: "stepped src header (j_buf st) st s"
    then have b: "j_buf s = j_buf st" by (simp add: string_emit_buf)
    have s1: "stepped src header (Suc (j_buf s)) s (advance 1 s)"
      using lt s b Cons.prems(4) by (simp add: stepped_def)
    show "safe src header (Suc (j_buf st)) s (string_loop cs header e u k (advance 1 s))"
      unfolding b [symmetric]
      by (rule safe_from [OF safe_weaken [OF Cons.IH] s1])
        (use tl lt s b Cons.prems(3,4) in \<open>simp_all add: stepped_def\<close>)
  qed (use Cons.prems(3,4) lt in simp_all)
  have err: "safe src header (Suc (j_buf st)) st (Some (x, st))" if "x \<noteq> NoError" for x
    using that Cons.prems(4) lt by (auto intro!: safe_Some)
  note close = string_close_safe [OF Cons.prems(3,4) lt]
  note IH = IH IH [unfolded One_nat_def] and emit = emit emit [unfolded One_nat_def]
  show ?case
  proof (cases "0 \<le> eu")
    case True
    show ?thesis
    proof (cases "unicode_digit c")
      case None
      with True show ?thesis by (simp add: err)
    next
      case (Some d)
      show ?thesis
      proof (cases "eu + 1 = 4")
        case False
        with True Some show ?thesis by (simp add: Let_def IH)
      next
        case 4: True
        show ?thesis
          by (cases "utf8 (push_bit 4 cp + d)") (use True Some 4 in \<open>simp_all add: Let_def err emit\<close>)
      qed
    qed
  next
    case False
    show ?thesis
    proof (cases esc)
      case True
      show ?thesis
      proof (cases "c = 0x75")
        case u: True
        with True False show ?thesis by (simp add: IH)
      next
        case nu: False
        show ?thesis by (cases "unescape c") (use True False nu in \<open>simp_all add: err emit\<close>)
      qed
    next
      case ne: False
      show ?thesis
      proof (cases "c = 0x5C \<or> c = 0x22")
        case True
        with False ne show ?thesis by (auto simp: IH close)
      next
        case plain: False
        show ?thesis
          by (cases "(sint c < 0x20 \<and> c \<noteq> 0x09) \<or> c = 0x7F")
            (use False ne plain in \<open>simp_all add: err emit\<close>)
      qed
    qed
  qed
qed

lemma json_parse_string_safe:
  assumes "j_buf st \<le> length src" and "j_dst st \<le> length (j_mem st)" and "h \<le> j_dst st"
  shows "safe src h (Suc (Suc (j_buf st))) st (json_parse_string src st)"
proof (cases "j_dst st + sizeof_JSONHeader \<ge> length (j_mem st)")
  case True
  then show ?thesis using assms by (auto simp: json_parse_string_def intro!: safe_Some)
next
  case False
  define m where "m = put (le_bytes 4 (0 :: u32)) (put (le_bytes 4 (json_type_val String)) (j_mem st) (j_dst st)) (j_dst st + 4)"
  define st1 where "st1 = \<lparr>j_buf = Suc (j_buf st), j_dst = j_dst st + 8, j_mem = m\<rparr>"
  have le: "j_dst st + 8 < length (j_mem st)" using False by (simp add: sizeof_JSONHeader_def)
  then have m: "length m = length (j_mem st)" "take (j_dst st) m = take (j_dst st) (j_mem st)"
    by (simp_all add: m_def length_put take_put)
  have r: "json_parse_string src st = (if Suc (j_buf st) = length src then Some (SrcOverflow, st1)
      else string_loop (drop (Suc (j_buf st)) src) (j_dst st) False (- 1) 0 st1)"
    using le by (simp add: json_parse_string_def sizeof_JSONHeader_def store32_def store_def length_put
        Let_def m_def st1_def)
  have "safe src (j_dst st) (Suc (j_buf st1)) st1
      (string_loop (drop (Suc (j_buf st)) src) (j_dst st) False (- 1) 0 st1)"
    by (rule string_loop_safe) (use le m assms(1) in \<open>simp_all add: st1_def\<close>)
  then have "safe src (j_dst st) (Suc (Suc (j_buf st))) st
      (string_loop (drop (Suc (j_buf st)) src) (j_dst st) False (- 1) 0 st1)"
    using m by (auto simp: safe_def st1_def)
  then have "safe src (j_dst st) (Suc (Suc (j_buf st))) st (json_parse_string src st)"
    using r m le assms(1) by (auto simp: st1_def intro!: safe_Some)
  then show ?thesis by (rule safe_weaken) (use assms(3) in simp_all)
qed

lemma int_digits_le: "snd (int_digits F v cs) \<le> length cs"
  by (induction cs arbitrary: v) (auto simp: split_beta)

lemma frac_digits_le: "snd (frac_digits F v p cs) \<le> length cs"
  by (induction cs arbitrary: v p) (auto simp: split_beta)

lemma integer_part_bounds:
  assumes "buf < length src"
  shows "buf \<le> snd (integer_part F src buf) \<and> snd (integer_part F src buf) \<le> length src"
    and "is_digit (src ! buf) \<Longrightarrow> Suc buf \<le> snd (integer_part F src buf)"
proof -
  obtain v n where d: "int_digits F dbl_0 (drop buf src) = (v, n)" by fastforce
  then have "n \<le> length src - buf" using int_digits_le [of F dbl_0 "drop buf src"] by simp
  then show "buf \<le> snd (integer_part F src buf) \<and> snd (integer_part F src buf) \<le> length src"
    using assms d by (auto simp: integer_part_def)
  have "drop buf src = src ! buf # drop (Suc buf) src" by (rule Cons_nth_drop_Suc [symmetric, OF assms])
  then have "1 \<le> n" if "is_digit (src ! buf)"
    using that d by (auto split: prod.splits)
  then show "is_digit (src ! buf) \<Longrightarrow> Suc buf \<le> snd (integer_part F src buf)"
    using d by (auto simp: integer_part_def)
qed

lemma fraction_part_bounds:
  assumes "buf \<le> length src" and "fraction_part F src v buf = (e, v', buf')"
  shows "buf \<le> buf' \<and> buf' \<le> length src"
proof -
  obtain w n where d: "frac_digits F v dbl_tenth (drop (Suc buf) src) = (w, n)" by fastforce
  then have "n \<le> length src - Suc buf" using frac_digits_le [of F v dbl_tenth "drop (Suc buf) src"] by simp
  then show ?thesis
    using assms d by (auto simp: fraction_part_def Let_def split: if_splits)
qed

lemma exponent_part_bounds:
  assumes "buf \<le> length src" and "exponent_part F src v buf = (e, v', buf')"
  shows "buf \<le> buf' \<and> buf' \<le> length src"
proof -
  have d: "snd (int_digits F dbl_0 (drop p src)) \<le> length src - p" for p
    using int_digits_le [of F dbl_0 "drop p src"] by simp
  show ?thesis
    using assms d [of "Suc buf"] d [of "Suc (Suc buf)"]
    by (auto simp: exponent_part_def Let_def split: if_splits prod.splits)
qed

lemma json_parse_number_safe:
  assumes "j_buf st < length src" and "src ! j_buf st = 0x2D \<or> is_digit (src ! j_buf st)"
    and "j_dst st \<le> length (j_mem st)" and "h \<le> j_dst st"
  shows "safe src h (Suc (j_buf st)) st (json_parse_number F src st)"
proof (cases "j_dst st + sizeof_JSONHeader + 8 \<ge> length (j_mem st)")
  case True
  then show ?thesis using assms by (auto simp: json_parse_number_def intro!: safe_Some)
next
  case False
  define m where "m = put (le_bytes 4 (8 :: u32)) (put (le_bytes 4 (json_type_val Number)) (j_mem st) (j_dst st)) (j_dst st + 4)"
  define fin where "fin = (\<lambda>e :: JSONError. \<lambda>v buf. do {
     m \<leftarrow> store64 v m (j_dst st + 8); Some (e, \<lparr>j_buf = buf, j_dst = j_dst st + 16, j_mem = m\<rparr>) })"
  have le: "j_dst st + 16 < length (j_mem st)" using False by (simp add: sizeof_JSONHeader_def)
  then have m: "length m = length (j_mem st)" "take (j_dst st) m = take (j_dst st) (j_mem st)"
    by (simp_all add: m_def length_put take_put)
  have fin: "safe src (j_dst st) (Suc (j_buf st)) st (fin e v buf)"
    if "j_buf st \<le> buf" "buf \<le> length src" "e = NoError \<Longrightarrow> Suc (j_buf st) \<le> buf" for e v buf
    using that le m by (auto simp: fin_def store64_def store_def length_put take_put intro!: safe_Some)
  obtain v1 b1 where 1: "integer_part F src (if src ! j_buf st = 0x2D then Suc (j_buf st) else j_buf st) = (v1, b1)"
    by fastforce
  obtain e2 v2 b2 where 2: "fraction_part F src v1 b1 = (e2, v2, b2)" by (metis prod_cases3)
  obtain e3 v3 b3 where 3: "exponent_part F src v2 b2 = (e3, v3, b3)" by (metis prod_cases3)
  have r: "json_parse_number F src st =
      (let buf = (if src ! j_buf st = 0x2D then Suc (j_buf st) else j_buf st) in
       if buf \<ge> length src then fin SrcOverflow dbl_0 buf
       else if e2 \<noteq> NoError then fin e2 v2 b2
       else if e3 \<noteq> NoError then fin e3 v3 b3
       else fin NoError (fp_mul F v3 (if src ! j_buf st = 0x2D then dbl_m1 else dbl_1)) b3)"
    using le assms(1) 1 2 3
    by (cases "src ! j_buf st = 0x2D")
      (simp_all add: json_parse_number_def sizeof_JSONHeader_def store32_def store_def length_put Let_def
        m_def fin_def)
  have "safe src (j_dst st) (Suc (j_buf st)) st (json_parse_number F src st)"
  proof (cases "(if src ! j_buf st = 0x2D then Suc (j_buf st) else j_buf st) \<ge> length src")
    case True
    then show ?thesis using r assms(1) by (auto simp: Let_def intro!: fin split: if_splits)
  next
    case False
    let ?b = "if src ! j_buf st = 0x2D then Suc (j_buf st) else j_buf st"
    have b1: "Suc (j_buf st) \<le> b1" "b1 \<le> length src"
      using integer_part_bounds [of ?b src F] False assms(2) 1 by (auto split: if_splits)
    have b2: "b1 \<le> b2" "b2 \<le> length src" using fraction_part_bounds [OF b1(2) 2] by simp_all
    have b3: "b2 \<le> b3" "b3 \<le> length src" using exponent_part_bounds [OF b2(2) 3] by simp_all
    show ?thesis using r False b1 b2 b3 by (auto simp: Let_def intro!: fin)
  qed
  then show ?thesis by (rule safe_weaken) (use assms(4) in simp_all)
qed

lemma keyword_at_NoError: "keyword_at kw src buf = NoError \<Longrightarrow> buf + length kw \<le> length src"
  by (simp add: keyword_at_def split: if_splits)

lemma json_parse_boolean_safe:
  assumes "j_buf st < length src" and "j_dst st \<le> length (j_mem st)" and "h \<le> j_dst st"
  shows "safe src h (Suc (j_buf st)) st (json_parse_boolean src st)"
proof (cases "j_dst st + sizeof_JSONHeader + 8 \<ge> length (j_mem st)")
  case True
  then show ?thesis using assms by (auto simp: json_parse_boolean_def intro!: safe_Some)
next
  case False
  then have le: "j_dst st + 16 < length (j_mem st)" by (simp add: sizeof_JSONHeader_def)
  have "safe src (j_dst st) (Suc (j_buf st)) st (json_parse_boolean src st)"
    using le assms(1) keyword_at_NoError [of kw_true src "j_buf st"] keyword_at_NoError [of kw_false src "j_buf st"]
    by (auto simp: json_parse_boolean_def sizeof_JSONHeader_def store32_def store64_def store_def length_put
        take_put Let_def kw_true_def kw_false_def advance_def intro!: safe_Some)
  then show ?thesis by (rule safe_weaken) (use assms(3) in simp_all)
qed

lemma json_parse_null_safe:
  assumes "j_buf st < length src" and "j_dst st \<le> length (j_mem st)" and "h \<le> j_dst st"
  shows "safe src h (Suc (j_buf st)) st (json_parse_null src st)"
proof (cases "j_dst st + sizeof_JSONHeader \<ge> length (j_mem st)")
  case True
  then show ?thesis using assms by (auto simp: json_parse_null_def intro!: safe_Some)
next
  case False
  then have le: "j_dst st + 8 < length (j_mem st)" by (simp add: sizeof_JSONHeader_def)
  have "safe src (j_dst st) (Suc (j_buf st)) st (json_parse_null src st)"
    using le assms(1) keyword_at_NoError [of kw_null src "j_buf st"]
    by (auto simp: json_parse_null_def sizeof_JSONHeader_def store32_def store_def length_put
        take_put Let_def kw_null_def advance_def intro!: safe_Some)
  then show ?thesis by (rule safe_weaken) (use assms(3) in simp_all)
qed

section \<open>Arrays, objects and values\<close>

lemma open_bracket_safe:
  assumes "j_buf st < length src" and "j_dst st \<le> length (j_mem st)" and "h \<le> j_dst st"
  shows "safe src h (Suc (j_buf st)) st (open_bracket ty src st)"
proof (cases "j_dst st + sizeof_JSONHeader \<ge> length (j_mem st)")
  case True
  then show ?thesis using assms by (auto simp: open_bracket_def intro!: safe_Some)
next
  case False
  then have le: "j_dst st + 8 < length (j_mem st)" by (simp add: sizeof_JSONHeader_def)
  let ?st = "\<lparr>j_buf = Suc (j_buf st), j_dst = j_dst st + 8,
    j_mem = put (le_bytes 4 (json_type_val ty)) (j_mem st) (j_dst st)\<rparr>"
  have "Suc (j_buf st) \<le> j_buf (skip_whitespaces src ?st)" "j_buf (skip_whitespaces src ?st) \<le> length src"
    using skip_whitespaces_simps(3) [of ?st src] skip_whitespaces_le [of ?st src] assms(1) by simp_all
  then have "safe src (j_dst st) (Suc (j_buf st)) st (open_bracket ty src st)"
    using le by (auto simp: open_bracket_def sizeof_JSONHeader_def store32_def store_def length_put
        take_put Let_def intro!: safe_Some)
  then show ?thesis by (rule safe_weaken) (use assms(3) in simp_all)
qed

lemma open_bracket_NoError:
  assumes "open_bracket ty src st = Some (NoError, st')"
  shows "j_buf st' \<noteq> length src" and "j_dst st' = j_dst st + 8"
  using assms by (auto simp: open_bracket_def bind_eq_Some_conv Let_def sizeof_JSONHeader_def split: if_splits)

lemma set_header_len_safe:
  assumes "header + 8 \<le> j_dst st" and "j_dst st \<le> length (j_mem st)" and "h \<le> header"
    and "b \<le> j_buf st" and "j_buf st \<le> length src"
  shows "safe src h b st (set_header_len header len st)"
  using assms by (auto simp: set_header_len_def store32_def store_def length_put take_put intro!: safe_Some)

definition value_safe :: "fpu \<Rightarrow> byte list \<Rightarrow> nat \<Rightarrow> bool" where
  "value_safe F src n \<longleftrightarrow> (\<forall>st h. j_buf st \<le> length src \<longrightarrow> j_dst st \<le> length (j_mem st) \<longrightarrow> h \<le> j_dst st \<longrightarrow>
     3 * (length src - j_buf st) + 1 \<le> n \<longrightarrow>
     safe src h (Suc (j_buf st)) st (json_parse_value F src n st))"

definition bracket_safe :: "byte list \<Rightarrow> nat \<Rightarrow> (nat \<Rightarrow> jstate \<Rightarrow> jresult) \<Rightarrow> bool" where
  "bracket_safe src n parse \<longleftrightarrow> (\<forall>st h. j_buf st < length src \<longrightarrow> j_dst st \<le> length (j_mem st) \<longrightarrow>
     h \<le> j_dst st \<longrightarrow> 3 * (length src - j_buf st) \<le> n \<longrightarrow>
     safe src h (Suc (j_buf st)) st (parse n st))"

definition loop_safe :: "byte list \<Rightarrow> nat \<Rightarrow> (nat \<Rightarrow> jstate \<Rightarrow> jresult) \<Rightarrow> bool" where
  "loop_safe src n loop \<longleftrightarrow> (\<forall>st h. j_buf st \<le> length src \<longrightarrow> j_dst st \<le> length (j_mem st) \<longrightarrow> h \<le> j_dst st \<longrightarrow>
     3 * (length src - j_buf st) + 2 \<le> n \<longrightarrow>
     safe src h (Suc (j_buf st)) st (loop n st))"

text \<open>What follows an element: a comma and more, or the closing bracket.\<close>

lemma separator_safe:
  assumes loop: "loop_safe src n loop" and le: "j_buf st \<le> length src" "j_dst st \<le> length (j_mem st)"
    "h \<le> j_dst st" "3 * (length src - j_buf st) \<le> Suc n" and b: "b \<le> j_buf st"
  shows "safe src h b st (let st = skip_whitespaces src st in
     if j_buf st = length src then Some (SrcOverflow, st)
     else do {
       c \<leftarrow> peek src st;
       if c = 0x2C then loop n (advance 1 st)
       else if c = q then Some (NoError, advance 1 st)
       else Some (BadChar, st)
     })"
proof -
  define s where "s = skip_whitespaces src st"
  have s: "j_buf st \<le> j_buf s" "j_buf s \<le> length src" "j_mem s = j_mem st" "j_dst s = j_dst st"
    using skip_whitespaces_le [OF le(1)] by (simp_all add: s_def)
  show ?thesis
  proof (cases "j_buf s = length src")
    case True
    then show ?thesis using s le by (auto simp: s_def [symmetric] intro!: safe_Some)
  next
    case False
    then have lt: "j_buf s < length src" using s by simp
    have "stepped src h b st (advance 1 s)"
      using lt s le b by (simp add: stepped_def)
    moreover have "safe src h (Suc (j_buf (advance 1 s))) (advance 1 s) (loop n (advance 1 s))"
      using loop lt s le unfolding loop_safe_def by (auto dest!: spec [of _ "advance 1 s"])
    then have "safe src h b (advance 1 s) (loop n (advance 1 s))"
      by (rule safe_weaken) (use b s in simp_all)
    ultimately have "safe src h b st (loop n (advance 1 s))" by (rule safe_from [rotated])
    then show ?thesis
      using lt s le b False by (auto simp: s_def [symmetric] peek_def Let_def intro!: safe_Some)
  qed
qed

lemma array_loop_step:
  assumes "value_safe F src n" and "loop_safe src n (array_loop F src)"
  shows "loop_safe src (Suc n) (array_loop F src)"
  unfolding loop_safe_def
proof (intro allI impI)
  fix st :: jstate and h assume le: "j_buf st \<le> length src" "j_dst st \<le> length (j_mem st)" "h \<le> j_dst st"
    "3 * (length src - j_buf st) + 2 \<le> Suc n"
  show "safe src h (Suc (j_buf st)) st (array_loop F src (Suc n) st)"
    unfolding array_loop.simps
  proof (rule safe_and_then)
    show "safe src h (Suc (j_buf st)) st (json_parse_value F src n st)"
      using assms(1) le by (simp add: value_safe_def)
    fix s assume "stepped src h (Suc (j_buf st)) st s"
    then show "safe src h (Suc (j_buf st)) s (let st = skip_whitespaces src s in
        if j_buf st = length src then Some (SrcOverflow, st)
        else do {
          c \<leftarrow> peek src st;
          if c = 0x2C then array_loop F src n (advance 1 st)
          else if c = 0x5D then Some (NoError, advance 1 st)
          else Some (BadChar, st)
        })"
      by (intro separator_safe [OF assms(2)]) (use le in \<open>auto simp: stepped_def\<close>)
  qed
qed

lemma object_loop_step:
  assumes "value_safe F src n" and "loop_safe src n (object_loop F src)"
  shows "loop_safe src (Suc n) (object_loop F src)"
  unfolding loop_safe_def
proof (intro allI impI)
  fix st :: jstate and h assume le: "j_buf st \<le> length src" "j_dst st \<le> length (j_mem st)" "h \<le> j_dst st"
    "3 * (length src - j_buf st) + 2 \<le> Suc n"
  let ?st = "skip_whitespaces src st"
  have sk: "stepped src h (j_buf st) st ?st" using stepped_skip le(1,2) by blast
  have str: "safe src h (Suc (j_buf st)) st (json_parse_string src ?st)"
    by (rule safe_from [OF safe_weaken [OF json_parse_string_safe] sk])
      (use le skip_whitespaces_le [OF le(1)] in \<open>simp_all add: le_SucI\<close>)
  show "safe src h (Suc (j_buf st)) st (object_loop F src (Suc n) st)"
    unfolding object_loop.simps
  proof (rule safe_and_then [OF str])
    fix s0 assume s0: "stepped src h (Suc (j_buf st)) st s0"
    define s where "s = skip_whitespaces src s0"
    have le': "j_buf s0 \<le> j_buf s" "j_buf s \<le> length src" "j_mem s = j_mem s0" "j_dst s = j_dst s0"
      using s0 skip_whitespaces_le [of s0 src] by (simp_all add: stepped_def s_def)
    have s: "stepped src h (Suc (j_buf st)) st s" and s0s: "stepped src h (Suc (j_buf st)) s0 s"
      using s0 le' by (simp_all add: stepped_def)
    have rest: "safe src h (Suc (j_buf st)) (advance 1 s) (and_then (json_parse_value F src n (advance 1 s))
        (\<lambda>st. let st = skip_whitespaces src st in
          if j_buf st = length src then Some (SrcOverflow, st)
          else do {
            c \<leftarrow> peek src st;
            if c = 0x2C then object_loop F src n (advance 1 st)
            else if c = 0x7D then Some (NoError, advance 1 st)
            else Some (BadChar, st)
          }))" if lt: "j_buf s < length src"
    proof (rule safe_and_then)
      show "safe src h (Suc (j_buf (advance 1 s))) (advance 1 s) (json_parse_value F src n (advance 1 s))"
        by (rule assms(1) [unfolded value_safe_def, rule_format])
          (use le s lt in \<open>auto simp: stepped_def\<close>)
    qed (intro separator_safe [OF assms(2)], use le s in \<open>auto simp: stepped_def\<close>)
    have s1: "stepped src h (Suc (j_buf st)) s0 (advance 1 s)" if "j_buf s < length src"
      using s0s that by (auto simp: stepped_def)
    have err: "safe src h (Suc (j_buf st)) s0 (Some (x, s))" if "x \<noteq> NoError" for x
      using s0s that by (auto simp: stepped_def intro!: safe_Some)
    show "safe src h (Suc (j_buf st)) s0 (let st = skip_whitespaces src s0 in
        if j_buf st = length src then Some (SrcOverflow, st)
        else do {
          c \<leftarrow> peek src st;
          if c \<noteq> 0x3A then Some (ObjectBadChar, st)
          else and_then (json_parse_value F src n (advance 1 st)) (\<lambda>st.
            let st = skip_whitespaces src st in
            if j_buf st = length src then Some (SrcOverflow, st)
            else do {
              c \<leftarrow> peek src st;
              if c = 0x2C then object_loop F src n (advance 1 st)
              else if c = 0x7D then Some (NoError, advance 1 st)
              else Some (BadChar, st)
            })
        })"
    proof (cases "j_buf s < length src")
      case False
      then have "j_buf s = length src" using s by (simp add: stepped_def)
      then show ?thesis using err by (simp add: s_def [symmetric])
    next
      case True
      then show ?thesis
        using err safe_from [OF rest [OF True] s1 [OF True]]
        by (cases "src ! j_buf s = 0x3A") (simp_all add: s_def [symmetric] peek_def Let_def)
    qed
  qed
qed

text \<open>An array or an object around its loop.\<close>

lemma bracket_step:
  assumes loop: "loop_safe src n loop"
  shows "bracket_safe src (Suc n) (\<lambda>_ st. and_then (open_bracket ty src st) (\<lambda>st1. do {
      c \<leftarrow> peek src st1;
      if c = q then set_header_len (j_dst st) 0 (advance 1 st1)
      else and_then (loop n st1) (\<lambda>st2. set_header_len (j_dst st) (of_nat (j_dst st2 - j_dst st1)) st2)
    }))"
  unfolding bracket_safe_def
proof (intro allI impI)
  fix st :: jstate and h assume le: "j_buf st < length src" "j_dst st \<le> length (j_mem st)" "h \<le> j_dst st"
    "3 * (length src - j_buf st) \<le> Suc n"
  show "safe src h (Suc (j_buf st)) st (and_then (open_bracket ty src st) (\<lambda>st1. do {
      c \<leftarrow> peek src st1;
      if c = q then set_header_len (j_dst st) 0 (advance 1 st1)
      else and_then (loop n st1) (\<lambda>st2. set_header_len (j_dst st) (of_nat (j_dst st2 - j_dst st1)) st2)
    }))"
  proof (rule safe_and_then [OF open_bracket_safe [OF le(1-3)]])
    fix st1 assume o: "open_bracket ty src st = Some (NoError, st1)"
      and s1: "stepped src h (Suc (j_buf st)) st st1"
    note ob = open_bracket_NoError [OF o]
    have lt: "j_buf st1 < length src" using ob(1) s1 by (simp add: stepped_def)
    have empty: "safe src h (Suc (j_buf st)) st1 (set_header_len (j_dst st) 0 (advance 1 st1))"
    proof (rule safe_from)
      show "safe src h (Suc (j_buf st)) (advance 1 st1) (set_header_len (j_dst st) 0 (advance 1 st1))"
        by (rule set_header_len_safe) (use ob s1 le lt in \<open>simp_all add: stepped_def\<close>)
      show "stepped src h (Suc (j_buf st)) st1 (advance 1 st1)"
        using s1 lt by (simp add: stepped_def)
    qed
    have full: "safe src h (Suc (j_buf st)) st1 (and_then (loop n st1)
        (\<lambda>st2. set_header_len (j_dst st) (of_nat (j_dst st2 - j_dst st1)) st2))"
    proof (rule safe_and_then)
      show "safe src h (Suc (j_buf st1)) st1 (loop n st1)"
        using loop lt s1 le by (auto simp: loop_safe_def stepped_def)
      fix st2 assume "stepped src h (Suc (j_buf st1)) st1 st2"
      then show "safe src h (Suc (j_buf st)) st2
          (set_header_len (j_dst st) (of_nat (j_dst st2 - j_dst st1)) st2)"
        by (intro set_header_len_safe) (use ob s1 le in \<open>simp_all add: stepped_def\<close>)
    qed
    show "safe src h (Suc (j_buf st)) st1 (do {
        c \<leftarrow> peek src st1;
        if c = q then set_header_len (j_dst st) 0 (advance 1 st1)
        else and_then (loop n st1) (\<lambda>st2. set_header_len (j_dst st) (of_nat (j_dst st2 - j_dst st1)) st2)
      })"
      using lt empty full by (simp add: peek_def)
  qed
qed

lemma value_step:
  assumes "bracket_safe src n (json_parse_array F src)" and "bracket_safe src n (json_parse_object F src)"
  shows "value_safe F src (Suc n)"
  unfolding value_safe_def
proof (intro allI impI)
  fix st :: jstate and h assume le: "j_buf st \<le> length src" "j_dst st \<le> length (j_mem st)" "h \<le> j_dst st"
    "3 * (length src - j_buf st) + 1 \<le> Suc n"
  define s where "s = skip_whitespaces src st"
  have sk: "stepped src h (j_buf st) st s" unfolding s_def using stepped_skip le(1,2) by blast
  have s: "j_buf st \<le> j_buf s" "j_buf s \<le> length src" "j_dst s \<le> length (j_mem s)" "h \<le> j_dst s"
    using sk le(3) by (simp_all add: stepped_def s_def)
  show "safe src h (Suc (j_buf st)) st (json_parse_value F src (Suc n) st)"
  proof (cases "j_buf s < length src")
    case False
    then have "j_buf s = length src" using s by simp
    then show ?thesis
      using sk by (auto simp: s_def [symmetric] peek_def stepped_def intro!: safe_Some)
  next
    case True
    define c where "c = src ! j_buf s"
    define r where "r =
      (if c = 0x22 then json_parse_string src s
       else if c = 0x2D \<or> is_digit c then json_parse_number F src s
       else if c = 0x7B then json_parse_object F src n s
       else if c = 0x5B then json_parse_array F src n s
       else if c = 0x74 \<or> c = 0x66 then json_parse_boolean src s
       else if c = 0x6E then json_parse_null src s
       else Some (BadChar, s))"
    have v: "json_parse_value F src (Suc n) st = r"
      using True by (simp add: s_def [symmetric] peek_def Let_def r_def c_def)
    have f: "3 * (length src - j_buf s) \<le> n" using le(4) s by linarith
    have arr: "safe src h (Suc (j_buf s)) s (json_parse_array F src n s)"
      and obj: "safe src h (Suc (j_buf s)) s (json_parse_object F src n s)"
      using assms s True f by (simp_all add: bracket_safe_def)
    have str: "safe src h (Suc (j_buf s)) s (json_parse_string src s)"
      by (rule safe_weaken [OF json_parse_string_safe]) (use s in simp_all)
    have num: "safe src h (Suc (j_buf s)) s (json_parse_number F src s)" if "c = 0x2D \<or> is_digit c"
      using json_parse_number_safe [OF True _ s(3,4)] that by (simp add: c_def)
    have err: "safe src h (Suc (j_buf s)) s (Some (BadChar, s))"
      using s by (auto intro!: safe_Some)
    have "safe src h (Suc (j_buf s)) s r"
      unfolding r_def using arr obj str num err json_parse_boolean_safe [OF True s(3,4)]
        json_parse_null_safe [OF True s(3,4)]
      by auto
    from safe_from [OF safe_weaken [OF this, of "Suc (j_buf st)"] sk] s(1) show ?thesis
      unfolding v by simp
  qed
qed

lemma parser_safe:
  "value_safe F src n \<and> bracket_safe src n (json_parse_array F src) \<and> loop_safe src n (array_loop F src)
   \<and> bracket_safe src n (json_parse_object F src) \<and> loop_safe src n (object_loop F src)"
proof (induction n)
  case 0
  show ?case by (auto simp: value_safe_def bracket_safe_def loop_safe_def)
next
  case (Suc n)
  have "bracket_safe src (Suc n) (json_parse_array F src)"
    using bracket_step [OF Suc.IH [THEN conjunct2, THEN conjunct2, THEN conjunct1], of Array "0x5D"]
    by (simp add: bracket_safe_def)
  moreover have "bracket_safe src (Suc n) (json_parse_object F src)"
    using bracket_step [of src n "object_loop F src" Object "0x7D"] Suc.IH by (simp add: bracket_safe_def)
  ultimately show ?case
    using Suc.IH value_step array_loop_step object_loop_step by blast
qed

text \<open>Some arithmetic for concrete runs.\<close>

definition sample_fpu :: fpu where
  "sample_fpu = \<lparr>fp_add = \<lambda>a b. a + b, fp_mul = \<lambda>a b. a * b, fp_pow = \<lambda>a b. a, fp_of_int = of_int\<rparr>"

text \<open>
  C17: On every input and every destination buffer the parser ends, within the fuel of the model,
  without reading outside the source or writing outside the destination, whose size is
  unchanged; the location it reports lies in the source or just past it.
\<close>

theorem json_parse_safe:
  "\<exists>e loc dst'. json_parse F src dst = Some (e, loc, dst') \<and> length dst' = length dst
     \<and> loc \<le> Suc (length src) \<and> (e = NoError \<longrightarrow> 0 < loc \<and> loc \<le> length src)"
proof -
  have "safe src 0 1 \<lparr>j_buf = 0, j_dst = 0, j_mem = dst\<rparr>
      (json_parse_value F src (3 * length src + 3) \<lparr>j_buf = 0, j_dst = 0, j_mem = dst\<rparr>)"
    using parser_safe [THEN conjunct1, unfolded value_safe_def, rule_format,
        of "\<lparr>j_buf = 0, j_dst = 0, j_mem = dst\<rparr>" src 0 "3 * length src + 3" F] by simp
  then show ?thesis by (fastforce simp: json_parse_def safe_def)
qed

lemma json_parse_safe_witness:
  "\<exists>e loc dst'. json_parse sample_fpu [0x5B, 0x31, 0x5D] (replicate 8 0) = Some (e, loc, dst') \<and> length dst' = 8 \<and>
     (e = NoError \<longrightarrow> 0 < loc \<and> loc \<le> 3)"
  using json_parse_safe [of sample_fpu "[0x5B, 0x31, 0x5D]" "replicate 8 0"] by auto

end
