(* ===== verification/Json_Correct.thy ===== *)
theory Json_Correct
  imports Json_Safety
begin

text \<open>
  What the JSON parser computes: on the compact text of a value it leaves the value's encoding
  at the start of the destination and nothing else, which is the format \<open>json_adapt\<close> reads.
\<close>

section \<open>Values, their text and their encoding\<close>

datatype json =
  JStr "byte list" | JNum "byte list" | JObj "(byte list \<times> json) list" | JArr "json list"
| JBool bool | JNull

text \<open>
  A string is written with the escapes JSON has for it; a number is its decimal digits.
\<close>

definition escape_char :: "byte \<Rightarrow> byte list" where
  "escape_char c =
    (if c = 0x22 \<or> c = 0x5C then [0x5C, c]
     else if c = 0x08 then [0x5C, 0x62]
     else if c = 0x0C then [0x5C, 0x66]
     else if c = 0x0A then [0x5C, 0x6E]
     else if c = 0x0D then [0x5C, 0x72]
     else [c])"

definition string_text :: "byte list \<Rightarrow> byte list" where
  "string_text cs = 0x22 # concat (map escape_char cs) @ [0x22]"

fun commas :: "byte list list \<Rightarrow> byte list" where
  "commas [] = []"
| "commas [t] = t"
| "commas (t # ts) = t @ 0x2C # commas ts"

fun json_text :: "json \<Rightarrow> byte list" where
  "json_text (JStr cs) = string_text cs"
| "json_text (JNum ds) = ds"
| "json_text (JObj kvs) = 0x7B # commas (map (\<lambda>(k, v). string_text k @ 0x3A # json_text v) kvs) @ [0x7D]"
| "json_text (JArr vs) = 0x5B # commas (map json_text vs) @ [0x5D]"
| "json_text (JBool b) = (if b then kw_true else kw_false)"
| "json_text JNull = kw_null"

definition hdr :: "JSONType \<Rightarrow> nat \<Rightarrow> byte list" where
  "hdr ty n = le_bytes 4 (json_type_val ty) @ le_bytes 4 (of_nat n :: u32)"

definition pad8 :: "nat \<Rightarrow> nat" where
  "pad8 n = (n + 7) div 8 * 8 - n"

definition string_code :: "byte list \<Rightarrow> byte list" where
  "string_code cs = hdr String (length cs) @ cs @ replicate (pad8 (length cs)) 0"

definition number_value :: "fpu \<Rightarrow> byte list \<Rightarrow> u64" where
  "number_value F ds = fp_mul F (if ds = [0x30] then dbl_0 else fst (int_digits F dbl_0 ds)) dbl_1"

fun code :: "fpu \<Rightarrow> json \<Rightarrow> byte list" where
  "code F (JStr cs) = string_code cs"
| "code F (JNum ds) = hdr Number 8 @ le_bytes 8 (number_value F ds)"
| "code F (JObj kvs) = (let p = concat (map (\<lambda>(k, v). string_code k @ code F v) kvs) in hdr Object (length p) @ p)"
| "code F (JArr vs) = (let p = concat (map (code F) vs) in hdr Array (length p) @ p)"
| "code F (JBool b) = hdr Boolean 8 @ le_bytes 8 (if b then 1 else 0 :: u64)"
| "code F JNull = hdr Null 0"

definition char_ok :: "byte \<Rightarrow> bool" where
  "char_ok c \<longleftrightarrow> c \<in> {0x08, 0x09, 0x0A, 0x0C, 0x0D} \<or> (0x20 \<le> c \<and> c < 0x7F)"

definition string_ok :: "byte list \<Rightarrow> bool" where
  "string_ok cs \<longleftrightarrow> list_all char_ok cs \<and> length cs < 2 ^ 31"

fun json_ok :: "json \<Rightarrow> bool" where
  "json_ok (JStr cs) \<longleftrightarrow> string_ok cs"
| "json_ok (JNum ds) \<longleftrightarrow> ds = [0x30] \<or> (ds \<noteq> [] \<and> list_all is_digit ds \<and> hd ds \<noteq> 0x30)"
| "json_ok (JObj kvs) \<longleftrightarrow> list_all (\<lambda>(k, v). string_ok k \<and> json_ok v) kvs"
| "json_ok (JArr vs) \<longleftrightarrow> list_all json_ok vs"
| "json_ok (JBool b) \<longleftrightarrow> True"
| "json_ok JNull \<longleftrightarrow> True"

lemma length_hdr [simp]: "length (hdr ty n) = 8"
  by (simp add: hdr_def)

section \<open>Strings\<close>

text \<open>The destination while a string is read: hdr and the characters so far.\<close>

definition partial :: "byte list \<Rightarrow> byte list" where
  "partial cs = hdr String (length cs) @ cs"

lemma string_emit_partial:
  assumes "j_mem st = put (partial dn) m h" and "j_dst st = h + 8 + length dn"
    and "h + 8 + length dn + 1 < length m"
  shows "string_emit [c] h st = Some (NoError, st\<lparr>j_dst := h + 8 + length (dn @ [c]), j_mem := put (partial (dn @ [c])) m h\<rparr>)"
proof -
  let ?t = "le_bytes 4 (json_type_val String)" and ?n = "\<lambda>k. le_bytes 4 (of_nat k :: u32)"
  have p: "partial cs = ?t @ ?n (length cs) @ cs" for cs by (simp add: partial_def hdr_def)
  have 1: "put [c] (put (partial dn) m h) (h + 8 + length dn) = put (?t @ ?n (length dn) @ (dn @ [c])) m h"
    using put_append [of h "partial dn" "[c]" m] assms(3) by (simp add: p add.assoc)
  have 2: "load 4 (put (?t @ ?n (length dn) @ (dn @ [c])) m h) (h + 4) = Some (?n (length dn))"
    using load_put_inside [of h ?t "?n (length dn)" "dn @ [c]" m] assms(3) by simp
  have 3: "put (?n (Suc (length dn))) (put (?t @ ?n (length dn) @ (dn @ [c])) m h) (h + 4)
      = put (partial (dn @ [c])) m h"
    using put_overwrite [of "?n (Suc (length dn))" "?n (length dn)" h ?t "dn @ [c]" m] assms(3)
    by (simp add: p)
  have len: "length (put (partial dn) m h) = length m"
    "length (put (?t @ ?n (length dn) @ (dn @ [c])) m h) = length m"
    using assms(3) by (simp_all add: length_put p)
  show ?thesis
    using assms len 1 2 3
    by (simp add: string_emit_def store_def load32_def store32_def add.commute)
qed

lemma unat_of_nat_len: "n < 2 ^ 31 \<Longrightarrow> unat (of_nat n :: u32) = n"
  by (simp add: unat_of_nat take_bit_nat_eq_self)

lemma padded_len:
  assumes "n < 2 ^ 31"
  shows "unat (ucast (align_8 (ucast (of_nat n :: u32))) :: u32) = (n + 7) div 8 * 8"
proof -
  define w where "w = (ucast (of_nat n :: u32) :: u64)"
  have w: "unat w = n" unfolding w_def unsigned_ucast_eq unat_of_nat_len [OF assms]
    using assms by (simp add: take_bit_nat_eq_self)
  have "unat (align_8 w) = (unat w + 7) div 8 * 8"
    using align_unat [of w 3] w assms by (simp add: align_8_def)
  moreover have "(n + 7) div 8 * 8 < 2 ^ 32" using assms by (simp add: less_mult_imp_div_less)
  ultimately show ?thesis
    unfolding w_def [symmetric] unsigned_ucast_eq using w by (simp add: take_bit_nat_eq_self)
qed

lemma string_close_partial:
  assumes "j_mem st = put (partial cs) m h" and "j_dst st = h + 8 + length cs" and "length cs < 2 ^ 31"
    and "h + length (string_code cs) < length m"
  shows "string_close h st = Some (NoError, \<lparr>j_buf = Suc (j_buf st), j_dst = h + length (string_code cs),
    j_mem = put (string_code cs) m h\<rparr>)"
proof -
  let ?t = "le_bytes 4 (json_type_val String)" and ?n = "le_bytes 4 (of_nat (length cs) :: u32)"
  let ?p = "ucast (align_8 (ucast (of_nat (length cs) :: u32))) :: u32"
  let ?z = "replicate (pad8 (length cs)) 0 :: byte list"
  have p: "partial cs = ?t @ ?n @ cs" by (simp add: partial_def hdr_def)
  have sc: "string_code cs = partial cs @ ?z" by (simp add: string_code_def partial_def)
  have le: "h + length (partial cs) + length ?z < length m" using assms(4) by (simp add: sc)
  have "load 4 (put (partial cs) m h) (h + 4) = Some ?n"
    using load_put_inside [of h ?t ?n cs m] le by (simp add: p)
  then have len: "load32 (j_mem st) (h + 4) = Some (of_nat (length cs))"
    using assms(1) by (simp add: load32_def)
  have u: "unat ?p = (length cs + 7) div 8 * 8" "unat (of_nat (length cs) :: u32) = length cs"
    using padded_len [OF assms(3)] unat_of_nat_len [OF assms(3)] by simp_all
  then have pad: "unat ?p - unat (of_nat (length cs) :: u32) = pad8 (length cs)" by (simp add: pad8_def)
  have "of_nat (length cs) \<le> ?p" using u by (simp add: word_le_nat_alt)
  then have sub: "unat (?p - of_nat (length cs)) = pad8 (length cs)" using pad by (simp add: unat_sub)
  have put: "put ?z (put (partial cs) m h) (h + 8 + length cs) = put (string_code cs) m h"
    using put_append [of h "partial cs" ?z m] le by (simp add: sc partial_def add.assoc)
  have lm: "length (put (partial cs) m h) = length m" using le by (simp add: length_put)
  show ?thesis
    using le len sub pad put assms(1,2) lm
    by (simp add: string_close_def Let_def store_def sc partial_def add.assoc)
qed

lemma char_ok_arms:
  assumes "char_ok c"
  shows "escape_char c = [c] \<and> c \<noteq> 0x5C \<and> c \<noteq> 0x22 \<and> \<not> ((sint c < 0x20 \<and> c \<noteq> 0x09) \<or> c = 0x7F)
    \<or> (\<exists>d. escape_char c = [0x5C, d] \<and> d \<noteq> 0x75 \<and> unescape d = Some c)"
proof (cases "c \<in> {0x22, 0x5C, 0x08, 0x0C, 0x0A, 0x0D}")
  case True
  then show ?thesis by (auto simp: escape_char_def unescape_def)
next
  case False
  have "sint c = uint c" if "c < 0x7F"
    using that by (simp add: sint_uint signed_take_bit_eq_if_positive word_less_alt not_le bit_uint_iff bit_iff_odd drop_bit_eq_div take_bit_int_eq_self)
  moreover have "32 \<le> uint c" if "0x20 \<le> c" using that by (simp add: word_le_def)
  ultimately show ?thesis
    using False assms by (auto simp: escape_char_def char_ok_def)
qed

lemma string_loop_text:
  assumes "j_mem st = put (partial dn) m h" and "j_dst st = h + 8 + length dn"
    and "string_ok (dn @ cs)" and "h + length (string_code (dn @ cs)) < length m"
  shows "string_loop (concat (map escape_char cs) @ 0x22 # rest) h False (- 1) 0 st =
    Some (NoError, \<lparr>j_buf = j_buf st + length (concat (map escape_char cs)) + 1,
      j_dst = h + length (string_code (dn @ cs)), j_mem = put (string_code (dn @ cs)) m h\<rparr>)"
  using assms
proof (induction cs arbitrary: dn st)
  case Nil
  then show ?case
    using string_close_partial [of st dn m h] by (simp add: string_ok_def)
next
  case (Cons c cs)
  have ok: "char_ok c" "string_ok ((dn @ [c]) @ cs)" using Cons.prems(3) by (auto simp: string_ok_def)
  have lt: "h + 8 + length dn + 1 < length m"
    using Cons.prems(4) by (simp add: string_code_def)
  have step: "string_loop (concat (map escape_char cs) @ 0x22 # rest) h False (- 1) 0
      (advance k (st\<lparr>j_dst := h + 8 + length (dn @ [c]), j_mem := put (partial (dn @ [c])) m h\<rparr>)) =
    Some (NoError, \<lparr>j_buf = j_buf st + k + length (concat (map escape_char cs)) + 1,
      j_dst = h + length (string_code (dn @ c # cs)), j_mem = put (string_code (dn @ c # cs)) m h\<rparr>)" for k
    using Cons.IH [of "advance k (st\<lparr>j_dst := h + 8 + length (dn @ [c]), j_mem := put (partial (dn @ [c])) m h\<rparr>)" "dn @ [c]"]
      ok Cons.prems(4) by simp
  from char_ok_arms [OF ok(1)] show ?case
  proof (elim disjE conjE exE)
    assume a: "escape_char c = [c]" "c \<noteq> 0x5C" "c \<noteq> 0x22" "\<not> ((sint c < 0x20 \<and> c \<noteq> 0x09) \<or> c = 0x7F)"
    have e: "string_emit [c] h st = Some (NoError, st\<lparr>j_dst := h + 8 + length (dn @ [c]), j_mem := put (partial (dn @ [c])) m h\<rparr>)"
      by (rule string_emit_partial [OF Cons.prems(1,2) lt])
    show ?thesis
      using a e step [of 1] by (simp add: and_then_def)
  next
    fix d assume a: "escape_char c = [0x5C, d]" "d \<noteq> 0x75" "unescape d = Some c"
    let ?st = "advance 1 st"
    have e: "string_emit [c] h ?st = Some (NoError, ?st\<lparr>j_dst := h + 8 + length (dn @ [c]), j_mem := put (partial (dn @ [c])) m h\<rparr>)"
      by (rule string_emit_partial) (use Cons.prems(1,2) lt in simp_all)
    show ?thesis
      using a e step [of 2] by (simp add: and_then_def advance_def)
  qed
qed

text \<open>
  Success, after \<open>n\<close> characters, with the bytes \<open>cd\<close> appended to the destination.
\<close>

definition done_with :: "jstate \<Rightarrow> nat \<Rightarrow> byte list \<Rightarrow> jresult" where
  "done_with st n cd = Some (NoError, \<lparr>j_buf = j_buf st + n, j_dst = j_dst st + length cd,
     j_mem = put cd (j_mem st) (j_dst st)\<rparr>)"

lemma drop_Cons_conv:
  assumes "drop p xs = c # cs"
  shows "p < length xs" and "xs ! p = c" and "drop (Suc p) xs = cs"
proof -
  show p: "p < length xs" using assms by (metis drop_all list.distinct(1) not_less)
  then show "xs ! p = c" "drop (Suc p) xs = cs"
    using assms by (simp_all add: Cons_nth_drop_Suc [symmetric])
qed

lemma drop_append_conv:
  assumes "drop p xs = a @ b"
  shows "drop (p + length a) xs = b"
  using arg_cong [OF assms, of "drop (length a)"] by (simp add: add.commute)

lemma peek_Cons: "drop (j_buf st) src = c # cs \<Longrightarrow> peek src st = Some c"
  using drop_Cons_conv by (fastforce simp: peek_def)

lemma skip_none: "drop (j_buf st) src = c # cs \<Longrightarrow> \<not> is_whitespace c \<Longrightarrow> skip_whitespaces src st = st"
  by (simp add: skip_whitespaces_def advance_def)

lemma json_parse_string_text:
  assumes "drop (j_buf st) src = string_text cs @ post" and "string_ok cs"
    and "j_dst st + length (string_code cs) < length (j_mem st)"
  shows "json_parse_string src st = done_with st (length (string_text cs)) (string_code cs)"
proof -
  let ?d = "j_dst st" and ?m = "j_mem st"
  have d: "drop (Suc (j_buf st)) src = concat (map escape_char cs) @ 0x22 # post"
    using drop_Cons_conv(3) [of "j_buf st" src] assms(1) by (simp add: string_text_def)
  then have "Suc (j_buf st) \<noteq> length src" by auto
  moreover have le: "?d + 8 < length ?m" using assms(3) by (simp add: string_code_def)
  moreover have "put (le_bytes 4 (0 :: u32)) (put (le_bytes 4 (json_type_val String)) ?m ?d) (?d + 4)
      = put (partial []) ?m ?d"
    using put_append [of ?d "le_bytes 4 (json_type_val String)" "le_bytes 4 (0 :: u32)" ?m] le
    by (simp add: partial_def hdr_def)
  moreover have "string_loop (concat (map escape_char cs) @ 0x22 # post) ?d False (- 1) 0
      \<lparr>j_buf = Suc (j_buf st), j_dst = ?d + 8, j_mem = put (partial []) ?m ?d\<rparr> =
    Some (NoError, \<lparr>j_buf = Suc (j_buf st) + length (concat (map escape_char cs)) + 1,
      j_dst = ?d + length (string_code cs), j_mem = put (string_code cs) ?m ?d\<rparr>)"
    using string_loop_text [of "\<lparr>j_buf = Suc (j_buf st), j_dst = ?d + 8, j_mem = put (partial []) ?m ?d\<rparr>"
      "[]" ?m ?d cs post] assms(2,3) by simp
  ultimately show ?thesis
    using d by (simp add: json_parse_string_def sizeof_JSONHeader_def store32_def store_def length_put
        Let_def done_with_def string_text_def)
qed

section \<open>Numbers and keywords\<close>

text \<open>What may follow a value inside a compact text.\<close>

definition follow_ok :: "byte list \<Rightarrow> bool" where
  "follow_ok post \<longleftrightarrow> (case post of [] \<Rightarrow> True | c # _ \<Rightarrow> c \<in> {0x2C, 0x5D, 0x7D})"

lemma int_digits_text:
  "list_all is_digit ds \<Longrightarrow> follow_ok post \<Longrightarrow>
     int_digits F v (ds @ post) = (fst (int_digits F v ds), length ds)"
  by (induction ds arbitrary: v)
    (auto simp: follow_ok_def is_digit_def split_beta split: list.splits)

lemma number_parts_text:
  assumes "drop buf src = ds @ post" and "follow_ok post"
    and "ds = [0x30] \<or> (ds \<noteq> [] \<and> list_all is_digit ds \<and> hd ds \<noteq> 0x30)"
  shows "integer_part F src buf = (if ds = [0x30] then dbl_0 else fst (int_digits F dbl_0 ds), buf + length ds)"
    and "fraction_part F src v (buf + length ds) = (NoError, v, buf + length ds)"
    and "exponent_part F src v (buf + length ds) = (NoError, v, buf + length ds)"
    and "buf < length src" and "src ! buf \<noteq> 0x2D" and "is_digit (src ! buf)"
proof -
  obtain c cs where c: "ds = c # cs" using assms(3) by (cases ds) auto
  have dc: "is_digit c" using assms(3) c by (auto simp: is_digit_def)
  note d = drop_Cons_conv [of buf src c "cs @ post"]
  show lt: "buf < length src" and "src ! buf \<noteq> 0x2D" and "is_digit (src ! buf)"
    using d assms(1) c dc by (auto simp: is_digit_def)
  have nth: "src ! buf = c" using d assms(1) c by simp
  show "integer_part F src buf = (if ds = [0x30] then dbl_0 else fst (int_digits F dbl_0 ds), buf + length ds)"
  proof (cases "ds = [0x30]")
    case True
    then show ?thesis using nth c by (simp add: integer_part_def)
  next
    case False
    then have "c \<noteq> 0x30" "list_all is_digit ds" using assms(3) c by auto
    then show ?thesis
      using int_digits_text [OF _ assms(2), of ds F dbl_0] assms(1) nth False by (simp add: integer_part_def)
  qed
  have "drop (buf + length ds) src = post" by (rule drop_append_conv [OF assms(1)])
  then have "buf + length ds < length src \<Longrightarrow> src ! (buf + length ds) \<in> {0x2C, 0x5D, 0x7D}"
    using assms(2) by (cases post) (auto simp: follow_ok_def dest: drop_Cons_conv)
  then show "fraction_part F src v (buf + length ds) = (NoError, v, buf + length ds)"
    and "exponent_part F src v (buf + length ds) = (NoError, v, buf + length ds)"
    by (auto simp: fraction_part_def exponent_part_def)
qed

text \<open>Header and eight bytes of payload.\<close>

lemma put_payload:
  assumes "d + 16 < length m"
  shows "put (le_bytes 8 (v :: u64)) (put (le_bytes 4 (8 :: u32)) (put (le_bytes 4 (json_type_val ty)) m d) (d + 4)) (d + 8)
    = put (hdr ty 8 @ le_bytes 8 v) m d"
proof -
  have "put (le_bytes 4 (8 :: u32)) (put (le_bytes 4 (json_type_val ty)) m d) (d + 4) = put (hdr ty 8) m d"
    using put_append [of d "le_bytes 4 (json_type_val ty)" "le_bytes 4 (8 :: u32)" m] assms
    by (simp add: hdr_def)
  then show ?thesis using put_append [of d "hdr ty 8" "le_bytes 8 v" m] assms by simp
qed

lemma json_parse_number_text:
  assumes "drop (j_buf st) src = ds @ post" and "follow_ok post"
    and "ds = [0x30] \<or> (ds \<noteq> [] \<and> list_all is_digit ds \<and> hd ds \<noteq> 0x30)"
    and "j_dst st + 16 < length (j_mem st)"
  shows "json_parse_number F src st = done_with st (length ds) (hdr Number 8 @ le_bytes 8 (number_value F ds))"
proof -
  note n = number_parts_text [OF assms(1-3)]
  show ?thesis
    using n assms(4) put_payload [OF assms(4), of "number_value F ds" Number]
    by (simp add: json_parse_number_def sizeof_JSONHeader_def store32_def store64_def store_def length_put
        Let_def done_with_def number_value_def)
qed

lemma keyword_text: "drop buf src = kw @ post \<Longrightarrow> kw \<noteq> [] \<Longrightarrow> keyword_at kw src buf = NoError"
proof -
  assume d: "drop buf src = kw @ post" and "kw \<noteq> []"
  moreover have "length src - buf = length kw + length post"
    using arg_cong [OF d, of length] by simp
  ultimately have "buf + length kw \<le> length src" by (cases kw) auto
  with d show ?thesis by (simp add: keyword_at_def)
qed

lemma json_parse_boolean_text:
  assumes "drop (j_buf st) src = (if b then kw_true else kw_false) @ post"
    and "j_dst st + 16 < length (j_mem st)"
  shows "json_parse_boolean src st = done_with st (length (if b then kw_true else kw_false))
    (hdr Boolean 8 @ le_bytes 8 (if b then 1 else 0 :: u64))"
proof -
  let ?kw = "if b then kw_true else kw_false"
  have kw: "keyword_at ?kw src (j_buf st) = NoError" by (rule keyword_text [OF assms(1)]) (simp add: kw_true_def kw_false_def)
  have c: "j_buf st < length src" "src ! j_buf st = (if b then 0x74 else 0x66)"
    using drop_Cons_conv [of "j_buf st" src] assms(1) by (cases b; simp add: kw_true_def kw_false_def)+
  show ?thesis
    using kw c assms(2) put_payload [OF assms(2), of "if b then 1 else 0" Boolean]
    by (cases b) (simp_all add: json_parse_boolean_def sizeof_JSONHeader_def store32_def store64_def store_def
        length_put Let_def done_with_def advance_def)
qed

lemma json_parse_null_text:
  assumes "drop (j_buf st) src = kw_null @ post" and "j_dst st + 8 < length (j_mem st)"
  shows "json_parse_null src st = done_with st (length kw_null) (hdr Null 0)"
proof -
  have kw_ne: "kw_null \<noteq> []" by (simp add: kw_null_def)
  have "put (le_bytes 4 (0 :: u32)) (put (le_bytes 4 (json_type_val Null)) (j_mem st) (j_dst st)) (j_dst st + 4)
      = put (hdr Null 0) (j_mem st) (j_dst st)"
    using put_append [of "j_dst st" "le_bytes 4 (json_type_val Null)" "le_bytes 4 (0 :: u32)" "j_mem st"] assms(2)
    by (simp add: hdr_def)
  then show ?thesis
    using keyword_text [OF assms(1)] assms(2) kw_ne
    by (simp add: json_parse_null_def sizeof_JSONHeader_def store32_def store_def length_put Let_def
        done_with_def advance_def)
qed

section \<open>Arrays, objects and values\<close>

lemma json_text_Cons:
  assumes "json_ok v"
  obtains c cs where "json_text v = c # cs" and "\<not> is_whitespace c" and "c \<noteq> 0x5D"
proof (cases v)
  case (JNum ds)
  then have "ds \<noteq> [] \<and> is_digit (hd ds)"
    using assms by (cases ds) (auto simp: is_digit_def)
  moreover from this have "\<not> is_whitespace (hd ds) \<and> hd ds \<noteq> 0x5D"
    by (auto simp: is_whitespace_def is_digit_def)
  ultimately show ?thesis
    using that [of "hd ds" "tl ds"] JNum by simp
next
  case (JBool b)
  then show ?thesis
    by (cases b) (auto intro!: that simp: is_whitespace_def kw_true_def kw_false_def)
qed (auto intro!: that simp: string_text_def is_whitespace_def kw_null_def)

text \<open>The parse of one value, for the induction.\<close>

definition parses :: "fpu \<Rightarrow> json \<Rightarrow> bool" where
  "parses F v \<longleftrightarrow> (\<forall>n src st post. json_ok v \<longrightarrow> drop (j_buf st) src = json_text v @ post \<longrightarrow> follow_ok post \<longrightarrow>
     j_dst st + length (code F v) < length (j_mem st) \<longrightarrow> 3 * (length src - j_buf st) + 1 \<le> n \<longrightarrow>
     json_parse_value F src n st = done_with st (length (json_text v)) (code F v))"

lemma parsesD:
  "parses F v \<Longrightarrow> json_ok v \<Longrightarrow> drop (j_buf st) src = json_text v @ post \<Longrightarrow> follow_ok post \<Longrightarrow>
     j_dst st + length (code F v) < length (j_mem st) \<Longrightarrow> 3 * (length src - j_buf st) + 1 \<le> n \<Longrightarrow>
     json_parse_value F src n st = done_with st (length (json_text v)) (code F v)"
  unfolding parses_def by blast

text \<open>One success after another.\<close>

lemma done_then:
  assumes "j_dst st + length a + length b \<le> length (j_mem st)"
  shows "done_with (advance n \<lparr>j_buf = j_buf st + k, j_dst = j_dst st + length a, j_mem = put a (j_mem st) (j_dst st)\<rparr>) l b
    = done_with st (k + n + l) (a @ b)"
  using put_append [of "j_dst st" a b "j_mem st"] assms by (simp add: done_with_def advance_def add.assoc)

lemma commas_Cons: "ts \<noteq> [] \<Longrightarrow> commas (t # ts) = t @ 0x2C # commas ts"
  by (cases ts) simp_all

lemma array_loop_text:
  assumes "\<forall>v \<in> set vs. parses F v \<and> json_ok v" and "vs \<noteq> []"
    and "drop (j_buf st) src = commas (map json_text vs) @ 0x5D # post"
    and "j_dst st + length (concat (map (code F) vs)) < length (j_mem st)"
    and "3 * (length src - j_buf st) + 2 \<le> n"
  shows "array_loop F src n st = done_with st (length (commas (map json_text vs)) + 1) (concat (map (code F) vs))"
  using assms
proof (induction vs arbitrary: n st)
  case Nil
  then show ?case by simp
next
  case (Cons v vs)
  then obtain k where n: "n = Suc k" by (cases n) auto
  define post' where "post' = (if vs = [] then 0x5D # post else 0x2C # commas (map json_text vs) @ 0x5D # post)"
  have v: "parses F v" "json_ok v" using Cons.prems(1) by simp_all
  have d: "drop (j_buf st) src = json_text v @ post'"
    using Cons.prems(3) by (cases "vs = []") (simp_all add: post'_def commas_Cons)
  have f: "follow_ok post'" by (simp add: post'_def follow_ok_def)
  define st1 where "st1 = \<lparr>j_buf = j_buf st + length (json_text v), j_dst = j_dst st + length (code F v),
    j_mem = put (code F v) (j_mem st) (j_dst st)\<rparr>"
  have val: "json_parse_value F src k st = Some (NoError, st1)"
    using parsesD [OF v d f] Cons.prems(4,5) n by (simp add: done_with_def st1_def)
  have d1: "drop (j_buf st1) src = post'" using drop_append_conv [OF d] by (simp add: st1_def)
  obtain c cs where c: "post' = c # cs" "\<not> is_whitespace c" "c = (if vs = [] then 0x5D else 0x2C)"
    by (cases "vs = []") (simp_all add: post'_def is_whitespace_def)
  have d1': "drop (j_buf st1) src = c # cs" using d1 c(1) by simp
  note st1 = skip_none [OF d1' c(2)] peek_Cons [OF d1'] drop_Cons_conv [OF d1']
  show ?case
  proof (cases "vs = []")
    case True
    then show ?thesis
      using n val st1 c(3) by (simp add: and_then_def done_with_def st1_def advance_def)
  next
    case False
    have le: "j_dst st + length (code F v) + length (concat (map (code F) vs)) < length (j_mem st)"
      using Cons.prems(4) by simp
    have "array_loop F src k (advance 1 st1) =
        done_with (advance 1 st1) (length (commas (map json_text vs)) + 1) (concat (map (code F) vs))"
    proof (rule Cons.IH)
      show "drop (j_buf (advance 1 st1)) src = commas (map json_text vs) @ 0x5D # post"
        using st1(5) c(1) False by (simp add: post'_def)
      show "j_dst (advance 1 st1) + length (concat (map (code F) vs)) < length (j_mem (advance 1 st1))"
        using le by (simp add: st1_def length_put)
      have "0 < length (json_text v)" using json_text_Cons [OF v(2)] by fastforce
      then show "3 * (length src - j_buf (advance 1 st1)) + 2 \<le> k"
        using Cons.prems(5) n st1(3) by (simp add: st1_def)
    qed (use Cons.prems(1) False in simp_all)
    also have "\<dots> = done_with st (length (json_text v) + 1 + (length (commas (map json_text vs)) + 1))
        (code F v @ concat (map (code F) vs))"
      unfolding st1_def by (rule done_then) (use le in simp)
    finally show ?thesis
      using n val st1 c(3) False by (simp add: and_then_def Let_def commas_Cons)
  qed
qed

lemma object_loop_text:
  assumes "\<forall>(k, v) \<in> set kvs. string_ok k \<and> parses F v \<and> json_ok v" and "kvs \<noteq> []"
    and "drop (j_buf st) src = commas (map (\<lambda>(k, v). string_text k @ 0x3A # json_text v) kvs) @ 0x7D # post"
    and "j_dst st + length (concat (map (\<lambda>(k, v). string_code k @ code F v) kvs)) < length (j_mem st)"
    and "3 * (length src - j_buf st) + 2 \<le> n"
  shows "object_loop F src n st = done_with st
    (length (commas (map (\<lambda>(k, v). string_text k @ 0x3A # json_text v) kvs)) + 1)
    (concat (map (\<lambda>(k, v). string_code k @ code F v) kvs))"
  using assms
proof (induction kvs arbitrary: n st)
  case Nil
  then show ?case by simp
next
  case (Cons kv kvs)
  let ?tx = "\<lambda>kvs. commas (map (\<lambda>(k, v). string_text k @ 0x3A # json_text v) kvs)"
  let ?cd = "\<lambda>kvs. concat (map (\<lambda>(k, v). string_code k @ code F v) kvs)"
  obtain k v where kv: "kv = (k, v)" by fastforce
  obtain f where n: "n = Suc f" using Cons.prems(5) by (cases n) auto
  define post' where "post' = (if kvs = [] then 0x7D # post else 0x2C # ?tx kvs @ 0x7D # post)"
  have k: "string_ok k" and v: "parses F v" "json_ok v" using Cons.prems(1) kv by auto
  have d: "drop (j_buf st) src = string_text k @ (0x3A # json_text v @ post')"
    using Cons.prems(3) kv by (cases "kvs = []") (simp_all add: post'_def commas_Cons)
  have le: "j_dst st + length (string_code k) + length (code F v) + length (?cd kvs) < length (j_mem st)"
    using Cons.prems(4) kv by simp
  obtain q qs where q: "string_text k = q # qs" "\<not> is_whitespace q" by (simp add: string_text_def is_whitespace_def)
  have sk: "skip_whitespaces src st = st" by (rule skip_none) (use d q in auto)
  define s0 where "s0 = \<lparr>j_buf = j_buf st + length (string_text k), j_dst = j_dst st + length (string_code k),
    j_mem = put (string_code k) (j_mem st) (j_dst st)\<rparr>"
  have key: "json_parse_string src (skip_whitespaces src st) = Some (NoError, s0)"
    using json_parse_string_text [OF d k] le sk by (simp add: done_with_def s0_def)
  have d0: "drop (j_buf s0) src = 0x3A # json_text v @ post'"
    using drop_append_conv [OF d] by (simp add: s0_def)
  have nw: "\<not> is_whitespace 0x3A" by (simp add: is_whitespace_def)
  note s0 = skip_none [OF d0 nw] peek_Cons [OF d0] drop_Cons_conv [OF d0]
  have f: "follow_ok post'" by (simp add: post'_def follow_ok_def)
  let ?kc = "string_code k @ code F v"
  define s1 where "s1 = \<lparr>j_buf = j_buf st + length (string_text k @ 0x3A # json_text v),
    j_dst = j_dst st + length ?kc, j_mem = put ?kc (j_mem st) (j_dst st)\<rparr>"
  have "json_parse_value F src f (advance 1 s0) = done_with (advance 1 s0) (length (json_text v)) (code F v)"
    by (rule parsesD [OF v _ f]) (use s0 le Cons.prems(5) n in \<open>auto simp: s0_def length_put\<close>)
  also have "\<dots> = done_with st (length (string_text k) + 1 + length (json_text v)) ?kc"
    unfolding s0_def by (rule done_then) (use le in simp)
  finally have val: "json_parse_value F src f (advance 1 s0) = Some (NoError, s1)"
    by (simp add: done_with_def s1_def)
  have d1: "drop (j_buf s1) src = post'"
    using drop_append_conv [of "j_buf st" src "string_text k @ 0x3A # json_text v" post'] d by (simp add: s1_def)
  obtain c cs where c: "post' = c # cs" "\<not> is_whitespace c" "c = (if kvs = [] then 0x7D else 0x2C)"
    by (cases "kvs = []") (simp_all add: post'_def is_whitespace_def)
  have d1': "drop (j_buf s1) src = c # cs" using d1 c(1) by simp
  note s1 = skip_none [OF d1' c(2)] peek_Cons [OF d1'] drop_Cons_conv [OF d1']
  show ?case
  proof (cases "kvs = []")
    case True
    then show ?thesis
      using n kv key s0 val s1 c(3) by (simp add: and_then_def done_with_def s1_def advance_def Let_def)
  next
    case False
    have "object_loop F src f (advance 1 s1) = done_with (advance 1 s1) (length (?tx kvs) + 1) (?cd kvs)"
    proof (rule Cons.IH)
      show "drop (j_buf (advance 1 s1)) src = ?tx kvs @ 0x7D # post"
        using s1(5) c(1) False by (simp add: post'_def)
      show "j_dst (advance 1 s1) + length (?cd kvs) < length (j_mem (advance 1 s1))"
        using le by (simp add: s1_def length_put)
      show "3 * (length src - j_buf (advance 1 s1)) + 2 \<le> f"
        using Cons.prems(5) n s1(3) by (simp add: s1_def)
    qed (use Cons.prems(1) False in simp_all)
    also have "\<dots> = done_with st (length (string_text k @ 0x3A # json_text v) + 1 + (length (?tx kvs) + 1))
        (?kc @ ?cd kvs)"
      unfolding s1_def by (rule done_then) (use le in simp)
    finally show ?thesis
      using n kv key s0 val s1 c(3) False by (simp add: and_then_def Let_def commas_Cons add.assoc)
  qed
qed

text \<open>The header around the elements.\<close>

lemma open_bracket_text:
  assumes "drop (j_buf st) src = b # c # cs" and "\<not> is_whitespace c" and "j_dst st + 8 < length (j_mem st)"
  shows "open_bracket ty src st = Some (NoError, \<lparr>j_buf = Suc (j_buf st), j_dst = j_dst st + 8,
    j_mem = put (le_bytes 4 (json_type_val ty)) (j_mem st) (j_dst st)\<rparr>)"
proof -
  let ?st = "\<lparr>j_buf = Suc (j_buf st), j_dst = j_dst st + 8,
    j_mem = put (le_bytes 4 (json_type_val ty)) (j_mem st) (j_dst st)\<rparr>"
  have d: "drop (j_buf ?st) src = c # cs" using drop_Cons_conv [OF assms(1)] by simp
  have "skip_whitespaces src ?st = ?st" by (rule skip_none [OF d assms(2)])
  then show ?thesis
    using drop_Cons_conv(1) [OF d] assms(3)
    by (simp add: open_bracket_def sizeof_JSONHeader_def store32_def store_def Let_def)
qed

lemma close_bracket:
  fixes st :: jstate and ty :: JSONType and p :: "byte list"
  assumes "j_dst st + 8 + length p < length (j_mem st)"
  defines "m \<equiv> put (le_bytes 4 (json_type_val ty)) (j_mem st) (j_dst st)"
  shows "set_header_len (j_dst st) (of_nat (length p)) \<lparr>j_buf = j_buf st + k, j_dst = j_dst st + 8 + length p,
      j_mem = put p m (j_dst st + 8)\<rparr> = done_with st k (hdr ty (length p) @ p)"
  using assms(1) put_between [of "j_dst st" "le_bytes 4 (json_type_val ty)" "le_bytes 4 (of_nat (length p) :: u32)" p "j_mem st"]
  by (simp add: set_header_len_def store32_def store_def length_put done_with_def hdr_def m_def add.commute [of 8])

lemma put_Nil [simp]: "p \<le> length m \<Longrightarrow> put [] m p = m"
  by (simp add: put_def)

lemma bracket_text:
  fixes st :: jstate and p t :: "byte list" and ty :: JSONType
  assumes d: "drop (j_buf st) src = b # t @ q # post" and c: "t = [] \<longrightarrow> p = []" "\<not> is_whitespace (hd (t @ [q]))"
    and t: "t \<noteq> [] \<Longrightarrow> hd t \<noteq> q" and le: "j_dst st + 8 + length p < length (j_mem st)"
    and loop: "\<And>st1. t \<noteq> [] \<Longrightarrow> drop (j_buf st1) src = t @ q # post \<Longrightarrow> j_buf st1 = Suc (j_buf st) \<Longrightarrow>
      j_dst st1 + length p < length (j_mem st1) \<Longrightarrow> loop st1 = done_with st1 (length t + 1) p"
  shows "and_then (open_bracket ty src st) (\<lambda>st1. do {
      c \<leftarrow> peek src st1;
      if c = q then set_header_len (j_dst st) 0 (advance 1 st1)
      else and_then (loop st1) (\<lambda>st2. set_header_len (j_dst st) (of_nat (j_dst st2 - j_dst st1)) st2)
    }) = done_with st (length t + 2) (hdr ty (length p) @ p)"
proof -
  obtain x xs where x: "t @ q # post = x # xs" "\<not> is_whitespace x" "x = hd (t @ [q])"
    using c(2) by (cases t) auto
  define st1 where "st1 = \<lparr>j_buf = Suc (j_buf st), j_dst = j_dst st + 8,
    j_mem = put (le_bytes 4 (json_type_val ty)) (j_mem st) (j_dst st)\<rparr>"
  have o: "open_bracket ty src st = Some (NoError, st1)"
    unfolding st1_def by (rule open_bracket_text [of st src b x xs]) (use d x le in auto)
  have d1: "drop (j_buf st1) src = t @ q # post" using drop_Cons_conv(3) [OF d] by (simp add: st1_def)
  have pk: "peek src st1 = Some x" by (rule peek_Cons) (use d1 x in auto)
  show ?thesis
  proof (cases "t = []")
    case True
    have "set_header_len (j_dst st) 0 (advance 1 st1) = done_with st 2 (hdr ty 0)"
      using close_bracket [where st = st and p = "[]" and ty = ty and k = 2] le by (simp add: st1_def advance_def length_put)
    then show ?thesis using o pk x True c(1) by (simp add: and_then_def numeral_2_eq_2)
  next
    case False
    have "loop st1 = done_with st1 (length t + 1) p"
      by (rule loop [OF False d1]) (use le in \<open>simp_all add: st1_def length_put\<close>)
    then have "loop st1 = Some (NoError, \<lparr>j_buf = j_buf st + (length t + 2), j_dst = j_dst st + 8 + length p,
        j_mem = put p (j_mem st1) (j_dst st + 8)\<rparr>)"
      by (simp add: done_with_def st1_def)
    moreover have "x \<noteq> q" using t [OF False] x(3) False by simp
    ultimately show ?thesis
      using o pk close_bracket [where st = st and p = p and ty = ty and k = "length t + 2"] le
      by (simp add: and_then_def st1_def)
  qed
qed

lemma value_dispatch:
  assumes "drop (j_buf st) src = c # cs" and "\<not> is_whitespace c"
  shows "json_parse_value F src (Suc n) st =
    (if c = 0x22 then json_parse_string src st
     else if c = 0x2D \<or> is_digit c then json_parse_number F src st
     else if c = 0x7B then json_parse_object F src n st
     else if c = 0x5B then json_parse_array F src n st
     else if c = 0x74 \<or> c = 0x66 then json_parse_boolean src st
     else if c = 0x6E then json_parse_null src st
     else Some (BadChar, st))"
  using skip_none [OF assms] peek_Cons [OF assms(1)] by simp

lemma is_digit_simps:
  "is_digit 0x22 = False" "is_digit 0x7B = False" "is_digit 0x5B = False"
  "is_digit 0x74 = False" "is_digit 0x66 = False" "is_digit 0x6E = False"
  by (simp_all add: is_digit_def)

lemma array_text:
  assumes "\<forall>v \<in> set vs. parses F v \<and> json_ok v"
    and "drop (j_buf st) src = json_text (JArr vs) @ post"
    and "j_dst st + length (code F (JArr vs)) < length (j_mem st)"
    and "3 * (length src - j_buf st) \<le> n"
  shows "json_parse_array F src n st = done_with st (length (json_text (JArr vs))) (code F (JArr vs))"
proof -
  let ?t = "commas (map json_text vs)" and ?p = "concat (map (code F) vs)"
  have d: "drop (j_buf st) src = 0x5B # ?t @ 0x5D # post" using assms(2) by simp
  have lt: "j_buf st < length src" using drop_Cons_conv(1) [OF d] .
  then obtain k where n: "n = Suc k" using assms(4) by (cases n) auto
  have first: "?t \<noteq> [] \<longrightarrow> \<not> is_whitespace (hd ?t) \<and> hd ?t \<noteq> 0x5D"
  proof (cases vs)
    case (Cons v vs')
    then have "json_ok v" using assms(1) by simp
    then obtain c cs where "json_text v = c # cs" "\<not> is_whitespace c" "c \<noteq> 0x5D" by (rule json_text_Cons)
    then show ?thesis using Cons by (cases vs') simp_all
  qed simp
  have "?t = [] \<longrightarrow> vs = []"
  proof (cases vs)
    case (Cons v vs')
    then have "json_ok v" using assms(1) by simp
    then obtain c cs where "json_text v = c # cs" by (rule json_text_Cons)
    then show ?thesis using Cons by (cases vs') simp_all
  qed simp
  then have c: "?t = [] \<longrightarrow> ?p = []" "\<not> is_whitespace (hd (?t @ [0x5D]))" "?t \<noteq> [] \<Longrightarrow> hd ?t \<noteq> 0x5D"
    using first by (auto simp: hd_append is_whitespace_def)
  have "json_parse_array F src (Suc k) st = done_with st (length ?t + 2) (hdr Array (length ?p) @ ?p)"
    unfolding json_parse_array.simps
  proof (rule bracket_text [OF d c])
    show "j_dst st + 8 + length ?p < length (j_mem st)" using assms(3) by (simp add: Let_def)
    fix st1 :: jstate assume "?t \<noteq> []" and d1: "drop (j_buf st1) src = ?t @ 0x5D # post"
      and "j_buf st1 = Suc (j_buf st)" and le: "j_dst st1 + length ?p < length (j_mem st1)"
    show "array_loop F src k st1 = done_with st1 (length ?t + 1) ?p"
      by (rule array_loop_text [OF assms(1) _ d1 le])
        (use \<open>?t \<noteq> []\<close> \<open>j_buf st1 = _\<close> assms(4) n lt in auto)
  qed
  then show ?thesis using n by (simp add: Let_def)
qed

lemma object_text:
  assumes "\<forall>(k, v) \<in> set kvs. string_ok k \<and> parses F v \<and> json_ok v"
    and "drop (j_buf st) src = json_text (JObj kvs) @ post"
    and "j_dst st + length (code F (JObj kvs)) < length (j_mem st)"
    and "3 * (length src - j_buf st) \<le> n"
  shows "json_parse_object F src n st = done_with st (length (json_text (JObj kvs))) (code F (JObj kvs))"
proof -
  let ?t = "commas (map (\<lambda>(k, v). string_text k @ 0x3A # json_text v) kvs)"
  let ?p = "concat (map (\<lambda>(k, v). string_code k @ code F v) kvs)"
  have d: "drop (j_buf st) src = 0x7B # ?t @ 0x7D # post" using assms(2) by simp
  have lt: "j_buf st < length src" using drop_Cons_conv(1) [OF d] .
  then obtain f where n: "n = Suc f" using assms(4) by (cases n) auto
  have first: "kvs \<noteq> [] \<Longrightarrow> ?t \<noteq> [] \<and> hd ?t = 0x22"
    by (cases kvs; cases "tl kvs") (auto simp: string_text_def)
  then have c: "?t = [] \<longrightarrow> ?p = []" "\<not> is_whitespace (hd (?t @ [0x7D]))" "?t \<noteq> [] \<Longrightarrow> hd ?t \<noteq> 0x7D"
    by (cases "kvs = []"; auto simp: hd_append is_whitespace_def)+
  have "json_parse_object F src (Suc f) st = done_with st (length ?t + 2) (hdr Object (length ?p) @ ?p)"
    unfolding json_parse_object.simps
  proof (rule bracket_text [OF d c])
    show "j_dst st + 8 + length ?p < length (j_mem st)" using assms(3) by (simp add: Let_def)
    fix st1 :: jstate assume "?t \<noteq> []" and d1: "drop (j_buf st1) src = ?t @ 0x7D # post"
      and "j_buf st1 = Suc (j_buf st)" and le: "j_dst st1 + length ?p < length (j_mem st1)"
    show "object_loop F src f st1 = done_with st1 (length ?t + 1) ?p"
      by (rule object_loop_text [OF assms(1) _ d1 le])
        (use \<open>?t \<noteq> []\<close> \<open>j_buf st1 = _\<close> assms(4) n lt in auto)
  qed
  then show ?thesis using n by (simp add: Let_def)
qed

lemma parses_value: "parses F v"
proof (induction v)
  case (JStr cs)
  have "json_parse_value F src n st = done_with st (length (string_text cs)) (string_code cs)"
    if ok: "string_ok cs" and d: "drop (j_buf st) src = string_text cs @ post"
      and le: "j_dst st + length (string_code cs) < length (j_mem st)" and fu: "3 * (length src - j_buf st) + 1 \<le> n"
    for n src and st :: jstate and post
  proof -
    obtain k where n: "n = Suc k" using fu by (cases n) auto
    have "drop (j_buf st) src = 0x22 # concat (map escape_char cs) @ 0x22 # post"
      using d by (simp add: string_text_def)
    from value_dispatch [OF this, of F k] json_parse_string_text [OF d ok le]
    show ?thesis using n by (simp add: is_whitespace_def)
  qed
  then show ?case by (simp add: parses_def)
next
  case (JNum ds)
  have "json_parse_value F src n st = done_with st (length ds) (hdr Number 8 @ le_bytes 8 (number_value F ds))"
    if ok: "ds = [0x30] \<or> (ds \<noteq> [] \<and> list_all is_digit ds \<and> hd ds \<noteq> 0x30)"
      and d: "drop (j_buf st) src = ds @ post" and f: "follow_ok post"
      and le: "j_dst st + 16 < length (j_mem st)" and fu: "3 * (length src - j_buf st) + 1 \<le> n"
    for n src and st :: jstate and post
  proof -
    obtain k where n: "n = Suc k" using fu by (cases n) auto
    obtain c cs where c: "ds = c # cs" "is_digit c" using ok by (cases ds) (auto simp: is_digit_def)
    have d': "drop (j_buf st) src = c # cs @ post" using d c(1) by simp
    have nw: "\<not> is_whitespace c" and c22: "c \<noteq> 0x22" using c(2) by (auto simp: is_whitespace_def is_digit_def)
    from value_dispatch [OF d' nw, of F k] json_parse_number_text [OF d f ok le]
    show ?thesis using n c(2) c22 by simp
  qed
  then show ?case by (auto simp: parses_def)
next
  case (JObj kvs)
  have "json_parse_value F src n st = done_with st (length (json_text (JObj kvs))) (code F (JObj kvs))"
    if ok: "json_ok (JObj kvs)" and d: "drop (j_buf st) src = json_text (JObj kvs) @ post"
      and le: "j_dst st + length (code F (JObj kvs)) < length (j_mem st)" and fu: "3 * (length src - j_buf st) + 1 \<le> n"
    for n src and st :: jstate and post
  proof -
    obtain k where n: "n = Suc k" "3 * (length src - j_buf st) \<le> k" using fu by (cases n) auto
    have "\<forall>(key, v) \<in> set kvs. string_ok key \<and> parses F v \<and> json_ok v"
      using JObj ok by (fastforce simp: list_all_iff)
    note obj = object_text [OF this d le n(2)]
    obtain rest where d': "drop (j_buf st) src = 0x7B # rest" using d by simp
    have nw: "\<not> is_whitespace 0x7B" by (simp add: is_whitespace_def)
    from value_dispatch [OF d' nw, of F k] obj
    show ?thesis using n by (simp add: is_digit_simps)
  qed
  then show ?case unfolding parses_def by blast
next
  case (JArr vs)
  have "json_parse_value F src n st = done_with st (length (json_text (JArr vs))) (code F (JArr vs))"
    if ok: "json_ok (JArr vs)" and d: "drop (j_buf st) src = json_text (JArr vs) @ post"
      and le: "j_dst st + length (code F (JArr vs)) < length (j_mem st)" and fu: "3 * (length src - j_buf st) + 1 \<le> n"
    for n src and st :: jstate and post
  proof -
    obtain k where n: "n = Suc k" "3 * (length src - j_buf st) \<le> k" using fu by (cases n) auto
    have "\<forall>v \<in> set vs. parses F v \<and> json_ok v" using JArr ok by (simp add: list_all_iff)
    note arr = array_text [OF this d le n(2)]
    obtain rest where d': "drop (j_buf st) src = 0x5B # rest" using d by simp
    have nw: "\<not> is_whitespace 0x5B" by (simp add: is_whitespace_def)
    from value_dispatch [OF d' nw, of F k] arr
    show ?thesis using n by (simp add: is_digit_simps)
  qed
  then show ?case unfolding parses_def by blast
next
  case (JBool b)
  have "json_parse_value F src n st = done_with st (length (if b then kw_true else kw_false))
      (hdr Boolean 8 @ le_bytes 8 (if b then 1 else 0 :: u64))"
    if d: "drop (j_buf st) src = (if b then kw_true else kw_false) @ post"
      and le: "j_dst st + 16 < length (j_mem st)" and fu: "3 * (length src - j_buf st) + 1 \<le> n"
    for n src and st :: jstate and post
  proof -
    obtain k where n: "n = Suc k" using fu by (cases n) auto
    obtain rest where d': "drop (j_buf st) src = (if b then 0x74 else 0x66) # rest"
      using d by (cases b) (simp_all add: kw_true_def kw_false_def)
    have nw: "\<not> is_whitespace (if b then 0x74 else 0x66)" by (simp add: is_whitespace_def)
    from value_dispatch [OF d' nw, of F k] json_parse_boolean_text [OF d le]
    show ?thesis using n by (cases b) (simp_all add: is_digit_simps)
  qed
  then show ?case by (simp add: parses_def)
next
  case JNull
  have "json_parse_value F src n st = done_with st (length kw_null) (hdr Null 0)"
    if d: "drop (j_buf st) src = kw_null @ post"
      and le: "j_dst st + 8 < length (j_mem st)" and fu: "3 * (length src - j_buf st) + 1 \<le> n"
    for n src and st :: jstate and post
  proof -
    obtain k where n: "n = Suc k" using fu by (cases n) auto
    obtain rest where d': "drop (j_buf st) src = 0x6E # rest" using d by (simp add: kw_null_def)
    have nw: "\<not> is_whitespace 0x6E" by (simp add: is_whitespace_def)
    from value_dispatch [OF d' nw, of F k] json_parse_null_text [OF d le]
    show ?thesis using n by (simp add: is_digit_simps)
  qed
  then show ?case by (simp add: parses_def)
qed

section \<open>The entry point\<close>

lemma json_parse_text:
  assumes "json_ok v" and "length (code F v) < length dst"
  shows "json_parse F (json_text v) dst = Some (NoError, length (json_text v), put (code F v) dst 0)"
  using parsesD [OF parses_value assms(1), of "\<lparr>j_buf = 0, j_dst = 0, j_mem = dst\<rparr>" "json_text v" "[]" F
      "3 * length (json_text v) + 3"] assms(2)
  by (simp add: json_parse_def done_with_def follow_ok_def)


definition sample_json :: json where
  "sample_json = JObj [([0x6B], JArr [JStr [0x0A, 0x61], JBool True, JNull]), ([], JNum [0x30])]"


text \<open>Places where the parser and JSON differ. A minus sign without a digit is a number; the first
  character of an object's key is not looked at, so \<open>{x":1}\<close> is an object; a byte of a
  multi-byte character is refused although the escape of the same character is accepted; and the
  second escape of a string starts from the first one's code point, so it is refused.\<close>

theorem json_parse_deviations:
  "map_option fst (json_parse F [0x2D, 0x20] (replicate 24 0)) = Some NoError
   \<and> map_option fst (json_parse F [0x7B, 0x78, 0x22, 0x3A, 0x31, 0x7D] (replicate 40 0)) = Some NoError
   \<and> map_option fst (json_parse F [0x22, 0xC3, 0xA9, 0x22] (replicate 24 0)) = Some StringBadChar
   \<and> map_option fst (json_parse F [0x22, 0x5C, 0x75, 0x30, 0x30, 0x65, 0x39, 0x22] (replicate 24 0)) = Some NoError
   \<and> map_option fst (json_parse F ([0x22] @ [0x5C, 0x75, 0x30, 0x30, 0x65, 0x39] @ [0x5C, 0x75, 0x30, 0x30, 0x65, 0x39] @ [0x22])
       (replicate 24 0)) = Some StringBadUnicode"
  by code_simp

end
