(* ===== verification/Source.thy ===== *)
theory Source
  imports Prelude
begin

text \<open>
  Sources and positions in them (\<^verbatim>\<open>ser/source.h\<close>, \<^verbatim>\<open>ser/source.c\<close>). A source is its memory, the
  bytes allocated at \<open>str\<close>, and its length. A \<open>const char *\<close> into a source is the bytes from there
  to the end of that memory, which never changes; a \<open>StringSlice\<close> is the bytes it covers.
\<close>

type_synonym StringSlice = "byte list"

record Location =
  line :: u32
  column :: u32
  offset :: u32

record Span =
  loc :: Location
  s_len :: u32

record SpannedStringSlice =
  slice :: StringSlice
  ss_span :: Span

record Source =
  str :: "byte list"
  path :: "byte list option"
  src_len :: nat

definition location :: "u32 \<Rightarrow> u32 \<Rightarrow> u32 \<Rightarrow> Location" where
  "location l c off = \<lparr>line = l, column = c, offset = off\<rparr>"

definition span_from_to :: "Location \<Rightarrow> Location \<Rightarrow> Span" where
  "span_from_to from to = \<lparr>loc = from, s_len = offset to - offset from\<rparr>"

text \<open>\<open>strncpy\<close> stops at a NUL of the string and fills up with zeros.\<close>

fun strncpy :: "nat \<Rightarrow> byte list \<Rightarrow> byte list" where
  "strncpy 0 s = []"
| "strncpy (Suc n) [] = 0 # strncpy n []"
| "strncpy (Suc n) (c # s) = (if c = 0 then replicate (Suc n) 0 else c # strncpy n s)"

definition source_init :: "byte list \<Rightarrow> nat \<Rightarrow> Source" where
  "source_init s len = \<lparr>str = strncpy len s @ [0], path = None, src_len = len\<rparr>"

text \<open>
  Reading a file: its bytes, and one more byte allocated and never written, whose value
  \<open>junk\<close> is whatever the memory held. The error is a read that falls short.
\<close>

datatype SourceError = SourceErrorNoError | SourceErrorReadFailed | SourceErrorOpenFailed

definition source_from_file :: "byte list \<Rightarrow> nat \<Rightarrow> byte \<Rightarrow> SourceError \<times> Source option" where
  "source_from_file read len junk =
    (if length read \<noteq> len then (SourceErrorReadFailed, None)
     else (SourceErrorNoError, Some \<lparr>str = read @ [junk], path = None, src_len = len\<rparr>))"

text \<open>\<open>file\<close> is \<^const>\<open>None\<close> where \<open>fopen\<close> fails.\<close>

definition source_open :: "byte list \<Rightarrow> (byte list \<times> nat) option \<Rightarrow> byte \<Rightarrow> SourceError \<times> Source option" where
  "source_open p file junk = (case file of
     None \<Rightarrow> (SourceErrorOpenFailed, None)
   | Some (read, len) \<Rightarrow> (case source_from_file read len junk of
       (SourceErrorNoError, Some src) \<Rightarrow> (SourceErrorNoError, Some (src\<lparr>path := Some p\<rparr>))
     | (err, src) \<Rightarrow> (err, src)))"

text \<open>The differences of unsigned numbers, read as an \<open>int\<close>.\<close>

definition span_compare :: "Span \<Rightarrow> Span \<Rightarrow> int" where
  "span_compare a b =
    (let l = sint (line (loc a) - line (loc b)) in
     if l \<noteq> 0 then l
     else let c = sint (column (loc b) - column (loc a)) in
       if c \<noteq> 0 then c else sint (s_len a - s_len b))"

definition sss_hash :: "(byte list \<Rightarrow> u32) \<Rightarrow> SpannedStringSlice \<Rightarrow> u32" where
  "sss_hash hf s = hf (slice s)"

end
