(* ===== verification/Lexer.thy ===== *)
theory Lexer
  imports Source
begin

text \<open>
  The lexer of the schema compiler (\<^verbatim>\<open>ser/lexer.h\<close>, \<^verbatim>\<open>ser/lexer.c\<close>). \<open>start\<close> and \<open>current\<close> are
  natural numbers: a source is shorter than \<open>2 ^ 32\<close>. \<^const>\<open>None\<close> is a read past the
  memory of the source.
\<close>

section \<open>Tokens\<close>

datatype TokenType =
  LeftParen | RightParen | LeftBrace | RightBrace | LeftBracket | RightBracket | Comma | Semicolon
| Ampersand | Caret | Colon | Equal | Hash | Ident | Number | Messages | Struct | Version | Const
| Type | Eof

text \<open>The value of the enumerator, a bit of a mask.\<close>

fun bits_of :: "TokenType \<Rightarrow> u32" where
  "bits_of LeftParen = push_bit 0 1"
| "bits_of RightParen = push_bit 1 1"
| "bits_of LeftBrace = push_bit 2 1"
| "bits_of RightBrace = push_bit 3 1"
| "bits_of LeftBracket = push_bit 4 1"
| "bits_of RightBracket = push_bit 5 1"
| "bits_of Comma = push_bit 6 1"
| "bits_of Semicolon = push_bit 7 1"
| "bits_of Ampersand = push_bit 8 1"
| "bits_of Caret = push_bit 9 1"
| "bits_of Colon = push_bit 10 1"
| "bits_of Equal = push_bit 11 1"
| "bits_of Hash = push_bit 12 1"
| "bits_of Ident = push_bit 13 1"
| "bits_of Number = push_bit 14 1"
| "bits_of Messages = push_bit 15 1"
| "bits_of Struct = push_bit 16 1"
| "bits_of Version = push_bit 17 1"
| "bits_of Const = push_bit 18 1"
| "bits_of Type = push_bit 19 1"
| "bits_of Eof = push_bit 20 1"

record Token =
  t_type :: TokenType
  span :: Span
  lexeme :: "byte list"
  lit :: u64

text \<open>The text of a token: its lexeme is a pointer into the source, its span has the length.\<close>

definition token_text :: "Token \<Rightarrow> StringSlice" where
  "token_text t = take (unat (s_len (span t))) (lexeme t)"

lemma token_text_make [simp]:
  "token_text \<lparr>t_type = ty, span = \<lparr>loc = l, s_len = n\<rparr>, lexeme = s, lit = v\<rparr> = take (unat n) s"
  by (simp add: token_text_def)

datatype LexingErrorType = LexingErrorUnexpectedCharacter | LexingErrorNumberLiteralOverflow

record LexingError =
  le_span :: Span
  le_type :: LexingErrorType

record LexingResult =
  lr_tokens :: "Token list"
  lr_errors :: "LexingError list"

record Lexer =
  start :: nat
  current :: nat
  src :: Source
  l_loc :: Location
  start_loc :: Location
  tokens :: "Token list"
  errors :: "LexingError list"

definition token :: "TokenType \<Rightarrow> byte list \<Rightarrow> u32 \<Rightarrow> u64 \<Rightarrow> Location \<Rightarrow> Token" where
  "token ty lx len lt l = \<lparr>t_type = ty, span = \<lparr>loc = l, s_len = len\<rparr>, lexeme = lx, lit = lt\<rparr>"

definition lexing_error :: "LexingErrorType \<Rightarrow> Location \<Rightarrow> u32 \<Rightarrow> LexingError" where
  "lexing_error ty l len = \<lparr>le_span = \<lparr>loc = l, s_len = len\<rparr>, le_type = ty\<rparr>"

section \<open>Moving over the source\<close>

definition lexer_init :: "Source \<Rightarrow> Lexer" where
  "lexer_init s = \<lparr>start = 0, current = 0, src = s, l_loc = location 1 0 0, start_loc = location 1 1 0,
     tokens = [], errors = []\<rparr>"

definition lexer_add_token :: "Lexer \<Rightarrow> TokenType \<Rightarrow> u32 \<Rightarrow> u64 \<Rightarrow> Lexer" where
  "lexer_add_token lx ty len lt =
     lx\<lparr>tokens := tokens lx @ [token ty (drop (start lx) (str (src lx))) len lt (start_loc lx)]\<rparr>"

definition lexer_add_error :: "Lexer \<Rightarrow> LexingErrorType \<Rightarrow> u32 \<Rightarrow> Lexer" where
  "lexer_add_error lx ty len = lx\<lparr>errors := errors lx @ [lexing_error ty (start_loc lx) len]\<rparr>"

definition lexer_peek :: "Lexer \<Rightarrow> byte option" where
  "lexer_peek lx = (if current lx < length (str (src lx)) then Some (str (src lx) ! current lx) else None)"

text \<open>The move itself, once the character has been read.\<close>

definition step_over :: "byte \<Rightarrow> Lexer \<Rightarrow> Lexer" where
  "step_over c lx =
    (let l = (l_loc lx)\<lparr>offset := of_nat (current lx + 1), column := column (l_loc lx) + 1\<rparr> in
     lx\<lparr>current := current lx + 1,
       l_loc := (if c = 0x0A then l\<lparr>line := line l + 1, column := 0\<rparr> else l)\<rparr>)"

definition lexer_advance :: "Lexer \<Rightarrow> (byte \<times> Lexer) option" where
  "lexer_advance lx = do { c \<leftarrow> lexer_peek lx; Some (c, step_over c lx) }"

definition lexer_match :: "Lexer \<Rightarrow> byte \<Rightarrow> (bool \<times> Lexer) option" where
  "lexer_match lx exp =
    (if current lx \<ge> src_len (src lx) then Some (False, lx)
     else do {
       c \<leftarrow> lexer_peek lx;
       if c \<noteq> exp then Some (False, lx)
       else do { (_, lx) \<leftarrow> lexer_advance lx; Some (True, lx) }
     })"

definition lexer_match_not :: "Lexer \<Rightarrow> byte \<Rightarrow> (bool \<times> Lexer) option" where
  "lexer_match_not lx unexp =
    (if current lx \<ge> src_len (src lx) then Some (False, lx)
     else do {
       c \<leftarrow> lexer_peek lx;
       if c = unexp then Some (False, lx)
       else do { (_, lx) \<leftarrow> lexer_advance lx; Some (True, lx) }
     })"

definition is_digit :: "byte \<Rightarrow> bool" where "is_digit c \<longleftrightarrow> c \<ge> 0x30 \<and> c \<le> 0x39"
definition to_digit :: "byte \<Rightarrow> u64" where "to_digit c = ucast c - 0x30"
definition is_ident_start :: "byte \<Rightarrow> bool" where
  "is_ident_start c \<longleftrightarrow> (c \<ge> 0x61 \<and> c \<le> 0x7A) \<or> (c \<ge> 0x41 \<and> c \<le> 0x5A)"
definition is_ident :: "byte \<Rightarrow> bool" where
  "is_ident c \<longleftrightarrow> is_ident_start c \<or> is_digit c \<or> c = 0x5F"

section \<open>Numbers and words\<close>

lemma step_over_simps [simp]:
  "current (step_over c lx) = Suc (current lx)" "src (step_over c lx) = src lx"
  "start (step_over c lx) = start lx" "start_loc (step_over c lx) = start_loc lx"
  "tokens (step_over c lx) = tokens lx" "errors (step_over c lx) = errors lx"
  by (simp_all add: step_over_def Let_def)

function number_loop :: "Lexer \<Rightarrow> u64 \<Rightarrow> u32 \<Rightarrow> bool \<Rightarrow> (Lexer \<times> u64 \<times> u32 \<times> bool) option" where
  "number_loop lx lt len overflow = (case lexer_peek lx of
     None \<Rightarrow> None
   | Some c \<Rightarrow>
       if is_digit c then
         (let nlit = lt * 10 + to_digit c in
          number_loop (step_over c lx) nlit (len + 1) (overflow \<or> nlit < lt))
       else Some (lx, lt, len, overflow))"
  by pat_completeness auto
termination
  by (relation "measure (\<lambda>(lx, _). length (str (src lx)) - current lx)")
    (auto simp: lexer_peek_def split: if_splits)

definition lexer_scan_number :: "Lexer \<Rightarrow> Lexer option" where
  "lexer_scan_number lx = do {
     (lx, lt, len, overflow) \<leftarrow> number_loop lx (to_digit (str (src lx) ! start lx)) 1 False;
     let lx = (if overflow then lexer_add_error lx LexingErrorNumberLiteralOverflow len else lx);
     Some (lexer_add_token lx Number len lt)
   }"

function ident_loop :: "Lexer \<Rightarrow> u32 \<Rightarrow> (Lexer \<times> u32) option" where
  "ident_loop lx len = (case lexer_peek lx of
     None \<Rightarrow> None
   | Some c \<Rightarrow> if is_ident c then ident_loop (step_over c lx) (len + 1) else Some (lx, len))"
  by pat_completeness auto
termination
  by (relation "measure (\<lambda>(lx, _). length (str (src lx)) - current lx)")
    (auto simp: lexer_peek_def split: if_splits)

text \<open>
  The keywords. \<open>strncmp\<close> over the longer of the two lengths tells a word from one that
  starts with it: it meets the NUL of the keyword, or a character that is not the word's.
\<close>

definition kw_messages :: "byte list" where "kw_messages = [0x6D, 0x65, 0x73, 0x73, 0x61, 0x67, 0x65, 0x73]"
definition kw_struct :: "byte list" where "kw_struct = [0x73, 0x74, 0x72, 0x75, 0x63, 0x74]"
definition kw_version :: "byte list" where "kw_version = [0x76, 0x65, 0x72, 0x73, 0x69, 0x6F, 0x6E]"
definition kw_const :: "byte list" where "kw_const = [0x63, 0x6F, 0x6E, 0x73, 0x74]"
definition kw_type :: "byte list" where "kw_type = [0x74, 0x79, 0x70, 0x65]"

text \<open>\<open>strncmp(a, b, n) == 0\<close>; \<open>None\<close> is a read past the memory of either.\<close>

fun strncmp_eq :: "byte list \<Rightarrow> byte list \<Rightarrow> nat \<Rightarrow> bool option" where
  "strncmp_eq a b 0 = Some True"
| "strncmp_eq (x # a) (y # b) (Suc n) =
    (if x \<noteq> y then Some False else if x = 0 then Some True else strncmp_eq a b n)"
| "strncmp_eq _ _ (Suc n) = None"

fun find_keyword :: "(TokenType \<times> byte list) list \<Rightarrow> byte list \<Rightarrow> u32 \<Rightarrow> TokenType option" where
  "find_keyword [] s len = Some Ident"
| "find_keyword ((ty, kw) # kws) s len = do {
     eq \<leftarrow> strncmp_eq (kw @ [0]) s (max (length kw) (unat len));
     if eq then Some ty else find_keyword kws s len
   }"

definition keyword_table :: "(TokenType \<times> byte list) list" where
  "keyword_table = [(Messages, kw_messages), (Struct, kw_struct), (Version, kw_version), (Const, kw_const), (Type, kw_type)]"

definition lexer_scan_ident :: "Lexer \<Rightarrow> Lexer option" where
  "lexer_scan_ident lx = do {
     (lx, len) \<leftarrow> ident_loop lx 1;
     ty \<leftarrow> find_keyword keyword_table (drop (start lx) (str (src lx))) len;
     Some (lexer_add_token lx ty len 0)
   }"

section \<open>Scanning\<close>

function skip_line :: "Lexer \<Rightarrow> Lexer option" where
  "skip_line lx = (case lexer_match_not lx 0x0A of
     None \<Rightarrow> None
   | Some (b, lx') \<Rightarrow> if b then skip_line lx' else Some lx')"
  by pat_completeness auto
termination
  by (relation "measure (\<lambda>lx. length (str (src lx)) - current lx)")
    (auto simp: lexer_match_not_def lexer_advance_def lexer_peek_def split: if_splits bind_splits)

text \<open>The case of \<^verbatim>\<open>'/'\<close>.\<close>

definition scan_slash :: "Lexer \<Rightarrow> Lexer option" where
  "scan_slash lx = do {
     (b, lx) \<leftarrow> lexer_match lx 0x2F;
     if b then skip_line lx else Some lx
   }"

text \<open>An unexpected character joins the last error when it follows it on the same line.\<close>

definition unexpected :: "Lexer \<Rightarrow> Lexer" where
  "unexpected lx =
    (if errors lx \<noteq> [] \<and> line (loc (le_span (last (errors lx)))) = line (l_loc lx)
        \<and> le_type (last (errors lx)) = LexingErrorUnexpectedCharacter
        \<and> column (loc (le_span (last (errors lx)))) + s_len (le_span (last (errors lx))) = column (start_loc lx)
     then lx\<lparr>errors := butlast (errors lx) @
       [(last (errors lx))\<lparr>le_span := (le_span (last (errors lx)))\<lparr>s_len := s_len (le_span (last (errors lx))) + 1\<rparr>\<rparr>]\<rparr>
     else lexer_add_error lx LexingErrorUnexpectedCharacter 1)"

text \<open>The characters that are a token by themselves; the case of \<^verbatim>\<open>'#'\<close> falls through to the next.\<close>

definition punctuation :: "byte \<Rightarrow> TokenType option" where
  "punctuation c =
    (if c = 0x28 then Some LeftParen else if c = 0x29 then Some RightParen
     else if c = 0x7B then Some LeftBrace else if c = 0x7D then Some RightBrace
     else if c = 0x5B then Some LeftBracket else if c = 0x5D then Some RightBracket
     else if c = 0x2C then Some Comma else if c = 0x3B then Some Semicolon
     else if c = 0x26 then Some Ampersand else if c = 0x5E then Some Caret
     else if c = 0x3A then Some Colon else if c = 0x3D then Some Equal
     else if c = 0x23 then Some Hash else None)"

definition lexer_scan :: "Lexer \<Rightarrow> Lexer option" where
  "lexer_scan lx = do {
     (c, lx) \<leftarrow> lexer_advance lx;
     case punctuation c of
       Some ty \<Rightarrow> (let lx = lexer_add_token lx ty 1 0 in if ty = Hash then scan_slash lx else Some lx)
     | None \<Rightarrow>
         if c = 0x2F then scan_slash lx
         else if c = 0x20 \<or> c = 0x09 \<or> c = 0x0A \<or> c = 0x0D then Some lx
         else if is_digit c then lexer_scan_number lx
         else if is_ident_start c then lexer_scan_ident lx
         else Some (unexpected lx)
   }"

text \<open>Every step keeps the source and moves forward.\<close>

definition ahead :: "Lexer \<Rightarrow> Lexer \<Rightarrow> bool" where
  "ahead lx lx' \<longleftrightarrow> src lx' = src lx \<and> current lx \<le> current lx'"

lemma ahead_refl [simp]: "ahead lx lx"
  by (simp add: ahead_def)

lemma ahead_trans [trans]: "ahead a b \<Longrightarrow> ahead b c \<Longrightarrow> ahead a c"
  by (simp add: ahead_def)

lemma ahead_simps [simp]:
  "ahead lx (lexer_add_token lx' ty len lt) = ahead lx lx'" "ahead lx (lexer_add_error lx' e len) = ahead lx lx'"
  "ahead lx (lx'\<lparr>errors := es\<rparr>) = ahead lx lx'"
  by (simp_all add: ahead_def lexer_add_token_def lexer_add_error_def)

lemma ahead_step_over: "ahead lx lx' \<Longrightarrow> ahead lx (step_over c lx')"
  by (simp add: ahead_def)

lemma lexer_advance_Some: "lexer_advance lx = Some (c, lx') \<Longrightarrow> lx' = step_over c lx"
  by (auto simp: lexer_advance_def split: bind_splits)

lemma lexer_match_ahead: "lexer_match lx c = Some (b, lx') \<Longrightarrow> ahead lx lx'"
  by (auto simp: lexer_match_def ahead_step_over split: if_splits bind_splits dest!: lexer_advance_Some)

lemma lexer_match_not_ahead: "lexer_match_not lx c = Some (b, lx') \<Longrightarrow> ahead lx lx'"
  by (auto simp: lexer_match_not_def ahead_step_over split: if_splits bind_splits dest!: lexer_advance_Some)

declare number_loop.simps [simp del] ident_loop.simps [simp del] skip_line.simps [simp del]

lemma number_loop_ahead: "number_loop lx lt len ov = Some (lx', r) \<Longrightarrow> ahead lx lx'"
proof (induction lx lt len ov arbitrary: lx' r rule: number_loop.induct)
  case (1 lx lt len ov)
  note eq = 1(2) [unfolded number_loop.simps [of lx lt len ov]]
  then obtain c where c: "lexer_peek lx = Some c" by (auto split: option.splits)
  show ?case
  proof (cases "is_digit c")
    case True
    then have "ahead (step_over c lx) lx'"
      using 1(1) [OF c True refl] eq c by (simp add: Let_def)
    then show ?thesis by (simp add: ahead_def)
  next
    case False
    then show ?thesis using eq c by simp
  qed
qed

lemma ident_loop_ahead: "ident_loop lx len = Some (lx', r) \<Longrightarrow> ahead lx lx'"
proof (induction lx len arbitrary: lx' r rule: ident_loop.induct)
  case (1 lx len)
  note eq = 1(2) [unfolded ident_loop.simps [of lx len]]
  then obtain c where c: "lexer_peek lx = Some c" by (auto split: option.splits)
  show ?case
  proof (cases "is_ident c")
    case True
    then have "ahead (step_over c lx) lx'"
      using 1(1) [OF c True] eq c by simp
    then show ?thesis by (simp add: ahead_def)
  next
    case False
    then show ?thesis using eq c by simp
  qed
qed

lemma skip_line_ahead: "skip_line lx = Some lx' \<Longrightarrow> ahead lx lx'"
proof (induction lx arbitrary: lx' rule: skip_line.induct)
  case (1 lx)
  obtain b l where m: "lexer_match_not lx 0x0A = Some (b, l)"
    using 1(2) by (subst (asm) skip_line.simps) (auto split: option.splits)
  then have "if b then skip_line l = Some lx' else lx' = l"
    using 1(2) by (subst (asm) skip_line.simps) (auto split: if_splits)
  then have "ahead l lx'" using 1(1) [OF m] by (auto split: if_splits)
  then show ?case using lexer_match_not_ahead [OF m] ahead_trans by blast
qed

lemma scan_slash_ahead: "scan_slash lx = Some lx' \<Longrightarrow> ahead lx lx'"
  unfolding scan_slash_def
  by (fastforce split: bind_splits if_splits prod.splits
      dest: lexer_match_ahead skip_line_ahead intro: ahead_trans)

lemma lexer_scan_progress:
  assumes "lexer_scan lx = Some lx'"
  shows "ahead (lx\<lparr>current := Suc (current lx)\<rparr>) lx'"
proof -
  obtain c where c: "lexer_advance lx = Some (c, step_over c lx)"
    using assms by (auto simp: lexer_scan_def lexer_advance_def split: bind_splits)
  note d = scan_slash_ahead number_loop_ahead ident_loop_ahead
  have "ahead (step_over c lx) lx'"
  proof (cases "punctuation c")
    case None
    then show ?thesis
      using assms c
      by (auto simp: lexer_scan_def lexer_scan_number_def lexer_scan_ident_def unexpected_def Let_def
          split: if_splits bind_splits dest!: d)
  next
    case (Some ty)
    then have "if ty = Hash then scan_slash (lexer_add_token (step_over c lx) ty 1 0) = Some lx'
        else lx' = lexer_add_token (step_over c lx) ty 1 0"
      using assms c by (auto simp: lexer_scan_def Let_def split: if_splits)
    then show ?thesis
      by (auto split: if_splits dest!: scan_slash_ahead simp: ahead_def lexer_add_token_def)
  qed
  then show ?thesis by (simp add: ahead_def)
qed

function lexer_loop :: "Lexer \<Rightarrow> Lexer option" where
  "lexer_loop lx =
    (if current lx < src_len (src lx) then
       (case lexer_scan (lx\<lparr>start := current lx, start_loc := l_loc lx\<rparr>) of
          None \<Rightarrow> None
        | Some lx' \<Rightarrow> lexer_loop lx')
     else Some lx)"
  by pat_completeness auto
termination
  by (relation "measure (\<lambda>lx. src_len (src lx) - current lx)") (auto dest!: lexer_scan_progress simp: ahead_def)

definition lexer_lex :: "Lexer \<Rightarrow> Lexer option" where
  "lexer_lex lx = do {
     lx \<leftarrow> lexer_loop lx;
     Some (lexer_add_token (lx\<lparr>start := current lx, start_loc := l_loc lx\<rparr>) Eof 0 0)
   }"

definition lexer_finish :: "Lexer \<Rightarrow> LexingResult" where
  "lexer_finish lx = \<lparr>lr_tokens = tokens lx, lr_errors = errors lx\<rparr>"

definition lex_source :: "Source \<Rightarrow> LexingResult option" where
  "lex_source s = do { lx \<leftarrow> lexer_lex (lexer_init s); Some (lexer_finish lx) }"

end
