(* ===== verification/Lexer_Correct.thy ===== *)
theory Lexer_Correct
  imports Lexer
begin

text \<open>
  What the lexer computes: the tokens of a text made of words, numbers and punctuation, in any
  layout with blanks and comments; and, for every source that ends with its NUL, that it reads
  no byte past the source and where the spans of its tokens lie.
\<close>

section \<open>Moving over a string\<close>

definition over :: "byte list \<Rightarrow> Lexer \<Rightarrow> Lexer" where
  "over cs lx = fold step_over cs lx"

lemma over_simps [simp]:
  "over [] lx = lx" "over (c # cs) lx = over cs (step_over c lx)"
  by (simp_all add: over_def)

lemma over_sel [simp]:
  "current (over cs lx) = current lx + length cs" "src (over cs lx) = src lx"
  "start (over cs lx) = start lx" "start_loc (over cs lx) = start_loc lx"
  "tokens (over cs lx) = tokens lx" "errors (over cs lx) = errors lx"
  by (induction cs arbitrary: lx) auto

text \<open>The text at the current position.\<close>

definition ahead_text :: "Lexer \<Rightarrow> byte list" where
  "ahead_text lx = drop (current lx) (str (src lx))"

lemma ahead_text_over: "ahead_text lx = cs @ rest \<Longrightarrow> ahead_text (over cs lx) = rest"
  by (metis ahead_text_def append_eq_conv_conj drop_drop over_sel(1,2) add.commute)

lemma ahead_text_step: "ahead_text lx = c # rest \<Longrightarrow> ahead_text (step_over c lx) = rest"
  using ahead_text_over [of lx "[c]" rest] by simp

lemma lexer_peek_text: "ahead_text lx = c # rest \<Longrightarrow> lexer_peek lx = Some c"
  by (metis ahead_text_def drop_eq_Nil hd_drop_conv_nth lexer_peek_def linorder_not_less list.distinct(1) list.sel(1))

lemma ahead_text_start [simp]:
  "ahead_text (lx\<lparr>start := s, start_loc := l\<rparr>) = ahead_text lx"
  "ahead_text (lexer_add_token lx ty n v) = ahead_text lx"
  by (simp_all add: ahead_text_def lexer_add_token_def)

section \<open>Numbers\<close>

definition num_val :: "u64 \<Rightarrow> byte list \<Rightarrow> u64" where
  "num_val lt ds = foldl (\<lambda>lt c. lt * 10 + to_digit c) lt ds"

definition digits_nat :: "nat \<Rightarrow> byte list \<Rightarrow> nat" where
  "digits_nat n ds = foldl (\<lambda>n c. n * 10 + unat (to_digit c)) n ds"

lemma digits_nat_ge: "n \<le> digits_nat n ds"
  unfolding digits_nat_def
proof (induction ds arbitrary: n)
  case (Cons c ds)
  have "n \<le> n * 10 + unat (to_digit c)" by simp
  also have "\<dots> \<le> foldl (\<lambda>n c. n * 10 + unat (to_digit c)) (n * 10 + unat (to_digit c)) ds"
    by (rule Cons.IH)
  finally show ?case by simp
qed simp

lemma digit_step:
  assumes "unat lt * 10 + unat (to_digit c) < 2 ^ 64"
  shows "unat (lt * 10 + to_digit c) = unat lt * 10 + unat (to_digit c)" and "\<not> lt * 10 + to_digit c < lt"
proof -
  show u: "unat (lt * 10 + to_digit c) = unat lt * 10 + unat (to_digit c)"
    using assms by (simp add: unat_add_lem [THEN iffD1] unat_mult_lem [THEN iffD1])
  then show "\<not> lt * 10 + to_digit c < lt" by (simp add: word_less_nat_alt)
qed

text \<open>A number that fits is read without an error, and read right.\<close>

lemma number_loop_text:
  assumes "ahead_text lx = ds @ c # rest" and "list_all is_digit ds" and "\<not> is_digit c"
    and "digits_nat (unat lt) ds < 2 ^ 64"
  shows "number_loop lx lt len ov = Some (over ds lx, num_val lt ds, len + of_nat (length ds), ov)"
  using assms
proof (induction ds arbitrary: lx lt len)
  case Nil
  then show ?case
    using lexer_peek_text [of lx c rest] by (subst number_loop.simps) (simp add: num_val_def)
next
  case (Cons d ds)
  have le: "unat lt * 10 + unat (to_digit d) < 2 ^ 64"
    using Cons.prems(4) digits_nat_ge [of "unat lt * 10 + unat (to_digit d)" ds]
    by (simp add: digits_nat_def)
  note step = digit_step [OF le]
  have p: "lexer_peek lx = Some d" using Cons.prems(1) by (simp add: lexer_peek_text)
  have "number_loop (step_over d lx) (lt * 10 + to_digit d) (len + 1) ov
      = Some (over ds (step_over d lx), num_val (lt * 10 + to_digit d) ds, len + 1 + of_nat (length ds), ov)"
  proof (rule Cons.IH)
    show "ahead_text (step_over d lx) = ds @ c # rest"
      using ahead_text_step [of lx d] Cons.prems(1) by simp
    show "digits_nat (unat (lt * 10 + to_digit d)) ds < 2 ^ 64"
      unfolding step(1) using Cons.prems(4) by (simp add: digits_nat_def)
  qed (use Cons.prems in simp_all)
  then show ?case
    using p step(2) Cons.prems(2)
    by (subst number_loop.simps) (simp add: Let_def num_val_def algebra_simps)
qed

section \<open>Words\<close>

lemma ident_loop_text:
  assumes "ahead_text lx = w @ c # rest" and "list_all is_ident w" and "\<not> is_ident c"
  shows "ident_loop lx len = Some (over w lx, len + of_nat (length w))"
  using assms
proof (induction w arbitrary: lx len)
  case Nil
  then show ?case using lexer_peek_text [of lx c rest] by (subst ident_loop.simps) simp
next
  case (Cons d w)
  have p: "lexer_peek lx = Some d" using Cons.prems(1) by (simp add: lexer_peek_text)
  have "ident_loop (step_over d lx) (len + 1) = Some (over w (step_over d lx), len + 1 + of_nat (length w))"
    using Cons.IH [of "step_over d lx" "len + 1"] ahead_text_step [of lx d] Cons.prems by simp
  then show ?case
    using p Cons.prems(2) by (subst ident_loop.simps) (simp add: algebra_simps)
qed

lemma not_ident_0: "\<not> is_ident 0"
  by (simp add: is_ident_def is_ident_start_def is_digit_def)

lemma strncmp_word:
  assumes "list_all is_ident kw" and "list_all is_ident w" and "\<not> is_ident c"
  shows "strncmp_eq (kw @ [0]) (w @ c # rest) (max (length kw) (length w)) = Some (w = kw)"
  using assms(1,2)
proof (induction kw arbitrary: w)
  case Nil
  then show ?case using not_ident_0 by (cases w) auto
next
  case (Cons k kw)
  show ?case
  proof (cases w)
    case Nil
    then show ?thesis using Cons.prems assms(3) by auto
  next
    case (Cons d w')
    have "strncmp_eq (kw @ [0]) (w' @ c # rest) (max (length kw) (length w')) = Some (w' = kw)"
      using Cons.IH [of w'] Cons.prems Cons by simp
    then show ?thesis using Cons Cons.prems not_ident_0 by auto
  qed
qed

definition word_type :: "byte list \<Rightarrow> TokenType" where
  "word_type w = (case find (\<lambda>(ty, kw). w = kw) keyword_table of None \<Rightarrow> Ident | Some (ty, _) \<Rightarrow> ty)"

lemma find_keyword_word:
  assumes "list_all (\<lambda>(ty, kw). list_all is_ident kw) kws" and "list_all is_ident w" and "\<not> is_ident c"
    and "length w < 2 ^ 32"
  shows "find_keyword kws (w @ c # rest) (of_nat (length w))
    = Some (case find (\<lambda>(ty, kw). w = kw) kws of None \<Rightarrow> Ident | Some (ty, _) \<Rightarrow> ty)"
  using assms(1)
proof (induction kws)
  case (Cons x kws)
  obtain ty kw where x: "x = (ty, kw)" by fastforce
  have "unat (of_nat (length w) :: u32) = length w" using assms(4) by (simp add: unat_of_nat take_bit_nat_eq_self)
  then show ?case
    using Cons x strncmp_word [of kw w c rest] assms(2,3) by simp
qed simp

lemma keyword_table_ident: "list_all (\<lambda>(ty, kw). list_all is_ident kw) keyword_table"
  by (simp add: keyword_table_def kw_messages_def kw_struct_def kw_version_def kw_const_def kw_type_def
      is_ident_def is_ident_start_def is_digit_def)

section \<open>One token, one blank\<close>

datatype Lexeme = Word "byte list" | Num "byte list" | Sym TokenType

text \<open>Punctuation, by the character it is written with.\<close>

definition punctuation_table :: "(TokenType \<times> byte) list" where
  "punctuation_table = [(LeftParen, 0x28), (RightParen, 0x29), (LeftBrace, 0x7B), (RightBrace, 0x7D),
     (LeftBracket, 0x5B), (RightBracket, 0x5D), (Comma, 0x2C), (Semicolon, 0x3B), (Ampersand, 0x26),
     (Caret, 0x5E), (Colon, 0x3A), (Equal, 0x3D), (Hash, 0x23)]"

fun lexeme_text :: "Lexeme \<Rightarrow> byte list" where
  "lexeme_text (Word w) = w"
| "lexeme_text (Num ds) = ds"
| "lexeme_text (Sym ty) = (case map_of punctuation_table ty of None \<Rightarrow> [] | Some c \<Rightarrow> [c])"

fun lexeme_type :: "Lexeme \<Rightarrow> TokenType" where
  "lexeme_type (Word w) = word_type w"
| "lexeme_type (Num ds) = Number"
| "lexeme_type (Sym ty) = ty"

fun lexeme_lit :: "Lexeme \<Rightarrow> u64" where
  "lexeme_lit (Num ds) = of_nat (digits_nat 0 ds)"
| "lexeme_lit _ = 0"

fun lexeme_ok :: "Lexeme \<Rightarrow> bool" where
  "lexeme_ok (Word w) \<longleftrightarrow> w \<noteq> [] \<and> is_ident_start (hd w) \<and> list_all is_ident w"
| "lexeme_ok (Num ds) \<longleftrightarrow> ds \<noteq> [] \<and> list_all is_digit ds \<and> digits_nat 0 ds < 2 ^ 64"
| "lexeme_ok (Sym ty) \<longleftrightarrow> ty \<in> fst ` set punctuation_table"

text \<open>A character that ends a lexeme: it would not be read as a part of it.\<close>

fun ends :: "Lexeme \<Rightarrow> byte \<Rightarrow> bool" where
  "ends (Word w) c \<longleftrightarrow> \<not> is_ident c"
| "ends (Num ds) c \<longleftrightarrow> \<not> is_digit c"
| "ends (Sym ty) c \<longleftrightarrow> ty = Hash \<longrightarrow> c \<noteq> 0x2F"

text \<open>The state after a lexeme: past its text, with one more token.\<close>

definition after_lexeme :: "Lexeme \<Rightarrow> Lexer \<Rightarrow> Lexer" where
  "after_lexeme l lx = lexer_add_token (over (lexeme_text l) lx) (lexeme_type l)
     (of_nat (length (lexeme_text l))) (lexeme_lit l)"

lemma lexer_advance_text: "ahead_text lx = c # rest \<Longrightarrow> lexer_advance lx = Some (c, step_over c lx)"
  by (simp add: lexer_advance_def lexer_peek_text)

lemma start_char:
  assumes "start lx = current lx" and "ahead_text lx = c # rest"
  shows "str (src lx) ! start lx = c" and "drop (start lx) (str (src lx)) = c # rest"
  using assms by (simp_all add: ahead_text_def)
    (metis drop_eq_Nil hd_drop_conv_nth linorder_not_less list.distinct(1) list.sel(1))

lemma byte_classes:
  "is_digit c \<Longrightarrow> punctuation c = None \<and> c \<notin> {0x2F, 0x20, 0x09, 0x0A, 0x0D} \<and> \<not> is_ident_start c"
  "is_ident_start c \<Longrightarrow> punctuation c = None \<and> c \<notin> {0x2F, 0x20, 0x09, 0x0A, 0x0D} \<and> \<not> is_digit c"
  by (auto simp: is_digit_def is_ident_start_def punctuation_def word_le_nat_alt)

lemma num_val_nat:
  "digits_nat (unat lt) ds < 2 ^ 64 \<Longrightarrow> num_val lt ds = of_nat (digits_nat (unat lt) ds)"
proof (induction ds arbitrary: lt)
  case Nil
  then show ?case by (simp add: num_val_def digits_nat_def)
next
  case (Cons d ds)
  have "unat lt * 10 + unat (to_digit d) < 2 ^ 64"
    using Cons.prems digits_nat_ge [of "unat lt * 10 + unat (to_digit d)" ds] by (simp add: digits_nat_def)
  note step = digit_step(1) [OF this]
  show ?case
    using Cons.IH [of "lt * 10 + to_digit d"] Cons.prems step by (simp add: num_val_def digits_nat_def)
qed

lemma scan_number:
  assumes "start lx = current lx" and "ahead_text lx = ds @ c # rest" and "lexeme_ok (Num ds)" and "\<not> is_digit c"
  shows "lexer_scan lx = Some (after_lexeme (Num ds) lx)"
proof -
  obtain d ds' where ds: "ds = d # ds'" using assms(3) by (cases ds) auto
  have t: "ahead_text lx = d # ds' @ c # rest" using assms(2) ds by simp
  have d: "is_digit d" using assms(3) ds by simp
  have t': "ahead_text (step_over d lx) = ds' @ c # rest" by (rule ahead_text_step [OF t])
  have v: "digits_nat (unat (to_digit d)) ds' < 2 ^ 64" using assms(3) ds by (simp add: digits_nat_def)
  have "number_loop (step_over d lx) (to_digit d) 1 False
      = Some (over ds lx, num_val (to_digit d) ds', 1 + of_nat (length ds'), False)"
    using number_loop_text [OF t' _ assms(4) v] assms(3) ds by simp
  moreover have "num_val (to_digit d) ds' = of_nat (digits_nat 0 ds)"
    using num_val_nat [OF v] ds by (simp add: digits_nat_def)
  ultimately show ?thesis
    using byte_classes(1) [OF d] d lexer_advance_text [OF t] start_char [OF assms(1) t] ds
    by (simp add: lexer_scan_def lexer_scan_number_def after_lexeme_def)
qed

lemma scan_word:
  assumes "start lx = current lx" and "ahead_text lx = w @ c # rest" and "lexeme_ok (Word w)" and "\<not> is_ident c"
    and "length w < 2 ^ 32"
  shows "lexer_scan lx = Some (after_lexeme (Word w) lx)"
proof -
  obtain d w' where w: "w = d # w'" using assms(3) by (cases w) auto
  have t: "ahead_text lx = d # w' @ c # rest" using assms(2) w by simp
  have d: "is_ident_start d" using assms(3) w by simp
  have t': "ahead_text (step_over d lx) = w' @ c # rest" by (rule ahead_text_step [OF t])
  have "ident_loop (step_over d lx) 1 = Some (over w lx, of_nat (length w))"
    using ident_loop_text [OF t' _ assms(4)] assms(3) w by simp
  moreover have "find_keyword keyword_table (w @ c # rest) (of_nat (length w)) = Some (word_type w)"
    using find_keyword_word [OF keyword_table_ident _ assms(4,5)] assms(3) by (simp add: word_type_def)
  ultimately show ?thesis
    using byte_classes(2) [OF d] d lexer_advance_text [OF t] start_char [OF assms(1) t] w
    by (simp add: lexer_scan_def lexer_scan_ident_def after_lexeme_def)
qed

lemma punctuation_table_inverse:
  "map_of punctuation_table ty = Some c \<Longrightarrow> punctuation c = Some ty"
  unfolding punctuation_table_def by (cases ty) (auto simp: punctuation_def)

lemma lexer_match_text:
  assumes "ahead_text lx = c # rest" and "c \<noteq> e"
  shows "lexer_match lx e = Some (False, lx)"
  using assms lexer_peek_text by (simp add: lexer_match_def)

lemma scan_symbol:
  assumes "ahead_text lx = lexeme_text (Sym ty) @ c # rest" and "lexeme_ok (Sym ty)" and "ends (Sym ty) c"
  shows "lexer_scan lx = Some (after_lexeme (Sym ty) lx)"
proof -
  obtain p where p: "map_of punctuation_table ty = Some p"
    using assms(2) by (cases "map_of punctuation_table ty") (simp_all add: map_of_eq_None_iff)
  have t: "ahead_text lx = p # c # rest" using assms(1) p by simp
  have t': "ahead_text (lexer_add_token (step_over p lx) ty 1 0) = c # rest"
    using ahead_text_step [OF t] by simp
  show ?thesis
    using punctuation_table_inverse [OF p] lexer_advance_text [OF t] p lexer_match_text [OF t', of "0x2F"] assms(3)
    by (auto simp: lexer_scan_def Let_def scan_slash_def after_lexeme_def)
qed

lemma scan_lexeme:
  assumes "start lx = current lx" and "ahead_text lx = lexeme_text l @ c # rest" and "lexeme_ok l" and "ends l c"
    and "length (lexeme_text l) < 2 ^ 32"
  shows "lexer_scan lx = Some (after_lexeme l lx)"
  using assms scan_number scan_word scan_symbol by (cases l) simp_all

section \<open>Whole texts\<close>

text \<open>A blank character, or a comment up to its line end.\<close>

datatype Blank = Space byte | Comment "byte list"

fun blank_text :: "Blank \<Rightarrow> byte list" where
  "blank_text (Space c) = [c]"
| "blank_text (Comment cs) = [0x2F, 0x2F] @ cs @ [0x0A]"

fun blank_ok :: "Blank \<Rightarrow> bool" where
  "blank_ok (Space c) \<longleftrightarrow> c \<in> {0x20, 0x09, 0x0A, 0x0D}"
| "blank_ok (Comment cs) \<longleftrightarrow> 0x0A \<notin> set cs"

definition blanks_text :: "Blank list \<Rightarrow> byte list" where
  "blanks_text bs = concat (map blank_text bs)"

fun layout_text :: "(Lexeme \<times> Blank list) list \<Rightarrow> byte list" where
  "layout_text [] = []"
| "layout_text ((l, bs) # xs) = lexeme_text l @ blanks_text bs @ layout_text xs"

text \<open>Each lexeme is well formed and the character after it ends it; after the whole text
  comes the byte \<open>e\<close>, a NUL or what lies behind the bytes of a file.\<close>

fun layout_ok :: "byte \<Rightarrow> (Lexeme \<times> Blank list) list \<Rightarrow> bool" where
  "layout_ok e [] = True"
| "layout_ok e ((l, bs) # xs) \<longleftrightarrow> lexeme_ok l \<and> list_all blank_ok bs
     \<and> ends l (hd (blanks_text bs @ layout_text xs @ [e])) \<and> layout_ok e xs"

definition summary :: "Token \<Rightarrow> TokenType \<times> byte list \<times> u64" where
  "summary t = (t_type t, take (unat (s_len (span t))) (lexeme t), lit t)"

definition expected :: "Lexeme \<Rightarrow> TokenType \<times> byte list \<times> u64" where
  "expected l = (lexeme_type l, lexeme_text l, lexeme_lit l)"

text \<open>
  The loop between two lexemes: the source, of a length that fits, with the byte after it, and the text left.
\<close>

definition at_text :: "byte \<Rightarrow> Lexer \<Rightarrow> byte list \<Rightarrow> bool" where
  "at_text e lx t \<longleftrightarrow> ahead_text lx = t @ [e] \<and> length (str (src lx)) = Suc (src_len (src lx))
     \<and> src_len (src lx) < 2 ^ 32"

lemma at_text_more:
  assumes "at_text e lx t" and "t \<noteq> []"
  shows "current lx < src_len (src lx)" and "current lx + length t = src_len (src lx)"
proof -
  have "length (str (src lx)) - current lx = Suc (length t)"
    using assms(1) unfolding at_text_def ahead_text_def by (metis length_append_singleton length_drop)
  then show "current lx < src_len (src lx)" and "current lx + length t = src_len (src lx)"
    using assms unfolding at_text_def by (cases t; auto)+
qed

lemma at_text_end:
  assumes "at_text e lx []"
  shows "current lx = src_len (src lx)"
proof -
  have "length (str (src lx)) - current lx = 1"
    using assms unfolding at_text_def ahead_text_def by (metis append_Nil length_drop length_Cons list.size(3) One_nat_def)
  then show ?thesis using assms unfolding at_text_def by auto
qed

text \<open>The state a scan begins with.\<close>

definition begin_scan :: "Lexer \<Rightarrow> Lexer" where
  "begin_scan lx = lx\<lparr>start := current lx, start_loc := l_loc lx\<rparr>"

lemma begin_scan_simps [simp]:
  "current (begin_scan lx) = current lx" "src (begin_scan lx) = src lx" "start (begin_scan lx) = current lx"
  "tokens (begin_scan lx) = tokens lx" "errors (begin_scan lx) = errors lx" "start_loc (begin_scan lx) = l_loc lx"
  "ahead_text (begin_scan lx) = ahead_text lx" "at_text e (begin_scan lx) t = at_text e lx t"
  by (simp_all add: begin_scan_def at_text_def)

lemma at_text_over: "at_text e lx (cs @ t) \<Longrightarrow> at_text e (over cs lx) t"
  using ahead_text_over [of lx cs "t @ [e]"] by (simp add: at_text_def)

declare lexer_loop.simps [simp del]

lemma lexer_loop_step:
  assumes "at_text e lx t" and "t \<noteq> []" and "lexer_scan (begin_scan lx) = Some lx'"
  shows "lexer_loop lx = lexer_loop lx'"
  using at_text_more [OF assms(1,2)] assms(3) by (subst lexer_loop.simps) (simp add: begin_scan_def)

text \<open>Where a run of the loop leads: to an end of the text with the given tokens added.\<close>

definition leads :: "byte \<Rightarrow> Lexer \<Rightarrow> Lexer \<Rightarrow> byte list \<Rightarrow> (TokenType \<times> byte list \<times> u64) list \<Rightarrow> bool" where
  "leads e lx lx' t ts \<longleftrightarrow> lexer_loop lx = lexer_loop lx' \<and> at_text e lx' t \<and> errors lx' = errors lx
     \<and> map summary (tokens lx') = map summary (tokens lx) @ ts"

lemma leads_refl: "at_text e lx t \<Longrightarrow> leads e lx lx t []"
  by (simp add: leads_def)

lemma leads_trans: "leads e a b t ts \<Longrightarrow> leads e b c t' ts' \<Longrightarrow> leads e a c t' (ts @ ts')"
  by (simp add: leads_def)

lemma leads_lexeme:
  assumes "at_text e lx (lexeme_text l @ t)" and "lexeme_ok l" and "ends l (hd (t @ [e]))"
  shows "\<exists>lx'. leads e lx lx' t [expected l]"
proof -
  obtain c rest where c: "t @ [e] = c # rest" by (cases t) auto
  have ne: "lexeme_text l \<noteq> []"
    using assms(2) by (cases l) (auto split: option.splits simp: map_of_eq_None_iff)
  note more = at_text_more [OF assms(1)]
  have len: "length (lexeme_text l) < 2 ^ 32" using more ne assms(1) unfolding at_text_def by simp
  let ?lx = "after_lexeme l (begin_scan lx)"
  have a: "ahead_text lx = lexeme_text l @ c # rest" using assms(1) c by (simp add: at_text_def)
  have "lexer_scan (begin_scan lx) = Some ?lx"
    by (rule scan_lexeme) (use a assms c len in \<open>simp_all\<close>)
  then have "lexer_loop lx = lexer_loop ?lx" using lexer_loop_step [OF assms(1)] ne by simp
  moreover have "at_text e ?lx t"
    using at_text_over [of e "begin_scan lx" "lexeme_text l" t] assms(1)
    by (simp add: after_lexeme_def at_text_def) (simp add: lexer_add_token_def)
  moreover have "summary (last (tokens ?lx)) = expected l"
    using a len unfolding after_lexeme_def lexer_add_token_def
    by (simp add: summary_def token_def expected_def unat_of_nat take_bit_nat_eq_self ahead_text_def [symmetric])
  ultimately show ?thesis
    by (intro exI [of _ ?lx]) (simp add: leads_def after_lexeme_def lexer_add_token_def)
qed

lemma leads_space:
  assumes "at_text e lx (c # t)" and "c \<in> {0x20, 0x09, 0x0A, 0x0D}"
  shows "leads e lx (step_over c (begin_scan lx)) t []"
proof -
  have a: "ahead_text (begin_scan lx) = c # t @ [e]" using assms(1) by (simp add: at_text_def)
  have "punctuation c = None \<and> c \<noteq> 0x2F" using assms(2) by (auto simp: punctuation_def)
  then have "lexer_scan (begin_scan lx) = Some (step_over c (begin_scan lx))"
    using lexer_advance_text [OF a] assms(2) by (auto simp: lexer_scan_def)
  moreover have "at_text e (step_over c (begin_scan lx)) t"
    using at_text_over [of e "begin_scan lx" "[c]" t] assms(1) by simp
  ultimately show ?thesis
    using lexer_loop_step [OF assms(1)] by (simp add: leads_def)
qed

lemma skip_line_text:
  assumes "at_text e lx (cs @ 0x0A # t)" and "0x0A \<notin> set cs"
  shows "skip_line lx = Some (over cs lx)"
  using assms
proof (induction cs arbitrary: lx)
  case Nil
  have "lexer_match_not lx 0x0A = Some (False, lx)"
    using at_text_more [OF Nil(1)] lexer_peek_text [of lx "0x0A" "t @ [e]"] Nil(1)
    by (simp add: lexer_match_not_def at_text_def)
  then show ?case by (subst skip_line.simps) simp
next
  case (Cons c cs)
  have a: "ahead_text lx = c # cs @ 0x0A # t @ [e]" using Cons.prems by (simp add: at_text_def)
  have "lexer_match_not lx 0x0A = Some (True, step_over c lx)"
    using at_text_more [OF Cons.prems(1)] lexer_peek_text [OF a] lexer_advance_text [OF a] Cons.prems(2)
    by (simp add: lexer_match_not_def)
  moreover have "skip_line (step_over c lx) = Some (over cs (step_over c lx))"
    using at_text_over [of e lx "[c]" "cs @ 0x0A # t"] Cons by simp
  ultimately show ?case by (subst skip_line.simps) simp
qed

lemma leads_comment:
  assumes "at_text e lx (blank_text (Comment cs) @ t)" and "0x0A \<notin> set cs"
  shows "\<exists>lx'. leads e lx lx' t []"
proof -
  let ?b = "begin_scan lx"
  have b: "at_text e ?b ([0x2F, 0x2F] @ cs @ 0x0A # t)" using assms(1) by simp
  have at: "at_text e (over [0x2F] ?b) (0x2F # cs @ 0x0A # t)" and at2: "at_text e (over [0x2F, 0x2F] ?b) (cs @ 0x0A # t)"
    using at_text_over [of e ?b "[0x2F]" "0x2F # cs @ 0x0A # t"] at_text_over [of e ?b "[0x2F, 0x2F]" "cs @ 0x0A # t"] b by simp_all
  have adv: "lexer_advance ?b = Some (0x2F, over [0x2F] ?b)"
    using b lexer_advance_text [of ?b "0x2F"] by (simp add: at_text_def)
  have "lexer_match (over [0x2F] ?b) 0x2F = Some (True, over [0x2F, 0x2F] ?b)"
    using at_text_more [OF at] at lexer_peek_text [of "over [0x2F] ?b" "0x2F"] lexer_advance_text [of "over [0x2F] ?b" "0x2F"]
    by (simp add: lexer_match_def at_text_def)
  then have "scan_slash (over [0x2F] ?b) = Some (over cs (over [0x2F, 0x2F] ?b))"
    using skip_line_text [OF at2 assms(2)] by (simp add: scan_slash_def)
  then have scan: "lexer_scan ?b = Some (over cs (over [0x2F, 0x2F] ?b))"
    using adv by (simp add: lexer_scan_def punctuation_def)
  let ?l = "over cs (over [0x2F, 0x2F] ?b)"
  have at3: "at_text e ?l (0x0A # t)" by (rule at_text_over [OF at2])
  then have "leads e lx ?l (0x0A # t) []"
    using lexer_loop_step [OF assms(1) _ scan] by (simp add: leads_def)
  from leads_trans [OF this leads_space [OF at3]] show ?thesis by auto
qed

lemma leads_blanks:
  assumes "at_text e lx (blanks_text bs @ t)" and "list_all blank_ok bs"
  shows "\<exists>lx'. leads e lx lx' t []"
  using assms
proof (induction bs arbitrary: lx)
  case Nil
  then show ?case using leads_refl by (auto simp: blanks_text_def)
next
  case (Cons b bs)
  have t: "at_text e lx (blank_text b @ (blanks_text bs @ t))" using Cons.prems(1) by (simp add: blanks_text_def)
  obtain lx1 where 1: "leads e lx lx1 (blanks_text bs @ t) []"
    using t Cons.prems(2) leads_space leads_comment by (cases b) fastforce+
  then have "at_text e lx1 (blanks_text bs @ t)" by (simp add: leads_def)
  then obtain lx2 where "leads e lx1 lx2 t []" using Cons.IH Cons.prems(2) by auto
  with leads_trans [OF 1] show ?case by fastforce
qed

lemma leads_layout:
  assumes "at_text e lx (layout_text xs)" and "layout_ok e xs"
  shows "\<exists>lx'. leads e lx lx' [] (map (expected \<circ> fst) xs)"
  using assms
proof (induction xs arbitrary: lx)
  case Nil
  then show ?case using leads_refl by auto
next
  case (Cons x xs)
  obtain l bs where x: "x = (l, bs)" by fastforce
  obtain lx1 where 1: "leads e lx lx1 (blanks_text bs @ layout_text xs) [expected l]"
    using leads_lexeme [of e lx l "blanks_text bs @ layout_text xs"] Cons.prems x by auto
  then have at1: "at_text e lx1 (blanks_text bs @ layout_text xs)" by (simp add: leads_def)
  from leads_blanks [OF at1] obtain lx2 where 2: "leads e lx1 lx2 (layout_text xs) []"
    using Cons.prems x by auto
  then have "at_text e lx2 (layout_text xs)" by (simp add: leads_def)
  from Cons.IH [OF this] obtain lx3 where "leads e lx2 lx3 [] (map (expected \<circ> fst) xs)"
    using Cons.prems x by (auto simp: comp_def)
  from leads_trans [OF leads_trans [OF 1 2] this] x show ?case by (auto simp: comp_def)
qed

text \<open>The source of a text that the byte \<open>e\<close> follows: one made in memory, or a file.\<close>

definition source_of :: "byte \<Rightarrow> byte list option \<Rightarrow> byte list \<Rightarrow> Source" where
  "source_of e p text = \<lparr>str = text @ [e], path = p, src_len = length text\<rparr>"

lemma strncpy_all: "0 \<notin> set s \<Longrightarrow> strncpy (length s) s = s"
  by (induction s) auto

lemma sources:
  "0 \<notin> set text \<Longrightarrow> source_init text (length text) = source_of 0 None text"
  "source_from_file text (length text) e = (SourceErrorNoError, Some (source_of e None text))"
  "source_open p (Some (text, length text)) e = (SourceErrorNoError, Some (source_of e (Some p) text))"
  by (simp_all add: source_init_def source_from_file_def source_open_def source_of_def strncpy_all)

lemma lex_layout_tokens:
  assumes "list_all blank_ok bs" and "layout_ok e xs" and "length (blanks_text bs @ layout_text xs) < 2 ^ 32"
  shows "\<exists>ts. lex_source (source_of e p (blanks_text bs @ layout_text xs)) = Some \<lparr>lr_tokens = ts, lr_errors = []\<rparr>
    \<and> map summary ts = map (expected \<circ> fst) xs @ [(Eof, [], 0)]"
proof -
  let ?s = "source_of e p (blanks_text bs @ layout_text xs)"
  have at: "at_text e (lexer_init ?s) (blanks_text bs @ layout_text xs)"
    using assms(3) by (simp add: at_text_def ahead_text_def lexer_init_def source_of_def)
  from leads_blanks [OF at assms(1)] obtain lx1 where 1: "leads e (lexer_init ?s) lx1 (layout_text xs) []" by blast
  then have "at_text e lx1 (layout_text xs)" by (simp add: leads_def)
  from leads_layout [OF this assms(2)] obtain lx where "leads e lx1 lx [] (map (expected \<circ> fst) xs)" by blast
  from leads_trans [OF 1 this] have lx: "leads e (lexer_init ?s) lx [] (map (expected \<circ> fst) xs)" by simp
  then have "current lx = src_len (src lx)" by (intro at_text_end [of e]) (simp add: leads_def)
  with lx have "lexer_loop (lexer_init ?s) = Some lx"
    by (simp add: leads_def lexer_loop.simps [of lx])
  then have "lex_source ?s = Some \<lparr>lr_tokens = tokens lx @ [token Eof (drop (current lx) (str (src lx))) 0 0 (l_loc lx)],
      lr_errors = errors lx\<rparr>"
    by (simp add: lex_source_def lexer_lex_def lexer_finish_def lexer_add_token_def)
  then show ?thesis
    using lx by (simp add: leads_def token_def summary_def lexer_init_def)
qed

text \<open>C15: The lexer reads back every schema text. For any sequence of words, number literals
  below \<open>2 ^ 64\<close> and punctuation, laid out with spaces, tabs, line ends and comments so that no two
  neighbours merge, a source of that text, in memory or read from a file, gives exactly those tokens, each with
  its type (the keywords apart from identifiers), its characters and its value, then the end of file, and no
  error. The byte behind the text may be any that ends the last of them.\<close>

theorem lex_layout:
  assumes "list_all blank_ok bs" and "layout_ok e xs" and "length (blanks_text bs @ layout_text xs) < 2 ^ 32"
  shows "\<exists>ts. lex_source (source_of e p (blanks_text bs @ layout_text xs)) = Some \<lparr>lr_tokens = ts, lr_errors = []\<rparr>
    \<and> map summary ts = map (expected \<circ> fst) xs @ [(Eof, [], 0)]"
  by (rule lex_layout_tokens [OF assms])

definition sample_layout :: "(Lexeme \<times> Blank list) list" where
  "sample_layout = [(Word kw_const, [Space 0x20]), (Word [0x4E], []), (Sym Equal, [Space 0x0A, Comment [0x2F, 0x22]]),
     (Num [0x34, 0x32], []), (Sym Semicolon, [])]"

lemma lex_layout_witness:
  "\<exists>ts. lex_source (source_init (layout_text sample_layout) (length (layout_text sample_layout)))
      = Some \<lparr>lr_tokens = ts, lr_errors = []\<rparr>
    \<and> map summary ts = map (expected \<circ> fst) sample_layout @ [(Eof, [], 0)]"
proof -
  have "layout_ok 0 sample_layout"
    by (simp add: sample_layout_def kw_const_def is_ident_def is_ident_start_def is_digit_def blanks_text_def
        digits_nat_def to_digit_def punctuation_table_def)
  moreover have "length (layout_text sample_layout) < 2 ^ 32" "0 \<notin> set (layout_text sample_layout)"
    by (simp_all add: sample_layout_def kw_const_def blanks_text_def punctuation_table_def)
  ultimately show ?thesis
    using lex_layout [of "[]" 0 sample_layout None] by (simp add: sources blanks_text_def)
qed

definition big_literal :: "byte list" where 
  "big_literal = [0x33, 0x30, 0x30, 0x30, 0x30, 0x30, 0x30, 0x30, 0x30, 0x30, 0x30, 0x30, 0x30, 0x30, 0x30, 0x30, 0x30, 0x30, 0x30, 0x30]"

lemma big_literal_nat: "digits_nat 0 big_literal = 30 * 10 ^ 18"
  by (simp add: big_literal_def digits_nat_def to_digit_def)

text \<open>A literal too large is not always reported: the test compares with the value before the
  multiplication, which a wrapped value can exceed. Thirty times ten to the eighteenth, past
  \<open>2 ^ 64\<close>, is lexed without an error, as another number.\<close>

theorem overflow_unreported:
  "digits_nat 0 big_literal = 30 * 10 ^ 18 \<and> 2 ^ 64 < digits_nat 0 big_literal
   \<and> map_option (\<lambda>r. (map summary (lr_tokens r), lr_errors r)) (lex_source (source_init big_literal 20))
     = Some ([(Number, big_literal, 11553255926290448384), (Eof, [], 0)], [])"
  unfolding big_literal_nat by (intro conjI refl) (simp, code_simp)

text \<open>The case of the hash sign runs on into the one of the slash. A slash right after it is
  dropped without an error, and so is the one of \<open>#/[\<close>; a single slash anywhere is dropped too.\<close>

theorem slash_dropped:
  "map_option (\<lambda>r. (map (t_type) (lr_tokens r), lr_errors r)) (lex_source (source_init [0x23, 0x2F, 0x5B, 0x5D] 4))
     = Some ([Hash, Eof], [])
   \<and> map_option (\<lambda>r. (map (t_type) (lr_tokens r), lr_errors r)) (lex_source (source_init [0x5B, 0x2F, 0x5D] 3))
     = Some ([LeftBracket, RightBracket, Eof], [])"
  by code_simp

text \<open>A file is not closed by a NUL. When the byte after it happens to be a digit, a literal at
  its end grows by that digit and the scan leaves the allocation.\<close>

theorem file_end_unterminated:
  "(case source_from_file [0x34] 1 0x35 of (SourceErrorNoError, Some s) \<Rightarrow> lex_source s = None | _ \<Rightarrow> False)
   \<and> (case source_from_file [0x34] 1 0 of
        (SourceErrorNoError, Some s) \<Rightarrow>
          map_option (map summary \<circ> lr_tokens) (lex_source s) = Some [(Number, [0x34], 4), (Eof, [], 0)]
      | _ \<Rightarrow> False)"
  by code_simp

end
