(* ===== verification/Lexer_Safety.thy ===== *)
theory Lexer_Safety
  imports Lexer_Correct
begin

text \<open>
  The lexer on any source closed by a character that continues no word: it ends, reads nothing
  past that character, and its tokens lie inside the source one after the other, the end of file
  last and only there.
\<close>

section \<open>The invariant\<close>

fun placed :: "Source \<Rightarrow> nat \<Rightarrow> Token list \<Rightarrow> nat \<Rightarrow> bool" where
  "placed s lo [] hi \<longleftrightarrow> lo \<le> hi"
| "placed s lo (t # ts) hi \<longleftrightarrow>
     (let p = unat (offset (loc (span t))); n = unat (s_len (span t)) in
      lo \<le> p \<and> 0 < n \<and> lexeme t = drop p (str s) \<and> t_type t \<noteq> Eof \<and> placed s (p + n) ts hi)"

definition closed_source :: "Source \<Rightarrow> bool" where
  "closed_source s \<longleftrightarrow> length (str s) = Suc (src_len s) \<and> \<not> is_ident (str s ! src_len s) \<and> src_len s < 2 ^ 32"

text \<open>A position of the lexer inside the source, as its location says.\<close>

definition inside :: "Source \<Rightarrow> Lexer \<Rightarrow> bool" where
  "inside s lx \<longleftrightarrow> src lx = s \<and> current lx \<le> src_len s \<and> offset (l_loc lx) = of_nat (current lx)"

definition lexing :: "Source \<Rightarrow> Lexer \<Rightarrow> bool" where
  "lexing s lx \<longleftrightarrow> inside s lx \<and> placed s 0 (tokens lx) (current lx)"

lemma placed_mono: "placed s lo ts hi \<Longrightarrow> hi \<le> hi' \<Longrightarrow> placed s lo ts hi'"
  by (induction ts arbitrary: lo) (auto simp: Let_def)

lemma placed_append:
  assumes "placed s lo ts p" and "0 < n" and "p + n < 2 ^ 32" and "ty \<noteq> Eof"
    and "offset l = of_nat p"
  shows "placed s lo (ts @ [token ty (drop p (str s)) (of_nat n) v l]) (p + n)"
  using assms
proof (induction ts arbitrary: lo)
  case Nil
  then show ?case by (simp add: Let_def token_def unat_of_nat take_bit_nat_eq_self)
qed (simp add: Let_def)

lemma offset_step: "offset (l_loc (step_over c lx)) = of_nat (Suc (current lx))"
  by (simp add: step_over_def Let_def)

lemma inside_step: "inside s lx \<Longrightarrow> current lx < src_len s \<Longrightarrow> inside s (step_over c lx)"
  by (simp add: inside_def offset_step del: of_nat_Suc)

lemma inside_peek: "closed_source s \<Longrightarrow> inside s lx \<Longrightarrow> lexer_peek lx = Some (str s ! current lx)"
  by (simp add: closed_source_def inside_def lexer_peek_def)

lemma ident_inside:
  "closed_source s \<Longrightarrow> inside s lx \<Longrightarrow> is_ident (str s ! current lx) \<Longrightarrow> current lx < src_len s"
  by (cases "current lx = src_len s") (auto simp: closed_source_def inside_def)

lemma digit_ident: "is_digit c \<Longrightarrow> is_ident c"
  by (simp add: is_ident_def)

section \<open>The loops\<close>

lemma number_loop_inside:
  assumes "closed_source s" and "inside s lx"
  shows "\<exists>cs v ov'. number_loop lx lt len ov = Some (over cs lx, v, len + of_nat (length cs), ov') \<and> inside s (over cs lx)"
  using assms(2)
proof (induction lx lt len ov rule: number_loop.induct)
  case (1 lx lt len ov)
  let ?c = "str s ! current lx"
  have p: "lexer_peek lx = Some ?c" by (rule inside_peek [OF assms(1) 1(2)])
  show ?case
  proof (cases "is_digit ?c")
    case True
    have "inside s (step_over ?c lx)"
      using inside_step ident_inside digit_ident assms(1) 1(2) True by blast
    then obtain cs v ov' where "number_loop (step_over ?c lx) (lt * 10 + to_digit ?c) (len + 1) (ov \<or> lt * 10 + to_digit ?c < lt)
        = Some (over cs (step_over ?c lx), v, len + 1 + of_nat (length cs), ov')" "inside s (over cs (step_over ?c lx))"
      using 1(1) [OF p True refl] by blast
    then show ?thesis
      using p True by (intro exI [of _ "?c # cs"] exI [of _ v] exI [of _ ov'], subst number_loop.simps) (simp add: Let_def algebra_simps)
  next
    case False
    then show ?thesis
      using p 1(2) by (intro exI [of _ "[]"] exI [of _ lt] exI [of _ ov], subst number_loop.simps) simp
  qed
qed

lemma ident_loop_inside:
  assumes "closed_source s" and "inside s lx"
  shows "\<exists>cs. ident_loop lx len = Some (over cs lx, len + of_nat (length cs)) \<and> inside s (over cs lx)
    \<and> list_all is_ident cs \<and> ahead_text lx = cs @ ahead_text (over cs lx)
    \<and> \<not> is_ident (hd (ahead_text (over cs lx)))"
  using assms(2)
proof (induction lx len rule: ident_loop.induct)
  case (1 lx len)
  let ?c = "str s ! current lx"
  have p: "lexer_peek lx = Some ?c" by (rule inside_peek [OF assms(1) 1(2)])
  have t: "ahead_text lx = ?c # ahead_text (step_over ?c lx)"
    using assms(1) 1(2) by (simp add: ahead_text_def closed_source_def inside_def Cons_nth_drop_Suc)
  show ?case
  proof (cases "is_ident ?c")
    case True
    have "inside s (step_over ?c lx)" using inside_step ident_inside assms(1) 1(2) True by blast
    then obtain cs where "ident_loop (step_over ?c lx) (len + 1) = Some (over cs (step_over ?c lx), len + 1 + of_nat (length cs))"
        "inside s (over cs (step_over ?c lx))" "list_all is_ident cs"
        "ahead_text (step_over ?c lx) = cs @ ahead_text (over cs (step_over ?c lx))"
        "\<not> is_ident (hd (ahead_text (over cs (step_over ?c lx))))"
      using 1(1) [OF p True] by blast
    then show ?thesis
      using p True t by (intro exI [of _ "?c # cs"], subst ident_loop.simps) (simp add: algebra_simps)
  next
    case False
    then show ?thesis
      using p 1(2) t by (intro exI [of _ "[]"], subst ident_loop.simps) simp
  qed
qed

lemma skip_line_inside:
  assumes "closed_source s" and "inside s lx"
  shows "\<exists>cs. skip_line lx = Some (over cs lx) \<and> inside s (over cs lx)"
  using assms(2)
proof (induction lx rule: skip_line.induct)
  case (1 lx)
  let ?c = "str s ! current lx"
  have p: "lexer_peek lx = Some ?c" by (rule inside_peek [OF assms(1) 1(2)])
  show ?case
  proof (cases "current lx < src_len s \<and> ?c \<noteq> 0x0A")
    case True
    then have m: "lexer_match_not lx 0x0A = Some (True, step_over ?c lx)"
      using p 1(2) by (simp add: lexer_match_not_def lexer_advance_def inside_def)
    have "inside s (step_over ?c lx)" using inside_step 1(2) True by blast
    then obtain cs where "skip_line (step_over ?c lx) = Some (over cs (step_over ?c lx))" "inside s (over cs (step_over ?c lx))"
      using 1(1) [OF m] by auto
    then show ?thesis using m by (intro exI [of _ "?c # cs"], subst skip_line.simps) simp
  next
    case False
    then have "lexer_match_not lx 0x0A = Some (False, lx)"
      using p 1(2) by (auto simp: lexer_match_not_def inside_def)
    then show ?thesis using 1(2) by (intro exI [of _ "[]"], subst skip_line.simps) simp
  qed
qed

lemma scan_slash_inside:
  assumes "closed_source s" and "inside s lx"
  shows "\<exists>cs. scan_slash lx = Some (over cs lx) \<and> inside s (over cs lx)"
proof -
  let ?c = "str s ! current lx"
  have p: "lexer_peek lx = Some ?c" by (rule inside_peek [OF assms])
  show ?thesis
  proof (cases "current lx < src_len s \<and> ?c = 0x2F")
    case True
    then have m: "lexer_match lx 0x2F = Some (True, step_over ?c lx)"
      using p assms(2) by (simp add: lexer_match_def lexer_advance_def inside_def)
    have "inside s (step_over ?c lx)" using inside_step assms(2) True by blast
    from skip_line_inside [OF assms(1) this] obtain cs
      where "skip_line (step_over ?c lx) = Some (over cs (step_over ?c lx))" "inside s (over cs (step_over ?c lx))" by blast
    then show ?thesis using m by (intro exI [of _ "?c # cs"]) (simp add: scan_slash_def)
  next
    case False
    then have "lexer_match lx 0x2F = Some (False, lx)"
      using p assms(2) by (auto simp: lexer_match_def inside_def)
    then show ?thesis using assms(2) by (intro exI [of _ "[]"]) (simp add: scan_slash_def)
  qed
qed

section \<open>One scan\<close>

lemma inside_token [simp]:
  "inside s (lexer_add_token lx ty n v) = inside s lx" "inside s (lexer_add_error lx e n) = inside s lx"
  "inside s (lx\<lparr>errors := es\<rparr>) = inside s lx" "inside s (begin_scan lx) = inside s lx"
  by (simp_all add: inside_def lexer_add_token_def lexer_add_error_def begin_scan_def)

lemma word_type_not_Eof: "word_type w \<noteq> Eof"
  unfolding word_type_def keyword_table_def by simp

lemma tokens_error [simp]: "tokens (lexer_add_error lx e n) = tokens lx" "tokens (unexpected lx) = tokens lx"
  "current (lexer_add_error lx e n) = current lx" "current (unexpected lx) = current lx"
  "current (lexer_add_token lx ty k v) = current lx" "start (lexer_add_error lx e n) = start lx"
  "start_loc (lexer_add_error lx e n) = start_loc lx" "src (lexer_add_error lx e n) = src lx"
  by (simp_all add: lexer_add_error_def unexpected_def lexer_add_token_def)

lemma punctuation_not_Eof: "punctuation c = Some ty \<Longrightarrow> ty \<noteq> Eof"
  by (auto simp: punctuation_def split: if_splits)

text \<open>
  A scan adds at most one token, which begins where the scan began and ends where it ends or
  before.
\<close>

definition scanned :: "Source \<Rightarrow> Lexer \<Rightarrow> Lexer \<Rightarrow> bool" where
  "scanned s lx lx' \<longleftrightarrow> inside s lx' \<and> current lx < current lx' \<and>
     (tokens lx' = tokens lx \<or> (\<exists>ty n v. ty \<noteq> Eof \<and> 0 < n \<and> current lx + n \<le> current lx'
        \<and> tokens lx' = tokens lx @ [token ty (drop (current lx) (str s)) (of_nat n) v (l_loc lx)]))"

lemma scannedI:
  assumes "inside s lx'" and "ty \<noteq> Eof" and "0 < n" and "current lx + n \<le> current lx'"
    and "tokens lx' = tokens lx @ [token ty (drop (current lx) (str s)) (of_nat n) v (l_loc lx)]"
  shows "scanned s lx lx'"
  unfolding scanned_def using assms by (intro conjI disjI2 exI [of _ ty] exI [of _ n] exI [of _ v]) simp_all

lemma scanned_over:
  assumes "scanned s lx lx'" and "inside s (over cs lx')"
  shows "scanned s lx (over cs lx')"
proof (cases "tokens lx' = tokens lx")
  case True
  then show ?thesis using assms by (simp add: scanned_def)
next
  case False
  then obtain ty n v where "ty \<noteq> Eof" "0 < n" "current lx + n \<le> current lx'"
    "tokens lx' = tokens lx @ [token ty (drop (current lx) (str s)) (of_nat n) v (l_loc lx)]"
    using assms(1) unfolding scanned_def by blast
  then show ?thesis using scannedI [of s "over cs lx'" ty n lx v] assms(2) by simp
qed

lemma scanned_token:
  assumes "inside s lx" and "inside s (over cs lx')" and "ty \<noteq> Eof" and "lx' = step_over c (begin_scan lx)"
  shows "scanned s lx (lexer_add_token (over cs lx') ty (1 + of_nat (length cs)) v)"
proof -
  have "tokens (lexer_add_token (over cs lx') ty (1 + of_nat (length cs)) v)
      = tokens lx @ [token ty (drop (current lx) (str s)) (of_nat (Suc (length cs))) v (l_loc lx)]"
    using assms(1,4) by (simp add: lexer_add_token_def inside_def)
  moreover have "current lx + Suc (length cs) \<le> current (lexer_add_token (over cs lx') ty (1 + of_nat (length cs)) v)"
    using assms(4) by simp
  moreover have "inside s (lexer_add_token (over cs lx') ty (1 + of_nat (length cs)) v)" using assms(2) by simp
  ultimately show ?thesis using scannedI [OF _ assms(3) zero_less_Suc] by blast
qed

lemma scanned_error:
  assumes "scanned s lx (lexer_add_token l ty n v)"
  shows "scanned s lx (lexer_add_token (lexer_add_error l e k) ty n v)"
proof -
  have "tokens (lexer_add_token (lexer_add_error l e k) ty n v) = tokens (lexer_add_token l ty n v)"
    by (simp add: lexer_add_token_def)
  with assms show ?thesis unfolding scanned_def by simp
qed

lemma scan_token:
  assumes "closed_source s" and "inside s lx" and "current lx < src_len s"
  shows "\<exists>lx'. lexer_scan (begin_scan lx) = Some lx' \<and> scanned s lx lx'"
proof -
  let ?b = "begin_scan lx" and ?c = "str s ! current lx"
  let ?l = "step_over ?c ?b"
  have ib: "inside s ?b" and cur: "current lx < src_len s" using assms(2,3) by simp_all
  have adv: "lexer_advance ?b = Some (?c, ?l)"
    using inside_peek [OF assms(1) ib] by (simp add: lexer_advance_def)
  have il: "inside s ?l" using inside_step [OF ib] cur by simp
  have src: "src lx = s" using assms(2) by (simp add: inside_def)
  show ?thesis
  proof (cases "punctuation ?c")
    case (Some ty)
    let ?t = "lexer_add_token ?l ty 1 0"
    have t: "scanned s lx ?t" using scanned_token [OF assms(2), of "[]" ?l ty] il punctuation_not_Eof [OF Some] by simp
    show ?thesis
    proof (cases "ty = Hash")
      case True
      obtain cs where "scan_slash ?t = Some (over cs ?t)" "inside s (over cs ?t)"
        using scan_slash_inside [OF assms(1), of ?t] il by auto
      moreover have "scanned s lx (over cs ?t)" using scanned_over [OF t calculation(2)] .
      ultimately show ?thesis using adv Some True by (simp add: lexer_scan_def)
    next
      case False
      then show ?thesis using adv Some t by (simp add: lexer_scan_def)
    qed
  next
    case None
    consider "?c = 0x2F" | "?c \<in> {0x20, 0x09, 0x0A, 0x0D}" | "is_digit ?c" | "is_ident_start ?c"
      | "?c \<noteq> 0x2F" "?c \<notin> {0x20, 0x09, 0x0A, 0x0D}" "\<not> is_digit ?c" "\<not> is_ident_start ?c" by blast
    then show ?thesis
    proof cases
      case 1
      obtain cs where "scan_slash ?l = Some (over cs ?l)" "inside s (over cs ?l)"
        using scan_slash_inside [OF assms(1) il] by blast
      then show ?thesis using adv None 1 by (simp add: lexer_scan_def scanned_def)
    next
      case 2
      then show ?thesis using adv None il by (auto simp: lexer_scan_def scanned_def)
    next
      case 3
      from number_loop_inside [OF assms(1) il] obtain cs v ov where n:
        "number_loop ?l (to_digit ?c) 1 False = Some (over cs ?l, v, 1 + of_nat (length cs), ov)" "inside s (over cs ?l)"
        by blast
      have "scanned s lx (lexer_add_token (over cs ?l) Number (1 + of_nat (length cs)) v)"
        by (rule scanned_token [OF assms(2) n(2)]) simp_all
      then show ?thesis
        using adv None n 3 byte_classes(1) [OF 3] src scanned_error
        by (simp add: lexer_scan_def lexer_scan_number_def)
    next
      case 4
      obtain cs where i: "ident_loop ?l 1 = Some (over cs ?l, 1 + of_nat (length cs))" "inside s (over cs ?l)"
        "list_all is_ident cs" "ahead_text ?l = cs @ ahead_text (over cs ?l)" "\<not> is_ident (hd (ahead_text (over cs ?l)))"
        using ident_loop_inside [OF assms(1) il] by blast
      let ?r = "ahead_text (over cs ?l)"
      have len: "Suc (length cs) < 2 ^ 32" using i(2) assms(1) by (simp add: inside_def closed_source_def)
      have "?r \<noteq> []" using i(2) assms(1) by (simp add: ahead_text_def inside_def closed_source_def)
      then have r: "?r = hd ?r # tl ?r" by simp
      have "drop (current lx) (str s) = ?c # cs @ ?r"
        using i(4) assms(1) cur src by (simp add: ahead_text_def closed_source_def Cons_nth_drop_Suc [symmetric])
      then have "find_keyword keyword_table (drop (current lx) (str s)) (of_nat (length (?c # cs))) = Some (word_type (?c # cs))"
        using find_keyword_word [OF keyword_table_ident, of "?c # cs" "hd ?r" "tl ?r"] i(3,5) r 4 len
        by (simp add: is_ident_def word_type_def)
      moreover have "scanned s lx (lexer_add_token (over cs ?l) (word_type (?c # cs)) (1 + of_nat (length cs)) 0)"
        by (rule scanned_token [OF assms(2) i(2)]) (simp_all add: word_type_not_Eof)
      ultimately show ?thesis
        using adv None i(1) 4 byte_classes(2) [OF 4] src
        by (simp add: lexer_scan_def lexer_scan_ident_def)
    next
      case 5
      have "inside s (unexpected ?l)" using il by (simp add: unexpected_def)
      then show ?thesis using adv None 5 by (simp add: lexer_scan_def scanned_def)
    qed
  qed
qed

lemma scanned_lexing:
  assumes "closed_source s" and "lexing s lx" and "scanned s lx lx'"
  shows "lexing s lx'"
proof -
  have l: "inside s lx" "placed s 0 (tokens lx) (current lx)" using assms(2) by (simp_all add: lexing_def)
  have i: "inside s lx'" "current lx < current lx'" using assms(3) by (simp_all add: scanned_def)
  have "placed s 0 (tokens lx') (current lx')"
  proof (cases "tokens lx' = tokens lx")
    case True
    then show ?thesis using placed_mono [OF l(2)] i(2) by simp
  next
    case False
    then obtain ty n v where t: "ty \<noteq> Eof" "0 < n" "current lx + n \<le> current lx'"
      "tokens lx' = tokens lx @ [token ty (drop (current lx) (str s)) (of_nat n) v (l_loc lx)]"
      using assms(3) unfolding scanned_def by blast
    have "current lx + n < 2 ^ 32" using t(3) i(1) assms(1) by (simp add: inside_def closed_source_def)
    from placed_append [OF l(2) t(2) this t(1)] l(1)
    have "placed s 0 (tokens lx') (current lx + n)" unfolding t(4) by (simp add: inside_def)
    then show ?thesis by (rule placed_mono [OF _ t(3)])
  qed
  with i(1) show ?thesis by (simp add: lexing_def)
qed

lemma lexer_loop_lexing:
  assumes "closed_source s" and "lexing s lx"
  shows "\<exists>lx'. lexer_loop lx = Some lx' \<and> lexing s lx' \<and> current lx' = src_len s"
  using assms(2)
proof (induction lx rule: lexer_loop.induct)
  case (1 lx)
  have lx: "inside s lx" using 1(2) by (simp add: lexing_def)
  show ?case
  proof (cases "current lx < src_len s")
    case True
    obtain lx' where scan: "lexer_scan (begin_scan lx) = Some lx'" "scanned s lx lx'"
      using scan_token [OF assms(1) lx True] by blast
    have "lexing s lx'" by (rule scanned_lexing [OF assms(1) 1(2) scan(2)])
    moreover have "current lx < src_len (src lx)" using True lx by (simp add: inside_def)
    ultimately show ?thesis
      using 1(1) [of lx'] scan(1) by (simp add: begin_scan_def lexer_loop.simps [of lx])
  next
    case False
    then show ?thesis using lx 1(2) by (simp add: inside_def lexer_loop.simps [of lx])
  qed
qed

section \<open>The tokens of a source\<close>

text \<open>C16: On every source closed by a character that continues no word, as the NUL of
  \<open>source_init\<close> is, the lexer ends without reading past it, whatever the bytes. The tokens are
  the lexemes at their offsets, in the order of the source and without overlap, none empty, and
  the end of file comes last and only there.\<close>

theorem lex_safe:
  assumes "closed_source s"
  shows "\<exists>ts e es. lex_source s = Some \<lparr>lr_tokens = ts @ [e], lr_errors = es\<rparr> \<and> placed s 0 ts (src_len s)
    \<and> t_type e = Eof \<and> unat (offset (loc (span e))) = src_len s"
proof -
  have "lexing s (lexer_init s)"
    by (simp add: lexing_def inside_def lexer_init_def location_def)
  then obtain lx where lx: "lexer_loop (lexer_init s) = Some lx" "lexing s lx" "current lx = src_len s"
    using lexer_loop_lexing [OF assms] by blast
  moreover have "unat (of_nat (src_len s) :: u32) = src_len s"
    using assms by (simp add: closed_source_def unat_of_nat take_bit_nat_eq_self)
  ultimately show ?thesis
    by (auto simp: lex_source_def lexer_lex_def lexer_finish_def lexer_add_token_def token_def lexing_def inside_def)
qed

definition sample_source :: Source where "sample_source = source_init [0x61, 0x40] 2"

lemma sample_source_eq: "sample_source = \<lparr>str = [0x61, 0x40, 0], path = None, src_len = 2\<rparr>"
  by code_simp

lemma lex_safe_witness:
  "\<exists>ts e es. lex_source sample_source = Some \<lparr>lr_tokens = ts @ [e], lr_errors = es\<rparr>
    \<and> placed sample_source 0 ts (src_len sample_source)
    \<and> t_type e = Eof \<and> unat (offset (loc (span e))) = src_len sample_source"
  by (rule lex_safe) (simp add: closed_source_def sample_source_eq is_ident_def is_ident_start_def is_digit_def)

end
