(* ===== verification/Ast.thy ===== *)
theory Ast
  imports Lexer
begin

text \<open>
  The syntax tree of a schema (\<^verbatim>\<open>ser/ast.h\<close>). A tagged struct is a record without its tag, a
  union of them a datatype with the tags for constructors. The nodes live in an arena that is
  freed as a whole; a pointer to a type is the type.
\<close>

record AstNumber =
  num_span :: Span
  num_token :: Token

record AstIdent =
  id_span :: Span
  id_token :: Token

record AstVersion =
  ver_span :: Span
  ver_number :: AstNumber

datatype AstSize = ATMaxSize Span AstNumber | ATFixedSize Span AstNumber | ATNoSize Span

datatype AstType =
  ATIdent AstIdent
| ATHeapArray Span AstType AstSize
| ATFieldArray Span AstType AstSize

record AstField =
  fd_span :: Span
  fd_name :: Token
  fd_type :: AstType

record AstStruct =
  st_span :: Span
  st_ident :: Token
  st_fields :: "AstField list"

record AstMessage =
  mg_span :: Span
  mg_ident :: Token
  mg_fields :: "AstField list"

record AstAttribute =
  at_span :: Span
  at_ident :: Token

datatype AstAttributeOrMessage = ATAttribute AstAttribute | ATMessage AstMessage

record AstMessages =
  ms_span :: Span
  ms_name :: Token
  ms_children :: "AstAttributeOrMessage list"

record AstTypeDecl =
  td_span :: Span
  td_name :: Token
  td_value :: AstType

record AstConstant =
  co_span :: Span
  co_name :: Token
  co_value :: AstNumber

datatype AstItem =
  ATVersion AstVersion
| ATStruct AstStruct
| ATMessages AstMessages
| ATTypeDecl AstTypeDecl
| ATConstant AstConstant

record AstItems =
  it_span :: Span
  it_items :: "AstItem list"

section \<open>The node constructors\<close>

definition ast_number :: "Span \<Rightarrow> Token \<Rightarrow> AstNumber" where
  "ast_number s t = \<lparr>num_span = s, num_token = t\<rparr>"

definition ast_ident :: "Span \<Rightarrow> Token \<Rightarrow> AstIdent" where
  "ast_ident s t = \<lparr>id_span = s, id_token = t\<rparr>"

definition ast_version :: "Span \<Rightarrow> AstNumber \<Rightarrow> AstVersion" where
  "ast_version s n = \<lparr>ver_span = s, ver_number = n\<rparr>"

definition ast_heap_array :: "Span \<Rightarrow> AstType \<Rightarrow> AstSize \<Rightarrow> AstType" where
  "ast_heap_array s ty sz = ATHeapArray s ty sz"

definition ast_field_array :: "Span \<Rightarrow> AstType \<Rightarrow> AstSize \<Rightarrow> AstType" where
  "ast_field_array s ty sz = ATFieldArray s ty sz"

definition ast_max_size :: "Span \<Rightarrow> AstNumber \<Rightarrow> AstSize" where
  "ast_max_size s n = ATMaxSize s n"

definition ast_fixed_size :: "Span \<Rightarrow> AstNumber \<Rightarrow> AstSize" where
  "ast_fixed_size s n = ATFixedSize s n"

definition ast_no_size :: "Span \<Rightarrow> AstSize" where
  "ast_no_size s = ATNoSize s"

definition ast_field :: "Span \<Rightarrow> Token \<Rightarrow> AstType \<Rightarrow> AstField" where
  "ast_field s n ty = \<lparr>fd_span = s, fd_name = n, fd_type = ty\<rparr>"

definition ast_struct :: "Span \<Rightarrow> Token \<Rightarrow> AstField list \<Rightarrow> AstStruct" where
  "ast_struct s n fs = \<lparr>st_span = s, st_ident = n, st_fields = fs\<rparr>"

definition ast_message :: "Span \<Rightarrow> Token \<Rightarrow> AstField list \<Rightarrow> AstMessage" where
  "ast_message s n fs = \<lparr>mg_span = s, mg_ident = n, mg_fields = fs\<rparr>"

definition ast_attribute :: "Span \<Rightarrow> Token \<Rightarrow> AstAttribute" where
  "ast_attribute s n = \<lparr>at_span = s, at_ident = n\<rparr>"

definition ast_messages :: "Span \<Rightarrow> Token \<Rightarrow> AstAttributeOrMessage list \<Rightarrow> AstMessages" where
  "ast_messages s n cs = \<lparr>ms_span = s, ms_name = n, ms_children = cs\<rparr>"

definition ast_constant :: "Span \<Rightarrow> Token \<Rightarrow> AstNumber \<Rightarrow> AstConstant" where
  "ast_constant s n v = \<lparr>co_span = s, co_name = n, co_value = v\<rparr>"

definition ast_type_decl :: "Span \<Rightarrow> Token \<Rightarrow> AstType \<Rightarrow> AstTypeDecl" where
  "ast_type_decl s n ty = \<lparr>td_span = s, td_name = n, td_value = ty\<rparr>"

definition ast_items :: "Span \<Rightarrow> AstItem list \<Rightarrow> AstItems" where
  "ast_items s is = \<lparr>it_span = s, it_items = is\<rparr>"

lemmas ast_defs = ast_number_def ast_ident_def ast_version_def ast_heap_array_def ast_field_array_def
  ast_max_size_def ast_fixed_size_def ast_no_size_def ast_field_def ast_struct_def ast_message_def
  ast_attribute_def ast_messages_def ast_constant_def ast_type_decl_def ast_items_def

end
