(* ===== verification/Parser.thy ===== *)
theory Parser
  imports Ast
begin

text \<open>
  The parser of the schema compiler (\<^verbatim>\<open>ser/parser.c\<close>). A function that returns false leaves
  \<^const>\<open>None\<close> as its value, with the parser it has advanced; a result of \<^const>\<open>None\<close> is an
  access outside the tokens or, in \<open>parse_messages\<close>, a loop that does not end. There are fewer
  than \<open>2 ^ 32\<close> tokens, so \<open>current\<close> is a natural number.
\<close>

section \<open>The token stream\<close>

record ParsingError =
  pe_span :: Span
  pe_expected :: u32

record Parser =
  p_tokens :: "Token list"
  p_errors :: "ParsingError list"
  p_current :: nat

type_synonym 'a presult = "('a option \<times> Parser) option"

definition parser_init :: "Token list \<Rightarrow> Parser" where
  "parser_init ts = \<lparr>p_tokens = ts, p_errors = [], p_current = 0\<rparr>"

definition err_expected :: "u32 \<Rightarrow> Span \<Rightarrow> ParsingError" where
  "err_expected ty s = \<lparr>pe_span = s, pe_expected = ty\<rparr>"

definition add_error :: "Parser \<Rightarrow> ParsingError \<Rightarrow> Parser" where
  "add_error p e = p\<lparr>p_errors := p_errors p @ [e]\<rparr>"

definition peek :: "Parser \<Rightarrow> Token option" where
  "peek p = (if p_current p < length (p_tokens p) then Some (p_tokens p ! p_current p) else None)"

definition previous :: "Parser \<Rightarrow> Token option" where
  "previous p = (if 0 < p_current p \<and> p_current p - 1 < length (p_tokens p)
     then Some (p_tokens p ! (p_current p - 1)) else None)"

definition check :: "Parser \<Rightarrow> TokenType \<Rightarrow> bool option" where
  "check p ty = do {
     t \<leftarrow> peek p;
     Some (if t_type t = Eof then ty = Eof else t_type t = ty)
   }"

definition advance :: "Parser \<Rightarrow> (Token \<times> Parser) option" where
  "advance p = do {
     t \<leftarrow> peek p;
     let p = (if t_type t \<noteq> Eof then p\<lparr>p_current := p_current p + 1\<rparr> else p);
     r \<leftarrow> previous p;
     Some (r, p)
   }"

definition match :: "Parser \<Rightarrow> TokenType \<Rightarrow> (bool \<times> Parser) option" where
  "match p ty = do {
     b \<leftarrow> check p ty;
     if b then do { (_, p) \<leftarrow> advance p; Some (True, p) } else Some (False, p)
   }"

text \<open>The tokens and the position never go back.\<close>

definition forward :: "Parser \<Rightarrow> Parser \<Rightarrow> bool" where
  "forward p p' \<longleftrightarrow> p_tokens p' = p_tokens p \<and> p_current p \<le> p_current p'"

lemma forward_refl [simp, intro]: "forward p p"
  by (simp add: forward_def)

lemma forward_trans [trans]: "forward a b \<Longrightarrow> forward b c \<Longrightarrow> forward a c"
  by (simp add: forward_def)

lemma forward_error [simp]: "forward p (add_error p' e) = forward p p'" "p_current (add_error p e) = p_current p"
  "p_tokens (add_error p e) = p_tokens p"
  by (simp_all add: forward_def add_error_def)

lemma advance_forward: "advance p = Some (t, p') \<Longrightarrow> forward p p'"
  by (auto simp: advance_def Let_def forward_def split: bind_splits if_splits)

lemma advance_step:
  "advance p = Some (t, p') \<Longrightarrow> peek p = Some u \<Longrightarrow> t_type u \<noteq> Eof \<Longrightarrow> p_current p' = Suc (p_current p)"
  by (auto simp: advance_def Let_def split: bind_splits)

lemma match_forward: "match p ty = Some (b, p') \<Longrightarrow> forward p p'"
  by (auto simp: match_def split: bind_splits if_splits dest: advance_forward)

lemma match_step: "match p ty = Some (True, p') \<Longrightarrow> ty \<noteq> Eof \<Longrightarrow> p_current p' = Suc (p_current p)"
  by (auto simp: match_def check_def split: bind_splits if_splits dest: advance_step)

lemma mask_not_Eof: "bits_of ty AND (m OR bits_of Eof) = 0 \<Longrightarrow> ty \<noteq> Eof"
proof
  assume "bits_of ty AND (m OR bits_of Eof) = 0" "ty = Eof"
  then have "bit (bits_of Eof AND (m OR bits_of Eof)) 20 = bit (0 :: u32) 20" by simp
  then show False by (simp add: bit_simps)
qed

function skip_until :: "Parser \<Rightarrow> u32 \<Rightarrow> Parser option" where
  "skip_until p m = (case peek p of
     None \<Rightarrow> None
   | Some t \<Rightarrow>
       if bits_of (t_type t) AND (m OR bits_of Eof) = 0 then
         (case advance p of None \<Rightarrow> None | Some (_, p') \<Rightarrow> skip_until p' m)
       else Some p)"
  by pat_completeness auto
termination
proof (relation "measure (\<lambda>(p, _). length (p_tokens p) - p_current p)", goal_cases)
  case (2 p m t x r p')
  then have "t_type t \<noteq> Eof" using mask_not_Eof by blast
  then have "p_current p' = Suc (p_current p)" "p_tokens p' = p_tokens p" "p_current p < length (p_tokens p)"
    using 2 advance_step [of p r p' t] advance_forward [of p r p']
    by (auto simp: forward_def peek_def split: if_splits)
  then show ?case by simp
qed simp

declare skip_until.simps [simp del]

lemma skip_until_forward: "skip_until p m = Some p' \<Longrightarrow> forward p p'"
proof (induction p m arbitrary: p' rule: skip_until.induct)
  case (1 p m)
  note eq = 1(2) [unfolded skip_until.simps [of p m]]
  then obtain t where t: "peek p = Some t" by (auto split: option.splits)
  show ?case
  proof (cases "bits_of (t_type t) AND (m OR bits_of Eof) = 0")
    case True
    then obtain r q where q: "advance p = Some (r, q)" using eq t by (auto split: option.splits)
    have "forward q p'" using 1(1) [OF t True q refl] eq t True q by simp
    then show ?thesis using advance_forward [OF q] forward_trans by blast
  next
    case False
    then show ?thesis using eq t by auto
  qed
qed

definition consume :: "Parser \<Rightarrow> TokenType \<Rightarrow> Token presult" where
  "consume p ty = do {
     t \<leftarrow> peek p;
     if t_type t = ty then do { (r, p) \<leftarrow> advance p; Some (Some r, p) }
     else Some (None, add_error p (err_expected (bits_of ty) (span t)))
   }"

definition bubble :: "'a presult \<Rightarrow> ('a \<Rightarrow> Parser \<Rightarrow> 'b presult) \<Rightarrow> 'b presult" where
  "bubble r k = (case r of None \<Rightarrow> None | Some (None, p) \<Rightarrow> Some (None, p) | Some (Some x, p) \<Rightarrow> k x p)"

definition parser_loc :: "Parser \<Rightarrow> Location option" where
  "parser_loc p = map_option (\<lambda>t. loc (span t)) (peek p)"

definition span_end :: "Parser \<Rightarrow> Location \<Rightarrow> Span option" where
  "span_end p st = do {
     t \<leftarrow> previous p;
     let prev = span t;
     Some (span_from_to st \<lparr>line = line (loc prev), column = column (loc prev) + s_len prev,
       offset = offset (loc prev) + s_len prev\<rparr>)
   }"

lemma bubble_cong [fundef_cong]:
  "r = r' \<Longrightarrow> (\<And>x p. r' = Some (Some x, p) \<Longrightarrow> k x p = k' x p) \<Longrightarrow> bubble r k = bubble r' k'"
  by (auto simp: bubble_def split: option.splits)

lemma bubble_Some: "bubble r k = Some (x, p') \<Longrightarrow>
    (\<exists>y p. r = Some (Some y, p) \<and> k y p = Some (x, p')) \<or> (x = None \<and> r = Some (None, p'))"
  by (auto simp: bubble_def split: option.splits)

text \<open>A result that keeps the tokens and does not go back.\<close>

definition onward :: "Parser \<Rightarrow> 'a presult \<Rightarrow> bool" where
  "onward p r \<longleftrightarrow> (\<forall>x p'. r = Some (x, p') \<longrightarrow> forward p p')"

lemma onward_simps [simp]:
  "onward p None" "onward p (Some (x, p')) = forward p p'"
  by (simp_all add: onward_def)

lemma onward_bind:
  assumes "\<And>x. m = Some x \<Longrightarrow> onward p (k x)"
  shows "onward p (Option.bind m k)"
  using assms by (cases m) simp_all

lemma onward_bubble:
  assumes "onward p r" and "\<And>x q. r = Some (Some x, q) \<Longrightarrow> forward p q \<Longrightarrow> onward q (k x q)"
  shows "onward p (bubble r k)"
proof (unfold onward_def, intro allI impI)
  fix x p' assume "bubble r k = Some (x, p')"
  from bubble_Some [OF this] show "forward p p'"
  proof (elim disjE exE conjE)
    fix y q assume r: "r = Some (Some y, q)" and k: "k y q = Some (x, p')"
    have "forward p q" using assms(1) r by simp
    then show "forward p p'" using assms(2) [OF r] k forward_trans by fastforce
  qed (use assms(1) in simp)
qed

lemma onward_consume: "onward p (consume p ty)"
  unfolding consume_def by (intro onward_bind) (auto intro!: onward_bind dest: advance_forward)

lemma consume_step:
  "consume p ty = Some (Some t, p') \<Longrightarrow> ty \<noteq> Eof \<Longrightarrow> p_current p' = Suc (p_current p)"
  by (auto simp: consume_def split: bind_splits if_splits dest: advance_step)

section \<open>Types and fields\<close>

definition parse_number :: "Parser \<Rightarrow> AstNumber presult" where
  "parse_number p = do {
     (t, p) \<leftarrow> advance p;
     if t_type t = Number then Some (Some (ast_number (span t) t), p)
     else if t_type t = Ident then Some (Some (ast_number (span t) t), p)
     else Some (None, add_error p (err_expected (bits_of Number OR bits_of Ident) (span t)))
   }"

definition parse_ident :: "Parser \<Rightarrow> AstIdent presult" where
  "parse_ident p = do {
     (t, p) \<leftarrow> advance p;
     if t_type t = Ident then Some (Some (ast_ident (span t) t), p)
     else Some (None, add_error p (err_expected (bits_of Ident) (span t)))
   }"

definition parse_size :: "Parser \<Rightarrow> AstSize presult" where
  "parse_size p = do {
     st \<leftarrow> parser_loc p;
     b \<leftarrow> check p RightBracket;
     if b then do { s \<leftarrow> span_end p st; Some (Some (ast_no_size s), p) }
     else do {
       (b, p) \<leftarrow> match p Caret;
       bubble (parse_number p) (\<lambda>size p. do {
         s \<leftarrow> span_end p st;
         Some (Some (if b then ast_max_size s size else ast_fixed_size s size), p)
       })
     }
   }"

lemma onward_forward: "onward q r \<Longrightarrow> forward p q \<Longrightarrow> onward p r"
  unfolding onward_def using forward_trans by blast

lemma onward_atoms: "onward p (parse_number p)" "onward p (parse_ident p)" "onward p (parse_size p)"
proof -
  show n: "onward p (parse_number p)" for p
    unfolding parse_number_def by (rule onward_bind) (auto dest: advance_forward)
  show "onward p (parse_ident p)"
    unfolding parse_ident_def by (rule onward_bind) (auto dest: advance_forward)
  have m: "onward p (bubble (parse_number q) (\<lambda>size p. Option.bind (span_end p st) (\<lambda>s. Some (Some (f s size), p))))"
    if "forward p q" for q st and f :: "Span \<Rightarrow> AstNumber \<Rightarrow> AstSize"
    by (rule onward_forward [OF onward_bubble [OF n] that]) (rule onward_bind, simp)
  show "onward p (parse_size p)"
    unfolding parse_size_def
    by (rule onward_bind)+ (auto intro!: onward_bind m dest: match_forward split: prod.splits)
qed

function type_loop :: "Location \<Rightarrow> AstType \<Rightarrow> Parser \<Rightarrow> AstType presult" where
  "type_loop st ty p = do {
     next_tok \<leftarrow> peek p;
     if t_type next_tok \<noteq> Ampersand \<and> t_type next_tok \<noteq> LeftBracket then Some (Some ty, p)
     else do {
       (heap, p) \<leftarrow> match p Ampersand;
       bubble (consume p LeftBracket) (\<lambda>_ p.
       bubble (parse_size p) (\<lambda>size p.
       bubble (consume p RightBracket) (\<lambda>_ p. do {
         s \<leftarrow> span_end p st;
         type_loop st
           (if heap \<or> (case size of ATNoSize _ \<Rightarrow> True | _ \<Rightarrow> False) then ast_heap_array s ty size
            else ast_field_array s ty size) p
       })))
     }
   }"
  by pat_completeness auto
termination
proof (relation "measure (\<lambda>(_, _, p). length (p_tokens p) - p_current p)", goal_cases)
  case (2 st ty p t r heap p1 u p2 size p3 v p4 s)
  have "forward p p1" using 2(3) match_forward [of p Ampersand heap p1] unfolding 2(4) [symmetric] by simp
  moreover have "p_current p2 = Suc (p_current p1)" using consume_step [OF 2(5)] by simp
  moreover have "forward p1 p2" "forward p2 p3" "forward p3 p4"
    using onward_consume [of p1 LeftBracket] onward_atoms(3) [of p2] onward_consume [of p3 RightBracket] 2(5-7) by simp_all
  moreover have "p_current p < length (p_tokens p)" using 2(1) by (auto simp: peek_def split: if_splits)
  ultimately show ?case by (auto simp: forward_def)
qed simp

declare type_loop.simps [simp del]

lemma onward_type_loop: "onward p (type_loop st ty p)"
proof (induction st ty p rule: type_loop.induct)
  case (1 st ty p)
  show ?case
    unfolding type_loop.simps [of st ty p]
  proof (rule onward_bind)
    fix t assume t: "peek p = Some t"
    show "onward p (if t_type t \<noteq> Ampersand \<and> t_type t \<noteq> LeftBracket then Some (Some ty, p)
        else Option.bind (match p Ampersand) (\<lambda>(heap, p). bubble (consume p LeftBracket) (\<lambda>_ p.
          bubble (parse_size p) (\<lambda>size p. bubble (consume p RightBracket) (\<lambda>_ p. Option.bind (span_end p st) (\<lambda>s.
            type_loop st (if heap \<or> (case size of ATNoSize _ \<Rightarrow> True | _ \<Rightarrow> False) then ast_heap_array s ty size
              else ast_field_array s ty size) p))))))"
    proof (cases "t_type t \<noteq> Ampersand \<and> t_type t \<noteq> LeftBracket")
      case False
      note IH = 1 [OF t False]
      have "onward p (Option.bind (match p Ampersand) (\<lambda>(heap, p). bubble (consume p LeftBracket) (\<lambda>_ p.
          bubble (parse_size p) (\<lambda>size p. bubble (consume p RightBracket) (\<lambda>_ p. Option.bind (span_end p st) (\<lambda>s.
            type_loop st (if heap \<or> (case size of ATNoSize _ \<Rightarrow> True | _ \<Rightarrow> False) then ast_heap_array s ty size
              else ast_field_array s ty size) p))))))"
      proof (rule onward_bind, clarify)
        fix heap p1 assume m: "match p Ampersand = Some (heap, p1)"
        show "onward p (bubble (consume p1 LeftBracket) (\<lambda>_ p.
          bubble (parse_size p) (\<lambda>size p. bubble (consume p RightBracket) (\<lambda>_ p. Option.bind (span_end p st) (\<lambda>s.
            type_loop st (if heap \<or> (case size of ATNoSize _ \<Rightarrow> True | _ \<Rightarrow> False) then ast_heap_array s ty size
              else ast_field_array s ty size) p)))))"
          by (rule onward_forward [OF _ match_forward [OF m]])
            (intro onward_bubble onward_consume onward_atoms onward_bind IH [OF m refl])
      qed
      then show ?thesis using False by simp
    qed simp
  qed
qed

definition parse_type :: "Parser \<Rightarrow> AstType presult" where
  "parse_type p = bubble (parse_ident p) (\<lambda>ident p. do {
     st \<leftarrow> parser_loc p;
     type_loop st (ATIdent ident) p
   })"

definition parse_field :: "Parser \<Rightarrow> AstField presult" where
  "parse_field p = do {
     st \<leftarrow> parser_loc p;
     bubble (consume p Ident) (\<lambda>name p.
     bubble (consume p Colon) (\<lambda>_ p.
     bubble (parse_type p) (\<lambda>ty p. do {
       s \<leftarrow> span_end p st;
       Some (Some (ast_field s name ty), p)
     })))
   }"

lemma onward_field: "onward p (parse_type p)" "onward p (parse_field p)"
proof -
  show t: "onward p (parse_type p)" for p
    unfolding parse_type_def by (intro onward_bubble onward_atoms onward_bind onward_type_loop)
  show "onward p (parse_field p)"
    unfolding parse_field_def
    by (intro onward_bind onward_bubble onward_consume t) simp
qed

text \<open>The loop over the fields of a struct or message, up to what may be its closing brace.\<close>

definition keep_or_skip :: "'a list \<Rightarrow> u32 \<Rightarrow> 'a option \<times> Parser \<Rightarrow> ('a list \<times> Parser) option" where
  "keep_or_skip xs m r = (case r of
     (Some x, p) \<Rightarrow> Some (xs @ [x], p)
   | (None, p) \<Rightarrow> do { p \<leftarrow> skip_until p m; Some (xs, p) })"

lemma keep_or_skip_forward:
  "keep_or_skip xs m (x, p) = Some (ys, p') \<Longrightarrow> forward p p'"
  by (auto simp: keep_or_skip_def split: option.splits bind_splits dest: skip_until_forward)

function fields_loop :: "AstField list \<Rightarrow> Parser \<Rightarrow> (AstField list \<times> Parser) option" where
  "fields_loop fs p = do {
     b \<leftarrow> check p RightBrace;
     if b then Some (fs, p)
     else do {
       r \<leftarrow> parse_field p;
       (fs, p) \<leftarrow> keep_or_skip fs (bits_of Comma OR bits_of Ident OR bits_of RightBrace) r;
       (b, p) \<leftarrow> match p Comma;
       if b then fields_loop fs p else Some (fs, p)
     }
   }"
  by pat_completeness auto
termination
proof (relation "measure (\<lambda>(_, p). length (p_tokens p) - p_current p)", goal_cases)
  case (2 fs p b r s fs' p1 c b' p2)
  obtain f q where r: "r = (f, q)" by fastforce
  have "forward p q" using onward_field(2) [of p] 2(3) r by simp
  moreover have "forward q p1" using 2(4,5) r keep_or_skip_forward by metis
  moreover have "p_current p2 = Suc (p_current p1)" "forward p1 p2"
    using 2(6-8) match_step [of p1 Comma p2] match_forward [of p1 Comma b' p2] by auto
  moreover have "p_current p < length (p_tokens p)"
    using 2(1) by (auto simp: check_def peek_def split: bind_splits if_splits)
  ultimately show ?case by (auto simp: forward_def)
qed simp

declare fields_loop.simps [simp del]

lemma fields_loop_forward: "fields_loop fs p = Some (fs', p') \<Longrightarrow> forward p p'"
proof (induction fs p arbitrary: fs' p' rule: fields_loop.induct)
  case (1 fs p)
  note eq = 1(2) [unfolded fields_loop.simps [of fs p]]
  then obtain b where b: "check p RightBrace = Some b" by (auto split: bind_splits)
  show ?case
  proof (cases b)
    case True
    then show ?thesis using eq b by simp
  next
    case False
    then obtain f q where f: "parse_field p = Some (f, q)" using eq b by (auto split: bind_splits)
    then obtain fs1 p1 where k: "keep_or_skip fs (bits_of Comma OR bits_of Ident OR bits_of RightBrace) (f, q) = Some (fs1, p1)"
      using eq b False by (auto split: bind_splits)
    then obtain c p2 where m: "match p1 Comma = Some (c, p2)" using eq b False f by (auto split: bind_splits)
    have "forward p2 p'"
    proof (cases c)
      case True
      then show ?thesis using 1(1) [OF b False f k refl m refl True] eq b False f k m by simp
    next
      case False
      then show ?thesis using eq b \<open>\<not> b\<close> f k m by simp
    qed
    moreover have "forward p q" using onward_field(2) [of p] f by simp
    ultimately show ?thesis
      using keep_or_skip_forward [OF k] match_forward [OF m] forward_trans by blast
  qed
qed

section \<open>Declarations\<close>

definition parse_message :: "Parser \<Rightarrow> AstMessage presult" where
  "parse_message p = do {
     st \<leftarrow> parser_loc p;
     bubble (consume p Ident) (\<lambda>name p.
     bubble (consume p LeftBrace) (\<lambda>_ p. do {
       (fs, p) \<leftarrow> fields_loop [] p;
       bubble (consume p RightBrace) (\<lambda>_ p. do {
         s \<leftarrow> span_end p st;
         Some (Some (ast_message s name fs), p)
       })
     }))
   }"

definition parse_attribute :: "Parser \<Rightarrow> AstAttribute presult" where
  "parse_attribute p = do {
     st \<leftarrow> parser_loc p;
     bubble (consume p Hash) (\<lambda>_ p.
     bubble (consume p LeftBracket) (\<lambda>_ p.
     bubble (consume p Ident) (\<lambda>ident p.
     bubble (consume p RightBracket) (\<lambda>_ p. do {
       s \<leftarrow> span_end p st;
       Some (Some (ast_attribute s ident), p)
     }))))
   }"

definition parse_attribute_or_message :: "Parser \<Rightarrow> AstAttributeOrMessage presult" where
  "parse_attribute_or_message p = do {
     b \<leftarrow> check p Hash;
     if b then bubble (parse_attribute p) (\<lambda>x p. Some (Some (ATAttribute x), p))
     else do {
       b \<leftarrow> check p Ident;
       if b then bubble (parse_message p) (\<lambda>x p. Some (Some (ATMessage x), p))
       else do {
         t \<leftarrow> peek p;
         Some (None, add_error p (err_expected (bits_of Hash OR bits_of Ident) (span t)))
       }
     }
   }"

definition parse_version :: "Parser \<Rightarrow> AstVersion presult" where
  "parse_version p = do {
     st \<leftarrow> parser_loc p;
     bubble (consume p Version) (\<lambda>_ p.
     bubble (consume p LeftParen) (\<lambda>_ p.
     bubble (parse_number p) (\<lambda>ver p.
     bubble (consume p RightParen) (\<lambda>_ p.
     bubble (consume p Semicolon) (\<lambda>_ p. do {
       s \<leftarrow> span_end p st;
       Some (Some (ast_version s ver), p)
     })))))
   }"

definition parse_struct :: "Parser \<Rightarrow> AstStruct presult" where
  "parse_struct p = do {
     st \<leftarrow> parser_loc p;
     bubble (consume p Struct) (\<lambda>_ p.
     bubble (consume p Ident) (\<lambda>name p.
     bubble (consume p LeftBrace) (\<lambda>_ p. do {
       (fs, p) \<leftarrow> fields_loop [] p;
       bubble (consume p RightBrace) (\<lambda>_ p. do {
         s \<leftarrow> span_end p st;
         Some (Some (ast_struct s name fs), p)
       })
     })))
   }"

definition parse_type_decl :: "Parser \<Rightarrow> AstTypeDecl presult" where
  "parse_type_decl p = do {
     st \<leftarrow> parser_loc p;
     bubble (consume p Type) (\<lambda>_ p.
     bubble (consume p Ident) (\<lambda>name p.
     bubble (consume p Equal) (\<lambda>_ p.
     bubble (parse_type p) (\<lambda>ty p.
     bubble (consume p Semicolon) (\<lambda>_ p. do {
       s \<leftarrow> span_end p st;
       Some (Some (ast_type_decl s name ty), p)
     })))))
   }"

definition parse_constant :: "Parser \<Rightarrow> AstConstant presult" where
  "parse_constant p = do {
     st \<leftarrow> parser_loc p;
     bubble (consume p Const) (\<lambda>_ p.
     bubble (consume p Ident) (\<lambda>name p.
     bubble (consume p Equal) (\<lambda>_ p.
     bubble (parse_number p) (\<lambda>value p.
     bubble (consume p Semicolon) (\<lambda>_ p. do {
       s \<leftarrow> span_end p st;
       Some (Some (ast_constant s name value), p)
     })))))
   }"

partial_function (option) messages_loop ::
    "AstAttributeOrMessage list \<Rightarrow> Parser \<Rightarrow> (AstAttributeOrMessage list \<times> Parser) option" where
  "messages_loop cs p = do {
     (b, p) \<leftarrow> match p RightBrace;
     if b then Some (cs, p)
     else do {
       r \<leftarrow> parse_attribute_or_message p;
       (cs, p) \<leftarrow> keep_or_skip cs (bits_of RightBrace OR bits_of Hash OR bits_of Ident) r;
       messages_loop cs p
     }
   }"

definition parse_messages :: "Parser \<Rightarrow> AstMessages presult" where
  "parse_messages p = do {
     st \<leftarrow> parser_loc p;
     bubble (consume p Messages) (\<lambda>_ p.
     bubble (consume p Ident) (\<lambda>name p.
     bubble (consume p LeftBrace) (\<lambda>_ p. do {
       (cs, p) \<leftarrow> messages_loop [] p;
       s \<leftarrow> span_end p st;
       Some (Some (ast_messages s name cs), p)
     })))
   }"

definition parse_item :: "Parser \<Rightarrow> AstItem presult" where
  "parse_item p = do {
     t \<leftarrow> peek p;
     case t_type t of
       Version \<Rightarrow> bubble (parse_version p) (\<lambda>x p. Some (Some (ATVersion x), p))
     | Struct \<Rightarrow> bubble (parse_struct p) (\<lambda>x p. Some (Some (ATStruct x), p))
     | Type \<Rightarrow> bubble (parse_type_decl p) (\<lambda>x p. Some (Some (ATTypeDecl x), p))
     | Messages \<Rightarrow> bubble (parse_messages p) (\<lambda>x p. Some (Some (ATMessages x), p))
     | Const \<Rightarrow> bubble (parse_constant p) (\<lambda>x p. Some (Some (ATConstant x), p))
     | _ \<Rightarrow> do { (_, p) \<leftarrow> advance p; Some (None, p) }
   }"

text \<open>The declarations go onward, and an item takes a token at least.\<close>

lemma onward_then: "onward p r \<Longrightarrow> onward p (bubble r (\<lambda>x p. Some (Some (f x), p)))"
  by (rule onward_bubble) simp_all

lemma onward_finish: "onward p (Option.bind (span_end p st) (\<lambda>s. Some (Some (f s), p)))"
  by (rule onward_bind) simp

lemmas onward_rules = onward_bubble onward_consume onward_atoms onward_field onward_finish onward_bind

lemma onward_fields_block:
  "onward p (Option.bind (fields_loop [] p) (\<lambda>(fs, p). bubble (consume p RightBrace) (\<lambda>_ p.
     Option.bind (span_end p st) (\<lambda>s. Some (Some (f s fs), p)))))"
proof (rule onward_bind, clarify)
  fix fs q assume "fields_loop [] p = Some (fs, q)"
  then have "forward p q" by (rule fields_loop_forward)
  then show "onward p (bubble (consume q RightBrace) (\<lambda>_ p. Option.bind (span_end p st) (\<lambda>s. Some (Some (f s fs), p))))"
    by (rule onward_forward [rotated]) (intro onward_rules)
qed

lemma onward_child: "onward p (parse_attribute_or_message p)"
proof -
  have "onward p (parse_attribute p)"
    unfolding parse_attribute_def by (rule onward_bind) (intro onward_rules)
  moreover have "onward p (parse_message p)"
    unfolding parse_message_def
    by (rule onward_bind) (intro onward_bubble onward_consume onward_fields_block)
  ultimately show ?thesis
    unfolding parse_attribute_or_message_def
    by (intro onward_bind) (auto intro!: onward_then onward_bind)
qed

lemma messages_loop_forward: "messages_loop cs p = Some r \<Longrightarrow> forward p (snd r)"
proof (erule messages_loop.raw_induct [where P = "\<lambda>cs p r. forward p (snd r)", rotated])
  fix rec cs p r
  assume IH: "\<And>cs p r. rec cs p = Some r \<Longrightarrow> forward p (snd r)"
    and eq: "Option.bind (match p RightBrace) (\<lambda>(b, p). if b then Some (cs, p)
      else Option.bind (parse_attribute_or_message p) (\<lambda>r.
        Option.bind (keep_or_skip cs (bits_of RightBrace OR bits_of Hash OR bits_of Ident) r) (\<lambda>(cs, p). rec cs p))) = Some r"
  obtain b p1 where m: "match p RightBrace = Some (b, p1)" using eq by (auto split: bind_splits)
  show "forward p (snd r)"
  proof (cases b)
    case True
    then have "r = (cs, p1)" using eq m by simp
    then show ?thesis using match_forward [OF m] by simp
  next
    case False
    then obtain x p2 where c: "parse_attribute_or_message p1 = Some (x, p2)" using eq m by (auto split: bind_splits)
    then obtain cs' p3 where k: "keep_or_skip cs (bits_of RightBrace OR bits_of Hash OR bits_of Ident) (x, p2) = Some (cs', p3)"
      using eq m False by (auto split: bind_splits)
    then have "rec cs' p3 = Some r" using eq m False c by simp
    from IH [OF this] have "forward p3 (snd r)" .
    moreover have "forward p1 p2" using onward_child [of p1] c by simp
    ultimately show ?thesis
      using match_forward [OF m] keep_or_skip_forward [OF k] forward_trans by blast
  qed
qed

definition further :: "Parser \<Rightarrow> 'a presult \<Rightarrow> bool" where
  "further p r \<longleftrightarrow> (\<forall>x p'. r = Some (x, p') \<longrightarrow> p_tokens p' = p_tokens p \<and> p_current p < p_current p')"

lemma further_bubble:
  assumes "further p r" and "\<And>x q. onward q (k x q)"
  shows "further p (bubble r k)"
proof (unfold further_def, intro allI impI)
  fix x p' assume "bubble r k = Some (x, p')"
  from bubble_Some [OF this] show "p_tokens p' = p_tokens p \<and> p_current p < p_current p'"
  proof (elim disjE exE conjE)
    fix y q assume r: "r = Some (Some y, q)" and k: "k y q = Some (x, p')"
    have "forward q p'" using assms(2) [of q y] k by simp
    then show ?thesis using assms(1) r by (auto simp: further_def forward_def)
  qed (use assms(1) in \<open>auto simp: further_def\<close>)
qed

lemma further_advance:
  assumes "peek p = Some t" and "t_type t \<noteq> Eof" and "advance p = Some (u, q)"
  shows "p_tokens q = p_tokens p \<and> p_current p < p_current q"
  using advance_step [OF assms(3,1,2)] advance_forward [OF assms(3)] by (simp add: forward_def)

lemma further_consume:
  assumes "peek p = Some t" and "t_type t = ty" and "ty \<noteq> Eof"
  shows "further p (consume p ty)"
proof (unfold further_def, intro allI impI)
  fix x q assume "consume p ty = Some (x, q)"
  then obtain u where "advance p = Some (u, q)"
    using assms(1,2) by (auto simp: consume_def split: bind_splits)
  then show "p_tokens q = p_tokens p \<and> p_current p < p_current q"
    using further_advance assms by blast
qed

lemma further_then: "further p r \<Longrightarrow> further p (bubble r (\<lambda>x p. Some (Some (f x), p)))"
  by (rule further_bubble) simp_all

lemma further_loc:
  "(\<And>st. further p (k st)) \<Longrightarrow> further p (Option.bind (parser_loc p) k)"
  by (cases "parser_loc p") (simp_all add: further_def)

lemma further_item:
  assumes "peek p = Some t" and "t_type t \<noteq> Eof"
  shows "further p (parse_item p)"
proof -
  have block: "onward q (Option.bind (messages_loop [] q) (\<lambda>(cs, p). Option.bind (span_end p st) (\<lambda>s. Some (Some (f s cs), p))))"
    for q st and f :: "Span \<Rightarrow> AstAttributeOrMessage list \<Rightarrow> 'a"
  proof (rule onward_bind, clarify)
    fix cs r assume "messages_loop [] q = Some (cs, r)"
    from messages_loop_forward [OF this] have "forward q r" by simp
    then show "onward q (Option.bind (span_end r st) (\<lambda>s. Some (Some (f s cs), r)))"
      by (rule onward_forward [rotated]) (rule onward_finish)
  qed
  note rules = further_loc further_bubble further_consume [OF assms(1)] onward_rules onward_fields_block block
  have "further p (Option.bind (advance p) (\<lambda>(_, p). Some (None :: AstItem option, p)))"
    by (cases "advance p") (auto simp: further_def dest: further_advance [OF assms])
  moreover have "t_type t = Version \<Longrightarrow> further p (parse_version p)"
    unfolding parse_version_def by (intro rules) simp_all
  moreover have "t_type t = Struct \<Longrightarrow> further p (parse_struct p)"
    unfolding parse_struct_def by (intro further_loc further_bubble further_consume [OF assms(1)] onward_bubble onward_consume onward_fields_block) simp_all
  moreover have "t_type t = Type \<Longrightarrow> further p (parse_type_decl p)"
    unfolding parse_type_decl_def by (intro rules) simp_all
  moreover have "t_type t = Const \<Longrightarrow> further p (parse_constant p)"
    unfolding parse_constant_def by (intro rules) simp_all
  moreover have "t_type t = Messages \<Longrightarrow> further p (parse_messages p)"
    unfolding parse_messages_def by (intro further_loc further_bubble further_consume [OF assms(1)] onward_bubble onward_consume block) simp_all
  ultimately show ?thesis
    unfolding parse_item_def assms(1) by (cases "t_type t") (simp_all add: further_then)
qed

function items_loop :: "AstItem list \<Rightarrow> Parser \<Rightarrow> (AstItem list \<times> Parser) option" where
  "items_loop items p = do {
     b \<leftarrow> check p Eof;
     if b then Some (items, p)
     else do {
       r \<leftarrow> parse_item p;
       (items, p) \<leftarrow> keep_or_skip items
         (bits_of Version OR bits_of Struct OR bits_of Type OR bits_of Messages OR bits_of Const) r;
       items_loop items p
     }
   }"
  by pat_completeness auto
termination
proof (relation "measure (\<lambda>(_, p). length (p_tokens p) - p_current p)", goal_cases)
  case (2 items p b r s items' p1)
  obtain x q where r: "r = (x, q)" by fastforce
  obtain t where t: "peek p = Some t" "t_type t \<noteq> Eof"
    using 2(1,2) by (auto simp: check_def split: bind_splits if_splits)
  have "p_tokens q = p_tokens p" "p_current p < p_current q"
    using further_item [OF t] 2(3) r by (auto simp: further_def)
  moreover have "forward q p1" using 2(4,5) r keep_or_skip_forward by metis
  moreover have "p_current p < length (p_tokens p)" using t(1) by (auto simp: peek_def split: if_splits)
  ultimately show ?case by (auto simp: forward_def)
qed simp

declare items_loop.simps [simp del]

definition parse_items :: "Parser \<Rightarrow> (AstItems \<times> Parser) option" where
  "parse_items p = do {
     st \<leftarrow> parser_loc p;
     (items, p) \<leftarrow> items_loop [] p;
     s \<leftarrow> span_end p st;
     Some (ast_items s items, p)
   }"

text \<open>The root and the errors.\<close>

definition parse :: "Token list \<Rightarrow> (AstItems \<times> ParsingError list) option" where
  "parse ts = do {
     (items, p) \<leftarrow> parse_items (parser_init ts);
     Some (items, p_errors p)
   }"

end
