(* ===== verification/Parser_Correct.thy ===== *)
theory Parser_Correct
  imports Parser Lexer_Correct
begin

text \<open>
  What the parser computes: the tree of every schema of the grammar, from its tokens and, with
  the lexer, from its text.
\<close>

section \<open>The grammar\<close>

datatype SNum = SLit "byte list" | SRef "byte list"

datatype SSize = SMax SNum | SFixed SNum | SNone

text \<open>A type is a name with its array suffixes, each on the heap or not.\<close>

type_synonym SType = "byte list \<times> (bool \<times> SSize) list"
type_synonym SField = "byte list \<times> SType"

datatype SChild = SAttribute "byte list" | SMessage "byte list" "SField list"

datatype SItem =
  SVersion SNum
| SStruct "byte list" "SField list"
| STypeDecl "byte list" SType
| SConst "byte list" SNum
| SMessages "byte list" "SChild list"

fun num_lexemes :: "SNum \<Rightarrow> Lexeme list" where
  "num_lexemes (SLit ds) = [Num ds]"
| "num_lexemes (SRef n) = [Word n]"

fun size_lexemes :: "SSize \<Rightarrow> Lexeme list" where
  "size_lexemes (SMax n) = Sym Caret # num_lexemes n"
| "size_lexemes (SFixed n) = num_lexemes n"
| "size_lexemes SNone = []"

definition suffix_lexemes :: "bool \<times> SSize \<Rightarrow> Lexeme list" where
  "suffix_lexemes = (\<lambda>(heap, sz). (if heap \<and> sz \<noteq> SNone then [Sym Ampersand] else [])
     @ Sym LeftBracket # size_lexemes sz @ [Sym RightBracket])"

definition type_lexemes :: "SType \<Rightarrow> Lexeme list" where
  "type_lexemes ty = Word (fst ty) # concat (map suffix_lexemes (snd ty))"

definition field_lexemes :: "SField \<Rightarrow> Lexeme list" where
  "field_lexemes f = Word (fst f) # Sym Colon # type_lexemes (snd f)"

text \<open>Fields are separated by commas; \<open>trail\<close> is a comma after the last one.\<close>

fun fields_lexemes :: "bool \<Rightarrow> SField list \<Rightarrow> Lexeme list" where
  "fields_lexemes trail [] = []"
| "fields_lexemes trail [f] = field_lexemes f @ (if trail then [Sym Comma] else [])"
| "fields_lexemes trail (f # fs) = field_lexemes f @ Sym Comma # fields_lexemes trail fs"

fun child_lexemes :: "bool \<Rightarrow> SChild \<Rightarrow> Lexeme list" where
  "child_lexemes trail (SAttribute n) = [Sym Hash, Sym LeftBracket, Word n, Sym RightBracket]"
| "child_lexemes trail (SMessage n fs) = Word n # Sym LeftBrace # fields_lexemes trail fs @ [Sym RightBrace]"

fun item_lexemes :: "bool \<Rightarrow> SItem \<Rightarrow> Lexeme list" where
  "item_lexemes trail (SVersion n) = Word kw_version # Sym LeftParen # num_lexemes n @ [Sym RightParen, Sym Semicolon]"
| "item_lexemes trail (SStruct n fs) =
     Word kw_struct # Word n # Sym LeftBrace # fields_lexemes trail fs @ [Sym RightBrace]"
| "item_lexemes trail (STypeDecl n ty) = Word kw_type # Word n # Sym Equal # type_lexemes ty @ [Sym Semicolon]"
| "item_lexemes trail (SConst n v) = Word kw_const # Word n # Sym Equal # num_lexemes v @ [Sym Semicolon]"
| "item_lexemes trail (SMessages n cs) =
     Word kw_messages # Word n # Sym LeftBrace # concat (map (child_lexemes trail) cs) @ [Sym RightBrace]"

text \<open>Names are not keywords; a size left out makes the array a heap array.\<close>

definition name_ok :: "byte list \<Rightarrow> bool" where
  "name_ok n \<longleftrightarrow> word_type n = Ident"

fun num_ok :: "SNum \<Rightarrow> bool" where
  "num_ok (SLit ds) = True"
| "num_ok (SRef n) = name_ok n"

fun size_ok :: "SSize \<Rightarrow> bool" where
  "size_ok (SMax n) = num_ok n"
| "size_ok (SFixed n) = num_ok n"
| "size_ok SNone = True"

definition type_ok :: "SType \<Rightarrow> bool" where
  "type_ok ty \<longleftrightarrow> name_ok (fst ty) \<and> list_all (\<lambda>(heap, sz). size_ok sz \<and> (sz = SNone \<longrightarrow> heap)) (snd ty)"

definition field_ok :: "SField \<Rightarrow> bool" where
  "field_ok f \<longleftrightarrow> name_ok (fst f) \<and> type_ok (snd f)"

fun child_ok :: "SChild \<Rightarrow> bool" where
  "child_ok (SAttribute n) = name_ok n"
| "child_ok (SMessage n fs) \<longleftrightarrow> name_ok n \<and> list_all field_ok fs"

fun item_ok :: "SItem \<Rightarrow> bool" where
  "item_ok (SVersion n) = num_ok n"
| "item_ok (SStruct n fs) \<longleftrightarrow> name_ok n \<and> list_all field_ok fs"
| "item_ok (STypeDecl n ty) \<longleftrightarrow> name_ok n \<and> type_ok ty"
| "item_ok (SConst n v) \<longleftrightarrow> name_ok n \<and> num_ok v"
| "item_ok (SMessages n cs) \<longleftrightarrow> name_ok n \<and> list_all child_ok cs"

section \<open>The schema of a tree\<close>

text \<open>A number that is no name stands for its digits when its token carries their value, and for no
  literal otherwise.\<close>

definition abs_number :: "AstNumber \<Rightarrow> SNum" where
  "abs_number n =
    (let t = num_token n in
     if t_type t = Ident then SRef (token_text t)
     else if t_type t = Number \<and> lit t = lexeme_lit (Num (token_text t)) then SLit (token_text t)
     else SLit [])"

fun abs_size :: "AstSize \<Rightarrow> SSize" where
  "abs_size (ATMaxSize _ n) = SMax (abs_number n)"
| "abs_size (ATFixedSize _ n) = SFixed (abs_number n)"
| "abs_size (ATNoSize _) = SNone"

fun abs_type :: "AstType \<Rightarrow> SType" where
  "abs_type (ATIdent i) = (token_text (id_token i), [])"
| "abs_type (ATHeapArray _ ty sz) = (fst (abs_type ty), snd (abs_type ty) @ [(True, abs_size sz)])"
| "abs_type (ATFieldArray _ ty sz) = (fst (abs_type ty), snd (abs_type ty) @ [(False, abs_size sz)])"

definition abs_field :: "AstField \<Rightarrow> SField" where
  "abs_field f = (token_text (fd_name f), abs_type (fd_type f))"

fun abs_child :: "AstAttributeOrMessage \<Rightarrow> SChild" where
  "abs_child (ATAttribute a) = SAttribute (token_text (at_ident a))"
| "abs_child (ATMessage m) = SMessage (token_text (mg_ident m)) (map abs_field (mg_fields m))"

fun abs_item :: "AstItem \<Rightarrow> SItem" where
  "abs_item (ATVersion v) = SVersion (abs_number (ver_number v))"
| "abs_item (ATStruct s) = SStruct (token_text (st_ident s)) (map abs_field (st_fields s))"
| "abs_item (ATTypeDecl d) = STypeDecl (token_text (td_name d)) (abs_type (td_value d))"
| "abs_item (ATConstant c) = SConst (token_text (co_name c)) (abs_number (co_value c))"
| "abs_item (ATMessages m) = SMessages (token_text (ms_name m)) (map abs_child (ms_children m))"

section \<open>Following the tokens\<close>

definition sees :: "Parser \<Rightarrow> Lexeme list \<Rightarrow> bool" where
  "sees p xs \<longleftrightarrow> map summary (drop (p_current p) (p_tokens p)) = map expected xs @ [(Eof, [], 0)]
     \<and> list_all (\<lambda>l. lexeme_type l \<noteq> Eof) xs"

definition yields :: "'a presult \<Rightarrow> Lexeme list \<Rightarrow> ParsingError list \<Rightarrow> ('a \<Rightarrow> bool) \<Rightarrow> bool" where
  "yields r xs es P \<longleftrightarrow> (\<exists>x p. r = Some (Some x, p) \<and> sees p xs \<and> p_errors p = es \<and> 0 < p_current p \<and> P x)"

lemma sees_inside: "sees p xs \<Longrightarrow> p_current p < length (p_tokens p)"
  unfolding sees_def by (metis append_is_Nil_conv drop_eq_Nil list.map_disc_iff list.distinct(1) not_le)

lemma sees_Cons:
  assumes "sees p (l # xs)"
  obtains t where "peek p = Some t" and "summary t = expected l" and "t_type t \<noteq> Eof" and "t_type t = lexeme_type l"
    and "sees (p\<lparr>p_current := Suc (p_current p)\<rparr>) xs"
proof -
  have lt: "p_current p < length (p_tokens p)" by (rule sees_inside [OF assms])
  let ?t = "p_tokens p ! p_current p"
  have s: "summary ?t = expected l" "map summary (drop (Suc (p_current p)) (p_tokens p)) = map expected xs @ [(Eof, [], 0)]"
    using assms lt unfolding sees_def by (simp_all add: Cons_nth_drop_Suc [symmetric])
  moreover have "t_type ?t = lexeme_type l" using s(1) by (simp add: summary_def expected_def)
  ultimately show ?thesis
    using that [of ?t] assms lt by (simp add: sees_def peek_def)
qed

lemma sees_Nil:
  assumes "sees p []"
  obtains t where "peek p = Some t" and "t_type t = Eof"
proof -
  have lt: "p_current p < length (p_tokens p)" by (rule sees_inside [OF assms])
  then have "summary (p_tokens p ! p_current p) = (Eof, [], 0)"
    using assms unfolding sees_def by (simp add: Cons_nth_drop_Suc [symmetric])
  then show ?thesis using that lt by (simp add: peek_def summary_def)
qed

lemma sees_advance:
  assumes "sees p (l # xs)"
  obtains t where "advance p = Some (t, p\<lparr>p_current := Suc (p_current p)\<rparr>)" and "summary t = expected l"
    and "t_type t = lexeme_type l" and "sees (p\<lparr>p_current := Suc (p_current p)\<rparr>) xs"
proof -
  obtain t where t: "peek p = Some t" "summary t = expected l" "t_type t \<noteq> Eof" "t_type t = lexeme_type l"
    "sees (p\<lparr>p_current := Suc (p_current p)\<rparr>) xs" by (rule sees_Cons [OF assms])
  have "previous (p\<lparr>p_current := Suc (p_current p)\<rparr>) = Some t"
    using t(1) by (auto simp: peek_def previous_def split: if_splits)
  then show ?thesis using that [of t] t by (simp add: advance_def)
qed

lemma sees_check:
  "sees p (l # xs) \<Longrightarrow> check p ty = Some (lexeme_type l = ty)"
  by (erule sees_Cons) (auto simp: check_def)

lemma sees_check_end: "sees p [] \<Longrightarrow> check p ty = Some (ty = Eof)"
  by (erule sees_Nil) (simp add: check_def)

lemma sees_match:
  assumes "sees p (l # xs)"
  shows "match p ty = Some (if lexeme_type l = ty then (True, p\<lparr>p_current := Suc (p_current p)\<rparr>) else (False, p))"
  by (rule sees_advance [OF assms]) (simp add: match_def sees_check [OF assms])

lemma yields_bubble:
  assumes "yields r xs es P"
    and "\<And>x p. sees p xs \<Longrightarrow> p_errors p = es \<Longrightarrow> 0 < p_current p \<Longrightarrow> P x \<Longrightarrow> yields (k x p) ys es Q"
  shows "yields (bubble r k) ys es Q"
  using assms unfolding yields_def bubble_def by fastforce

lemma yields_consume:
  assumes "sees p (l # xs)" and "lexeme_type l = ty"
  shows "yields (consume p ty) xs (p_errors p) (\<lambda>t. summary t = expected l)"
  by (rule sees_Cons [OF assms(1)], rule sees_advance [OF assms(1)])
    (use assms(2) in \<open>auto simp: consume_def yields_def\<close>)

lemma yields_symbol:
  "sees p (Sym ty # xs) \<Longrightarrow> p_errors p = es \<Longrightarrow> yields (consume p ty) xs es (\<lambda>t. True)"
  using yields_consume [of p "Sym ty" xs ty] by (auto simp: yields_def)

lemma yields_name:
  "sees p (Word n # xs) \<Longrightarrow> name_ok n \<Longrightarrow> p_errors p = es \<Longrightarrow> yields (consume p Ident) xs es (\<lambda>t. token_text t = n)"
  using yields_consume [of p "Word n" xs Ident]
  by (auto simp: yields_def name_ok_def summary_def expected_def token_text_def)

lemma yields_loc:
  assumes "sees p (l # xs)" and "\<And>st. yields (k st) ys es P"
  shows "yields (Option.bind (parser_loc p) k) ys es P"
  by (rule sees_Cons [OF assms(1)]) (simp add: parser_loc_def assms(2))

lemma span_end_Some: "sees p xs \<Longrightarrow> 0 < p_current p \<Longrightarrow> \<exists>s. span_end p st = Some s"
  by (drule sees_inside) (auto simp: span_end_def previous_def Let_def)

lemma yields_finish:
  assumes "sees p xs" and "p_errors p = es" and "0 < p_current p" and "\<And>s. P (f s)"
  shows "yields (Option.bind (span_end p st) (\<lambda>s. Some (Some (f s), p))) xs es P"
  using span_end_Some [OF assms(1,3), of st] assms by (auto simp: yields_def)

section \<open>Numbers, types and fields\<close>

lemma yields_number:
  assumes "sees p (num_lexemes n @ xs)" and "num_ok n" and "p_errors p = es"
  shows "yields (parse_number p) xs es (\<lambda>x. abs_number x = n)"
proof (cases n)
  case (SLit ds)
  then have "sees p (Num ds # xs)" using assms(1) by simp
  then show ?thesis
    by (rule sees_advance) (use SLit assms(3) in \<open>auto simp: parse_number_def yields_def abs_number_def ast_number_def
        token_text_def summary_def expected_def\<close>)
next
  case (SRef w)
  then have "sees p (Word w # xs)" using assms(1) by simp
  then show ?thesis
    by (rule sees_advance) (use SRef assms(2,3) in \<open>auto simp: parse_number_def yields_def abs_number_def ast_number_def
        token_text_def summary_def expected_def name_ok_def\<close>)
qed

lemma num_lexemes_hd:
  assumes "num_ok n"
  obtains l ls where "num_lexemes n = l # ls" and "lexeme_type l \<noteq> RightBracket" and "lexeme_type l \<noteq> Caret"
  using assms that by (cases n) (auto simp: name_ok_def)

lemma yields_size:
  assumes "sees p (size_lexemes sz @ Sym RightBracket # xs)" and "size_ok sz" and "p_errors p = es" and "0 < p_current p"
  shows "yields (parse_size p) (Sym RightBracket # xs) es (\<lambda>x. abs_size x = sz)"
proof (cases sz)
  case SNone
  then have s: "sees p (Sym RightBracket # xs)" using assms(1) by simp
  show ?thesis
    unfolding parse_size_def
    by (rule yields_loc [OF s]) (use sees_check [OF s] s assms(3,4) SNone in \<open>auto simp: ast_no_size_def intro!: yields_finish\<close>)
next
  case (SMax n)
  then have s: "sees p (Sym Caret # num_lexemes n @ Sym RightBracket # xs)" using assms(1) by simp
  let ?p = "p\<lparr>p_current := Suc (p_current p)\<rparr>"
  have s': "sees ?p (num_lexemes n @ Sym RightBracket # xs)" by (rule sees_advance [OF s])
  show ?thesis
    unfolding parse_size_def
  proof (rule yields_loc [OF s])
    fix st
    have "yields (bubble (parse_number ?p) (\<lambda>size p. Option.bind (span_end p st) (\<lambda>s. Some (Some (ast_max_size s size), p))))
        (Sym RightBracket # xs) es (\<lambda>x. abs_size x = sz)"
      by (rule yields_bubble [OF yields_number [OF s']])
        (use assms(2,3) SMax in \<open>auto intro!: yields_finish simp: ast_max_size_def\<close>)
    then show "yields (Option.bind (check p RightBracket) (\<lambda>b. if b then Option.bind (span_end p st) (\<lambda>s. Some (Some (ast_no_size s), p))
        else Option.bind (match p Caret) (\<lambda>(b, p). bubble (parse_number p) (\<lambda>size p. Option.bind (span_end p st)
          (\<lambda>s. Some (Some (if b then ast_max_size s size else ast_fixed_size s size), p)))))) (Sym RightBracket # xs) es (\<lambda>x. abs_size x = sz)"
      using sees_check [OF s] sees_match [OF s] by simp
  qed
next
  case (SFixed n)
  then obtain l ls where l: "num_lexemes n = l # ls" "lexeme_type l \<noteq> RightBracket" "lexeme_type l \<noteq> Caret"
    using assms(2) num_lexemes_hd by auto
  have s: "sees p (l # ls @ Sym RightBracket # xs)" and s': "sees p (num_lexemes n @ Sym RightBracket # xs)"
    using assms(1) SFixed l by simp_all
  show ?thesis
    unfolding parse_size_def
  proof (rule yields_loc [OF s])
    fix st
    have "yields (bubble (parse_number p) (\<lambda>size p. Option.bind (span_end p st) (\<lambda>s. Some (Some (ast_fixed_size s size), p))))
        (Sym RightBracket # xs) es (\<lambda>x. abs_size x = sz)"
      by (rule yields_bubble [OF yields_number [OF s']])
        (use assms(2,3) SFixed in \<open>auto intro!: yields_finish simp: ast_fixed_size_def\<close>)
    then show "yields (Option.bind (check p RightBracket) (\<lambda>b. if b then Option.bind (span_end p st) (\<lambda>s. Some (Some (ast_no_size s), p))
        else Option.bind (match p Caret) (\<lambda>(b, p). bubble (parse_number p) (\<lambda>size p. Option.bind (span_end p st)
          (\<lambda>s. Some (Some (if b then ast_max_size s size else ast_fixed_size s size), p)))))) (Sym RightBracket # xs) es (\<lambda>x. abs_size x = sz)"
      using sees_check [OF s] sees_match [OF s] l by simp
  qed
qed

text \<open>What may follow a type, and the loop over its suffixes.\<close>

definition ends_type :: "Lexeme list \<Rightarrow> bool" where
  "ends_type xs \<longleftrightarrow> (\<exists>l ls. xs = l # ls \<and> lexeme_type l \<noteq> Ampersand \<and> lexeme_type l \<noteq> LeftBracket)"

lemma yields_brackets:
  assumes "sees p (Sym LeftBracket # size_lexemes sz @ Sym RightBracket # xs)" and "size_ok sz" and "p_errors p = es"
    and "\<And>size p s. sees p xs \<Longrightarrow> p_errors p = es \<Longrightarrow> 0 < p_current p \<Longrightarrow> abs_size size = sz \<Longrightarrow>
      yields (k s size p) ys es Q"
  shows "yields (bubble (consume p LeftBracket) (\<lambda>_ p. bubble (parse_size p) (\<lambda>size p.
    bubble (consume p RightBracket) (\<lambda>_ p. Option.bind (span_end p st) (\<lambda>s. k s size p))))) ys es Q"
proof (rule yields_bubble [OF yields_symbol [OF assms(1,3)]])
  fix p :: Parser assume p: "sees p (size_lexemes sz @ Sym RightBracket # xs)" "p_errors p = es" "0 < p_current p"
  show "yields (bubble (parse_size p) (\<lambda>size p. bubble (consume p RightBracket) (\<lambda>_ p.
      Option.bind (span_end p st) (\<lambda>s. k s size p)))) ys es Q"
  proof (rule yields_bubble [OF yields_size [OF p(1) assms(2) p(2,3)]])
    fix size and p :: Parser assume p: "sees p (Sym RightBracket # xs)" "p_errors p = es" and size: "abs_size size = sz"
    show "yields (bubble (consume p RightBracket) (\<lambda>_ p. Option.bind (span_end p st) (\<lambda>s. k s size p))) ys es Q"
    proof (rule yields_bubble [OF yields_symbol [OF p]])
      fix p :: Parser assume p: "sees p xs" "p_errors p = es" "0 < p_current p"
      then obtain s where "span_end p st = Some s" using span_end_Some by blast
      then show "yields (Option.bind (span_end p st) (\<lambda>s. k s size p)) ys es Q"
        using assms(4) [OF p size] by simp
    qed
  qed
qed

lemma yields_type_loop:
  assumes "sees p (concat (map suffix_lexemes sfx) @ xs)" and "ends_type xs" and "p_errors p = es" and "0 < p_current p"
    and "list_all (\<lambda>(heap, sz). size_ok sz \<and> (sz = SNone \<longrightarrow> heap)) sfx"
  shows "yields (type_loop st ty p) xs es (\<lambda>x. abs_type x = (fst (abs_type ty), snd (abs_type ty) @ sfx))"
  using assms
proof (induction sfx arbitrary: p ty)
  case Nil
  then obtain l ls where xs: "xs = l # ls" "lexeme_type l \<noteq> Ampersand" "lexeme_type l \<noteq> LeftBracket"
    by (auto simp: ends_type_def)
  have "sees p (l # ls)" using Nil.prems(1) xs by simp
  then obtain t where "peek p = Some t" "t_type t = lexeme_type l" by (rule sees_Cons)
  then have "type_loop st ty p = Some (Some ty, p)" using xs(2,3) by (subst type_loop.simps) simp
  then show ?case using Nil.prems by (simp add: yields_def)
next
  case (Cons h sfx)
  obtain heap sz where h: "h = (heap, sz)" by fastforce
  have ok: "size_ok sz" "sz = SNone \<longrightarrow> heap" and sfx: "list_all (\<lambda>(heap, sz). size_ok sz \<and> (sz = SNone \<longrightarrow> heap)) sfx"
    using Cons.prems(5) h by simp_all
  let ?rest = "Sym LeftBracket # size_lexemes sz @ Sym RightBracket # (concat (map suffix_lexemes sfx) @ xs)"
  let ?amp = "heap \<and> sz \<noteq> SNone"
  have step: "yields (bubble (consume q LeftBracket) (\<lambda>_ p. bubble (parse_size p) (\<lambda>size p.
      bubble (consume p RightBracket) (\<lambda>_ p. Option.bind (span_end p st) (\<lambda>s.
        type_loop st (if ?amp \<or> (case size of ATNoSize _ \<Rightarrow> True | _ \<Rightarrow> False) then ast_heap_array s ty size
          else ast_field_array s ty size) p))))) xs es
      (\<lambda>x. abs_type x = (fst (abs_type ty), snd (abs_type ty) @ h # sfx))"
    if q: "sees q ?rest" "p_errors q = es" for q
  proof (rule yields_brackets [OF q(1) ok(1) q(2)])
    fix size p s assume p: "sees p (concat (map suffix_lexemes sfx) @ xs)" "p_errors p = es" "0 < p_current p"
      and size: "abs_size size = sz"
    let ?ty = "if ?amp \<or> (case size of ATNoSize _ \<Rightarrow> True | _ \<Rightarrow> False) then ast_heap_array s ty size
          else ast_field_array s ty size"
    have "abs_type ?ty = (fst (abs_type ty), snd (abs_type ty) @ [h])"
      using size ok(2) h by (cases size) (auto simp: ast_heap_array_def ast_field_array_def)
    then show "yields (type_loop st ?ty p) xs es (\<lambda>x. abs_type x = (fst (abs_type ty), snd (abs_type ty) @ h # sfx))"
      using Cons.IH [OF p(1) Cons.prems(2) p(2,3) sfx, of ?ty] by simp
  qed
  show ?case
  proof (cases ?amp)
    case True
    then have s: "sees p (Sym Ampersand # ?rest)" using Cons.prems(1) h by (simp add: suffix_lexemes_def)
    obtain t where t: "peek p = Some t" "t_type t = Ampersand" by (rule sees_Cons [OF s]) simp
    have "sees (p\<lparr>p_current := Suc (p_current p)\<rparr>) ?rest" by (rule sees_advance [OF s])
    from step [OF this] show ?thesis
      using t sees_match [OF s, of Ampersand] Cons.prems(3) True by (subst type_loop.simps) simp
  next
    case False
    then have s: "sees p ?rest" using Cons.prems(1) h by (auto simp: suffix_lexemes_def)
    obtain t where t: "peek p = Some t" "t_type t = LeftBracket" by (rule sees_Cons [OF s]) simp
    from step [OF s Cons.prems(3)] show ?thesis
      using t sees_match [OF s, of Ampersand] False by (subst type_loop.simps) simp
  qed
qed

lemma yields_ident:
  assumes "sees p (Word n # xs)" and "name_ok n" and "p_errors p = es"
  shows "yields (parse_ident p) xs es (\<lambda>i. token_text (id_token i) = n)"
  by (rule sees_advance [OF assms(1)])
    (use assms(2,3) in \<open>auto simp: parse_ident_def yields_def ast_ident_def token_text_def summary_def expected_def name_ok_def\<close>)

lemma yields_type:
  assumes "sees p (type_lexemes ty @ xs)" and "type_ok ty" and "ends_type xs" and "p_errors p = es"
  shows "yields (parse_type p) xs es (\<lambda>x. abs_type x = ty)"
  unfolding parse_type_def
proof (rule yields_bubble [OF yields_ident])
  show "sees p (Word (fst ty) # concat (map suffix_lexemes (snd ty)) @ xs)" using assms(1) by (simp add: type_lexemes_def)
  show "name_ok (fst ty)" "p_errors p = es" using assms(2,4) by (simp_all add: type_ok_def)
next
  fix i :: AstIdent and p :: Parser
  assume p: "sees p (concat (map suffix_lexemes (snd ty)) @ xs)" "p_errors p = es" "0 < p_current p"
    and i: "token_text (id_token i) = fst ty"
  obtain l ls where "concat (map suffix_lexemes (snd ty)) @ xs = l # ls"
    using assms(3) by (cases "concat (map suffix_lexemes (snd ty)) @ xs") (auto simp: ends_type_def)
  then have s: "sees p (l # ls)" using p(1) by simp
  show "yields (Option.bind (parser_loc p) (\<lambda>st. type_loop st (ATIdent i) p)) xs es (\<lambda>x. abs_type x = ty)"
    by (rule yields_loc [OF s])
      (use yields_type_loop [OF p(1) assms(3) p(2,3), of _ "ATIdent i"] assms(2) i in \<open>simp add: type_ok_def\<close>)
qed

lemma yields_field:
  assumes "sees p (field_lexemes f @ xs)" and "field_ok f" and "ends_type xs" and "p_errors p = es"
  shows "yields (parse_field p) xs es (\<lambda>x. abs_field x = f)"
proof -
  have s: "sees p (Word (fst f) # Sym Colon # type_lexemes (snd f) @ xs)" using assms(1) by (simp add: field_lexemes_def)
  have ok: "name_ok (fst f)" "type_ok (snd f)" using assms(2) by (simp_all add: field_ok_def)
  show ?thesis
    unfolding parse_field_def
  proof (rule yields_loc [OF s], rule yields_bubble [OF yields_name [OF s ok(1) assms(4)]])
    fix st name and p :: Parser
    assume p: "sees p (Sym Colon # type_lexemes (snd f) @ xs)" "p_errors p = es" and n: "token_text name = fst f"
    show "yields (bubble (consume p Colon) (\<lambda>_ p. bubble (parse_type p) (\<lambda>ty p. Option.bind (span_end p st)
        (\<lambda>s. Some (Some (ast_field s name ty), p))))) xs es (\<lambda>x. abs_field x = f)"
      by (rule yields_bubble [OF yields_symbol [OF p]], rule yields_bubble [OF yields_type [OF _ ok(2) assms(3)]])
        (use n in \<open>auto intro!: yields_finish simp: ast_field_def abs_field_def\<close>)
  qed
qed

section \<open>Lists of fields and children\<close>

definition yields_list :: "('a list \<times> Parser) option \<Rightarrow> Lexeme list \<Rightarrow> ParsingError list \<Rightarrow> ('a list \<Rightarrow> bool) \<Rightarrow> bool" where
  "yields_list r xs es P \<longleftrightarrow> (\<exists>ys p. r = Some (ys, p) \<and> sees p xs \<and> p_errors p = es \<and> 0 < p_current p \<and> P ys)"

lemma yields_listD:
  assumes "yields_list r xs es P"
    and "\<And>ys p. sees p xs \<Longrightarrow> p_errors p = es \<Longrightarrow> 0 < p_current p \<Longrightarrow> P ys \<Longrightarrow> yields (k ys p) zs es Q"
  shows "yields (Option.bind r (\<lambda>(ys, p). k ys p)) zs es Q"
  using assms unfolding yields_list_def by auto

lemma yieldsE:
  assumes "yields r xs es P"
  obtains x p where "r = Some (Some x, p)" and "sees p xs" and "p_errors p = es" and "0 < p_current p" and "P x"
  using assms unfolding yields_def by blast

lemma ends_type_simps [simp]:
  "ends_type (Sym Comma # xs)" "ends_type (Sym RightBrace # xs)" "ends_type (Sym Semicolon # xs)"
  by (simp_all add: ends_type_def)

lemma fields_lexemes_Cons:
  "fields_lexemes trail (f # fs) = field_lexemes f
     @ (if fs = [] \<and> \<not> trail then [] else Sym Comma # fields_lexemes trail fs)"
  by (cases fs) auto

lemma yields_fields_loop:
  assumes "sees p (fields_lexemes trail fs @ Sym RightBrace # xs)" and "list_all field_ok fs" and "p_errors p = es"
    and "0 < p_current p"
  shows "yields_list (fields_loop acc p) (Sym RightBrace # xs) es (\<lambda>ys. map abs_field ys = map abs_field acc @ fs)"
  using assms
proof (induction fs arbitrary: p acc)
  case Nil
  then have s: "sees p (Sym RightBrace # xs)" by simp
  show ?case
    using sees_check [OF s, of RightBrace] s Nil.prems(3,4) by (subst fields_loop.simps) (simp add: yields_list_def)
next
  case (Cons f fs)
  let ?more = "\<not> (fs = [] \<and> \<not> trail)"
  let ?tail = "(if ?more then Sym Comma # fields_lexemes trail fs else []) @ Sym RightBrace # xs"
  have s: "sees p (field_lexemes f @ ?tail)" using Cons.prems(1) by (auto simp: fields_lexemes_Cons)
  have ok: "field_ok f" "list_all field_ok fs" using Cons.prems(2) by simp_all
  have c: "check p RightBrace = Some False"
    using sees_check [of p "Word (fst f)" _ RightBrace] s ok(1) by (simp add: field_lexemes_def field_ok_def name_ok_def)
  have "ends_type ?tail" by simp
  then obtain x q where x: "parse_field p = Some (Some x, q)" "sees q ?tail" "p_errors q = es" "0 < p_current q" "abs_field x = f"
    using yields_field [OF s ok(1) _ Cons.prems(3)] by (auto elim: yieldsE)
  show ?case
  proof (cases ?more)
    case True
    then have sq: "sees q (Sym Comma # fields_lexemes trail fs @ Sym RightBrace # xs)" using x(2) by simp
    let ?q = "q\<lparr>p_current := Suc (p_current q)\<rparr>"
    have "sees ?q (fields_lexemes trail fs @ Sym RightBrace # xs)" by (rule sees_advance [OF sq])
    from Cons.IH [OF this ok(2), of "acc @ [x]"] x(3,5)
    have "yields_list (fields_loop (acc @ [x]) ?q) (Sym RightBrace # xs) es (\<lambda>ys. map abs_field ys = map abs_field acc @ f # fs)"
      by simp
    then show ?thesis
      using c x(1) sees_match [OF sq, of Comma] by (subst fields_loop.simps) (simp add: keep_or_skip_def)
  next
    case False
    then have sq: "sees q (Sym RightBrace # xs)" using x(2) by simp
    show ?thesis
      using c x sq sees_match [OF sq, of Comma] False by (subst fields_loop.simps) (simp add: keep_or_skip_def yields_list_def)
  qed
qed

lemma yields_fields_block:
  assumes "sees p (fields_lexemes trail fs @ Sym RightBrace # xs)" and "list_all field_ok fs" and "p_errors p = es"
    and "0 < p_current p" and "\<And>s ys. map abs_field ys = fs \<Longrightarrow> Q (f s ys)"
  shows "yields (Option.bind (fields_loop [] p) (\<lambda>(fs, p). bubble (consume p RightBrace) (\<lambda>_ p.
     Option.bind (span_end p st) (\<lambda>s. Some (Some (f s fs), p))))) xs es Q"
proof (rule yields_listD [OF yields_fields_loop [OF assms(1-4)]])
  fix ys and p :: Parser
  assume p: "sees p (Sym RightBrace # xs)" "p_errors p = es" and ys: "map abs_field ys = map abs_field [] @ fs"
  show "yields (bubble (consume p RightBrace) (\<lambda>_ p. Option.bind (span_end p st) (\<lambda>s. Some (Some (f s ys), p)))) xs es Q"
    by (rule yields_bubble [OF yields_symbol [OF p]]) (use assms(5) ys in \<open>auto intro!: yields_finish\<close>)
qed

lemma yields_map:
  assumes "yields r xs es P" and "\<And>x. P x \<Longrightarrow> Q (f x)"
  shows "yields (bubble r (\<lambda>x p. Some (Some (f x), p))) xs es Q"
  by (rule yields_bubble [OF assms(1)]) (use assms(2) in \<open>auto simp: yields_def\<close>)

lemma yields_child:
  assumes "sees p (child_lexemes trail c @ xs)" and "child_ok c" and "p_errors p = es"
  shows "yields (parse_attribute_or_message p) xs es (\<lambda>x. abs_child x = c)"
proof (cases c)
  case (SAttribute n)
  then have s: "sees p (Sym Hash # Sym LeftBracket # Word n # Sym RightBracket # xs)" using assms(1) by simp
  have "yields (parse_attribute p) xs es (\<lambda>x. token_text (at_ident x) = n)"
    unfolding parse_attribute_def
    by (rule yields_loc [OF s], rule yields_bubble [OF yields_symbol [OF s assms(3)]],
        rule yields_bubble [OF yields_symbol], assumption+, rule yields_bubble [OF yields_name], assumption)
      (use assms(2) SAttribute in \<open>auto intro!: yields_bubble [OF yields_symbol] yields_finish simp: ast_attribute_def\<close>)
  from yields_map [OF this, of "\<lambda>x. abs_child x = c" ATAttribute] SAttribute sees_check [OF s]
  show ?thesis by (simp add: parse_attribute_or_message_def)
next
  case (SMessage n fs)
  then have s: "sees p (Word n # Sym LeftBrace # fields_lexemes trail fs @ Sym RightBrace # xs)"
    and ok: "name_ok n" "list_all field_ok fs" using assms(1,2) by simp_all
  have "yields (parse_message p) xs es (\<lambda>m. token_text (mg_ident m) = n \<and> map abs_field (mg_fields m) = fs)"
    unfolding parse_message_def
    by (rule yields_loc [OF s], rule yields_bubble [OF yields_name [OF s ok(1) assms(3)]],
        rule yields_bubble [OF yields_symbol], assumption+, rule yields_fields_block [OF _ ok(2)])
      (auto simp: ast_message_def)
  from yields_map [OF this, of "\<lambda>x. abs_child x = c" ATMessage] SMessage sees_check [OF s] ok(1)
  show ?thesis by (simp add: parse_attribute_or_message_def name_ok_def)
qed

lemma child_lexemes_hd:
  assumes "child_ok c"
  obtains l ls where "child_lexemes trail c = l # ls" and "lexeme_type l \<noteq> RightBrace"
  using assms that by (cases c) (auto simp: name_ok_def)

lemma yields_messages_loop:
  assumes "sees p (concat (map (child_lexemes trail) cs) @ Sym RightBrace # xs)" and "list_all child_ok cs" and "p_errors p = es"
  shows "yields_list (messages_loop acc p) xs es (\<lambda>ys. map abs_child ys = map abs_child acc @ cs)"
  using assms
proof (induction cs arbitrary: p acc)
  case Nil
  then have s: "sees p (Sym RightBrace # xs)" by simp
  have "sees (p\<lparr>p_current := Suc (p_current p)\<rparr>) xs" by (rule sees_advance [OF s])
  then show ?case
    using sees_match [OF s, of RightBrace] Nil.prems(3) by (subst messages_loop.simps) (simp add: yields_list_def)
next
  case (Cons c cs)
  let ?rest = "concat (map (child_lexemes trail) cs) @ Sym RightBrace # xs"
  have ok: "child_ok c" "list_all child_ok cs" using Cons.prems(2) by simp_all
  have s: "sees p (child_lexemes trail c @ ?rest)" using Cons.prems(1) by simp
  obtain l ls where l: "child_lexemes trail c = l # ls" "lexeme_type l \<noteq> RightBrace" by (rule child_lexemes_hd [OF ok(1)])
  have m: "match p RightBrace = Some (False, p)" using sees_match [of p l] s l by simp
  obtain x q where x: "parse_attribute_or_message p = Some (Some x, q)" "sees q ?rest" "p_errors q = es" "abs_child x = c"
    using yields_child [OF s ok(1) Cons.prems(3)] by (auto elim: yieldsE)
  have "yields_list (messages_loop (acc @ [x]) q) xs es (\<lambda>ys. map abs_child ys = map abs_child acc @ c # cs)"
    using Cons.IH [OF x(2) ok(2) x(3), of "acc @ [x]"] x(4) by simp
  then show ?case using m x(1) by (subst messages_loop.simps) (simp add: keep_or_skip_def)
qed

section \<open>Items\<close>

lemma keyword_types [simp]:
  "word_type kw_version = Version" "word_type kw_struct = Struct" "word_type kw_type = Type"
  "word_type kw_const = Const" "word_type kw_messages = Messages"
  by (simp_all add: word_type_def keyword_table_def kw_messages_def kw_struct_def kw_version_def kw_const_def kw_type_def)

lemma yields_keyword:
  "sees p (Word w # xs) \<Longrightarrow> word_type w = ty \<Longrightarrow> p_errors p = es \<Longrightarrow> yields (consume p ty) xs es (\<lambda>t. True)"
  using yields_consume [of p "Word w" xs ty] by (auto simp: yields_def)

lemma yields_semicolon:
  assumes "sees p (Sym Semicolon # xs)" and "p_errors p = es" and "\<And>s. Q (f s)"
  shows "yields (bubble (consume p Semicolon) (\<lambda>_ p. Option.bind (span_end p st) (\<lambda>s. Some (Some (f s), p)))) xs es Q"
  by (rule yields_bubble [OF yields_symbol [OF assms(1,2)]]) (auto intro!: yields_finish assms(3))

lemma yields_version:
  assumes "sees p (item_lexemes trail (SVersion n) @ xs)" and "num_ok n" and "p_errors p = es"
  shows "yields (parse_version p) xs es (\<lambda>v. abs_number (ver_number v) = n)"
proof -
  have s: "sees p (Word kw_version # Sym LeftParen # num_lexemes n @ Sym RightParen # Sym Semicolon # xs)"
    using assms(1) by simp
  show ?thesis
    unfolding parse_version_def
    by (rule yields_loc [OF s], rule yields_bubble [OF yields_keyword [OF s keyword_types(1) assms(3)]],
        rule yields_bubble [OF yields_symbol], assumption+, rule yields_bubble [OF yields_number [OF _ assms(2)]], assumption+,
        rule yields_bubble [OF yields_symbol], assumption+, rule yields_semicolon)
      (simp_all add: ast_version_def)
qed

lemma yields_struct:
  assumes "sees p (item_lexemes trail (SStruct n fs) @ xs)" and "name_ok n" and "list_all field_ok fs" and "p_errors p = es"
  shows "yields (parse_struct p) xs es (\<lambda>s. token_text (st_ident s) = n \<and> map abs_field (st_fields s) = fs)"
proof -
  have s: "sees p (Word kw_struct # Word n # Sym LeftBrace # fields_lexemes trail fs @ Sym RightBrace # xs)"
    using assms(1) by simp
  show ?thesis
    unfolding parse_struct_def
    by (rule yields_loc [OF s], rule yields_bubble [OF yields_keyword [OF s keyword_types(2) assms(4)]],
        rule yields_bubble [OF yields_name [OF _ assms(2)]], assumption+, rule yields_bubble [OF yields_symbol], assumption+,
        rule yields_fields_block [OF _ assms(3)])
      (auto simp: ast_struct_def)
qed

lemma yields_type_decl:
  assumes "sees p (item_lexemes trail (STypeDecl n ty) @ xs)" and "name_ok n" and "type_ok ty" and "p_errors p = es"
  shows "yields (parse_type_decl p) xs es (\<lambda>d. token_text (td_name d) = n \<and> abs_type (td_value d) = ty)"
proof -
  have s: "sees p (Word kw_type # Word n # Sym Equal # type_lexemes ty @ Sym Semicolon # xs)"
    using assms(1) by simp
  show ?thesis
    unfolding parse_type_decl_def
    by (rule yields_loc [OF s], rule yields_bubble [OF yields_keyword [OF s keyword_types(3) assms(4)]],
        rule yields_bubble [OF yields_name [OF _ assms(2)]], assumption+, rule yields_bubble [OF yields_symbol], assumption+,
        rule yields_bubble [OF yields_type [OF _ assms(3)]], assumption, simp, assumption, rule yields_semicolon)
      (simp_all add: ast_type_decl_def)
qed

lemma yields_constant:
  assumes "sees p (item_lexemes trail (SConst n v) @ xs)" and "name_ok n" and "num_ok v" and "p_errors p = es"
  shows "yields (parse_constant p) xs es (\<lambda>c. token_text (co_name c) = n \<and> abs_number (co_value c) = v)"
proof -
  have s: "sees p (Word kw_const # Word n # Sym Equal # num_lexemes v @ Sym Semicolon # xs)"
    using assms(1) by simp
  show ?thesis
    unfolding parse_constant_def
    by (rule yields_loc [OF s], rule yields_bubble [OF yields_keyword [OF s keyword_types(4) assms(4)]],
        rule yields_bubble [OF yields_name [OF _ assms(2)]], assumption+, rule yields_bubble [OF yields_symbol], assumption+,
        rule yields_bubble [OF yields_number [OF _ assms(3)]], assumption+, rule yields_semicolon)
      (simp_all add: ast_constant_def)
qed

lemma yields_messages:
  assumes "sees p (item_lexemes trail (SMessages n cs) @ xs)" and "name_ok n" and "list_all child_ok cs" and "p_errors p = es"
  shows "yields (parse_messages p) xs es (\<lambda>m. token_text (ms_name m) = n \<and> map abs_child (ms_children m) = cs)"
proof -
  have s: "sees p (Word kw_messages # Word n # Sym LeftBrace # concat (map (child_lexemes trail) cs) @ Sym RightBrace # xs)"
    using assms(1) by simp
  show ?thesis
    unfolding parse_messages_def
    by (rule yields_loc [OF s], rule yields_bubble [OF yields_keyword [OF s keyword_types(5) assms(4)]],
        rule yields_bubble [OF yields_name [OF _ assms(2)]], assumption+, rule yields_bubble [OF yields_symbol], assumption+,
        rule yields_listD [OF yields_messages_loop [OF _ assms(3)]], assumption+, rule yields_finish)
      (simp_all add: ast_messages_def)
qed

lemma yields_item:
  assumes "sees p (item_lexemes trail i @ xs)" and "item_ok i" and "p_errors p = es"
  shows "yields (parse_item p) xs es (\<lambda>x. abs_item x = i)"
proof -
  obtain kw ls where kw: "item_lexemes trail i = Word kw # ls"
    "word_type kw = (case i of SVersion _ \<Rightarrow> Version | SStruct _ _ \<Rightarrow> Struct | STypeDecl _ _ \<Rightarrow> Type
      | SConst _ _ \<Rightarrow> Const | SMessages _ _ \<Rightarrow> Messages)"
    by (cases i) simp_all
  have "sees p (Word kw # ls @ xs)" using assms(1) kw(1) by simp
  then obtain t where t: "peek p = Some t" "t_type t = word_type kw" by (rule sees_Cons) simp
  show ?thesis
  proof (cases i)
    case (SVersion n)
    show ?thesis
      using yields_map [OF yields_version [of p trail n], of xs es "\<lambda>x. abs_item x = i" ATVersion] assms SVersion t kw(2)
      by (simp add: parse_item_def)
  next
    case (SStruct n fs)
    show ?thesis
      using yields_map [OF yields_struct [of p trail n fs], of xs es "\<lambda>x. abs_item x = i" ATStruct] assms SStruct t kw(2)
      by (simp add: parse_item_def)
  next
    case (STypeDecl n ty)
    show ?thesis
      using yields_map [OF yields_type_decl [of p trail n ty], of xs es "\<lambda>x. abs_item x = i" ATTypeDecl] assms STypeDecl t kw(2)
      by (simp add: parse_item_def)
  next
    case (SConst n v)
    show ?thesis
      using yields_map [OF yields_constant [of p trail n v], of xs es "\<lambda>x. abs_item x = i" ATConstant] assms SConst t kw(2)
      by (simp add: parse_item_def)
  next
    case (SMessages n cs)
    show ?thesis
      using yields_map [OF yields_messages [of p trail n cs], of xs es "\<lambda>x. abs_item x = i" ATMessages] assms SMessages t kw(2)
      by (simp add: parse_item_def)
  qed
qed

definition program_lexemes :: "bool \<Rightarrow> SItem list \<Rightarrow> Lexeme list" where
  "program_lexemes trail items = concat (map (item_lexemes trail) items)"

lemma item_lexemes_hd:
  obtains kw ls where "item_lexemes trail i = Word kw # ls"
  by (cases i) auto

lemma items_loop_items:
  assumes "sees p (program_lexemes trail items @ xs)" and "list_all item_ok items"
  shows "\<exists>ys q. items_loop acc p = items_loop ys q \<and> sees q xs \<and> p_errors q = p_errors p
    \<and> map abs_item ys = map abs_item acc @ items \<and> (items \<noteq> [] \<longrightarrow> 0 < p_current q) \<and> p_current p \<le> p_current q"
  using assms
proof (induction items arbitrary: p acc)
  case Nil
  then show ?case by (intro exI [of _ acc] exI [of _ p]) (simp add: program_lexemes_def)
next
  case (Cons i items)
  have s: "sees p (item_lexemes trail i @ (program_lexemes trail items @ xs))"
    using Cons.prems(1) by (simp add: program_lexemes_def)
  have ok: "item_ok i" "list_all item_ok items" using Cons.prems(2) by simp_all
  obtain kw ls where kw: "item_lexemes trail i = Word kw # ls" by (rule item_lexemes_hd)
  then have s': "sees p (Word kw # ls @ (program_lexemes trail items @ xs))" using s by simp
  have c: "check p Eof = Some False"
    by (rule sees_Cons [OF s']) (simp add: check_def)
  obtain x q where x: "parse_item p = Some (Some x, q)" "sees q (program_lexemes trail items @ xs)"
    "p_errors q = p_errors p" "0 < p_current q" "abs_item x = i"
    using yields_item [OF s ok(1) refl] by (auto elim: yieldsE)
  have "p_current p \<le> p_current q"
    using further_item [of p] x(1) c by (fastforce simp: further_def check_def split: bind_splits if_splits)
  moreover obtain ys r where "items_loop (acc @ [x]) q = items_loop ys r" "sees r xs" "p_errors r = p_errors q"
    "map abs_item ys = map abs_item (acc @ [x]) @ items" "p_current q \<le> p_current r"
    using Cons.IH [OF x(2) ok(2)] by blast
  moreover have "items_loop acc p = items_loop (acc @ [x]) q"
    using c x(1) by (subst items_loop.simps) (simp add: keep_or_skip_def)
  ultimately show ?case
    using x(3-5) by (intro exI [of _ ys] exI [of _ r]) auto
qed

lemma lexemes_not_Eof: "list_all (\<lambda>l. lexeme_type l \<noteq> Eof) (program_lexemes trail items)"
proof -
  have w: "word_type w \<noteq> Eof" for w unfolding word_type_def keyword_table_def by simp
  have n: "list_all (\<lambda>l. lexeme_type l \<noteq> Eof) (num_lexemes n)" for n using w by (cases n) simp_all
  have z: "list_all (\<lambda>l. lexeme_type l \<noteq> Eof) (size_lexemes sz)" for sz using n by (cases sz) simp_all
  have x: "list_all (\<lambda>l. lexeme_type l \<noteq> Eof) (suffix_lexemes x)" for x
    using z by (cases x) (simp add: suffix_lexemes_def)
  have "list_all (\<lambda>l. lexeme_type l \<noteq> Eof) (concat (map suffix_lexemes xs))" for xs
    using x by (induction xs) simp_all
  then have t: "list_all (\<lambda>l. lexeme_type l \<noteq> Eof) (type_lexemes ty)" for ty
    using w by (simp add: type_lexemes_def)
  have f: "list_all (\<lambda>l. lexeme_type l \<noteq> Eof) (fields_lexemes trail fs)" for fs
    using w t by (induction fs) (auto simp: fields_lexemes_Cons field_lexemes_def)
  have c: "list_all (\<lambda>l. lexeme_type l \<noteq> Eof) (child_lexemes trail c)" for c
    using w f by (cases c) simp_all
  have cs: "list_all (\<lambda>l. lexeme_type l \<noteq> Eof) (concat (map (child_lexemes trail) cs))" for cs
    using c by (induction cs) simp_all
  have "list_all (\<lambda>l. lexeme_type l \<noteq> Eof) (item_lexemes trail i)" for i
    using w n f t cs by (cases i) simp_all
  then show ?thesis unfolding program_lexemes_def by (induction items) simp_all
qed

lemma parse_program:
  assumes "map summary ts = map expected (program_lexemes trail items) @ [(Eof, [], 0)]"
    and "list_all item_ok items" and "items \<noteq> []"
  shows "\<exists>tree. parse ts = Some (tree, []) \<and> map abs_item (it_items tree) = items"
proof -
  let ?p = "parser_init ts"
  have s: "sees ?p (program_lexemes trail items @ [])"
    using assms(1) lexemes_not_Eof by (simp add: sees_def parser_init_def)
  from items_loop_items [OF s assms(2), of "[]"] obtain ys q where q: "items_loop [] ?p = items_loop ys q" "sees q []"
    "p_errors q = []" "map abs_item ys = items" "0 < p_current q"
    using assms(3) by (auto simp: parser_init_def)
  have "items_loop ys q = Some (ys, q)"
    using sees_check_end [OF q(2)] by (subst items_loop.simps) simp
  moreover obtain l where "parser_loc ?p = Some l"
    using sees_inside [OF s] by (simp add: parser_loc_def peek_def)
  moreover obtain sp where "span_end q l = Some sp" using span_end_Some [OF q(2,5)] by blast
  ultimately show ?thesis
    using q by (simp add: parse_def parse_items_def ast_items_def)
qed

section \<open>From the text to the tree\<close>

lemma front_end:
  assumes "list_all blank_ok bs" and "layout_ok e xs" and "length (blanks_text bs @ layout_text xs) < 2 ^ 32"
    and "map fst xs = program_lexemes trail items" and "list_all item_ok items" and "items \<noteq> []"
  shows "\<exists>ts tree. lex_source (source_of e p (blanks_text bs @ layout_text xs)) = Some \<lparr>lr_tokens = ts, lr_errors = []\<rparr>
    \<and> parse ts = Some (tree, []) \<and> map abs_item (it_items tree) = items"
proof -
  from lex_layout_tokens [OF assms(1-3)] obtain ts where
    ts: "lex_source (source_of e p (blanks_text bs @ layout_text xs)) = Some \<lparr>lr_tokens = ts, lr_errors = []\<rparr>"
    "map summary ts = map (expected \<circ> fst) xs @ [(Eof, [], 0)]" by blast
  have "map summary ts = map expected (program_lexemes trail items) @ [(Eof, [], 0)]"
    using ts(2) by (simp add: assms(4) [symmetric])
  from parse_program [OF this assms(5,6)] ts(1) show ?thesis by blast
qed


definition sample_schema :: "SItem list" where
  "sample_schema = [SConst [0x4E] (SLit [0x34]), SStruct [0x41] [([0x78], ([0x75, 0x38], [(True, SMax (SRef [0x4E]))]))]]"

definition sample_schema_layout :: "(Lexeme \<times> Blank list) list" where
  "sample_schema_layout = map (\<lambda>l. (l, [Space 0x20])) (program_lexemes True sample_schema)"


section \<open>Where the parser fails\<close>

lemma messages_loop_end:
  assumes "messages_loop cs p = Some r" and "peek p = Some t" and "t_type t = Eof"
  shows False
proof -
  have "\<forall>t. peek p = Some t \<longrightarrow> t_type t = Eof \<longrightarrow> False"
    using assms(1)
  proof (rule messages_loop.raw_induct [where P = "\<lambda>cs p r. \<forall>t. peek p = Some t \<longrightarrow> t_type t = Eof \<longrightarrow> False", rotated])
    fix rec cs p r
    assume IH: "\<And>cs p r. rec cs p = Some r \<Longrightarrow> \<forall>t. peek p = Some t \<longrightarrow> t_type t = Eof \<longrightarrow> False"
      and eq: "Option.bind (match p RightBrace) (\<lambda>(b, p). if b then Some (cs, p)
        else Option.bind (parse_attribute_or_message p) (\<lambda>r.
          Option.bind (keep_or_skip cs (bits_of RightBrace OR bits_of Hash OR bits_of Ident) r) (\<lambda>(cs, p). rec cs p))) = Some r"
    show "\<forall>t. peek p = Some t \<longrightarrow> t_type t = Eof \<longrightarrow> False"
    proof (intro allI impI)
      fix t assume t: "peek p = Some t" "t_type t = Eof"
      let ?q = "add_error p (err_expected (bits_of Hash OR bits_of Ident) (span t))"
      have c: "check p ty = Some (ty = Eof)" for ty using t by (simp add: check_def)
      have q: "peek ?q = Some t" using t(1) by (auto simp: peek_def split: if_splits)
      have "bits_of Eof AND (m OR bits_of Eof) \<noteq> 0" for m using mask_not_Eof by blast
      then have "skip_until ?q m = Some ?q" for m using q t(2) by (subst skip_until.simps) simp
      then have "rec cs ?q = Some r"
        using eq c t(1) by (simp add: match_def parse_attribute_or_message_def keep_or_skip_def)
      from IH [OF this] q t(2) show False by blast
    qed
  qed
  with assms(2,3) show False by blast
qed

lemma messages_loop_unterminated:
  assumes "sees p (concat (map (child_lexemes trail) cs))" and "list_all child_ok cs"
  shows "messages_loop acc p = None"
  using assms
proof (induction cs arbitrary: p acc)
  case Nil
  then have "sees p []" by simp
  then obtain t where "peek p = Some t" "t_type t = Eof" by (rule sees_Nil)
  then show ?case using messages_loop_end by (cases "messages_loop acc p") auto
next
  case (Cons c cs)
  let ?rest = "concat (map (child_lexemes trail) cs)"
  have ok: "child_ok c" "list_all child_ok cs" using Cons.prems(2) by simp_all
  have s: "sees p (child_lexemes trail c @ ?rest)" using Cons.prems(1) by simp
  obtain l ls where l: "child_lexemes trail c = l # ls" "lexeme_type l \<noteq> RightBrace" by (rule child_lexemes_hd [OF ok(1)])
  have m: "match p RightBrace = Some (False, p)" using sees_match [of p l] s l by simp
  obtain x q where x: "parse_attribute_or_message p = Some (Some x, q)" "sees q ?rest"
    using yields_child [OF s ok(1) refl] by (auto elim: yieldsE)
  have "messages_loop (acc @ [x]) q = None" by (rule Cons.IH [OF x(2) ok(2)])
  then show ?case using m x(1) by (subst messages_loop.simps) (simp add: keep_or_skip_def)
qed



text \<open>An empty schema is read out of bounds: the span of the root ends at the token before
  the end of file, and there is none.\<close>

theorem parse_empty:
  "map_option (\<lambda>r. (lr_errors r, parse (lr_tokens r))) (lex_source (source_init [] 0)) = Some ([], None)"
  by code_simp

end
