(* ===== verification/Eval_Types.thy ===== *)
theory Eval_Types
  imports Ast "HOL-Library.AList"
begin

text \<open>
  The data of the schema compiler's evaluator (\<^verbatim>\<open>ser/eval.h\<close>, and the types local to
  \<^verbatim>\<open>ser/eval.c\<close>). A \<open>TypeObject *\<close> is the address of one of the static primitive objects or an
  index into the objects the evaluator has allocated, in the order of \<open>type_objects\<close>; a null
  pointer is \<^const>\<open>None\<close>. A hash map from names is an association list without repeated keys:
  \<open>hashmap_set\<close> is \<^const>\<open>AList.update\<close>, \<open>hashmap_get\<close> is \<^const>\<open>map_of\<close> (the hash table itself
  is modelled, and shown to be such a map, in the theories \<open>Hashmap\<close> and \<open>Hashmap_Correct\<close>).
\<close>

section \<open>Alignments\<close>

record Alignment =
  al_po2 :: u8
  al_mask :: u8
  al_value :: u8

definition ALIGN_1 :: Alignment where "ALIGN_1 = \<lparr>al_po2 = 0, al_mask = 0, al_value = 1\<rparr>"
definition ALIGN_2 :: Alignment where "ALIGN_2 = \<lparr>al_po2 = 1, al_mask = 1, al_value = 2\<rparr>"
definition ALIGN_4 :: Alignment where "ALIGN_4 = \<lparr>al_po2 = 2, al_mask = 3, al_value = 4\<rparr>"
definition ALIGN_8 :: Alignment where "ALIGN_8 = \<lparr>al_po2 = 3, al_mask = 7, al_value = 8\<rparr>"

lemmas ALIGN_defs = ALIGN_1_def ALIGN_2_def ALIGN_4_def ALIGN_8_def

definition align :: "u32 \<Rightarrow> Alignment \<Rightarrow> u32" where
  "align v al = push_bit (unat (al_po2 al)) (drop_bit (unat (al_po2 al)) (v - 1) + 1)"

text \<open>The alignment of an object that is not resolved yet: \<open>value\<close> is set to 0, and the other two
  members, which nothing reads before \<open>value\<close> is set, are left as they come from \<open>malloc\<close>.\<close>

definition unresolved_align :: Alignment where
  "unresolved_align = \<lparr>al_po2 = 0, al_mask = 0, al_value = 0\<rparr>"

section \<open>Type objects\<close>

datatype Sizing = SizingMax | SizingFixed

datatype PrimitifType =
  Primitif_u8 | Primitif_u16 | Primitif_u32 | Primitif_u64
| Primitif_i8 | Primitif_i16 | Primitif_i32 | Primitif_i64
| Primitif_f32 | Primitif_f64 | Primitif_char | Primitif_bool

datatype TypePtr = PRIMITIF PrimitifType | Obj nat

record Array =
  ar_sizing :: Sizing
  ar_size :: u64
  ar_heap :: bool
  ar_type :: "TypePtr option"

record Field =
  f_name :: StringSlice
  f_name_span :: Span
  f_type :: "TypePtr option"

record StructObject =
  so_name :: StringSlice
  so_fields :: "Field list"
  so_has_funcs :: bool

datatype TypeUnion = TypeArray Array | TypePrimitif PrimitifType | TypeStruct StructObject

record TypeObject =
  to_align :: Alignment
  to_type :: TypeUnion

fun primitif_align :: "PrimitifType \<Rightarrow> Alignment" where
  "primitif_align Primitif_u8 = ALIGN_1"
| "primitif_align Primitif_u16 = ALIGN_2"
| "primitif_align Primitif_u32 = ALIGN_4"
| "primitif_align Primitif_u64 = ALIGN_8"
| "primitif_align Primitif_i8 = ALIGN_1"
| "primitif_align Primitif_i16 = ALIGN_2"
| "primitif_align Primitif_i32 = ALIGN_4"
| "primitif_align Primitif_i64 = ALIGN_8"
| "primitif_align Primitif_f32 = ALIGN_4"
| "primitif_align Primitif_f64 = ALIGN_8"
| "primitif_align Primitif_char = ALIGN_1"
| "primitif_align Primitif_bool = ALIGN_1"

text \<open>The object a pointer refers to; outside the objects an access is undefined.\<close>

definition deref :: "TypeObject list \<Rightarrow> TypePtr option \<Rightarrow> TypeObject option" where
  "deref objs p = (case p of
     None \<Rightarrow> None
   | Some (PRIMITIF t) \<Rightarrow> Some \<lparr>to_align = primitif_align t, to_type = TypePrimitif t\<rparr>
   | Some (Obj i) \<Rightarrow> if i < length objs then Some (objs ! i) else None)"

section \<open>Declarations, messages and the program\<close>

type_synonym 'v table = "(StringSlice \<times> 'v) list"

datatype Attribute = Attr_versioned

record MessageObject =
  mo_name :: StringSlice
  mo_fields :: "Field list"
  mo_attributes :: "Attribute set"

record MessagesObject =
  mso_name :: StringSlice
  mso_messages :: "MessageObject list"
  mso_version :: u64

record Constant =
  c_valid :: bool
  c_value :: u64

record FieldAccessor =
  fa_indices :: "u64 list"
  fa_size :: u64
  fa_type :: "TypePtr option"

record Layout =
  ly_fields :: "FieldAccessor list"
  ly_type :: TypePtr

record Program =
  pr_typedefs :: "TypePtr option table"
  pr_layouts :: "(TypePtr \<times> Layout) list"
  pr_messages :: "MessagesObject list"
  pr_type_objects :: "TypeObject list"

datatype AstTag =
  ATNumber | ATVersion | ATIdent | ATHeapArray | ATFieldArray | ATMaxSize | ATFixedSize | ATNoSize
| ATField | ATAttribute | ATStruct | ATMessage | ATMessages | ATTypeDecl | ATConstant | ATItems

datatype EvalError =
  EETDuplicateDefinition (first: Span) (second: Span) (ident: StringSlice) AstTag
| EETUnknown Span (ident: StringSlice) AstTag
| EETCycle "Span list" "StringSlice list" AstTag
| EETInfiniteStruct (structs: "SpannedStringSlice list") (through: "SpannedStringSlice list")
| EETEmptyType Span (ident: StringSlice) AstTag

definition err_duplicate_def :: "Span \<Rightarrow> Span \<Rightarrow> AstTag \<Rightarrow> StringSlice \<Rightarrow> EvalError" where
  "err_duplicate_def fst_span snd_span tag name = EETDuplicateDefinition fst_span snd_span name tag"

definition err_unknown :: "Span \<Rightarrow> AstTag \<Rightarrow> StringSlice \<Rightarrow> EvalError" where
  "err_unknown s tag name = EETUnknown s name tag"

definition err_empty :: "Span \<Rightarrow> AstTag \<Rightarrow> StringSlice \<Rightarrow> EvalError" where
  "err_empty s tag name = EETEmptyType s name tag"

lemmas err_defs = err_duplicate_def_def err_unknown_def err_empty_def

definition string_slice_from_token :: "Token \<Rightarrow> StringSlice" where
  "string_slice_from_token t = token_text t"

definition sss_from_token :: "Token \<Rightarrow> SpannedStringSlice" where
  "sss_from_token t = \<lparr>slice = token_text t, ss_span = span t\<rparr>"

record UnresolvedConstant =
  uc_value :: Token
  uc_name_span :: Span
  uc_span :: Span

text \<open>The value of an unresolved type is a node: the type of a declaration or a whole struct.\<close>

datatype TypeNode = NodeType AstType | NodeStruct AstStruct

record UnresolvedTypeDef =
  ut_value :: TypeNode
  ut_name_span :: Span
  ut_span :: Span

record EvaluationContext =
  ec_constants :: "Constant table"
  ec_typedefs :: "TypePtr option table"
  ec_layouts :: "(TypePtr \<times> Layout) list"
  ec_unresolved :: "UnresolvedTypeDef table option"
  ec_type_objects :: "TypeObject list"
  ec_items :: "AstItem list"
  ec_errors :: "EvalError list"
  ec_messages :: "MessagesObject list"

definition push_error :: "EvalError \<Rightarrow> EvaluationContext \<Rightarrow> EvaluationContext" where
  "push_error e ctx = ctx\<lparr>ec_errors := ec_errors ctx @ [e]\<rparr>"

text \<open>\<open>hashmap_set\<close> on a set of names or pointers: the new set, and whether it was there.\<close>

definition set_add :: "'a \<Rightarrow> 'a list \<Rightarrow> bool \<times> 'a list" where
  "set_add x xs = (if x \<in> set xs then (True, xs) else (False, x # xs))"

section \<open>Primitive types\<close>

definition max_alignment :: "Alignment \<Rightarrow> Alignment \<Rightarrow> Alignment" where
  "max_alignment a b = (if al_value a > al_value b then a else b)"

lemma al_value_max_alignment [simp]: "al_value (max_alignment a b) = max (al_value a) (al_value b)"
  by (auto simp: max_alignment_def max_def)

lemma align_0 [simp]: "align v ALIGN_1 = v"
  by (simp add: align_def ALIGN_defs)

end
