(* ===== verification/Eval_Constants.thy ===== *)
theory Eval_Constants
  imports Eval_Types
begin

text \<open>
  Resolving the constants of a schema (\<open>resolve_constants\<close> of \<^verbatim>\<open>ser/eval.c\<close>): every constant is
  followed through the constants it is set to until a literal, an unknown name or a cycle. A
  result of \<^const>\<open>None\<close> is the use of a null pointer.
\<close>

section \<open>Collecting the declarations\<close>

text \<open>The loop that fills \<open>unconsts\<close>. A redefinition is reported, its item is taken out of the
  items, and its value replaces the first one.\<close>

fun load_constants :: "AstItem list \<Rightarrow> UnresolvedConstant table \<Rightarrow> EvalError list
    \<Rightarrow> AstItem list \<times> UnresolvedConstant table \<times> EvalError list" where
  "load_constants [] un es = ([], un, es)"
| "load_constants (AstItem.ATConstant c # items) un es =
    (let name = string_slice_from_token (co_name c);
         uc = \<lparr>uc_value = num_token (co_value c), uc_name_span = span (co_name c), uc_span = co_span c\<rparr> in
     case map_of un name of
       Some original \<Rightarrow>
         load_constants items (AList.update name uc un)
           (es @ [err_duplicate_def (uc_name_span original) (uc_name_span uc) AstTag.ATConstant name])
     | None \<Rightarrow>
         (let (items', r) = load_constants items (AList.update name uc un) es in (AstItem.ATConstant c # items', r)))"
| "load_constants (item # items) un es =
    (let (items', r) = load_constants items un es in (item # items', r))"

section \<open>Following a chain\<close>

text \<open>The second walk of a cycle, which collects its members and marks them invalid, from \<open>cur\<close> on
  until it is back at \<open>from\<close>.\<close>

partial_function (option) mark_cycle :: "UnresolvedConstant table \<Rightarrow> StringSlice \<Rightarrow> StringSlice
    \<Rightarrow> Span list \<Rightarrow> StringSlice list \<Rightarrow> Constant table \<Rightarrow> (Span list \<times> StringSlice list \<times> Constant table) option" where
  "mark_cycle un from cur spans idents cs = do {
     c \<leftarrow> map_of un cur;
     let spans = spans @ [uc_span c];
     let idents = idents @ [cur];
     let cs = AList.update cur \<lparr>c_valid = False, c_value = 0\<rparr> cs;
     let nxt = string_slice_from_token (uc_value c);
     _ \<leftarrow> map_of un nxt;
     if nxt = from then Some (spans, idents, cs) else mark_cycle un from nxt spans idents cs
   }"

declare mark_cycle.simps [code]

text \<open>The inner loop: the token the chain stops at, the constants and the errors.\<close>

function follow :: "UnresolvedConstant table \<Rightarrow> UnresolvedConstant \<Rightarrow> StringSlice list \<Rightarrow> Token
    \<Rightarrow> Constant table \<Rightarrow> EvalError list \<Rightarrow> (Token \<times> Constant table \<times> EvalError list) option" where
  "follow un unc names value cs es =
    (if t_type value \<noteq> Ident then Some (value, cs, es)
     else
       let name = string_slice_from_token value in
       case map_of cs name of
         Some resolved \<Rightarrow>
           if \<not> c_valid resolved then Some (value, cs, es)
           else Some (value\<lparr>t_type := Number, lit := c_value resolved\<rparr>, cs, es)
       | None \<Rightarrow>
           if name \<in> set names then do {
             (spans, idents, cs) \<leftarrow> mark_cycle un name name [] [] cs;
             Some (value, cs, es @ [EETCycle spans idents AstTag.ATConstant])
           }
           else
             case map_of un name of
               None \<Rightarrow> Some (value, cs, es @ [err_unknown (span (uc_value unc)) AstTag.ATConstant name])
             | Some c \<Rightarrow> follow un unc (name # names) (uc_value c) cs es)"
  by pat_completeness auto
termination
proof (relation "measure (\<lambda>(un, _, names, _, _, _). card (fst ` set un - set names))", goal_cases)
  case (2 un unc names v cs es name c)
  have "name \<in> fst ` set un - set names" using 2(4,5) by (auto dest: map_of_SomeD intro: rev_image_eqI)
  moreover have "fst ` set un - set (name # names) = (fst ` set un - set names) - {name}" by auto
  ultimately have "card (fst ` set un - set (name # names)) < card (fst ` set un - set names)"
    by (metis card_Diff1_less finite_Diff finite_imageI finite_set)
  then show ?case by simp
qed simp

declare follow.simps [simp del]

section \<open>Resolving\<close>

definition resolve_constant :: "UnresolvedConstant table \<Rightarrow> StringSlice \<Rightarrow> Constant table \<Rightarrow> EvalError list
    \<Rightarrow> (Constant table \<times> EvalError list) option" where
  "resolve_constant un name cs es = do {
     unc \<leftarrow> map_of un name;
     (value, cs, es) \<leftarrow> follow un unc [name] (uc_value unc) cs es;
     Some (AList.update name
       (if t_type value = Ident then \<lparr>c_valid = False, c_value = 0\<rparr> else \<lparr>c_valid = True, c_value = lit value\<rparr>) cs, es)
   }"

fun constants_loop :: "UnresolvedConstant table \<Rightarrow> AstItem list \<Rightarrow> Constant table \<Rightarrow> EvalError list
    \<Rightarrow> (Constant table \<times> EvalError list) option" where
  "constants_loop un [] cs es = Some (cs, es)"
| "constants_loop un (AstItem.ATConstant c # items) cs es = do {
     (cs, es) \<leftarrow> resolve_constant un (string_slice_from_token (co_name c)) cs es;
     constants_loop un items cs es
   }"
| "constants_loop un (item # items) cs es = constants_loop un items cs es"

definition resolve_constants :: "EvaluationContext \<Rightarrow> EvaluationContext option" where
  "resolve_constants ctx = (
     let (items, un, es) = load_constants (ec_items ctx) [] (ec_errors ctx) in do {
       (cs, es) \<leftarrow> constants_loop un items (ec_constants ctx) es;
       Some (ctx\<lparr>ec_items := items, ec_constants := cs, ec_errors := es\<rparr>)
     })"

section \<open>What a constant denotes\<close>

text \<open>The declarations of a schema; the last one of a name counts. A constant denotes the literal
  its chain of names ends in, and nothing when the chain ends in an unknown name or never.\<close>

fun constant_decls :: "AstItem list \<Rightarrow> (StringSlice \<times> Token) list" where
  "constant_decls [] = []"
| "constant_decls (AstItem.ATConstant c # items) = (token_text (co_name c), num_token (co_value c)) # constant_decls items"
| "constant_decls (item # items) = constant_decls items"

definition declared :: "AstItem list \<Rightarrow> StringSlice \<Rightarrow> Token option" where
  "declared items = map_of (rev (constant_decls items))"

inductive denotes :: "(StringSlice \<Rightarrow> Token option) \<Rightarrow> StringSlice \<Rightarrow> u64 \<Rightarrow> bool" for ds where
  literal: "ds n = Some t \<Longrightarrow> t_type t \<noteq> Ident \<Longrightarrow> denotes ds n (lit t)"
| name: "ds n = Some t \<Longrightarrow> t_type t = Ident \<Longrightarrow> denotes ds (token_text t) v \<Longrightarrow> denotes ds n v"

inductive_simps denotes_iff: "denotes ds n v"

definition leads_to :: "(StringSlice \<Rightarrow> Token option) \<Rightarrow> StringSlice \<Rightarrow> StringSlice \<Rightarrow> bool" where
  "leads_to ds m n \<longleftrightarrow> (\<exists>t. ds m = Some t \<and> t_type t = Ident \<and> token_text t = n)"

lemma leads_to_det: "leads_to ds m n \<Longrightarrow> leads_to ds m n' \<Longrightarrow> n = n'"
  by (auto simp: leads_to_def)

lemma denotes_step: "leads_to ds m n \<Longrightarrow> denotes ds m v \<longleftrightarrow> denotes ds n v"
  by (subst denotes_iff) (auto simp: leads_to_def)

lemma denotes_literal: "ds n = Some t \<Longrightarrow> t_type t \<noteq> Ident \<Longrightarrow> denotes ds n v \<longleftrightarrow> v = lit t"
  by (subst denotes_iff) auto

lemma denotes_det: "denotes ds n v \<Longrightarrow> denotes ds n w \<Longrightarrow> v = w"
proof (induction arbitrary: w rule: denotes.induct)
  case (literal n t)
  then show ?case by (simp add: denotes_literal)
next
  case (name n t v)
  then show ?case using denotes_step [of ds n "token_text t" w] by (auto simp: leads_to_def)
qed

lemma denotes_declared: "denotes ds n v \<Longrightarrow> ds n \<noteq> None"
  by (subst (asm) denotes_iff) auto

text \<open>A constant on a cycle denotes nothing.\<close>

lemma cycle_step:
  assumes "(leads_to ds)\<^sup>+\<^sup>+ m m" and "leads_to ds m n"
  shows "(leads_to ds)\<^sup>+\<^sup>+ n n"
proof -
  obtain k where k: "leads_to ds m k" "(leads_to ds)\<^sup>*\<^sup>* k m" using tranclpD [OF assms(1)] by blast
  have "k = n" using leads_to_det [OF k(1) assms(2)] .
  with k(2) assms(2) show ?thesis by (metis rtranclp_into_tranclp1)
qed

lemma cycle_denotes_nothing: "denotes ds n v \<Longrightarrow> \<not> (leads_to ds)\<^sup>+\<^sup>+ n n"
proof (induction rule: denotes.induct)
  case (literal n t)
  show ?case
  proof
    assume "(leads_to ds)\<^sup>+\<^sup>+ n n"
    then obtain k where "leads_to ds n k" using tranclpD by metis
    then show False using literal by (simp add: leads_to_def)
  qed
next
  case (name n t v)
  then have "leads_to ds n (token_text t)" by (simp add: leads_to_def)
  then show ?case using cycle_step name.IH by metis
qed

section \<open>Correctness\<close>

definition values_of :: "UnresolvedConstant table \<Rightarrow> StringSlice \<Rightarrow> Token option" where
  "values_of un n = map_option uc_value (map_of un n)"

text \<open>What the constants resolved so far must satisfy: a valid one has the value it denotes, an
  invalid one denotes nothing.\<close>

definition sound :: "(StringSlice \<Rightarrow> Token option) \<Rightarrow> Constant table \<Rightarrow> bool" where
  "sound ds cs \<longleftrightarrow> (\<forall>n k. map_of cs n = Some k \<longrightarrow> ds n \<noteq> None \<and>
     (if c_valid k then denotes ds n (c_value k) else c_value k = 0 \<and> (\<nexists>v. denotes ds n v)))"

text \<open>An invalid constant is not there without an error.\<close>

definition reported :: "nat \<Rightarrow> Constant table \<Rightarrow> EvalError list \<Rightarrow> bool" where
  "reported n0 cs es \<longleftrightarrow> ((\<exists>n k. map_of cs n = Some k \<and> \<not> c_valid k) \<longrightarrow> n0 < length es)"

lemma sound_invalid:
  "sound ds cs \<Longrightarrow> ds n \<noteq> None \<Longrightarrow> \<nexists>v. denotes ds n v \<Longrightarrow>
     sound ds (AList.update n \<lparr>c_valid = False, c_value = 0\<rparr> cs)"
  by (auto simp: sound_def update_conv')

lemma sound_valid:
  "sound ds cs \<Longrightarrow> denotes ds n v \<Longrightarrow> sound ds (AList.update n \<lparr>c_valid = True, c_value = v\<rparr> cs)"
  using denotes_declared [of ds n v] by (auto simp: sound_def update_conv')

lemma mark_cycle_sound:
  assumes "(leads_to (values_of un))\<^sup>+\<^sup>+ cur from" and "(leads_to (values_of un))\<^sup>*\<^sup>* from cur"
    and "sound (values_of un) cs"
  shows "\<exists>sp ids cs'. mark_cycle un from cur spans idents cs = Some (sp, ids, cs') \<and> sound (values_of un) cs' \<and>
    dom (map_of cs) \<subseteq> dom (map_of cs')"
  using assms
proof (induction arbitrary: spans idents cs rule: converse_tranclp_induct)
  case (base cur)
  then have "(leads_to (values_of un))\<^sup>+\<^sup>+ cur cur" by (metis rtranclp_into_tranclp2)
  then have no: "\<nexists>v. denotes (values_of un) cur v" using cycle_denotes_nothing by blast
  obtain c where c: "map_of un cur = Some c" "t_type (uc_value c) = Ident" "token_text (uc_value c) = from"
    using base.hyps by (auto simp: leads_to_def values_of_def)
  have "map_of un from \<noteq> None"
  proof (cases "from = cur")
    case False
    then obtain k where "leads_to (values_of un) from k" using base.prems(1) by (metis converse_rtranclpE)
    then show ?thesis by (auto simp: leads_to_def values_of_def)
  qed (use c in simp)
  moreover have "sound (values_of un) (AList.update cur \<lparr>c_valid = False, c_value = 0\<rparr> cs)"
    using sound_invalid [OF base.prems(2) _ no] c by (simp add: values_of_def)
  ultimately show ?case
    using c by (subst mark_cycle.simps) (auto simp: string_slice_from_token_def update_conv' bind_eq_Some_conv)
next
  case (step cur nxt)
  have "(leads_to (values_of un))\<^sup>+\<^sup>+ cur from" using step.hyps by (rule tranclp_into_tranclp2)
  then have "(leads_to (values_of un))\<^sup>+\<^sup>+ cur cur" using step.prems(1) by (rule tranclp_rtranclp_tranclp)
  then have no: "\<nexists>v. denotes (values_of un) cur v" using cycle_denotes_nothing by blast
  obtain c where c: "map_of un cur = Some c" "t_type (uc_value c) = Ident" "token_text (uc_value c) = nxt"
    using step.hyps(1) by (auto simp: leads_to_def values_of_def)
  have n: "map_of un nxt \<noteq> None"
    using tranclpD [OF step.hyps(2)] by (auto simp: leads_to_def values_of_def)
  have s: "sound (values_of un) (AList.update cur \<lparr>c_valid = False, c_value = 0\<rparr> cs)"
    using sound_invalid [OF step.prems(2) _ no] c by (simp add: values_of_def)
  have "(leads_to (values_of un))\<^sup>*\<^sup>* from nxt" using step.prems(1) step.hyps(1) by simp
  from step.IH [OF this s] obtain sp ids cs' where
    r: "mark_cycle un from nxt (spans @ [uc_span c]) (idents @ [cur]) (AList.update cur \<lparr>c_valid = False, c_value = 0\<rparr> cs)
        = Some (sp, ids, cs')"
      "sound (values_of un) cs'" "dom (map_of (AList.update cur \<lparr>c_valid = False, c_value = 0\<rparr> cs)) \<subseteq> dom (map_of cs')"
    by blast
  then have d: "dom (map_of cs) \<subseteq> dom (map_of cs')" by (auto simp: update_conv' split: if_splits)
  have e: "mark_cycle un from cur spans idents cs =
      (if nxt = from then Some (spans @ [uc_span c], idents @ [cur], AList.update cur \<lparr>c_valid = False, c_value = 0\<rparr> cs)
       else mark_cycle un from nxt (spans @ [uc_span c]) (idents @ [cur]) (AList.update cur \<lparr>c_valid = False, c_value = 0\<rparr> cs))"
    using c n by (subst mark_cycle.simps) (auto simp: string_slice_from_token_def)
  show ?case
  proof (cases "nxt = from")
    case True
    then show ?thesis unfolding e using s by (auto simp: update_conv')
  next
    case False
    then show ?thesis unfolding e using r(1,2) d by simp
  qed
qed

lemma follow_sound:
  assumes "sound (values_of un) cs" and "reported n0 cs es" and "n0 \<le> length es"
    and "\<And>x. x \<in> set names \<Longrightarrow> t_type v = Ident \<Longrightarrow> (leads_to (values_of un))\<^sup>+\<^sup>+ x (token_text v)"
    and "\<And>w. denotes (values_of un) st w \<longleftrightarrow> (if t_type v = Ident then denotes (values_of un) (token_text v) w else w = lit v)"
  shows "\<exists>v' cs' d. follow un unc names v cs es = Some (v', cs', es @ d) \<and> sound (values_of un) cs' \<and>
    reported n0 cs' (es @ d) \<and> dom (map_of cs) \<subseteq> dom (map_of cs') \<and>
    (if t_type v' = Ident then (\<nexists>w. denotes (values_of un) st w) \<and> n0 < length (es @ d)
     else denotes (values_of un) st (lit v')) \<and>
    (d \<noteq> [] \<longrightarrow> (\<nexists>w. denotes (values_of un) st w))"
  using assms
proof (induction un unc names v cs es rule: follow.induct)
  case (1 un unc names v cs es)
  show ?case
  proof (cases "t_type v = Ident")
    case False
    then show ?thesis using 1 by (subst follow.simps) auto
  next
    case id: True
    let ?n = "token_text v"
    have st: "denotes (values_of un) st w \<longleftrightarrow> denotes (values_of un) ?n w" for w using 1(6) id by simp
    show ?thesis
    proof (cases "map_of cs ?n")
      case (Some k)
      then have "if c_valid k then denotes (values_of un) ?n (c_value k) else (\<nexists>w. denotes (values_of un) ?n w)"
        using 1(2) by (auto simp: sound_def split: if_splits)
      then show ?thesis using Some id st 1(2-4)
        by (subst follow.simps) (auto simp: string_slice_from_token_def reported_def)
    next
      case None
      show ?thesis
      proof (cases "?n \<in> set names")
        case True
        then have c: "(leads_to (values_of un))\<^sup>+\<^sup>+ ?n ?n" using 1(5) id by blast
        obtain sp ids cs' where "mark_cycle un ?n ?n [] [] cs = Some (sp, ids, cs')" "sound (values_of un) cs'"
          "dom (map_of cs) \<subseteq> dom (map_of cs')"
          using mark_cycle_sound [OF c _ 1(2)] by blast
        moreover have "\<nexists>w. denotes (values_of un) ?n w" using c cycle_denotes_nothing by blast
        ultimately show ?thesis using id None True st 1(4)
          by (subst follow.simps) (simp add: string_slice_from_token_def reported_def)
      next
        case False
        show ?thesis
        proof (cases "map_of un ?n")
          case n: None
          then have "\<nexists>w. denotes (values_of un) ?n w"
            using denotes_declared [of "values_of un" ?n] by (auto simp: values_of_def)
          then show ?thesis using id None False n st 1(2,4)
            by (subst follow.simps) (simp add: string_slice_from_token_def reported_def)
        next
          case (Some c)
          have l: "leads_to (values_of un) ?n (token_text (uc_value c))" if "t_type (uc_value c) = Ident"
            using Some that by (simp add: leads_to_def values_of_def)
          have p: "(leads_to (values_of un))\<^sup>+\<^sup>+ x (token_text (uc_value c))"
            if "x \<in> set (?n # names)" "t_type (uc_value c) = Ident" for x
            using that l 1(5) id by (metis set_ConsD tranclp.simps)
          have d: "denotes (values_of un) st w \<longleftrightarrow>
              (if t_type (uc_value c) = Ident then denotes (values_of un) (token_text (uc_value c)) w else w = lit (uc_value c))" for w
            using st l denotes_step denotes_literal [of "values_of un" ?n "uc_value c" w] Some
            by (auto simp: values_of_def)
          have eq: "follow un unc names v cs es = follow un unc (?n # names) (uc_value c) cs es"
            using id None False Some by (subst follow.simps) (simp add: string_slice_from_token_def)
          have "string_slice_from_token v = ?n" by (simp add: string_slice_from_token_def)
          from 1(1) [OF _ this [symmetric] None False Some 1(2-4) p d] id show ?thesis
            unfolding eq by simp
        qed
      qed
    qed
  qed
qed

lemma resolve_constant_sound:
  assumes "sound (values_of un) cs" and "reported n0 cs es" and "n0 \<le> length es" and "n \<in> dom (map_of un)"
  shows "\<exists>cs' d. resolve_constant un n cs es = Some (cs', es @ d) \<and> sound (values_of un) cs' \<and>
    reported n0 cs' (es @ d) \<and> insert n (dom (map_of cs)) \<subseteq> dom (map_of cs') \<and>
    (d \<noteq> [] \<longrightarrow> (\<nexists>w. denotes (values_of un) n w))"
proof -
  obtain c where c: "map_of un n = Some c" using assms(4) by blast
  have p: "(leads_to (values_of un))\<^sup>+\<^sup>+ x (token_text (uc_value c))"
    if "x \<in> set [n]" "t_type (uc_value c) = Ident" for x
    using that c by (auto simp: leads_to_def values_of_def)
  have d: "denotes (values_of un) n w \<longleftrightarrow>
      (if t_type (uc_value c) = Ident then denotes (values_of un) (token_text (uc_value c)) w else w = lit (uc_value c))" for w
    by (subst denotes_iff) (use c in \<open>auto simp: values_of_def\<close>)
  obtain v cs' d where f: "follow un c [n] (uc_value c) cs es = Some (v, cs', es @ d)" "sound (values_of un) cs'"
    "reported n0 cs' (es @ d)" "dom (map_of cs) \<subseteq> dom (map_of cs')"
    "if t_type v = Ident then (\<nexists>w. denotes (values_of un) n w) \<and> n0 < length (es @ d)
     else denotes (values_of un) n (lit v)"
    "d \<noteq> [] \<longrightarrow> (\<nexists>w. denotes (values_of un) n w)"
    using follow_sound [OF assms(1-3) p d] by blast
  let ?k = "if t_type v = Ident then \<lparr>c_valid = False, c_value = 0\<rparr> else \<lparr>c_valid = True, c_value = lit v\<rparr>"
  have "resolve_constant un n cs es = Some (AList.update n ?k cs', es @ d)"
    using c f(1) by (simp add: resolve_constant_def)
  moreover have "sound (values_of un) (AList.update n ?k cs')"
    using f(2,5) c sound_invalid [of "values_of un" cs' n] sound_valid [of "values_of un" cs' n "lit v"]
    by (auto simp: values_of_def split: if_splits)
  moreover have "reported n0 (AList.update n ?k cs') (es @ d)"
    using f(3,5) by (auto simp: reported_def update_conv' split: if_splits)
  moreover have "insert n (dom (map_of cs)) \<subseteq> dom (map_of (AList.update n ?k cs'))"
    using f(4) by (auto simp: update_conv')
  ultimately show ?thesis using f(6) by blast
qed

lemma constants_loop_sound:
  assumes "sound (values_of un) cs" and "reported n0 cs es" and "n0 \<le> length es"
    and "fst ` set (constant_decls items) \<subseteq> dom (map_of un)"
  shows "\<exists>cs' d. constants_loop un items cs es = Some (cs', es @ d) \<and> sound (values_of un) cs' \<and>
    reported n0 cs' (es @ d) \<and> fst ` set (constant_decls items) \<union> dom (map_of cs) \<subseteq> dom (map_of cs') \<and>
    (d \<noteq> [] \<longrightarrow> (\<exists>n \<in> fst ` set (constant_decls items). \<nexists>w. denotes (values_of un) n w))"
  using assms
proof (induction items arbitrary: cs es rule: constant_decls.induct)
  case (2 c items)
  let ?n = "token_text (co_name c)"
  have "?n \<in> dom (map_of un)" using 2(5) by auto
  then obtain cs1 d1 where r: "resolve_constant un ?n cs es = Some (cs1, es @ d1)" "sound (values_of un) cs1"
    "reported n0 cs1 (es @ d1)" "insert ?n (dom (map_of cs)) \<subseteq> dom (map_of cs1)"
    "d1 \<noteq> [] \<longrightarrow> (\<nexists>w. denotes (values_of un) ?n w)"
    using resolve_constant_sound [OF 2(2-4)] by blast
  have "n0 \<le> length (es @ d1)" "fst ` set (constant_decls items) \<subseteq> dom (map_of un)" using 2(4,5) by auto
  then obtain cs2 d2 where l: "constants_loop un items cs1 (es @ d1) = Some (cs2, (es @ d1) @ d2)"
    "sound (values_of un) cs2" "reported n0 cs2 ((es @ d1) @ d2)"
    "fst ` set (constant_decls items) \<union> dom (map_of cs1) \<subseteq> dom (map_of cs2)"
    "d2 \<noteq> [] \<longrightarrow> (\<exists>n \<in> fst ` set (constant_decls items). \<nexists>w. denotes (values_of un) n w)"
    using 2(1) [OF r(2,3)] by blast
  have "constants_loop un (AstItem.ATConstant c # items) cs es = Some (cs2, es @ d1 @ d2)"
    using r(1) l(1) by (simp add: string_slice_from_token_def)
  moreover have "insert ?n (fst ` set (constant_decls items)) \<union> dom (map_of cs) \<subseteq> dom (map_of cs2)"
    using r(4) l(4) by blast
  moreover have "d1 @ d2 \<noteq> [] \<longrightarrow>
      (\<exists>n \<in> insert ?n (fst ` set (constant_decls items)). \<nexists>w. denotes (values_of un) n w)"
    using r(5) l(5) by auto
  ultimately show ?case using l(2,3) by (intro exI [of _ cs2] exI [of _ "d1 @ d2"]) simp
qed auto

lemma load_constants_correct:
  assumes "load_constants items un es = (items', un', es')"
  shows "values_of un' = values_of un ++ declared items"
    and "fst ` set (constant_decls items') = fst ` set (constant_decls items) - dom (map_of un)"
    and "\<exists>d. es' = es @ d \<and>
      (d = [] \<longleftrightarrow> distinct (map fst (constant_decls items)) \<and> fst ` set (constant_decls items) \<inter> dom (map_of un) = {})"
  using assms
proof (induction items arbitrary: un es items' un' es' rule: constant_decls.induct)
  case (2 c items)
  let ?n = "token_text (co_name c)"
  let ?u = "\<lparr>uc_value = num_token (co_value c), uc_name_span = span (co_name c), uc_span = co_span c\<rparr>"
  have v: "values_of (AList.update ?n ?u un) = (values_of un)(?n \<mapsto> num_token (co_value c))" for un
    by (auto simp: values_of_def update_conv')
  have m: "values_of un ++ declared (AstItem.ATConstant c # items) = (values_of un)(?n \<mapsto> num_token (co_value c)) ++ declared items" for un
    by (simp add: declared_def)
  have dom: "dom (map_of (AList.update ?n ?u un)) = insert ?n (dom (map_of un))" for un by (auto simp: update_conv')
  {
    case 1
    then show ?case using 2(1)
      by (simp add: Let_def string_slice_from_token_def v m fun_upd_def split: option.splits prod.splits)
  next
    case 2
    show ?case
    proof (cases "map_of un ?n")
      case None
      then obtain is1 where is1: "items' = AstItem.ATConstant c # is1"
        "load_constants items (AList.update ?n ?u un) es = (is1, un', es')"
        using 2 by (auto simp: Let_def string_slice_from_token_def split: prod.splits)
      then show ?thesis using "2.IH"(2) [OF is1(2)] None by (auto simp: dom)
    next
      case (Some u)
      then obtain es1 where "load_constants items (AList.update ?n ?u un) es1 = (items', un', es')"
        using 2 by (auto simp: Let_def string_slice_from_token_def)
      from "2.IH"(2) [OF this] show ?thesis using Some by (auto simp: dom)
    qed
  next
    case 3
    show ?case
    proof (cases "map_of un ?n")
      case None
      then obtain is1 where is1: "items' = AstItem.ATConstant c # is1"
        "load_constants items (AList.update ?n ?u un) es = (is1, un', es')"
        using 3 by (auto simp: Let_def string_slice_from_token_def split: prod.splits)
      from "2.IH"(3) [OF is1(2)] obtain d where d: "es' = es @ d"
        "d = [] \<longleftrightarrow> distinct (map fst (constant_decls items)) \<and>
          fst ` set (constant_decls items) \<inter> insert ?n (dom (map_of un)) = {}"
        unfolding dom by blast
      show ?thesis
        by (rule exI [of _ d]) (use d None in \<open>simp add: Int_insert_right domIff conj_ac\<close>)
    next
      case (Some u)
      then obtain e where e: "load_constants items (AList.update ?n ?u un) (es @ [e]) = (items', un', es')"
        using 3 by (auto simp: Let_def string_slice_from_token_def)
      from "2.IH"(3) [OF e] show ?thesis using Some by auto
    qed
  }
qed (clarsimp simp: declared_def split: prod.splits; blast)+

text \<open>A sample: \<open>const A = B; const B = 3; const C = C;\<close>\<close>

definition word_token :: "byte list \<Rightarrow> Token" where
  "word_token w = token Ident w (of_nat (length w)) 0 (location 0 0 0)"

definition sample_constant :: "byte list \<Rightarrow> Token \<Rightarrow> AstItem" where
  "sample_constant n t = AstItem.ATConstant (ast_constant (span t) (word_token n) (ast_number (span t) t))"

definition sample_constants :: "AstItem list" where
  "sample_constants = [sample_constant [0x41] (word_token [0x42]),
     sample_constant [0x42] (token Number [0x33] 1 3 (location 0 0 0)),
     sample_constant [0x43] (word_token [0x43])]"

definition initial_context :: "AstItem list \<Rightarrow> EvaluationContext" where
  "initial_context items = \<lparr>ec_constants = [], ec_typedefs = [], ec_layouts = [], ec_unresolved = None,
     ec_type_objects = [], ec_items = items, ec_errors = [], ec_messages = []\<rparr>"

text \<open>C9: The constants of a schema are resolved as they are meant to be. Whatever constants it
  declares, resolving ends without touching a null pointer; a constant gets the value its chain of
  names ends in, or is marked invalid when the chain ends in an unknown name or in a cycle; and an
  error is reported exactly when a constant is defined twice or is invalid.\<close>

theorem resolve_constants_correct:
  assumes "ec_constants ctx = []"
  shows "\<exists>ctx'. resolve_constants ctx = Some ctx' \<and>
    (\<forall>n v. map_of (ec_constants ctx') n = Some \<lparr>c_valid = True, c_value = v\<rparr>
       \<longleftrightarrow> denotes (declared (ec_items ctx)) n v) \<and>
    (\<forall>n. map_of (ec_constants ctx') n = Some \<lparr>c_valid = False, c_value = 0\<rparr>
       \<longleftrightarrow> n \<in> dom (declared (ec_items ctx)) \<and> (\<nexists>v. denotes (declared (ec_items ctx)) n v)) \<and>
    (ec_errors ctx' = ec_errors ctx \<longleftrightarrow> distinct (map fst (constant_decls (ec_items ctx))) \<and>
       (\<forall>n \<in> dom (declared (ec_items ctx)). \<exists>v. denotes (declared (ec_items ctx)) n v))"
proof -
  let ?items = "ec_items ctx" and ?es = "ec_errors ctx" and ?ds = "declared (ec_items ctx)"
  obtain items' un es' where l: "load_constants ?items [] ?es = (items', un, es')" by (metis prod_cases3)
  have ds: "values_of un = ?ds"
    using load_constants_correct(1) [OF l] by (simp add: values_of_def fun_eq_iff map_add_def split: option.splits)
  have names: "fst ` set (constant_decls items') = dom ?ds"
    using load_constants_correct(2) [OF l] by (simp add: declared_def dom_map_of_conv_image_fst)
  obtain d where d: "es' = ?es @ d" "d = [] \<longleftrightarrow> distinct (map fst (constant_decls ?items))"
    using load_constants_correct(3) [OF l] by auto
  have un: "dom (map_of un) = dom ?ds" unfolding ds [symmetric] by (auto simp: values_of_def)
  have "sound (values_of un) []" "reported (length ?es) [] es'" "length ?es \<le> length es'"
    "fst ` set (constant_decls items') \<subseteq> dom (map_of un)"
    using d(1) names un by (simp_all add: sound_def reported_def)
  from constants_loop_sound [OF this] obtain cs d' where
    r: "constants_loop un items' [] es' = Some (cs, es' @ d')" "sound ?ds cs" "reported (length ?es) cs (es' @ d')"
      "dom ?ds \<subseteq> dom (map_of cs)" "d' \<noteq> [] \<longrightarrow> (\<exists>n \<in> dom ?ds. \<nexists>w. denotes ?ds n w)"
    unfolding ds names by auto
  have "resolve_constants ctx = Some (ctx\<lparr>ec_items := items', ec_constants := cs, ec_errors := es' @ d'\<rparr>)"
    using l r(1) assms by (simp add: resolve_constants_def)
  moreover have "map_of cs n = Some \<lparr>c_valid = True, c_value = v\<rparr> \<longleftrightarrow> denotes ?ds n v" for n v
  proof
    assume n: "denotes ?ds n v"
    then obtain k where k: "map_of cs n = Some k" using r(4) denotes_declared [of ?ds n v] by blast
    have "if c_valid k then denotes ?ds n (c_value k) else (\<nexists>v. denotes ?ds n v)"
      using r(2) k by (auto simp: sound_def split: if_splits)
    then have "c_valid k" "c_value k = v" using n denotes_det by (auto split: if_splits)
    with k show "map_of cs n = Some \<lparr>c_valid = True, c_value = v\<rparr>" by (cases k) simp
  qed (use r(2) in \<open>force simp: sound_def\<close>)
  moreover have "map_of cs n = Some \<lparr>c_valid = False, c_value = 0\<rparr> \<longleftrightarrow> n \<in> dom ?ds \<and> (\<nexists>v. denotes ?ds n v)" for n
  proof
    assume n: "n \<in> dom ?ds \<and> (\<nexists>v. denotes ?ds n v)"
    then obtain k where k: "map_of cs n = Some k" using r(4) by blast
    then have "\<not> c_valid k" "c_value k = 0" using r(2) n by (auto simp: sound_def split: if_splits)
    with k show "map_of cs n = Some \<lparr>c_valid = False, c_value = 0\<rparr>" by (cases k) simp
  qed (use r(2) in \<open>force simp: sound_def\<close>)
  moreover have "es' @ d' = ?es \<longleftrightarrow> distinct (map fst (constant_decls ?items)) \<and> (\<forall>n \<in> dom ?ds. \<exists>v. denotes ?ds n v)"
  proof
    assume e: "es' @ d' = ?es"
    then have "\<not> (\<exists>n k. map_of cs n = Some k \<and> \<not> c_valid k)" using r(3) by (auto simp: reported_def)
    then have "\<forall>n \<in> dom ?ds. \<exists>v. denotes ?ds n v" using r(2,4) unfolding sound_def by (metis domD subsetD)
    then show "distinct (map fst (constant_decls ?items)) \<and> (\<forall>n \<in> dom ?ds. \<exists>v. denotes ?ds n v)" using e d by simp
  qed (use d r(5) in auto)
  ultimately show ?thesis by (intro exI conjI allI) auto
qed

lemma resolve_constants_correct_witness:
  "\<exists>ctx'. resolve_constants (initial_context sample_constants) = Some ctx' \<and>
    map_of (ec_constants ctx') [0x41] = Some \<lparr>c_valid = True, c_value = 3\<rparr> \<and>
    map_of (ec_constants ctx') [0x43] = Some \<lparr>c_valid = False, c_value = 0\<rparr> \<and> ec_errors ctx' \<noteq> []"
proof -
  let ?ds = "declared sample_constants"
  have ds: "?ds = [[0x41] \<mapsto> word_token [0x42], [0x42] \<mapsto> token Number [0x33] 1 3 (location 0 0 0), [0x43] \<mapsto> word_token [0x43]]"
    by (simp add: declared_def sample_constants_def sample_constant_def ast_constant_def ast_number_def word_token_def
        token_def fun_upd_twist)
  have a: "denotes ?ds [0x41] 3"
    unfolding ds by (subst denotes_iff, simp add: word_token_def token_def, subst denotes_iff, simp add: token_def)
  have "(leads_to ?ds) [0x43] [0x43]" unfolding ds by (simp add: leads_to_def word_token_def token_def)
  then have c: "\<nexists>v. denotes ?ds [0x43] v" using cycle_denotes_nothing tranclp.r_into_trancl by metis
  have "ec_constants (initial_context sample_constants) = []" "ec_items (initial_context sample_constants) = sample_constants"
    "ec_errors (initial_context sample_constants) = []" "[0x43] \<in> dom ?ds"
    by (simp_all add: initial_context_def ds)
  with resolve_constants_correct [of "initial_context sample_constants"] a c show ?thesis by metis
qed

end
