(* ===== verification/Eval_Resolve.thy ===== *)
theory Eval_Resolve
  imports Eval_Constants
begin

text \<open>
  Resolving the types of a schema (\<open>resolve_types\<close> of \<^verbatim>\<open>ser/eval.c\<close> and what it calls). Declared
  types become type objects, which refer to each other by pointers. A result of \<^const>\<open>None\<close> is the
  use of a null pointer or of a union member that was not stored, or fuel that does not suffice;
  what is enough is proved in the theory \<open>Eval_Resolve_Correct\<close>.
\<close>

section \<open>Numbers and sizes\<close>

definition get_ast_number_value :: "AstNumber \<Rightarrow> EvaluationContext \<Rightarrow> u64 \<times> EvaluationContext" where
  "get_ast_number_value number ctx =
    (if t_type (num_token number) = Number then (lit (num_token number), ctx)
     else
       let name = string_slice_from_token (num_token number) in
       case map_of (ec_constants ctx) name of
         Some c \<Rightarrow> (if c_valid c then c_value c else 0, ctx)
       | None \<Rightarrow> (0, push_error (err_unknown (span (num_token number)) AstTag.ATConstant name) ctx))"

fun ast_size_to_sizing :: "AstSize \<Rightarrow> EvaluationContext \<Rightarrow> (Sizing \<times> u64) \<times> EvaluationContext" where
  "ast_size_to_sizing (AstSize.ATMaxSize _ n) ctx = (let (v, ctx) = get_ast_number_value n ctx in ((SizingMax, v), ctx))"
| "ast_size_to_sizing (AstSize.ATFixedSize _ n) ctx = (let (v, ctx) = get_ast_number_value n ctx in ((SizingFixed, v), ctx))"
| "ast_size_to_sizing (AstSize.ATNoSize _) ctx = ((SizingMax, 0xFFFF), ctx)"

section \<open>Type objects\<close>

definition new_object :: "TypeUnion \<Rightarrow> EvaluationContext \<Rightarrow> nat \<times> EvaluationContext" where
  "new_object ty ctx = (length (ec_type_objects ctx),
     ctx\<lparr>ec_type_objects := ec_type_objects ctx @ [\<lparr>to_align = unresolved_align, to_type = ty\<rparr>]\<rparr>)"

definition set_object :: "nat \<Rightarrow> TypeUnion \<Rightarrow> EvaluationContext \<Rightarrow> EvaluationContext" where
  "set_object i ty ctx = ctx\<lparr>ec_type_objects := (ec_type_objects ctx)[i := (ec_type_objects ctx ! i)\<lparr>to_type := ty\<rparr>]\<rparr>"

definition set_typedef :: "StringSlice \<Rightarrow> TypePtr option \<Rightarrow> EvaluationContext \<Rightarrow> EvaluationContext" where
  "set_typedef name v ctx = ctx\<lparr>ec_typedefs := AList.update name v (ec_typedefs ctx)\<rparr>"

type_synonym 'a resolver = "'a \<Rightarrow> EvaluationContext \<Rightarrow> (TypePtr option \<times> EvaluationContext) option"

text \<open>The object of an array is allocated before its element type is resolved; until then the
  members are whatever \<open>malloc\<close> left there, which nothing reads.\<close>

definition raw_array :: TypeUnion where
  "raw_array = TypeArray \<lparr>ar_sizing = SizingMax, ar_size = 0, ar_heap = False, ar_type = None\<rparr>"

fun ast_type_to_type_obj :: "SpannedStringSlice resolver \<Rightarrow> AstType resolver" where
  "ast_type_to_type_obj resolve (AstType.ATIdent i) ctx = resolve (sss_from_token (id_token i)) ctx"
| "ast_type_to_type_obj resolve (AstType.ATHeapArray _ ty sz) ctx = (
     let (i, ctx) = new_object raw_array ctx;
         ((sizing, n), ctx) = ast_size_to_sizing sz ctx in do {
       (el, ctx) \<leftarrow> ast_type_to_type_obj resolve ty ctx;
       Some (Some (Obj i), set_object i (TypeArray \<lparr>ar_sizing = sizing, ar_size = n, ar_heap = True, ar_type = el\<rparr>) ctx)
     })"
| "ast_type_to_type_obj resolve (AstType.ATFieldArray _ ty sz) ctx = (
     let (i, ctx) = new_object raw_array ctx;
         ((sizing, n), ctx) = ast_size_to_sizing sz ctx in do {
       (el, ctx) \<leftarrow> ast_type_to_type_obj resolve ty ctx;
       Some (Some (Obj i), set_object i (TypeArray \<lparr>ar_sizing = sizing, ar_size = n, ar_heap = False, ar_type = el\<rparr>) ctx)
     })"

definition push_field :: "nat \<Rightarrow> Field \<Rightarrow> EvaluationContext \<Rightarrow> EvaluationContext" where
  "push_field i f ctx = (case to_type (ec_type_objects ctx ! i) of
     TypeStruct s \<Rightarrow> set_object i (TypeStruct (s\<lparr>so_fields := so_fields s @ [f]\<rparr>)) ctx
   | _ \<Rightarrow> ctx)"

definition resolve_field :: "SpannedStringSlice resolver \<Rightarrow> AstField \<Rightarrow> EvaluationContext \<Rightarrow> (Field \<times> EvaluationContext) option" where
  "resolve_field resolve f ctx = do {
     (ty, ctx) \<leftarrow> ast_type_to_type_obj resolve (fd_type f) ctx;
     Some (\<lparr>f_name = string_slice_from_token (fd_name f), f_name_span = span (fd_name f), f_type = ty\<rparr>, ctx)
   }"

fun struct_fields_loop :: "SpannedStringSlice resolver \<Rightarrow> nat \<Rightarrow> AstField list \<Rightarrow> EvaluationContext
    \<Rightarrow> EvaluationContext option" where
  "struct_fields_loop resolve i [] ctx = Some ctx"
| "struct_fields_loop resolve i (f # fs) ctx = do {
     (fd, ctx) \<leftarrow> resolve_field resolve f ctx;
     struct_fields_loop resolve i fs (push_field i fd ctx)
   }"

definition unresolved_type :: "StringSlice \<Rightarrow> EvaluationContext \<Rightarrow> UnresolvedTypeDef option" where
  "unresolved_type name ctx = (case ec_unresolved ctx of None \<Rightarrow> None | Some un \<Rightarrow> map_of un name)"

primrec resolve_type :: "nat \<Rightarrow> SpannedStringSlice resolver" where
  "resolve_type 0 name ctx = None"
| "resolve_type (Suc n) name ctx = (case map_of (ec_typedefs ctx) (slice name) of
     Some v \<Rightarrow> Some (v, ctx)
   | None \<Rightarrow> (case unresolved_type (slice name) ctx of
       None \<Rightarrow> Some (None, push_error (err_unknown (ss_span name) AstTag.ATIdent (slice name)) ctx)
     | Some untd \<Rightarrow> (case ut_value untd of
         NodeType ty \<Rightarrow> do {
           (v, ctx) \<leftarrow> ast_type_to_type_obj (resolve_type n) ty (set_typedef (slice name) None ctx);
           Some (v, set_typedef (slice name) v ctx)
         }
       | NodeStruct s \<Rightarrow>
           (let (i, ctx) = new_object (TypeStruct \<lparr>so_name = slice name, so_fields = [], so_has_funcs = False\<rparr>) ctx in do {
             ctx \<leftarrow> struct_fields_loop (resolve_type n) i (st_fields s) (set_typedef (slice name) (Some (Obj i)) ctx);
             Some (Some (Obj i), ctx)
           }))))"

section \<open>Collecting the declarations\<close>

fun type_decl_of :: "AstItem \<Rightarrow> (StringSlice \<times> UnresolvedTypeDef) option" where
  "type_decl_of (AstItem.ATTypeDecl t) = Some (string_slice_from_token (td_name t),
     \<lparr>ut_value = NodeType (td_value t), ut_name_span = span (td_name t), ut_span = td_span t\<rparr>)"
| "type_decl_of (AstItem.ATStruct s) = Some (string_slice_from_token (st_ident s),
     \<lparr>ut_value = NodeStruct s, ut_name_span = span (st_ident s), ut_span = st_span s\<rparr>)"
| "type_decl_of _ = None"

definition empty_struct_errors :: "AstItem \<Rightarrow> EvalError list" where
  "empty_struct_errors item = (case item of
     AstItem.ATStruct s \<Rightarrow>
       if st_fields s = [] then [err_empty (span (st_ident s)) AstTag.ATStruct (string_slice_from_token (st_ident s))] else []
   | _ \<Rightarrow> [])"

fun load_types :: "AstItem list \<Rightarrow> UnresolvedTypeDef table \<Rightarrow> EvalError list
    \<Rightarrow> AstItem list \<times> UnresolvedTypeDef table \<times> EvalError list" where
  "load_types [] un es = ([], un, es)"
| "load_types (item # items) un es = (case type_decl_of item of
     None \<Rightarrow> (let (items', r) = load_types items un es in (item # items', r))
   | Some (name, td) \<Rightarrow>
       (let es = es @ empty_struct_errors item in
        case map_of un name of
          Some original \<Rightarrow>
            load_types items (AList.update name td un)
              (es @ [err_duplicate_def (ut_name_span original) (ut_name_span td) AstTag.ATIdent name])
        | None \<Rightarrow>
            (let (items', r) = load_types items (AList.update name td un) es in (item # items', r))))"

section \<open>Cycles of declarations\<close>

fun inner_ident :: "AstType \<Rightarrow> AstIdent" where
  "inner_ident (AstType.ATIdent i) = i"
| "inner_ident (AstType.ATHeapArray _ ty _) = inner_ident ty"
| "inner_ident (AstType.ATFieldArray _ ty _) = inner_ident ty"

text \<open>The walk over the members of a cycle: the index of the name it closes at, and the definitions
  with every member marked invalid.\<close>

fun last_index :: "StringSlice \<Rightarrow> StringSlice list \<Rightarrow> nat \<Rightarrow> nat option \<Rightarrow> nat option" where
  "last_index name [] i r = r"
| "last_index name (x # xs) i r = last_index name xs (i + 1) (if x = name then Some i else r)"

definition mark_invalid :: "StringSlice list \<Rightarrow> TypePtr option table \<Rightarrow> TypePtr option table" where
  "mark_invalid names tds = foldl (\<lambda>tds n. AList.update n None tds) tds names"

text \<open>One step of the walks over names: a name that is taken into the set of names seen was declared.\<close>

lemma names_left:
  assumes "map_of un name = Some x" and "name \<notin> set names"
  shows "card (fst ` set un - insert name (set names)) < card (fst ` set un - set names)"
proof -
  have "name \<in> fst ` set un - set names" using assms by (auto dest: map_of_SomeD intro: rev_image_eqI)
  moreover have "fst ` set un - insert name (set names) = (fst ` set un - set names) - {name}" by auto
  ultimately show ?thesis by (metis card_Diff1_less finite_Diff finite_imageI finite_set)
qed

function decl_chain :: "UnresolvedTypeDef table \<Rightarrow> StringSlice list \<Rightarrow> Span list \<Rightarrow> StringSlice list \<Rightarrow> AstType
    \<Rightarrow> TypePtr option table \<Rightarrow> EvalError list \<Rightarrow> (bool \<times> TypePtr option table \<times> EvalError list) option" where
  "decl_chain un names spans idents v tds es = (
     let nxt = sss_from_token (id_token (inner_ident v)) in
     if slice nxt \<in> set names then do {
       index \<leftarrow> last_index (slice nxt) idents 0 None;
       Some (True, mark_invalid idents tds, es @ [EETCycle (drop index spans) (drop index idents) AstTag.ATTypeDecl])
     }
     else case map_of tds (slice nxt) of
       Some None \<Rightarrow> Some (False, tds, es)
     | Some (Some _) \<Rightarrow> Some (True, tds, es)
     | None \<Rightarrow> (case map_of un (slice nxt) of
         None \<Rightarrow> Some (False, tds, es @ [err_unknown (ss_span nxt) AstTag.ATIdent (slice nxt)])
       | Some unr \<Rightarrow> (case ut_value unr of
           NodeStruct _ \<Rightarrow> Some (True, tds, es)
         | NodeType ty \<Rightarrow>
             decl_chain un (slice nxt # names) (spans @ [ut_span unr]) (idents @ [slice nxt]) ty tds es)))"
  by pat_completeness auto

termination
  by (relation "measure (\<lambda>(un, names, _, _, _, _, _). card (fst ` set un - set names))") (auto intro: names_left)

declare decl_chain.simps [simp del]

fun decl_cycles_loop :: "UnresolvedTypeDef table \<Rightarrow> AstItem list \<Rightarrow> TypePtr option table \<Rightarrow> EvalError list
    \<Rightarrow> (TypePtr option table \<times> EvalError list) option" where
  "decl_cycles_loop un [] tds es = Some (tds, es)"
| "decl_cycles_loop un (AstItem.ATTypeDecl td # items) tds es = (
     let name = string_slice_from_token (td_name td) in do {
       (valid, tds, es) \<leftarrow> decl_chain un [name] [td_span td] [name] (td_value td) tds es;
       decl_cycles_loop un items (if valid then tds else AList.update name None tds) es
     })"
| "decl_cycles_loop un (item # items) tds es = decl_cycles_loop un items tds es"

section \<open>Structs of infinite size\<close>

text \<open>The loop that skips the arrays stored in place.\<close>

primrec strip_arrays :: "nat \<Rightarrow> TypeObject list \<Rightarrow> TypePtr option \<Rightarrow> (TypePtr \<times> TypeObject) option" where
  "strip_arrays 0 objs ty = None"
| "strip_arrays (Suc n) objs ty = do {
     p \<leftarrow> ty;
     t \<leftarrow> deref objs ty;
     case to_type t of
       TypeArray a \<Rightarrow>
         if \<not> ar_heap a \<or> ar_sizing a = SizingFixed then strip_arrays n objs (ar_type a) else Some (p, t)
     | _ \<Rightarrow> Some (p, t)
   }"

definition struct_of :: "TypeObject list \<Rightarrow> TypePtr \<Rightarrow> StructObject option" where
  "struct_of objs p = (case deref objs (Some p) of
     Some t \<Rightarrow> (case to_type t of TypeStruct s \<Rightarrow> Some s | _ \<Rightarrow> None)
   | None \<Rightarrow> None)"

record RecursionState =
  rs_structs :: "SpannedStringSlice list"
  rs_fields :: "SpannedStringSlice list"
  rs_checked :: "TypePtr list"
  rs_invalids :: "TypePtr list"

text \<open>The error of a member that leads back: the declaration of the struct is looked up for the spans.\<close>

definition report_recursion :: "UnresolvedTypeDef table \<Rightarrow> TypePtr \<Rightarrow> StructObject \<Rightarrow> nat \<Rightarrow> RecursionState \<Rightarrow> RecursionState option" where
  "report_recursion un p s i st = do {
     unr \<leftarrow> map_of un (so_name s);
     decl \<leftarrow> (case ut_value unr of NodeStruct d \<Rightarrow> Some d | NodeType _ \<Rightarrow> None);
     af \<leftarrow> (if i < length (st_fields decl) then Some (st_fields decl ! i) else None);
     Some (st\<lparr>rs_structs := rs_structs st @ [\<lparr>slice = so_name s, ss_span = ut_name_span unr\<rparr>],
       rs_fields := rs_fields st @ [sss_from_token (id_token (inner_ident (fd_type af)))],
       rs_invalids := snd (set_add p (rs_invalids st))\<rparr>)
   }"

fun recursion_loop :: "(TypePtr \<Rightarrow> RecursionState \<Rightarrow> (bool \<times> RecursionState) option) \<Rightarrow> nat \<Rightarrow> UnresolvedTypeDef table
    \<Rightarrow> TypeObject list \<Rightarrow> TypePtr \<Rightarrow> TypePtr \<Rightarrow> StructObject \<Rightarrow> nat \<Rightarrow> Field list \<Rightarrow> RecursionState
    \<Rightarrow> (bool \<times> RecursionState) option" where
  "recursion_loop rec n un objs root p s i [] st = Some (False, st)"
| "recursion_loop rec n un objs root p s i (f # fs) st = (
     if f_type f = None then recursion_loop rec n un objs root p s (i + 1) fs st
     else do {
       (q, t) \<leftarrow> strip_arrays n objs (f_type f);
       case to_type t of
         TypeStruct _ \<Rightarrow> do {
           (found, st) \<leftarrow> (if q = root then Some (True, st) else rec q st);
           if found then do { st \<leftarrow> report_recursion un p s i st; Some (True, st) }
           else recursion_loop rec n un objs root p s (i + 1) fs st
         }
       | _ \<Rightarrow> recursion_loop rec n un objs root p s (i + 1) fs st
     })"

primrec check_for_recursion :: "nat \<Rightarrow> UnresolvedTypeDef table \<Rightarrow> TypeObject list \<Rightarrow> TypePtr \<Rightarrow> TypePtr
    \<Rightarrow> RecursionState \<Rightarrow> (bool \<times> RecursionState) option" where
  "check_for_recursion 0 un objs root p st = None"
| "check_for_recursion (Suc n) un objs root p st = (
     let (had, checked) = set_add p (rs_checked st); st = st\<lparr>rs_checked := checked\<rparr> in
     if had \<or> p \<in> set (rs_invalids st) then Some (False, st)
     else do {
       s \<leftarrow> struct_of objs p;
       recursion_loop (check_for_recursion n un objs root) (length objs + 1) un objs root p s 0 (so_fields s) st
     })"

fun recursion_check_loop :: "nat \<Rightarrow> UnresolvedTypeDef table \<Rightarrow> TypeObject list \<Rightarrow> TypePtr option table \<Rightarrow> AstItem list
    \<Rightarrow> TypePtr list \<Rightarrow> EvalError list \<Rightarrow> EvalError list option" where
  "recursion_check_loop n un objs tds [] invalids es = Some es"
| "recursion_check_loop n un objs tds (AstItem.ATStruct d # items) invalids es = do {
     td \<leftarrow> map_of tds (string_slice_from_token (st_ident d));
     root \<leftarrow> td;
     (found, st) \<leftarrow> check_for_recursion n un objs root root
       \<lparr>rs_structs = [], rs_fields = [], rs_checked = [], rs_invalids = invalids\<rparr>;
     recursion_check_loop n un objs tds items (rs_invalids st)
       (if found then es @ [EETInfiniteStruct (rs_structs st) (rs_fields st)] else es)
   }"
| "recursion_check_loop n un objs tds (item # items) invalids es = recursion_check_loop n un objs tds items invalids es"

section \<open>Duplicate fields\<close>

fun duplicate_fields :: "Field list \<Rightarrow> Span table \<Rightarrow> EvalError list \<Rightarrow> EvalError list" where
  "duplicate_fields [] names es = es"
| "duplicate_fields (f # fs) names es = (case map_of names (f_name f) of
     Some prev \<Rightarrow> duplicate_fields fs names (es @ [err_duplicate_def prev (f_name_span f) AstTag.ATField (f_name f)])
   | None \<Rightarrow> duplicate_fields fs (AList.update (f_name f) (f_name_span f) names) es)"

fun duplicate_fields_loop :: "TypeObject list \<Rightarrow> TypePtr option table \<Rightarrow> AstItem list \<Rightarrow> EvalError list
    \<Rightarrow> EvalError list option" where
  "duplicate_fields_loop objs tds [] es = Some es"
| "duplicate_fields_loop objs tds (AstItem.ATStruct d # items) es = do {
     td \<leftarrow> map_of tds (string_slice_from_token (st_ident d));
     p \<leftarrow> td;
     s \<leftarrow> struct_of objs p;
     duplicate_fields_loop objs tds items (duplicate_fields (so_fields s) [] es)
   }"
| "duplicate_fields_loop objs tds (item # items) es = duplicate_fields_loop objs tds items es"

section \<open>Resolving all types\<close>

fun resolve_types_loop :: "nat \<Rightarrow> AstItem list \<Rightarrow> EvaluationContext \<Rightarrow> EvaluationContext option" where
  "resolve_types_loop n [] ctx = Some ctx"
| "resolve_types_loop n (AstItem.ATStruct s # items) ctx = do {
     (_, ctx) \<leftarrow> resolve_type n (sss_from_token (st_ident s)) ctx;
     resolve_types_loop n items ctx
   }"
| "resolve_types_loop n (AstItem.ATTypeDecl t # items) ctx = do {
     (_, ctx) \<leftarrow> resolve_type n (sss_from_token (td_name t)) ctx;
     resolve_types_loop n items ctx
   }"
| "resolve_types_loop n (item # items) ctx = resolve_types_loop n items ctx"

definition resolve_types :: "nat \<Rightarrow> EvaluationContext \<Rightarrow> EvaluationContext option" where
  "resolve_types n ctx = (
     let (items, un, es) = load_types (ec_items ctx) [] (ec_errors ctx) in do {
       (tds, es) \<leftarrow> decl_cycles_loop un items (ec_typedefs ctx) es;
       ctx \<leftarrow> resolve_types_loop n items
         (ctx\<lparr>ec_items := items, ec_unresolved := Some un, ec_typedefs := tds, ec_errors := es\<rparr>);
       es \<leftarrow> recursion_check_loop n un (ec_type_objects ctx) (ec_typedefs ctx) items [] (ec_errors ctx);
       es \<leftarrow> duplicate_fields_loop (ec_type_objects ctx) (ec_typedefs ctx) items es;
       Some (ctx\<lparr>ec_errors := es, ec_unresolved := None\<rparr>)
     })"

end
