(* ===== verification/Eval_Layout.thy ===== *)
theory Eval_Layout
  imports Eval_Types "HOL-Library.Multiset"
begin

text \<open>
  Alignments and layouts of the resolved types (\<open>resolve_alignment\<close>, \<open>add_fields\<close>, \<open>fa_compare\<close>
  and \<open>type_layout\<close> of \<^verbatim>\<open>ser/eval.c\<close>). The recursion follows pointers, so it carries fuel; a
  result of \<^const>\<open>None\<close> is fuel that does not suffice or the use of a null pointer. What is
  enough for the alignments is proved in the theory \<open>Eval_Layout_Correct\<close>.
\<close>

section \<open>Alignments\<close>

definition size_alignment :: "u64 \<Rightarrow> Alignment" where
  "size_alignment sz =
    (if sz \<le> 0xFF then ALIGN_1 else if sz \<le> 0xFFFF then ALIGN_2
     else if sz \<le> 0xFFFFFFFF then ALIGN_4 else ALIGN_8)"

fun fields_alignment :: "(TypePtr option \<Rightarrow> TypePtr option list \<Rightarrow> (Alignment \<times> TypePtr option list) option)
    \<Rightarrow> Field list \<Rightarrow> Alignment \<Rightarrow> TypePtr option list \<Rightarrow> (Alignment \<times> TypePtr option list) option" where
  "fields_alignment resolve [] res seen = Some (res, seen)"
| "fields_alignment resolve (f # fs) res seen = do {
     (al, seen) \<leftarrow> resolve (f_type f) seen;
     fields_alignment resolve fs (max_alignment res al) seen
   }"

primrec resolve_alignment :: "nat \<Rightarrow> TypeObject list \<Rightarrow> TypePtr option \<Rightarrow> TypePtr option list
    \<Rightarrow> (Alignment \<times> TypePtr option list) option" where
  "resolve_alignment 0 objs ty seen = None"
| "resolve_alignment (Suc n) objs ty seen = do {
     t \<leftarrow> deref objs ty;
     if al_value (to_align t) \<noteq> 0 then Some (to_align t, seen)
     else
       let (had, seen) = set_add ty seen in
       if had then Some (ALIGN_1, seen)
       else case to_type t of
         TypeStruct s \<Rightarrow> fields_alignment (resolve_alignment n objs) (so_fields s) ALIGN_1 seen
       | TypeArray a \<Rightarrow>
           if ar_sizing a = SizingMax then do {
             (al, seen) \<leftarrow> resolve_alignment n objs (ar_type a) seen;
             Some (max_alignment (size_alignment (ar_size a)) al, seen)
           }
           else resolve_alignment n objs (ar_type a) seen
       | TypePrimitif _ \<Rightarrow> None
   }"

text \<open>The first loop of \<open>resolve_additional_type_info\<close>.\<close>

primrec alignment_loop :: "nat \<Rightarrow> nat list \<Rightarrow> TypeObject list \<Rightarrow> TypeObject list option" where
  "alignment_loop n [] objs = Some objs"
| "alignment_loop n (i # is) objs = do {
     (al, _) \<leftarrow> resolve_alignment n objs (Some (Obj i)) [];
     alignment_loop n is (objs[i := (objs ! i)\<lparr>to_align := al\<rparr>])
   }"

section \<open>Layouts\<close>

fun primitif_size :: "PrimitifType \<Rightarrow> u64" where
  "primitif_size Primitif_bool = 1"
| "primitif_size Primitif_char = 1"
| "primitif_size Primitif_i8 = 1"
| "primitif_size Primitif_u8 = 1"
| "primitif_size Primitif_i16 = 2"
| "primitif_size Primitif_u16 = 2"
| "primitif_size Primitif_i32 = 4"
| "primitif_size Primitif_u32 = 4"
| "primitif_size Primitif_f32 = 4"
| "primitif_size Primitif_i64 = 8"
| "primitif_size Primitif_u64 = 8"
| "primitif_size Primitif_f64 = 8"

text \<open>The accessor of the length of an array of bounded size.\<close>

definition length_accessor :: "u64 list \<Rightarrow> u64 \<Rightarrow> FieldAccessor" where
  "length_accessor base sz =
    (if sz \<le> 0xFF then \<lparr>fa_indices = base @ [0], fa_size = 1, fa_type = Some (PRIMITIF Primitif_u8)\<rparr>
     else if sz \<le> 0xFFFF then \<lparr>fa_indices = base @ [0], fa_size = 2, fa_type = Some (PRIMITIF Primitif_u16)\<rparr>
     else if sz \<le> 0xFFFFFFFF then \<lparr>fa_indices = base @ [0], fa_size = 4, fa_type = Some (PRIMITIF Primitif_u32)\<rparr>
     else \<lparr>fa_indices = base @ [0], fa_size = 8, fa_type = Some (PRIMITIF Primitif_u64)\<rparr>)"

text \<open>The loops over the members of a struct and the elements of an array: the \<open>i\<close>th is visited with
  its index at the end of the base.\<close>

fun members_loop :: "(TypePtr option \<Rightarrow> u64 list \<Rightarrow> FieldAccessor list \<Rightarrow> FieldAccessor list option)
    \<Rightarrow> TypePtr option list \<Rightarrow> u64 list \<Rightarrow> u64 \<Rightarrow> FieldAccessor list \<Rightarrow> FieldAccessor list option" where
  "members_loop add [] base i v = Some v"
| "members_loop add (ty # tys) base i v = do {
     v \<leftarrow> add ty (base @ [i]) v;
     members_loop add tys base (i + 1) v
   }"

primrec add_fields :: "nat \<Rightarrow> TypeObject list \<Rightarrow> TypePtr option \<Rightarrow> u64 list \<Rightarrow> FieldAccessor list
    \<Rightarrow> FieldAccessor list option" where
  "add_fields 0 objs ty base v = None"
| "add_fields (Suc n) objs ty base v = do {
     t \<leftarrow> deref objs ty;
     case to_type t of
       TypePrimitif p \<Rightarrow>
         Some (v @ [\<lparr>fa_indices = base, fa_size = primitif_size p, fa_type = Some (PRIMITIF p)\<rparr>])
     | TypeStruct s \<Rightarrow> members_loop (add_fields n objs) (map f_type (so_fields s)) base 0 v
     | TypeArray a \<Rightarrow>
         if ar_sizing a = SizingMax then
           Some (v @ [\<lparr>fa_indices = base @ [1], fa_size = 0, fa_type = ar_type a\<rparr>, length_accessor base (ar_size a)])
         else members_loop (add_fields n objs) (replicate (unat (ar_size a)) (ar_type a)) base 0 v
   }"

definition fa_compare :: "TypeObject list \<Rightarrow> FieldAccessor \<Rightarrow> FieldAccessor \<Rightarrow> int option" where
  "fa_compare objs fa fb =
    (if fa_size fb \<noteq> 0 \<and> fa_size fa = 0 then Some 1
     else if fa_size fa \<noteq> 0 \<and> fa_size fb = 0 then Some (- 1)
     else do {
       tb \<leftarrow> deref objs (fa_type fb);
       ta \<leftarrow> deref objs (fa_type fa);
       Some (uint (al_value (to_align tb)) - uint (al_value (to_align ta)))
     })"

type_synonym qsort = "(FieldAccessor \<Rightarrow> FieldAccessor \<Rightarrow> int option) \<Rightarrow> FieldAccessor list \<Rightarrow> FieldAccessor list option"

text \<open>\<open>qsort\<close> of the C library orders the elements by the comparison it is given; which of the
  possible orders of equal elements results, it leaves open. It is an argument of the definitions,
  and this is what the library promises of it, for a comparison that is defined and consistent.\<close>

definition consistent :: "('a \<Rightarrow> 'a \<Rightarrow> int option) \<Rightarrow> 'a list \<Rightarrow> bool" where
  "consistent cmp xs \<longleftrightarrow> (\<forall>a \<in> set xs. \<forall>b \<in> set xs. \<exists>r. cmp a b = Some r \<and> (\<exists>r'. cmp b a = Some r' \<and> (r \<le> 0 \<or> r' \<le> 0)) \<and>
     (\<forall>c \<in> set xs. \<forall>s. cmp b c = Some s \<longrightarrow> r \<le> 0 \<longrightarrow> s \<le> 0 \<longrightarrow> (\<exists>u. cmp a c = Some u \<and> u \<le> 0)))"

definition ordered :: "('a \<Rightarrow> 'a \<Rightarrow> int option) \<Rightarrow> 'a \<Rightarrow> 'a \<Rightarrow> bool" where
  "ordered cmp a b \<longleftrightarrow> (\<exists>r. cmp a b = Some r \<and> r \<le> 0)"

definition qsort_spec :: "qsort \<Rightarrow> bool" where
  "qsort_spec qs \<longleftrightarrow> (\<forall>cmp xs. consistent cmp xs \<longrightarrow>
     (\<exists>ys. qs cmp xs = Some ys \<and> mset ys = mset xs \<and> sorted_wrt (ordered cmp) ys))"

definition type_layout :: "qsort \<Rightarrow> nat \<Rightarrow> TypeObject list \<Rightarrow> TypePtr \<Rightarrow> Layout option" where
  "type_layout qs n objs ty = do {
     fs \<leftarrow> add_fields n objs (Some ty) [] [];
     fs \<leftarrow> qs (fa_compare objs) fs;
     Some \<lparr>ly_fields = fs, ly_type = ty\<rparr>
   }"

text \<open>The second loop of \<open>resolve_additional_type_info\<close>, and the layouts of the primitive types; the
  two floating-point types are not among them.\<close>

fun layout_loop :: "qsort \<Rightarrow> nat \<Rightarrow> TypeObject list \<Rightarrow> TypePtr list \<Rightarrow> (TypePtr \<times> Layout) list
    \<Rightarrow> (TypePtr \<times> Layout) list option" where
  "layout_loop qs n objs [] ls = Some ls"
| "layout_loop qs n objs (ty # tys) ls = do {
     l \<leftarrow> type_layout qs n objs ty;
     layout_loop qs n objs tys (AList.update ty l ls)
   }"

definition layout_primitifs :: "PrimitifType list" where
  "layout_primitifs = [Primitif_u8, Primitif_u16, Primitif_u32, Primitif_u64, Primitif_i8, Primitif_i16,
     Primitif_i32, Primitif_i64, Primitif_char, Primitif_bool]"

definition resolve_additional_type_info :: "qsort \<Rightarrow> nat \<Rightarrow> EvaluationContext \<Rightarrow> EvaluationContext option" where
  "resolve_additional_type_info qs n ctx = do {
     objs \<leftarrow> alignment_loop n [0..<length (ec_type_objects ctx)] (ec_type_objects ctx);
     ls \<leftarrow> layout_loop qs n objs (map Obj [0..<length objs] @ map PRIMITIF layout_primitifs) [];
     Some (ctx\<lparr>ec_type_objects := objs, ec_layouts := ls\<rparr>)
   }"

end
