(* ===== verification/Eval.thy ===== *)
theory Eval
  imports Eval_Resolve Eval_Layout
begin

text \<open>
  The messages of a schema and its evaluation as a whole (\<open>resolve_messages\<close> and
  \<open>resolve_statics\<close> of \<^verbatim>\<open>ser/eval.c\<close>).
\<close>

section \<open>Attributes\<close>

definition attr_versioned :: "byte list" where
  "attr_versioned = [0x76, 0x65, 0x72, 0x73, 0x69, 0x6F, 0x6E, 0x65, 0x64]"

text \<open>The comparison of the attribute's name with the known ones runs over as many bytes as the longer
  has. The name is a word of the source and the byte after it continues no word, so the two agree
  there just when they are equal.\<close>

definition attribute_of :: "AstAttribute \<Rightarrow> Attribute option" where
  "attribute_of a = (if token_text (at_ident a) = attr_versioned then Some Attr_versioned else None)"

section \<open>Messages\<close>

text \<open>The names seen, with the span of the first one, and the error for a name seen before.\<close>

definition add_name :: "AstTag \<Rightarrow> StringSlice \<Rightarrow> Span \<Rightarrow> Span table \<Rightarrow> EvaluationContext \<Rightarrow> Span table \<times> EvaluationContext" where
  "add_name tag name s names ctx = (case map_of names name of
     Some prev \<Rightarrow> (names, push_error (err_duplicate_def prev s tag name) ctx)
   | None \<Rightarrow> (AList.update name s names, ctx))"

fun message_fields_loop :: "nat \<Rightarrow> AstField list \<Rightarrow> Span table \<Rightarrow> Field list \<Rightarrow> EvaluationContext
    \<Rightarrow> (Field list \<times> EvaluationContext) option" where
  "message_fields_loop n [] names fds ctx = Some (fds, ctx)"
| "message_fields_loop n (f # fs) names fds ctx = do {
     (fd, ctx) \<leftarrow> resolve_field (resolve_type n) f ctx;
     let (names, ctx) = add_name AstTag.ATField (f_name fd) (f_name_span fd) names ctx;
     message_fields_loop n fs names (fds @ [fd]) ctx
   }"

fun children_loop :: "nat \<Rightarrow> AstAttributeOrMessage list \<Rightarrow> Attribute set \<Rightarrow> Span table \<Rightarrow> MessageObject list
    \<Rightarrow> EvaluationContext \<Rightarrow> (MessageObject list \<times> EvaluationContext) option" where
  "children_loop n [] attrs names ms ctx = Some (ms, ctx)"
| "children_loop n (AstAttributeOrMessage.ATAttribute a # cs) attrs names ms ctx = (case attribute_of a of
     Some attr \<Rightarrow> children_loop n cs (insert attr attrs) names ms ctx
   | None \<Rightarrow> children_loop n cs attrs names ms
       (push_error (err_unknown (span (at_ident a)) AstTag.ATAttribute (string_slice_from_token (at_ident a))) ctx))"
| "children_loop n (AstAttributeOrMessage.ATMessage m # cs) attrs names ms ctx = (
     let name = sss_from_token (mg_ident m);
         (names, ctx) = add_name AstTag.ATIdent (slice name) (ss_span name) names ctx in do {
       (fds, ctx) \<leftarrow> message_fields_loop n (mg_fields m) [] [] ctx;
       children_loop n cs {} names
         (ms @ [\<lparr>mo_name = slice name, mo_fields = fds, mo_attributes = attrs\<rparr>]) ctx
     })"

fun messages_blocks_loop :: "nat \<Rightarrow> AstItem list \<Rightarrow> Span table \<Rightarrow> u64 \<Rightarrow> EvaluationContext \<Rightarrow> EvaluationContext option" where
  "messages_blocks_loop n [] names ver ctx = Some ctx"
| "messages_blocks_loop n (AstItem.ATVersion v # items) names ver ctx = (
     let (ver, ctx) = get_ast_number_value (ver_number v) ctx in messages_blocks_loop n items names ver ctx)"
| "messages_blocks_loop n (AstItem.ATMessages m # items) names ver ctx = (
     let name = sss_from_token (ms_name m);
         (names, ctx) = add_name AstTag.ATIdent (slice name) (ss_span name) names ctx in do {
       (ms, ctx) \<leftarrow> children_loop n (ms_children m) {} [] [] ctx;
       messages_blocks_loop n items names (- 1)
         (ctx\<lparr>ec_messages := ec_messages ctx @ [\<lparr>mso_name = slice name, mso_messages = ms, mso_version = ver\<rparr>]\<rparr>)
     })"
| "messages_blocks_loop n (item # items) names ver ctx = messages_blocks_loop n items names ver ctx"

definition resolve_messages :: "nat \<Rightarrow> EvaluationContext \<Rightarrow> EvaluationContext option" where
  "resolve_messages n ctx = messages_blocks_loop n (ec_items ctx) [] (- 1) (ctx\<lparr>ec_messages := []\<rparr>)"

section \<open>Evaluation\<close>

text \<open>The names of the primitive types.\<close>

definition primitif_names :: "(StringSlice \<times> PrimitifType) list" where
  "primitif_names =
    [([0x75, 0x38], Primitif_u8), ([0x75, 0x31, 0x36], Primitif_u16), ([0x75, 0x33, 0x32], Primitif_u32),
     ([0x75, 0x36, 0x34], Primitif_u64), ([0x69, 0x38], Primitif_i8), ([0x69, 0x31, 0x36], Primitif_i16),
     ([0x69, 0x33, 0x32], Primitif_i32), ([0x69, 0x36, 0x34], Primitif_i64), ([0x66, 0x33, 0x32], Primitif_f32),
     ([0x66, 0x36, 0x34], Primitif_f64), ([0x63, 0x68, 0x61, 0x72], Primitif_char),
     ([0x62, 0x6F, 0x6F, 0x6C], Primitif_bool)]"

definition context_init :: "AstItem list \<Rightarrow> EvaluationContext" where
  "context_init items = \<lparr>ec_constants = [],
     ec_typedefs = foldl (\<lambda>tds (name, ty). AList.update name (Some (PRIMITIF ty)) tds) [] primitif_names,
     ec_layouts = [], ec_unresolved = None, ec_type_objects = [], ec_items = items, ec_errors = [], ec_messages = []\<rparr>"

definition resolve_statics :: "qsort \<Rightarrow> nat \<Rightarrow> AstItems \<Rightarrow> (Program \<times> EvalError list) option" where
  "resolve_statics qs n root = do {
     ctx \<leftarrow> resolve_constants (context_init (it_items root));
     ctx \<leftarrow> resolve_types n ctx;
     ctx \<leftarrow> resolve_messages n ctx;
     ctx \<leftarrow> resolve_additional_type_info qs n ctx;
     Some (\<lparr>pr_typedefs = ec_typedefs ctx, pr_layouts = ec_layouts ctx, pr_messages = ec_messages ctx,
       pr_type_objects = ec_type_objects ctx\<rparr>, ec_errors ctx)
   }"

end
