(* ===== verification/Eval_Resolve_Correct.thy ===== *)
theory Eval_Resolve_Correct
  imports Eval_Resolve
begin

text \<open>
  The type objects of a schema mirror its declarations: a struct has the declared members in
  order, an array the declared element type, size and placement. The recursion of \<open>resolve_type\<close>
  is no deeper than there are names to resolve. A reference that has no type yet is a null
  pointer, which is the only way in which the objects can differ from the declarations.
\<close>

section \<open>Sizes\<close>

definition number_value :: "Constant table \<Rightarrow> AstNumber \<Rightarrow> u64" where
  "number_value cs number = (if t_type (num_token number) = Number then lit (num_token number)
     else case map_of cs (token_text (num_token number)) of Some c \<Rightarrow> if c_valid c then c_value c else 0 | None \<Rightarrow> 0)"

fun size_value :: "Constant table \<Rightarrow> AstSize \<Rightarrow> Sizing \<times> u64" where
  "size_value cs (AstSize.ATMaxSize _ n) = (SizingMax, number_value cs n)"
| "size_value cs (AstSize.ATFixedSize _ n) = (SizingFixed, number_value cs n)"
| "size_value cs (AstSize.ATNoSize _) = (SizingMax, 0xFFFF)"

lemma get_ast_number_value_conv:
  "\<exists>es. get_ast_number_value n ctx = (number_value (ec_constants ctx) n, ctx\<lparr>ec_errors := es\<rparr>)"
  by (rule exI [of _ "ec_errors (snd (get_ast_number_value n ctx))"])
    (auto simp: get_ast_number_value_def number_value_def string_slice_from_token_def push_error_def Let_def
      split: option.splits)

lemma ast_size_to_sizing_conv:
  "\<exists>es. ast_size_to_sizing sz ctx = (size_value (ec_constants ctx) sz, ctx\<lparr>ec_errors := es\<rparr>)"
proof (cases sz)
  case (ATMaxSize s n)
  then show ?thesis using get_ast_number_value_conv [of n ctx] by auto
next
  case (ATFixedSize s n)
  then show ?thesis using get_ast_number_value_conv [of n ctx] by auto
next
  case (ATNoSize s)
  have "ctx = ctx\<lparr>ec_errors := ec_errors ctx\<rparr>" by simp
  with ATNoSize show ?thesis by (metis ast_size_to_sizing.simps(3) size_value.simps(3))
qed

section \<open>Objects and declarations\<close>

text \<open>An object is a mirror of a type, of objects from index \<open>b\<close> on.\<close>

fun mirrors :: "nat \<Rightarrow> TypePtr option table \<Rightarrow> Constant table \<Rightarrow> TypeObject list \<Rightarrow> AstType \<Rightarrow> TypePtr option \<Rightarrow> bool" where
  "mirrors b tds cs objs (AstType.ATIdent i) p \<longleftrightarrow> (p \<noteq> None \<longrightarrow> map_of tds (token_text (id_token i)) = Some p)"
| "mirrors b tds cs objs (AstType.ATHeapArray _ ty sz) p \<longleftrightarrow>
     (\<exists>k el. p = Some (Obj k) \<and> b \<le> k \<and> k < length objs \<and>
       to_type (objs ! k) = TypeArray \<lparr>ar_sizing = fst (size_value cs sz), ar_size = snd (size_value cs sz), ar_heap = True, ar_type = el\<rparr> \<and>
       mirrors b tds cs objs ty el)"
| "mirrors b tds cs objs (AstType.ATFieldArray _ ty sz) p \<longleftrightarrow>
     (\<exists>k el. p = Some (Obj k) \<and> b \<le> k \<and> k < length objs \<and>
       to_type (objs ! k) = TypeArray \<lparr>ar_sizing = fst (size_value cs sz), ar_size = snd (size_value cs sz), ar_heap = False, ar_type = el\<rparr> \<and>
       mirrors b tds cs objs ty el)"

definition field_mirrors :: "nat \<Rightarrow> TypePtr option table \<Rightarrow> Constant table \<Rightarrow> TypeObject list \<Rightarrow> AstField \<Rightarrow> Field \<Rightarrow> bool" where
  "field_mirrors b tds cs objs fd f \<longleftrightarrow> f_name f = token_text (fd_name fd) \<and> f_name_span f = span (fd_name fd) \<and>
     mirrors b tds cs objs (fd_type fd) (f_type f)"

definition struct_mirrors :: "nat \<Rightarrow> TypePtr option table \<Rightarrow> Constant table \<Rightarrow> TypeObject list \<Rightarrow> StringSlice \<Rightarrow> AstStruct
    \<Rightarrow> TypePtr option \<Rightarrow> bool" where
  "struct_mirrors b tds cs objs name s p \<longleftrightarrow> (\<exists>k so. p = Some (Obj k) \<and> b \<le> k \<and> k < length objs \<and>
     to_type (objs ! k) = TypeStruct so \<and> so_name so = name \<and>
     list_all2 (field_mirrors b tds cs objs) (st_fields s) (so_fields so))"

text \<open>The type a name has is the one declared for it.\<close>

definition declared_as :: "nat \<Rightarrow> TypePtr option table \<Rightarrow> Constant table \<Rightarrow> TypeObject list \<Rightarrow> StringSlice \<Rightarrow> UnresolvedTypeDef
    \<Rightarrow> TypePtr option \<Rightarrow> bool" where
  "declared_as b tds cs objs name td p = (case ut_value td of
     NodeType ty \<Rightarrow> mirrors b tds cs objs ty p | NodeStruct s \<Rightarrow> struct_mirrors b tds cs objs name s p)"

text \<open>Later definitions and objects do not change what is a mirror.\<close>

definition grown :: "nat \<Rightarrow> TypePtr option table \<Rightarrow> TypeObject list \<Rightarrow> TypePtr option table \<Rightarrow> TypeObject list \<Rightarrow> bool" where
  "grown b tds objs tds' objs' \<longleftrightarrow> (\<forall>n q. map_of tds n = Some (Some q) \<longrightarrow> map_of tds' n = Some (Some q)) \<and>
     length objs \<le> length objs' \<and> (\<forall>k. b \<le> k \<longrightarrow> k < length objs \<longrightarrow> objs' ! k = objs ! k)"

lemma mirrors_grown: "mirrors b tds cs objs ty p \<Longrightarrow> grown b tds objs tds' objs' \<Longrightarrow> b' \<le> b \<Longrightarrow> mirrors b' tds' cs objs' ty p"
  by (induction ty arbitrary: p) (fastforce simp: grown_def)+

lemma field_mirrors_grown:
  "field_mirrors b tds cs objs fd f \<Longrightarrow> grown b tds objs tds' objs' \<Longrightarrow> b' \<le> b \<Longrightarrow> field_mirrors b' tds' cs objs' fd f"
  using mirrors_grown by (auto simp: field_mirrors_def)

lemma declared_as_grown:
  assumes "declared_as b tds cs objs name td p" and "grown b tds objs tds' objs'" and "b' \<le> b"
  shows "declared_as b' tds' cs objs' name td p"
proof (cases "ut_value td")
  case (NodeType ty)
  then show ?thesis using assms mirrors_grown by (simp add: declared_as_def)
next
  case (NodeStruct s)
  then obtain k so where k: "p = Some (Obj k)" "b \<le> k" "k < length objs" "to_type (objs ! k) = TypeStruct so" "so_name so = name"
    "list_all2 (field_mirrors b tds cs objs) (st_fields s) (so_fields so)"
    using assms(1) by (auto simp: declared_as_def struct_mirrors_def)
  have "list_all2 (field_mirrors b' tds' cs objs') (st_fields s) (so_fields so)"
    using k(6) by (rule list_all2_mono) (rule field_mirrors_grown [OF _ assms(2,3)])
  with k assms(2,3) NodeStruct show ?thesis by (auto simp: declared_as_def struct_mirrors_def grown_def)
qed

section \<open>What resolving promises\<close>

text \<open>From one context to a later one: no definition is changed, no object but those in \<open>I\<close> is, and
  every new definition is as declared, of new objects.\<close>

definition resolved :: "nat set \<Rightarrow> EvaluationContext \<Rightarrow> EvaluationContext \<Rightarrow> bool" where
  "resolved I ctx ctx' \<longleftrightarrow>
     ec_constants ctx' = ec_constants ctx \<and> ec_unresolved ctx' = ec_unresolved ctx \<and> ec_messages ctx' = ec_messages ctx \<and>
     ec_items ctx' = ec_items ctx \<and>
     length (ec_type_objects ctx) \<le> length (ec_type_objects ctx') \<and>
     (\<forall>k < length (ec_type_objects ctx). k \<notin> I \<longrightarrow> ec_type_objects ctx' ! k = ec_type_objects ctx ! k) \<and>
     (\<forall>n v. map_of (ec_typedefs ctx) n = Some v \<longrightarrow> map_of (ec_typedefs ctx') n = Some v) \<and>
     (\<forall>n v. map_of (ec_typedefs ctx) n = None \<longrightarrow> map_of (ec_typedefs ctx') n = Some v \<longrightarrow>
        (\<exists>td. unresolved_type n ctx = Some td \<and>
          declared_as (length (ec_type_objects ctx)) (ec_typedefs ctx') (ec_constants ctx) (ec_type_objects ctx') n td v))"

lemma resolved_refl: "resolved I ctx (ctx\<lparr>ec_errors := es\<rparr>)"
  by (simp add: resolved_def)

lemma resolved_grown:
  assumes "resolved I ctx ctx'" and "\<And>k. b \<le> k \<Longrightarrow> k \<notin> I"
  shows "grown b (ec_typedefs ctx) (ec_type_objects ctx) (ec_typedefs ctx') (ec_type_objects ctx')"
  using assms unfolding resolved_def grown_def by blast

lemma resolved_trans:
  assumes "resolved I a b" and "resolved I b c" and "I \<subseteq> {..<length (ec_type_objects a)}"
  shows "resolved I a c"
proof -
  let ?la = "length (ec_type_objects a)"
  have g: "grown ?la (ec_typedefs b) (ec_type_objects b) (ec_typedefs c) (ec_type_objects c)"
    using assms(3) by (intro resolved_grown [OF assms(2)]) auto
  have u: "unresolved_type n b = unresolved_type n a" for n using assms(1) by (simp add: resolved_def unresolved_type_def)
  have "\<exists>td. unresolved_type n a = Some td \<and> declared_as ?la (ec_typedefs c) (ec_constants a) (ec_type_objects c) n td v"
    if n: "map_of (ec_typedefs a) n = None" "map_of (ec_typedefs c) n = Some v" for n v
  proof (cases "map_of (ec_typedefs b) n")
    case None
    then obtain td where "unresolved_type n b = Some td"
      "declared_as (length (ec_type_objects b)) (ec_typedefs c) (ec_constants b) (ec_type_objects c) n td v"
      using assms(2) n(2) unfolding resolved_def by blast
    moreover have "grown (length (ec_type_objects b)) (ec_typedefs c) (ec_type_objects c) (ec_typedefs c) (ec_type_objects c)"
      by (simp add: grown_def)
    ultimately show ?thesis
      using declared_as_grown u assms(1) unfolding resolved_def by metis
  next
    case (Some w)
    then have "w = v" using assms(2) n(2) unfolding resolved_def by (metis option.inject)
    then obtain td where "unresolved_type n a = Some td"
      "declared_as ?la (ec_typedefs b) (ec_constants a) (ec_type_objects b) n td v"
      using assms(1) n(1) Some unfolding resolved_def by blast
    then show ?thesis using declared_as_grown [OF _ g] by blast
  qed
  moreover have "ec_type_objects c ! k = ec_type_objects a ! k" if "k < ?la" "k \<notin> I" for k
    using assms(1,2) that unfolding resolved_def by (metis order_less_le_trans)
  ultimately show ?thesis
    using assms(1,2) unfolding resolved_def [of I a c] unfolding resolved_def by (intro conjI allI impI) auto
qed

text \<open>The names that may still be looked into: declared, without a type.\<close>

definition undefined_names :: "EvaluationContext \<Rightarrow> nat" where
  "undefined_names ctx = card ((case ec_unresolved ctx of None \<Rightarrow> {} | Some un \<Rightarrow> fst ` set un) - dom (map_of (ec_typedefs ctx)))"

lemma undefined_names_resolved: "resolved I ctx ctx' \<Longrightarrow> undefined_names ctx' \<le> undefined_names ctx"
  unfolding undefined_names_def resolved_def
  by (intro card_mono) (auto split: option.splits)

lemma undefined_names_errors [simp]: "undefined_names (ctx\<lparr>ec_errors := es\<rparr>) = undefined_names ctx"
  "undefined_names (ctx\<lparr>ec_type_objects := os\<rparr>) = undefined_names ctx"
  by (simp_all add: undefined_names_def)

lemma undefined_names_set:
  assumes "unresolved_type name ctx = Some td" and "map_of (ec_typedefs ctx) name = None"
  shows "undefined_names (set_typedef name v ctx) < undefined_names ctx"
proof -
  obtain un where un: "ec_unresolved ctx = Some un" "map_of un name = Some td"
    using assms(1) by (auto simp: unresolved_type_def split: option.splits)
  let ?A = "fst ` set un - dom (map_of (ec_typedefs ctx))"
  have "name \<in> ?A" using un(2) assms(2) by (auto dest: map_of_SomeD intro: rev_image_eqI)
  then have "card (?A - {name}) < card ?A" by (intro card_Diff1_less) auto
  moreover have "fst ` set un - dom (map_of (ec_typedefs (set_typedef name v ctx))) = ?A - {name}"
    by (auto simp: set_typedef_def update_conv' split: if_splits)
  ultimately show ?thesis using un(1) by (simp add: undefined_names_def set_typedef_def)
qed

definition resolver_ok :: "nat \<Rightarrow> SpannedStringSlice resolver \<Rightarrow> bool" where
  "resolver_ok n resolve \<longleftrightarrow> (\<forall>name ctx. undefined_names ctx < n \<longrightarrow>
     (\<exists>p ctx'. resolve name ctx = Some (p, ctx') \<and> resolved {} ctx ctx' \<and>
        (p \<noteq> None \<or> unresolved_type (slice name) ctx \<noteq> None \<longrightarrow> map_of (ec_typedefs ctx') (slice name) = Some p)))"

lemma resolver_okD:
  assumes "resolver_ok n resolve" and "undefined_names ctx < n"
  obtains p ctx' where "resolve name ctx = Some (p, ctx')" and "resolved {} ctx ctx'"
    and "p \<noteq> None \<or> unresolved_type (slice name) ctx \<noteq> None \<longrightarrow> map_of (ec_typedefs ctx') (slice name) = Some p"
  using assms unfolding resolver_ok_def by blast

text \<open>An array: the object is allocated, the rest is resolved, and the object is filled in.\<close>

lemma array_resolved:
  assumes "resolved {} (ctx\<lparr>ec_type_objects := ec_type_objects ctx @ [o1], ec_errors := es\<rparr>) ctx'"
  shows "resolved {} ctx (set_object (length (ec_type_objects ctx)) ty ctx')"
    and "grown (Suc (length (ec_type_objects ctx))) (ec_typedefs ctx') (ec_type_objects ctx') (ec_typedefs ctx')
      (ec_type_objects (set_object (length (ec_type_objects ctx)) ty ctx'))"
    and "length (ec_type_objects ctx) < length (ec_type_objects ctx')"
proof -
  let ?i = "length (ec_type_objects ctx)" and ?c = "set_object (length (ec_type_objects ctx)) ty ctx'"
  show g: "grown (Suc ?i) (ec_typedefs ctx') (ec_type_objects ctx') (ec_typedefs ctx') (ec_type_objects ?c)"
    by (auto simp: grown_def set_object_def)
  have r: "resolved {} (ctx\<lparr>ec_type_objects := ec_type_objects ctx @ [o1], ec_errors := es\<rparr>) ctx'" by (rule assms)
  show l: "?i < length (ec_type_objects ctx')" using r by (simp add: resolved_def)
  have "\<exists>td. unresolved_type n ctx = Some td \<and> declared_as ?i (ec_typedefs ?c) (ec_constants ctx) (ec_type_objects ?c) n td v"
    if n: "map_of (ec_typedefs ctx) n = None" "map_of (ec_typedefs ?c) n = Some v" for n v
  proof -
    have "map_of (ec_typedefs ctx') n = Some v" using n(2) by (simp add: set_object_def)
    then have "\<exists>td. unresolved_type n ctx = Some td \<and>
        declared_as (Suc ?i) (ec_typedefs ctx') (ec_constants ctx) (ec_type_objects ctx') n td v"
      using r n(1) by (simp add: resolved_def unresolved_type_def)
    then obtain td where "unresolved_type n ctx = Some td"
      "declared_as (Suc ?i) (ec_typedefs ctx') (ec_constants ctx) (ec_type_objects ctx') n td v"
      by blast
    then show ?thesis using declared_as_grown [OF _ g] by (auto simp: set_object_def)
  qed
  moreover have "ec_type_objects ?c ! k = ec_type_objects ctx ! k" if "k < ?i" for k
    using r that by (simp add: resolved_def set_object_def nth_append)
  ultimately show "resolved {} ctx ?c" using r l by (simp add: resolved_def set_object_def)
qed

lemma array_mirrors:
  assumes "resolved {} (ctx\<lparr>ec_type_objects := ec_type_objects ctx @ [o1], ec_errors := es\<rparr>) ctx'"
    and "mirrors (Suc (length (ec_type_objects ctx))) (ec_typedefs ctx') (ec_constants ctx) (ec_type_objects ctx') ty el"
  shows "mirrors (length (ec_type_objects ctx)) (ec_typedefs ctx') (ec_constants ctx)
      (ec_type_objects (set_object (length (ec_type_objects ctx)) t ctx')) ty el"
    and "to_type (ec_type_objects (set_object (length (ec_type_objects ctx)) t ctx') ! length (ec_type_objects ctx)) = t"
    and "length (ec_type_objects ctx) < length (ec_type_objects (set_object (length (ec_type_objects ctx)) t ctx'))"
  using mirrors_grown [OF assms(2) array_resolved(2) [OF assms(1)]] array_resolved(3) [OF assms(1)]
  by (auto simp: set_object_def)

lemma ast_type_resolved:
  assumes "resolver_ok n resolve" and "undefined_names ctx < n"
  shows "\<exists>p ctx'. ast_type_to_type_obj resolve ty ctx = Some (p, ctx') \<and> resolved {} ctx ctx' \<and>
    mirrors (length (ec_type_objects ctx)) (ec_typedefs ctx') (ec_constants ctx) (ec_type_objects ctx') ty p"
  using assms(2)
proof (induction ty arbitrary: ctx)
  case (ATIdent i)
  obtain p ctx' where r: "resolve (sss_from_token (id_token i)) ctx = Some (p, ctx')" "resolved {} ctx ctx'"
    "p \<noteq> None \<or> unresolved_type (slice (sss_from_token (id_token i))) ctx \<noteq> None \<longrightarrow>
       map_of (ec_typedefs ctx') (slice (sss_from_token (id_token i))) = Some p"
    by (rule resolver_okD [OF assms(1) ATIdent])
  then show ?case by (simp add: sss_from_token_def)
next
  case (ATHeapArray s ty sz)
  let ?o = "\<lparr>to_align = unresolved_align, to_type = raw_array\<rparr>" and ?i = "length (ec_type_objects ctx)"
  obtain es where es: "ast_size_to_sizing sz (ctx\<lparr>ec_type_objects := ec_type_objects ctx @ [?o]\<rparr>) =
      (size_value (ec_constants ctx) sz, ctx\<lparr>ec_type_objects := ec_type_objects ctx @ [?o], ec_errors := es\<rparr>)"
    using ast_size_to_sizing_conv [of sz "ctx\<lparr>ec_type_objects := ec_type_objects ctx @ [?o]\<rparr>"] by auto
  let ?c = "ctx\<lparr>ec_type_objects := ec_type_objects ctx @ [?o], ec_errors := es\<rparr>"
  have "undefined_names ?c < n" using ATHeapArray.prems by simp
  from ATHeapArray.IH [OF this] obtain el ctx' where r: "ast_type_to_type_obj resolve ty ?c = Some (el, ctx')"
    "resolved {} ?c ctx'" "mirrors (Suc ?i) (ec_typedefs ctx') (ec_constants ctx) (ec_type_objects ctx') ty el"
    by auto
  let ?t = "TypeArray \<lparr>ar_sizing = fst (size_value (ec_constants ctx) sz), ar_size = snd (size_value (ec_constants ctx) sz),
    ar_heap = True, ar_type = el\<rparr>"
  have "ast_type_to_type_obj resolve (AstType.ATHeapArray s ty sz) ctx = Some (Some (Obj ?i), set_object ?i ?t ctx')"
    using es r(1) by (simp add: new_object_def case_prod_unfold)
  then show ?case
    using array_resolved(1) [OF r(2), of ?t] array_mirrors [OF r(2,3), of ?t] by (auto simp: set_object_def)
next
  case (ATFieldArray s ty sz)
  let ?o = "\<lparr>to_align = unresolved_align, to_type = raw_array\<rparr>" and ?i = "length (ec_type_objects ctx)"
  obtain es where es: "ast_size_to_sizing sz (ctx\<lparr>ec_type_objects := ec_type_objects ctx @ [?o]\<rparr>) =
      (size_value (ec_constants ctx) sz, ctx\<lparr>ec_type_objects := ec_type_objects ctx @ [?o], ec_errors := es\<rparr>)"
    using ast_size_to_sizing_conv [of sz "ctx\<lparr>ec_type_objects := ec_type_objects ctx @ [?o]\<rparr>"] by auto
  let ?c = "ctx\<lparr>ec_type_objects := ec_type_objects ctx @ [?o], ec_errors := es\<rparr>"
  have "undefined_names ?c < n" using ATFieldArray.prems by simp
  from ATFieldArray.IH [OF this] obtain el ctx' where r: "ast_type_to_type_obj resolve ty ?c = Some (el, ctx')"
    "resolved {} ?c ctx'" "mirrors (Suc ?i) (ec_typedefs ctx') (ec_constants ctx) (ec_type_objects ctx') ty el"
    by auto
  let ?t = "TypeArray \<lparr>ar_sizing = fst (size_value (ec_constants ctx) sz), ar_size = snd (size_value (ec_constants ctx) sz),
    ar_heap = False, ar_type = el\<rparr>"
  have "ast_type_to_type_obj resolve (AstType.ATFieldArray s ty sz) ctx = Some (Some (Obj ?i), set_object ?i ?t ctx')"
    using es r(1) by (simp add: new_object_def case_prod_unfold)
  then show ?case
    using array_resolved(1) [OF r(2), of ?t] array_mirrors [OF r(2,3), of ?t] by (auto simp: set_object_def)
qed

text \<open>A member of a struct is resolved and pushed.\<close>

lemma push_field_resolved:
  assumes "resolved {} ctx ctx'" and "i < length (ec_type_objects ctx)" and "to_type (ec_type_objects ctx ! i) = TypeStruct so"
  shows "resolved {i} ctx (push_field i f ctx')"
    and "grown (Suc i) (ec_typedefs ctx') (ec_type_objects ctx') (ec_typedefs (push_field i f ctx')) (ec_type_objects (push_field i f ctx'))"
    and "to_type (ec_type_objects (push_field i f ctx') ! i) = TypeStruct (so\<lparr>so_fields := so_fields so @ [f]\<rparr>)"
    and "i < length (ec_type_objects (push_field i f ctx'))"
proof -
  let ?c = "push_field i f ctx'"
  have l: "i < length (ec_type_objects ctx')" "ec_type_objects ctx' ! i = ec_type_objects ctx ! i"
    using assms(1,2) by (simp_all add: resolved_def)
  then have c: "?c = set_object i (TypeStruct (so\<lparr>so_fields := so_fields so @ [f]\<rparr>)) ctx'"
    using assms(3) by (simp add: push_field_def)
  show g: "grown (Suc i) (ec_typedefs ctx') (ec_type_objects ctx') (ec_typedefs ?c) (ec_type_objects ?c)"
    by (auto simp: c grown_def set_object_def)
  show "to_type (ec_type_objects ?c ! i) = TypeStruct (so\<lparr>so_fields := so_fields so @ [f]\<rparr>)"
    and "i < length (ec_type_objects ?c)"
    using l by (simp_all add: c set_object_def)
  have gl: "grown (length (ec_type_objects ctx)) (ec_typedefs ctx') (ec_type_objects ctx') (ec_typedefs ?c) (ec_type_objects ?c)"
    using g assms(2) by (auto simp: grown_def)
  have "\<exists>td. unresolved_type n ctx = Some td \<and>
      declared_as (length (ec_type_objects ctx)) (ec_typedefs ?c) (ec_constants ctx) (ec_type_objects ?c) n td v"
    if n: "map_of (ec_typedefs ctx) n = None" "map_of (ec_typedefs ?c) n = Some v" for n v
  proof -
    have "map_of (ec_typedefs ctx') n = Some v" using n(2) by (simp add: c set_object_def)
    then obtain td where "unresolved_type n ctx = Some td"
      "declared_as (length (ec_type_objects ctx)) (ec_typedefs ctx') (ec_constants ctx) (ec_type_objects ctx') n td v"
      using assms(1) n(1) unfolding resolved_def by blast
    then show ?thesis using declared_as_grown [OF _ gl] by blast
  qed
  then show "resolved {i} ctx ?c" using assms(1) unfolding resolved_def by (simp add: c set_object_def)
qed

lemma struct_fields_resolved:
  assumes "resolver_ok n resolve" and "undefined_names ctx < n" and "i < length (ec_type_objects ctx)"
    and "to_type (ec_type_objects ctx ! i) = TypeStruct so"
  shows "\<exists>ctx' fs. struct_fields_loop resolve i fds ctx = Some ctx' \<and> resolved {i} ctx ctx' \<and>
    to_type (ec_type_objects ctx' ! i) = TypeStruct (so\<lparr>so_fields := so_fields so @ fs\<rparr>) \<and>
    list_all2 (field_mirrors (Suc i) (ec_typedefs ctx') (ec_constants ctx) (ec_type_objects ctx')) fds fs"
  using assms(2-4)
proof (induction fds arbitrary: ctx so)
  case Nil
  have "resolved {i} ctx ctx" using resolved_refl [of "{i}" ctx "ec_errors ctx"] by simp
  with Nil show ?case by (intro exI [of _ ctx] exI [of _ "[]"]) simp
next
  case (Cons fd fds)
  obtain p ctx1 where r: "ast_type_to_type_obj resolve (fd_type fd) ctx = Some (p, ctx1)" "resolved {} ctx ctx1"
    "mirrors (length (ec_type_objects ctx)) (ec_typedefs ctx1) (ec_constants ctx) (ec_type_objects ctx1) (fd_type fd) p"
    using ast_type_resolved [OF assms(1) Cons.prems(1)] by blast
  let ?f = "\<lparr>f_name = token_text (fd_name fd), f_name_span = span (fd_name fd), f_type = p\<rparr>"
  let ?c = "push_field i ?f ctx1"
  note push = push_field_resolved [OF r(2) Cons.prems(2,3), of ?f]
  have "undefined_names ?c < n"
    using undefined_names_resolved [OF push(1)] Cons.prems(1) by simp
  from Cons.IH [OF this push(4,3)] obtain ctx' fs where l: "struct_fields_loop resolve i fds ?c = Some ctx'"
    "resolved {i} ?c ctx'" "to_type (ec_type_objects ctx' ! i) = TypeStruct (so\<lparr>so_fields := so_fields so @ ?f # fs\<rparr>)"
    "list_all2 (field_mirrors (Suc i) (ec_typedefs ctx') (ec_constants ?c) (ec_type_objects ctx')) fds fs"
    by auto
  have cs: "ec_constants ?c = ec_constants ctx" using push(1) by (simp add: resolved_def)
  have "mirrors (Suc i) (ec_typedefs ctx1) (ec_constants ctx) (ec_type_objects ctx1) (fd_type fd) p"
    using mirrors_grown [OF r(3), of "ec_typedefs ctx1" "ec_type_objects ctx1" "Suc i"] Cons.prems(2) by (simp add: grown_def)
  from mirrors_grown [OF this push(2)]
  have "mirrors (Suc i) (ec_typedefs ?c) (ec_constants ctx) (ec_type_objects ?c) (fd_type fd) p" by simp
  from mirrors_grown [OF this resolved_grown [OF l(2)]]
  have "field_mirrors (Suc i) (ec_typedefs ctx') (ec_constants ctx) (ec_type_objects ctx') fd ?f"
    by (simp add: field_mirrors_def)
  moreover have "struct_fields_loop resolve i (fd # fds) ctx = Some ctx'"
    using r(1) l(1) by (simp add: resolve_field_def string_slice_from_token_def)
  moreover have "resolved {i} ctx ctx'"
    by (rule resolved_trans [OF push(1) l(2)]) (use Cons.prems(2) in simp)
  ultimately show ?case using l(3,4) cs by (intro exI [of _ ctx'] exI [of _ "?f # fs"]) simp
qed

lemma grown_refl [simp]: "grown b tds objs tds objs"
  by (simp add: grown_def)

text \<open>A name is defined, first as the pointer \<open>v\<close>, and what follows is resolved in that context.\<close>

lemma set_typedef_resolved:
  assumes "resolved {length (ec_type_objects ctx)} (set_typedef name v ctx\<lparr>ec_type_objects := ec_type_objects ctx @ os\<rparr>) ctx'"
    and "length os \<le> 1"
    and "map_of (ec_typedefs ctx) name = None" and "unresolved_type name ctx = Some td"
    and "v \<noteq> None \<longrightarrow> w = v"
    and "declared_as (length (ec_type_objects ctx)) (ec_typedefs (set_typedef name w ctx')) (ec_constants ctx)
      (ec_type_objects ctx') name td w"
  shows "resolved {} ctx (set_typedef name w ctx')"
proof -
  let ?before = "set_typedef name v ctx\<lparr>ec_type_objects := ec_type_objects ctx @ os\<rparr>"
  let ?l = "length (ec_type_objects ctx)" and ?c = "set_typedef name w ctx'"
  have t0: "map_of (ec_typedefs ?before) m = (if m = name then Some v else map_of (ec_typedefs ctx) m)" for m
    by (simp add: set_typedef_def update_conv')
  have tc: "map_of (ec_typedefs ?c) m = (if m = name then Some w else map_of (ec_typedefs ctx') m)" for m
    by (simp add: set_typedef_def update_conv')
  have n1: "map_of (ec_typedefs ctx') name = Some v" using assms(1) t0 [of name] unfolding resolved_def by auto
  have g: "grown ?l (ec_typedefs ctx') (ec_type_objects ctx') (ec_typedefs ?c) (ec_type_objects ?c)"
    using n1 assms(5) unfolding grown_def tc by (auto simp: set_typedef_def)
  have "\<exists>td. unresolved_type m ctx = Some td \<and> declared_as ?l (ec_typedefs ?c) (ec_constants ctx) (ec_type_objects ?c) m td u"
    if m: "map_of (ec_typedefs ctx) m = None" "map_of (ec_typedefs ?c) m = Some u" for m u
  proof (cases "m = name")
    case True
    then have "u = w" using m(2) tc by simp
    with True assms(4,6) show ?thesis by (simp add: set_typedef_def)
  next
    case False
    then have "map_of (ec_typedefs ?before) m = None" "map_of (ec_typedefs ctx') m = Some u" using m t0 tc by simp_all
    then have "\<exists>td. unresolved_type m ?before = Some td \<and>
        declared_as (length (ec_type_objects ?before)) (ec_typedefs ctx') (ec_constants ?before) (ec_type_objects ctx') m td u"
      using assms(1) unfolding resolved_def by blast
    then obtain td where td: "unresolved_type m ctx = Some td"
      "declared_as (?l + length os) (ec_typedefs ctx') (ec_constants ctx) (ec_type_objects ctx') m td u"
      by (auto simp: unresolved_type_def set_typedef_def)
    have "declared_as ?l (ec_typedefs ctx') (ec_constants ctx) (ec_type_objects ctx') m td u"
      by (rule declared_as_grown [OF td(2) grown_refl]) simp
    then show ?thesis using td(1) declared_as_grown [OF _ g] by blast
  qed
  moreover have "ec_type_objects ?c ! k = ec_type_objects ctx ! k" if "k < ?l" for k
  proof -
    have "ec_type_objects ctx' ! k = (ec_type_objects ctx @ os) ! k"
      using assms(1) that unfolding resolved_def by (simp add: set_typedef_def)
    with that show ?thesis by (simp add: nth_append set_typedef_def)
  qed
  moreover have "map_of (ec_typedefs ?c) m = Some u" if "map_of (ec_typedefs ctx) m = Some u" for m u
  proof -
    have "m \<noteq> name" using that assms(3) by auto
    with that have "map_of (ec_typedefs ?before) m = Some u" using t0 by simp
    then have "map_of (ec_typedefs ctx') m = Some u" using assms(1) unfolding resolved_def by blast
    with \<open>m \<noteq> name\<close> show ?thesis using tc by simp
  qed
  moreover have "ec_constants ?c = ec_constants ctx" "ec_unresolved ?c = ec_unresolved ctx" "ec_messages ?c = ec_messages ctx"
    "ec_items ?c = ec_items ctx" "?l \<le> length (ec_type_objects ?c)"
    using assms(1) unfolding resolved_def by (simp_all add: set_typedef_def)
  ultimately show ?thesis unfolding resolved_def by blast
qed

lemma resolved_weaken: "resolved {} ctx ctx' \<Longrightarrow> resolved I ctx ctx'"
  unfolding resolved_def by blast

lemma set_typedef_objects [simp]:
  "set_typedef name v ctx\<lparr>ec_type_objects := ec_type_objects ctx\<rparr> = set_typedef name v ctx"
  by (cases ctx) (simp add: set_typedef_def)

lemma set_typedef_new:
  "set_typedef name v (ctx\<lparr>ec_type_objects := os\<rparr>) = set_typedef name v ctx\<lparr>ec_type_objects := os\<rparr>"
  by (cases ctx) (simp add: set_typedef_def)

lemma resolve_type_ok: "resolver_ok n (resolve_type n)"
proof (induction n)
  case 0
  then show ?case by (simp add: resolver_ok_def)
next
  case (Suc n)
  show ?case
    unfolding resolver_ok_def
  proof (intro allI impI)
    fix name :: SpannedStringSlice and ctx assume u: "undefined_names ctx < Suc n"
    let ?n = "slice name" and ?l = "length (ec_type_objects ctx)"
    let ?goal = "\<exists>p ctx'. resolve_type (Suc n) name ctx = Some (p, ctx') \<and> resolved {} ctx ctx' \<and>
      (p \<noteq> None \<or> unresolved_type ?n ctx \<noteq> None \<longrightarrow> map_of (ec_typedefs ctx') ?n = Some p)"
    show ?goal
    proof (cases "map_of (ec_typedefs ctx) ?n")
      case (Some v)
      then show ?thesis using resolved_refl [of "{}" ctx "ec_errors ctx"] by auto
    next
      case undef: None
      show ?thesis
      proof (cases "unresolved_type ?n ctx")
        case None
        then show ?thesis using undef resolved_refl by (simp add: push_error_def)
      next
        case (Some td)
        have less: "undefined_names (set_typedef ?n v ctx) < n" for v
          using undefined_names_set [OF Some undef, of v] u by simp
        show ?thesis
        proof (cases "ut_value td")
          case (NodeType ty)
          let ?c = "set_typedef ?n None ctx"
          obtain p ctx1 where r: "ast_type_to_type_obj (resolve_type n) ty ?c = Some (p, ctx1)" "resolved {} ?c ctx1"
            "mirrors (length (ec_type_objects ?c)) (ec_typedefs ctx1) (ec_constants ?c) (ec_type_objects ctx1) ty p"
            using ast_type_resolved [OF Suc less] by blast
          have n1: "map_of (ec_typedefs ctx1) ?n = Some None"
            using r(2) unfolding resolved_def by (simp add: set_typedef_def update_conv')
          have "grown ?l (ec_typedefs ctx1) (ec_type_objects ctx1) (ec_typedefs (set_typedef ?n p ctx1)) (ec_type_objects ctx1)"
            using n1 by (auto simp: grown_def set_typedef_def update_conv')
          with r(3) have "mirrors ?l (ec_typedefs (set_typedef ?n p ctx1)) (ec_constants ctx) (ec_type_objects ctx1) ty p"
            using mirrors_grown by (simp add: set_typedef_def)
          then have "resolved {} ctx (set_typedef ?n p ctx1)"
            using set_typedef_resolved [where ctx = ctx and name = ?n and v = None and os = "[]" and ctx' = ctx1 and td = td and w = p] resolved_weaken [OF r(2)] undef Some NodeType
            by (simp add: declared_as_def)
          moreover have "resolve_type (Suc n) name ctx = Some (p, set_typedef ?n p ctx1)"
            using undef Some NodeType r(1) by simp
          ultimately show ?thesis by (simp add: set_typedef_def update_conv')
        next
          case (NodeStruct s)
          let ?so = "\<lparr>so_name = ?n, so_fields = [], so_has_funcs = False\<rparr>"
          let ?o = "\<lparr>to_align = unresolved_align, to_type = TypeStruct ?so\<rparr>"
          let ?c = "set_typedef ?n (Some (Obj ?l)) ctx\<lparr>ec_type_objects := ec_type_objects ctx @ [?o]\<rparr>"
          have un: "undefined_names ?c < n" using less by simp
          have ob: "?l < length (ec_type_objects ?c)" "to_type (ec_type_objects ?c ! ?l) = TypeStruct ?so" by simp_all
          from struct_fields_resolved [OF Suc un ob, of "st_fields s"] obtain ctx1 fs where
            r1: "struct_fields_loop (resolve_type n) ?l (st_fields s) ?c = Some ctx1" "resolved {?l} ?c ctx1"
              "to_type (ec_type_objects ctx1 ! ?l) = TypeStruct (?so\<lparr>so_fields := so_fields ?so @ fs\<rparr>)"
              "list_all2 (field_mirrors (Suc ?l) (ec_typedefs ctx1) (ec_constants ?c) (ec_type_objects ctx1)) (st_fields s) fs"
            by (elim exE conjE)
          have "ec_constants ?c = ec_constants ctx" by (simp add: set_typedef_def)
          with r1(3,4) have r: "to_type (ec_type_objects ctx1 ! ?l) = TypeStruct (?so\<lparr>so_fields := fs\<rparr>)"
            "list_all2 (field_mirrors (Suc ?l) (ec_typedefs ctx1) (ec_constants ctx) (ec_type_objects ctx1)) (st_fields s) fs"
            by simp_all
          have n1: "map_of (ec_typedefs ctx1) ?n = Some (Some (Obj ?l))"
            using r1(2) unfolding resolved_def by (simp add: set_typedef_def update_conv')
          have l1: "?l < length (ec_type_objects ctx1)" using r1(2) unfolding resolved_def by simp
          have "list_all2 (field_mirrors ?l (ec_typedefs ctx1) (ec_constants ctx) (ec_type_objects ctx1)) (st_fields s) fs"
            by (rule list_all2_mono [OF r(2)]) (erule field_mirrors_grown [OF _ grown_refl], rule le_SucI, rule order_refl)
          then have d: "declared_as ?l (ec_typedefs ctx1) (ec_constants ctx) (ec_type_objects ctx1) ?n td (Some (Obj ?l))"
            using l1 r(1) NodeStruct by (simp add: declared_as_def struct_mirrors_def)
          have "set_typedef ?n (Some (Obj ?l)) ctx1 = ctx1" using n1 by (simp add: set_typedef_def update_triv)
          then have "resolved {} ctx ctx1"
            using set_typedef_resolved [where ctx = ctx and name = ?n and v = "Some (Obj ?l)" and os = "[?o]" and ctx' = ctx1 and td = td and w = "Some (Obj ?l)"] r1(2) undef Some d by simp
          moreover have "resolve_type (Suc n) name ctx = Some (Some (Obj ?l), ctx1)"
            using undef Some NodeStruct r1(1) by (simp add: new_object_def set_typedef_new)
          ultimately show ?thesis using n1 by simp
        qed
      qed
    qed
  qed
qed

section \<open>All the declarations of a schema\<close>

lemma resolve_types_loop_decl:
  "type_decl_of item = Some (name, td) \<Longrightarrow> resolve_types_loop n (item # items) ctx =
     Option.bind (resolve_type n \<lparr>slice = name, ss_span = ut_name_span td\<rparr> ctx) (\<lambda>(_, ctx). resolve_types_loop n items ctx)"
  by (cases item) (auto simp: string_slice_from_token_def sss_from_token_def)

lemma resolve_types_loop_resolved:
  assumes "undefined_names ctx < n"
  shows "\<exists>ctx'. resolve_types_loop n items ctx = Some ctx' \<and> resolved {} ctx ctx' \<and>
    (\<forall>item \<in> set items. \<forall>name td. type_decl_of item = Some (name, td) \<longrightarrow> unresolved_type name ctx \<noteq> None \<longrightarrow>
       map_of (ec_typedefs ctx') name \<noteq> None)"
  using assms
proof (induction items arbitrary: ctx)
  case Nil
  show ?case using resolved_refl [of "{}" ctx "ec_errors ctx"] by simp
next
  case (Cons item items)
  show ?case
  proof (cases "type_decl_of item")
    case None
    then have "resolve_types_loop n (item # items) ctx = resolve_types_loop n items ctx" by (cases item) simp_all
    then show ?thesis using Cons.IH [OF Cons.prems] None by auto
  next
    case (Some x)
    then obtain name td where x: "type_decl_of item = Some (name, td)" by (cases x) auto
    let ?name = "\<lparr>slice = name, ss_span = ut_name_span td\<rparr>"
    obtain p ctx1 where r: "resolve_type n ?name ctx = Some (p, ctx1)" "resolved {} ctx ctx1"
      "p \<noteq> None \<or> unresolved_type (slice ?name) ctx \<noteq> None \<longrightarrow> map_of (ec_typedefs ctx1) (slice ?name) = Some p"
      by (rule resolver_okD [OF resolve_type_ok Cons.prems])
    have "undefined_names ctx1 < n" using undefined_names_resolved [OF r(2)] Cons.prems by simp
    from Cons.IH [OF this] obtain ctx' where l: "resolve_types_loop n items ctx1 = Some ctx'" "resolved {} ctx1 ctx'"
      "\<forall>item \<in> set items. \<forall>name td. type_decl_of item = Some (name, td) \<longrightarrow> unresolved_type name ctx1 \<noteq> None \<longrightarrow>
         map_of (ec_typedefs ctx') name \<noteq> None" by blast
    have u: "unresolved_type m ctx1 = unresolved_type m ctx" for m
      using r(2) by (simp add: resolved_def unresolved_type_def)
    have "unresolved_type name ctx \<noteq> None \<longrightarrow> map_of (ec_typedefs ctx') name \<noteq> None"
      using r(3) l(2) unfolding resolved_def by fastforce
    moreover have "resolved {} ctx ctx'" using resolved_trans [OF r(2) l(2)] by simp
    ultimately show ?thesis using l(1,3) r(1) resolve_types_loop_decl [OF x] x u by simp
  qed
qed

lemma resolved_declared:
  assumes "resolved {} ctx ctx'" and "map_of (ec_typedefs ctx) name = None" and "map_of (ec_typedefs ctx') name = Some v"
  shows "\<exists>td. unresolved_type name ctx = Some td \<and>
    declared_as 0 (ec_typedefs ctx') (ec_constants ctx) (ec_type_objects ctx') name td v"
proof -
  obtain td where "unresolved_type name ctx = Some td"
    "declared_as (length (ec_type_objects ctx)) (ec_typedefs ctx') (ec_constants ctx) (ec_type_objects ctx') name td v"
    using assms unfolding resolved_def by blast
  then show ?thesis using declared_as_grown [OF _ grown_refl] by blast
qed



end
