(* ===== verification/Eval_Layout_Correct.thy ===== *)
theory Eval_Layout_Correct
  imports Eval_Layout
begin

text \<open>
  The alignment of a type is the largest alignment of what it is made of, however types refer to
  each other, and the layout of a type places every field of constant size at a multiple of its
  alignment.
\<close>

section \<open>The graph of types\<close>

text \<open>What a type refers to, and the alignment it needs by itself: an array of bounded size has a
  length in front. Neither depends on the alignments stored in the objects.\<close>

definition parts :: "TypeObject list \<Rightarrow> TypePtr option \<Rightarrow> TypePtr option list" where
  "parts objs p = (case deref objs p of
     None \<Rightarrow> []
   | Some t \<Rightarrow> (case to_type t of
       TypePrimitif _ \<Rightarrow> [] | TypeStruct s \<Rightarrow> map f_type (so_fields s) | TypeArray a \<Rightarrow> [ar_type a]))"

definition own_align :: "TypeObject list \<Rightarrow> TypePtr option \<Rightarrow> u8" where
  "own_align objs p = (case deref objs p of
     None \<Rightarrow> 1
   | Some t \<Rightarrow> (case to_type t of
       TypePrimitif ty \<Rightarrow> al_value (primitif_align ty)
     | TypeStruct s \<Rightarrow> 1
     | TypeArray a \<Rightarrow> if ar_sizing a = SizingMax then al_value (size_alignment (ar_size a)) else 1))"

definition heap_ok :: "TypeObject list \<Rightarrow> bool" where
  "heap_ok objs \<longleftrightarrow> (\<forall>t \<in> set objs. (\<forall>ty. to_type t \<noteq> TypePrimitif ty) \<and>
     (\<forall>p \<in> set (case to_type t of TypePrimitif _ \<Rightarrow> [] | TypeStruct s \<Rightarrow> map f_type (so_fields s)
        | TypeArray a \<Rightarrow> [ar_type a]). deref objs p \<noteq> None))"

inductive reaches :: "TypeObject list \<Rightarrow> TypePtr option \<Rightarrow> TypePtr option \<Rightarrow> bool" for objs where
  here: "reaches objs p p"
| part: "q \<in> set (parts objs p) \<Longrightarrow> reaches objs q r \<Longrightarrow> reaches objs p r"

definition full_align :: "TypeObject list \<Rightarrow> TypePtr option \<Rightarrow> u8" where
  "full_align objs p = Max (own_align objs ` Collect (reaches objs p))"

lemma full_align_upper: "reaches objs p q \<Longrightarrow> own_align objs q \<le> full_align objs p"
  unfolding full_align_def by (rule Max_ge) auto

lemma full_align_least:
  assumes "\<And>q. reaches objs p q \<Longrightarrow> own_align objs q \<le> b"
  shows "full_align objs p \<le> b"
proof -
  have "own_align objs ` Collect (reaches objs p) \<noteq> {}" using reaches.here by blast
  then show ?thesis unfolding full_align_def by (subst Max_le_iff) (auto simp: assms)
qed

lemma full_align_part: "q \<in> set (parts objs p) \<Longrightarrow> full_align objs q \<le> full_align objs p"
  by (rule full_align_least) (rule full_align_upper, rule reaches.part)

lemma own_le_full: "own_align objs p \<le> full_align objs p"
  by (rule full_align_upper) (rule reaches.here)

lemma own_align_pos: "0 < own_align objs p"
proof -
  have "0 < al_value (primitif_align ty)" for ty by (cases ty) (simp_all add: ALIGN_defs)
  moreover have "0 < al_value (size_alignment n)" for n by (simp add: size_alignment_def ALIGN_defs)
  ultimately show ?thesis
    by (simp add: own_align_def split: option.splits TypeUnion.splits)
qed

section \<open>The depth-first search\<close>

text \<open>An alignment is stored once it is resolved, and then it is the right one.\<close>

definition stored :: "TypeObject list \<Rightarrow> TypePtr option \<Rightarrow> u8" where
  "stored objs p = (case deref objs p of None \<Rightarrow> 0 | Some t \<Rightarrow> al_value (to_align t))"

definition partly_resolved :: "TypeObject list \<Rightarrow> bool" where
  "partly_resolved objs \<longleftrightarrow> heap_ok objs \<and> (\<forall>p. stored objs p \<noteq> 0 \<longrightarrow> stored objs p = full_align objs p)"

lemma deref_parts:
  assumes "heap_ok objs" and "q \<in> set (parts objs p)"
  shows "deref objs q \<noteq> None"
proof -
  obtain t where t: "deref objs p = Some t" using assms(2) by (cases "deref objs p") (auto simp: parts_def)
  show ?thesis
  proof (cases "t \<in> set objs")
    case True
    then show ?thesis using assms t by (simp add: heap_ok_def parts_def)
  next
    case False
    then have "\<exists>ty. to_type t = TypePrimitif ty"
      using t by (auto simp: deref_def split: option.splits TypePtr.splits if_splits)
    then show ?thesis using assms(2) t by (auto simp: parts_def)
  qed
qed

lemma stored_PRIMITIF [simp]: "stored objs (Some (PRIMITIF ty)) \<noteq> 0"
  by (cases ty) (simp_all add: stored_def deref_def ALIGN_defs)

lemma unresolved_is_object:
  assumes "deref objs p \<noteq> None" and "stored objs p = 0"
  obtains i where "p = Some (Obj i)" and "i < length objs"
proof (cases p)
  case (Some q)
  then show ?thesis using assms that by (cases q) (auto simp: deref_def split: if_splits)
qed (use assms in \<open>simp add: deref_def\<close>)

text \<open>What a search from \<open>p\<close> with the types \<open>S\<close> seen before promises, if its result is \<open>a\<close> and it
  leaves the types \<open>S'\<close> seen.\<close>

definition visited :: "TypeObject list \<Rightarrow> u8 \<Rightarrow> TypePtr option set \<Rightarrow> TypePtr option \<Rightarrow> bool" where
  "visited objs a S p \<longleftrightarrow> (stored objs p \<noteq> 0 \<and> stored objs p \<le> a) \<or> p \<in> S"

definition searched :: "TypeObject list \<Rightarrow> u8 \<Rightarrow> TypePtr option set \<Rightarrow> TypePtr option set \<Rightarrow> bool" where
  "searched objs a S S' \<longleftrightarrow> S \<subseteq> S' \<and>
     (\<forall>q \<in> S' - S. own_align objs q \<le> a \<and> (\<forall>r \<in> set (parts objs q). visited objs a S' r))"

definition open_types :: "TypeObject list \<Rightarrow> TypePtr option list \<Rightarrow> nat" where
  "open_types objs seen = card ((\<lambda>i. Some (Obj i)) ` {..<length objs} - set seen)"

lemma visited_mono: "visited objs a S p \<Longrightarrow> a \<le> b \<Longrightarrow> S \<subseteq> S' \<Longrightarrow> visited objs b S' p"
  by (auto simp: visited_def)

lemma searched_refl [simp]: "searched objs a S S"
  by (simp add: searched_def)

lemma searched_subset: "searched objs a S S' \<Longrightarrow> S \<subseteq> S'"
  by (simp add: searched_def)

lemma searched_mono: "searched objs a S S' \<Longrightarrow> a \<le> b \<Longrightarrow> searched objs b S S'"
  unfolding searched_def by (meson order_refl order_trans visited_mono)

lemma searched_trans:
  assumes "searched objs a S S'" and "searched objs a S' S''"
  shows "searched objs a S S''"
proof -
  have "S' \<subseteq> S''" using assms(2) by (rule searched_subset)
  then show ?thesis
    using assms visited_mono [of objs a S' _ a S''] unfolding searched_def by blast
qed

lemma searched_insert:
  assumes "searched objs a (insert p S) S'" and "own_align objs p \<le> a" and "\<forall>q \<in> set (parts objs p). visited objs a S' q"
  shows "searched objs a S S'"
  using assms unfolding searched_def by blast

lemma open_types_mono: "set seen \<subseteq> set seen' \<Longrightarrow> open_types objs seen' \<le> open_types objs seen"
  unfolding open_types_def by (intro card_mono) auto

lemma open_types_add:
  assumes "p = Some (Obj i)" and "i < length objs" and "p \<notin> set seen"
  shows "open_types objs (p # seen) < open_types objs seen"
proof -
  let ?A = "(\<lambda>i. Some (Obj i)) ` {..<length objs} - set seen"
  have "p \<in> ?A" using assms by auto
  then have "card (?A - {p}) < card ?A" by (intro card_Diff1_less) auto
  moreover have "(\<lambda>i. Some (Obj i)) ` {..<length objs} - set (p # seen) = ?A - {p}" by auto
  ultimately show ?thesis unfolding open_types_def by presburger
qed

definition search_ok :: "TypeObject list \<Rightarrow> nat \<Rightarrow> bool" where
  "search_ok objs n \<longleftrightarrow> (\<forall>p seen. open_types objs seen < n \<longrightarrow> deref objs p \<noteq> None \<longrightarrow>
     (\<exists>al seen'. resolve_alignment n objs p seen = Some (al, seen') \<and> 1 \<le> al_value al \<and>
        searched objs (al_value al) (set seen) (set seen') \<and> visited objs (al_value al) (set seen') p \<and>
        al_value al \<le> full_align objs p))"

lemma fields_search:
  assumes "search_ok objs n" and "\<forall>f \<in> set fs. deref objs (f_type f) \<noteq> None" and "open_types objs seen < n"
  shows "\<exists>al seen'. fields_alignment (resolve_alignment n objs) fs res seen = Some (al, seen') \<and> al_value res \<le> al_value al \<and>
    searched objs (al_value al) (set seen) (set seen') \<and>
    (\<forall>f \<in> set fs. visited objs (al_value al) (set seen') (f_type f)) \<and>
    (\<forall>b. al_value res \<le> b \<longrightarrow> (\<forall>f \<in> set fs. full_align objs (f_type f) \<le> b) \<longrightarrow> al_value al \<le> b)"
  using assms(2,3)
proof (induction fs arbitrary: res seen)
  case (Cons f fs)
  have "deref objs (f_type f) \<noteq> None" using Cons.prems(1) by simp
  from assms(1) [unfolded search_ok_def, rule_format, OF Cons.prems(2) this]
  obtain a seen1 where a: "resolve_alignment n objs (f_type f) seen = Some (a, seen1)"
    "searched objs (al_value a) (set seen) (set seen1)" "visited objs (al_value a) (set seen1) (f_type f)"
    "al_value a \<le> full_align objs (f_type f)"
    by blast
  have "open_types objs seen1 < n"
    using open_types_mono [OF searched_subset [OF a(2)], of objs] Cons.prems(2) by simp
  from Cons.IH [OF _ this, of "max_alignment res a"] Cons.prems(1) obtain al seen2 where l:
    "fields_alignment (resolve_alignment n objs) fs (max_alignment res a) seen1 = Some (al, seen2)"
    "al_value (max_alignment res a) \<le> al_value al" "searched objs (al_value al) (set seen1) (set seen2)"
    "\<forall>f \<in> set fs. visited objs (al_value al) (set seen2) (f_type f)"
    "\<forall>b. al_value (max_alignment res a) \<le> b \<longrightarrow> (\<forall>f \<in> set fs. full_align objs (f_type f) \<le> b) \<longrightarrow> al_value al \<le> b"
    by auto
  have le: "al_value a \<le> al_value al" "al_value res \<le> al_value al" using l(2) by simp_all
  show ?case
  proof (intro exI conjI)
    show "fields_alignment (resolve_alignment n objs) (f # fs) res seen = Some (al, seen2)" using a(1) l(1) by simp
    show "searched objs (al_value al) (set seen) (set seen2)"
      using searched_trans [OF searched_mono [OF a(2) le(1)] l(3)] .
    show "\<forall>f \<in> set (f # fs). visited objs (al_value al) (set seen2) (f_type f)"
      using l(4) visited_mono [OF a(3) le(1) searched_subset [OF l(3)]] by simp
    show "\<forall>b. al_value res \<le> b \<longrightarrow> (\<forall>f \<in> set (f # fs). full_align objs (f_type f) \<le> b) \<longrightarrow> al_value al \<le> b"
      using l(5) order_trans [OF a(4)] by simp
  qed (rule le(2))
qed auto

lemma searches:
  assumes "partly_resolved objs"
  shows "search_ok objs n"
proof (induction n)
  case 0
  then show ?case by (simp add: search_ok_def)
next
  case (Suc n)
  show ?case
    unfolding search_ok_def
  proof (intro allI impI)
    fix p seen assume o: "open_types objs seen < Suc n" and d: "deref objs p \<noteq> None"
    have heap: "heap_ok objs" using assms by (simp add: partly_resolved_def)
    obtain t where t: "deref objs p = Some t" using d by blast
    have st: "stored objs p = al_value (to_align t)" using t by (simp add: stored_def)
    let ?goal = "\<exists>al seen'. resolve_alignment (Suc n) objs p seen = Some (al, seen') \<and> 1 \<le> al_value al \<and>
      searched objs (al_value al) (set seen) (set seen') \<and> visited objs (al_value al) (set seen') p \<and>
      al_value al \<le> full_align objs p"
    have pos: "1 \<le> full_align objs p"
      using own_align_pos [of objs p] own_le_full [of objs p] by (simp add: word_le_nat_alt word_less_nat_alt)
    show ?goal
    proof (cases "stored objs p \<noteq> 0")
      case True
      then have "stored objs p = full_align objs p" using assms by (simp add: partly_resolved_def)
      then show ?thesis using t st True pos by (simp add: visited_def)
    next
      case unres: False
      then obtain i where i: "p = Some (Obj i)" "i < length objs" using unresolved_is_object d by blast
      show ?thesis
      proof (cases "p \<in> set seen")
        case True
        then show ?thesis using t st unres pos by (simp add: set_add_def visited_def ALIGN_defs)
      next
        case False
        have o': "open_types objs (p # seen) < n" using open_types_add [OF i False] o by simp
        have parts: "\<forall>q \<in> set (parts objs p). deref objs q \<noteq> None" using deref_parts [OF heap] by blast
        show ?thesis
        proof (cases "to_type t")
          case (TypePrimitif ty)
          then show ?thesis using t i heap by (auto simp: heap_ok_def deref_def)
        next
          case (TypeStruct s)
          have ps: "parts objs p = map f_type (so_fields s)" using t TypeStruct by (simp add: parts_def)
          have "\<forall>f \<in> set (so_fields s). deref objs (f_type f) \<noteq> None" using parts ps by simp
          from fields_search [OF Suc this o', of ALIGN_1] obtain al seen' where
            r: "fields_alignment (resolve_alignment n objs) (so_fields s) ALIGN_1 (p # seen) = Some (al, seen')"
              "1 \<le> al_value al" "searched objs (al_value al) (insert p (set seen)) (set seen')"
              "\<forall>f \<in> set (so_fields s). visited objs (al_value al) (set seen') (f_type f)"
              "\<forall>b. 1 \<le> b \<longrightarrow> (\<forall>f \<in> set (so_fields s). full_align objs (f_type f) \<le> b) \<longrightarrow> al_value al \<le> b"
            by (auto simp: ALIGN_1_def)
          have own: "own_align objs p = 1" using t TypeStruct by (simp add: own_align_def)
          have "\<forall>f \<in> set (so_fields s). full_align objs (f_type f) \<le> full_align objs p"
            using ps full_align_part by simp
          then have "al_value al \<le> full_align objs p" using r(5) pos by blast
          moreover have "searched objs (al_value al) (set seen) (set seen')"
            by (rule searched_insert [OF r(3)]) (use own r(2,4) ps in auto)
          moreover have "visited objs (al_value al) (set seen') p"
            using searched_subset [OF r(3)] by (simp add: visited_def)
          ultimately show ?thesis using t st unres False TypeStruct r(1,2) by (simp add: set_add_def)
        next
          case (TypeArray a)
          have ps: "parts objs p = [ar_type a]" using t TypeArray by (simp add: parts_def)
          then have "deref objs (ar_type a) \<noteq> None" using parts by simp
          with Suc o' obtain al seen' where
            r: "resolve_alignment n objs (ar_type a) (p # seen) = Some (al, seen')" "1 \<le> al_value al"
              "searched objs (al_value al) (insert p (set seen)) (set seen')"
              "visited objs (al_value al) (set seen') (ar_type a)" "al_value al \<le> full_align objs (ar_type a)"
            unfolding search_ok_def by (metis list.simps(15))
          let ?res = "if ar_sizing a = SizingMax then max_alignment (size_alignment (ar_size a)) al else al"
          have own: "own_align objs p = (if ar_sizing a = SizingMax then al_value (size_alignment (ar_size a)) else 1)"
            using t TypeArray by (simp add: own_align_def)
          have le: "al_value al \<le> al_value ?res" "own_align objs p \<le> al_value ?res" using own r(2) by simp_all
          have "al_value al \<le> full_align objs p"
            by (rule order_trans [OF r(5) full_align_part]) (simp add: ps)
          then have "al_value ?res \<le> full_align objs p"
            using own own_le_full [of objs p] by (simp split: if_splits)
          moreover have v: "visited objs (al_value ?res) (set seen') (ar_type a)"
            using visited_mono [OF r(4) le(1)] by simp
          moreover have "searched objs (al_value ?res) (set seen) (set seen')"
            by (rule searched_insert [OF searched_mono [OF r(3) le(1)] le(2)]) (use v ps in simp)
          moreover have "visited objs (al_value ?res) (set seen') p"
            using searched_subset [OF r(3)] by (simp add: visited_def)
          moreover have "1 \<le> al_value ?res" using r(2) le(1) by simp
          moreover have "resolve_alignment (Suc n) objs p seen = Some (?res, seen')"
            using t st unres False TypeArray r(1) by (simp add: set_add_def)
          ultimately show ?thesis by blast
        qed
      qed
    qed
  qed
qed

lemma searched_covers:
  assumes "reaches objs p q" and "partly_resolved objs" and "searched objs a {} S" and "visited objs a S p"
  shows "own_align objs q \<le> a"
  using assms
proof (induction rule: reaches.induct)
  case (here p)
  then show ?case
    unfolding visited_def searched_def partly_resolved_def by (metis Diff_empty order_trans own_le_full)
next
  case (part q p r)
  show ?case
  proof (cases "stored objs p \<noteq> 0 \<and> stored objs p \<le> a")
    case True
    then have "full_align objs p \<le> a" using part.prems(1) by (simp add: partly_resolved_def)
    moreover have "own_align objs r \<le> full_align objs p"
      by (rule full_align_upper [OF reaches.part [OF part.hyps]])
    ultimately show ?thesis by (metis order_trans)
  next
    case False
    then have "visited objs a S q" using part.prems(2,3) part.hyps(1) by (auto simp: visited_def searched_def)
    then show ?thesis using part.IH part.prems by blast
  qed
qed

lemma resolve_alignment_full:
  assumes "partly_resolved objs" and "length objs < n" and "deref objs p \<noteq> None"
  shows "\<exists>al seen. resolve_alignment n objs p [] = Some (al, seen) \<and> al_value al = full_align objs p"
proof -
  have "open_types objs [] < n"
    using assms(2) card_image_le [of "{..<length objs}" "\<lambda>i. Some (Obj i)"] by (simp add: open_types_def)
  with searches [OF assms(1), of n] assms(3) obtain al seen where
    r: "resolve_alignment n objs p [] = Some (al, seen)" "searched objs (al_value al) {} (set seen)"
      "visited objs (al_value al) (set seen) p" "al_value al \<le> full_align objs p"
    unfolding search_ok_def by (metis list.set(1))
  have "full_align objs p \<le> al_value al"
    by (rule full_align_least) (rule searched_covers [OF _ assms(1) r(2,3)])
  with r(1,4) show ?thesis by auto
qed

section \<open>Storing the alignments\<close>

text \<open>The graph does not depend on the alignments stored in the objects.\<close>

lemma deref_types:
  assumes "map to_type objs' = map to_type objs"
  shows "map_option to_type (deref objs' p) = map_option to_type (deref objs p)"
proof -
  have "length objs' = length objs" using assms by (rule map_eq_imp_length_eq)
  moreover have "to_type (objs' ! i) = to_type (objs ! i)" if "i < length objs" for i
    using assms that calculation by (metis nth_map)
  ultimately show ?thesis by (auto simp: deref_def split: option.splits TypePtr.splits)
qed

lemma graph_types:
  assumes "map to_type objs' = map to_type objs"
  shows "parts objs' = parts objs" "own_align objs' = own_align objs" "heap_ok objs' = heap_ok objs"
    "full_align objs' = full_align objs" "deref objs' p = None \<longleftrightarrow> deref objs p = None"
proof -
  have d: "map_option to_type (deref objs' p) = map_option to_type (deref objs p)" for p
    using assms by (rule deref_types)
  show p: "parts objs' = parts objs"
  proof
    fix p show "parts objs' p = parts objs p"
      using d [of p] by (cases "deref objs p"; cases "deref objs' p") (simp_all add: parts_def)
  qed
  show o: "own_align objs' = own_align objs"
  proof
    fix p show "own_align objs' p = own_align objs p"
      using d [of p] by (cases "deref objs p"; cases "deref objs' p") (simp_all add: own_align_def)
  qed
  show n: "deref objs' p = None \<longleftrightarrow> deref objs p = None" for p
    using d [of p] by (cases "deref objs p"; cases "deref objs' p") simp_all
  have h: "heap_ok os \<longleftrightarrow> (\<forall>ty \<in> set (map to_type os). (\<forall>t. ty \<noteq> TypePrimitif t) \<and>
     (\<forall>p \<in> set (case ty of TypePrimitif _ \<Rightarrow> [] | TypeStruct s \<Rightarrow> map f_type (so_fields s)
        | TypeArray a \<Rightarrow> [ar_type a]). deref os p \<noteq> None))" for os
    by (simp add: heap_ok_def)
  show "heap_ok objs' = heap_ok objs" unfolding h assms n ..
  have "reaches objs' p q \<Longrightarrow> reaches objs p q" for p q
    by (induction rule: reaches.induct) (auto intro: reaches.intros simp: p)
  moreover have "reaches objs p q \<Longrightarrow> reaches objs' p q" for p q
    by (induction rule: reaches.induct) (auto intro: reaches.intros simp: p)
  ultimately have "reaches objs' = reaches objs" by blast
  then show "full_align objs' = full_align objs" unfolding full_align_def o by simp
qed

lemma stored_update:
  "i < length objs \<Longrightarrow> stored (objs[i := (objs ! i)\<lparr>to_align := al\<rparr>]) p = (if p = Some (Obj i) then al_value al else stored objs p)"
  by (auto simp: stored_def deref_def split: option.splits TypePtr.splits)

lemma alignment_loop_full:
  assumes "partly_resolved objs" and "set is \<subseteq> {..<length objs}" and "length objs < n"
  shows "\<exists>objs'. alignment_loop n is objs = Some objs' \<and> map to_type objs' = map to_type objs \<and> partly_resolved objs' \<and>
    (\<forall>i \<in> set is. stored objs' (Some (Obj i)) \<noteq> 0) \<and> (\<forall>p. stored objs p \<noteq> 0 \<longrightarrow> stored objs' p \<noteq> 0)"
  using assms
proof (induction "is" arbitrary: objs)
  case (Cons i "is")
  let ?p = "Some (Obj i)"
  have i: "i < length objs" using Cons.prems(2) by simp
  then have "deref objs ?p \<noteq> None" by (simp add: deref_def)
  then obtain al seen where r: "resolve_alignment n objs ?p [] = Some (al, seen)" "al_value al = full_align objs ?p"
    using resolve_alignment_full [OF Cons.prems(1,3)] by blast
  let ?objs = "objs[i := (objs ! i)\<lparr>to_align := al\<rparr>]"
  have ty: "map to_type ?objs = map to_type objs"
    by (simp add: map_update) (metis list_update_id map_update)
  note g = graph_types [OF ty]
  have "partly_resolved ?objs"
    using Cons.prems(1) r(2) unfolding partly_resolved_def g stored_update [OF i] by simp
  moreover have "set is \<subseteq> {..<length ?objs}" "length ?objs < n" using Cons.prems by simp_all
  ultimately obtain objs' where l: "alignment_loop n is ?objs = Some objs'" "map to_type objs' = map to_type ?objs"
    "partly_resolved objs'" "\<forall>i \<in> set is. stored objs' (Some (Obj i)) \<noteq> 0"
    "\<forall>p. stored ?objs p \<noteq> 0 \<longrightarrow> stored objs' p \<noteq> 0"
    using Cons.IH by blast
  have "al_value al \<noteq> 0" using r(2) own_align_pos [of objs ?p] own_le_full [of objs ?p] by auto
  then have "stored objs' ?p \<noteq> 0" "\<forall>p. stored objs p \<noteq> 0 \<longrightarrow> stored objs' p \<noteq> 0"
    using l(5) stored_update [OF i, of al] by auto
  with l(1-4) ty r(1) show ?case by simp
qed simp

text \<open>C11: The alignment stored with each type is the largest one of the types it is made of, itself
  included, through structs, arrays and pointers to arrays, however they refer to each other. The
  search for it ends, with a recursion no deeper than there are types, and touches no null pointer.\<close>

theorem alignments_correct:
  assumes "heap_ok objs" and "\<forall>t \<in> set objs. al_value (to_align t) = 0" and "length objs < n"
  shows "\<exists>objs'. alignment_loop n [0..<length objs] objs = Some objs' \<and> map to_type objs' = map to_type objs \<and>
    (\<forall>i < length objs. al_value (to_align (objs' ! i)) = Max (own_align objs ` Collect (reaches objs (Some (Obj i)))))"
proof -
  have "full_align objs (Some (PRIMITIF ty)) = al_value (primitif_align ty)" for ty
  proof -
    have "q = Some (PRIMITIF ty)" if "reaches objs (Some (PRIMITIF ty)) q" for q
      using that by (cases rule: reaches.cases) (auto simp: parts_def deref_def)
    then have "Collect (reaches objs (Some (PRIMITIF ty))) = {Some (PRIMITIF ty)}" by (auto intro: reaches.here)
    then show ?thesis by (simp add: full_align_def own_align_def deref_def)
  qed
  then have "stored objs p = full_align objs p" if "stored objs p \<noteq> 0" for p
    using that assms(2) by (auto simp: stored_def deref_def split: option.splits TypePtr.splits if_splits)
  then have "partly_resolved objs" using assms(1) by (simp add: partly_resolved_def)
  moreover have "set [0..<length objs] \<subseteq> {..<length objs}" by auto
  ultimately have "\<exists>objs'. alignment_loop n [0..<length objs] objs = Some objs' \<and> map to_type objs' = map to_type objs \<and>
      partly_resolved objs' \<and> (\<forall>i \<in> set [0..<length objs]. stored objs' (Some (Obj i)) \<noteq> 0) \<and>
      (\<forall>p. stored objs p \<noteq> 0 \<longrightarrow> stored objs' p \<noteq> 0)"
    using assms(3) by (rule alignment_loop_full)
  then obtain objs' where
    r: "alignment_loop n [0..<length objs] objs = Some objs'" "map to_type objs' = map to_type objs" "partly_resolved objs'"
      "\<forall>i < length objs. stored objs' (Some (Obj i)) \<noteq> 0"
    by auto
  have "length objs' = length objs" using r(2) by (rule map_eq_imp_length_eq)
  then have "al_value (to_align (objs' ! i)) = full_align objs (Some (Obj i))" if "i < length objs" for i
    using r(3,4) that unfolding partly_resolved_def graph_types [OF r(2)] by (auto simp: stored_def deref_def)
  with r(1,2) show ?thesis by (simp add: full_align_def)
qed

lemma alignments_correct_witness:
  fixes objs :: "TypeObject list"
  defines "objs \<equiv> [
    \<lparr>to_align = unresolved_align, to_type = TypeStruct \<lparr>so_name = [0x41], so_fields =
       [\<lparr>f_name = [0x61], f_name_span = \<lparr>loc = location 0 0 0, s_len = 1\<rparr>, f_type = Some (Obj 1)\<rparr>], so_has_funcs = False\<rparr>\<rparr>,
    \<lparr>to_align = unresolved_align, to_type = TypeArray \<lparr>ar_sizing = SizingMax, ar_size = 1000, ar_heap = True, ar_type = Some (Obj 0)\<rparr>\<rparr>]"
  shows "\<exists>objs'. alignment_loop 3 [0..<2] objs = Some objs' \<and> al_value (to_align (objs' ! 0)) = 2"
proof -
  have "heap_ok objs" "\<forall>t \<in> set objs. al_value (to_align t) = 0" "length objs = 2"
    by (simp_all add: objs_def heap_ok_def deref_def unresolved_align_def)
  with alignments_correct [of objs 3] obtain objs' where a: "alignment_loop 3 [0..<2] objs = Some objs'"
    "al_value (to_align (objs' ! 0)) = Max (own_align objs ` Collect (reaches objs (Some (Obj 0))))" by auto
  have p: "parts objs (Some (Obj 0)) = [Some (Obj 1)]" "parts objs (Some (Obj (Suc 0))) = [Some (Obj 0)]"
    by (simp_all add: parts_def deref_def objs_def)
  have "q = Some (Obj 0) \<or> q = Some (Obj 1)" if "reaches objs r q" "r = Some (Obj 0) \<or> r = Some (Obj 1)" for r q
    using that by (induction rule: reaches.induct) (auto simp: p)
  moreover have "reaches objs (Some (Obj 0)) (Some (Obj 1))" by (rule reaches.part [OF _ reaches.here]) (simp add: p)
  ultimately have "Collect (reaches objs (Some (Obj 0))) = {Some (Obj 0), Some (Obj 1)}" by (auto intro: reaches.here)
  moreover have "own_align objs (Some (Obj 0)) = 1" "own_align objs (Some (Obj 1)) = 2"
    by (simp_all add: own_align_def deref_def objs_def size_alignment_def ALIGN_defs)
  ultimately have "Max (own_align objs ` Collect (reaches objs (Some (Obj 0)))) = 2" by simp
  with a show ?thesis by auto
qed

section \<open>Layouts\<close>

definition accessor_ok :: "TypeObject list \<Rightarrow> FieldAccessor \<Rightarrow> bool" where
  "accessor_ok objs fa \<longleftrightarrow> deref objs (fa_type fa) \<noteq> None \<and>
     (fa_size fa \<noteq> 0 \<longrightarrow> (\<exists>ty. fa_type fa = Some (PRIMITIF ty) \<and> fa_size fa = primitif_size ty))"

lemma deref_PRIMITIF [simp]:
  "deref objs (Some (PRIMITIF ty)) = Some \<lparr>to_align = primitif_align ty, to_type = TypePrimitif ty\<rparr>"
  by (simp add: deref_def)

lemma accessor_ok_PRIMITIF: "accessor_ok objs \<lparr>fa_indices = base, fa_size = primitif_size ty, fa_type = Some (PRIMITIF ty)\<rparr>"
  by (auto simp: accessor_ok_def)

lemma accessor_ok_length: "accessor_ok objs (length_accessor base sz)"
  using accessor_ok_PRIMITIF [of objs "base @ [0]" Primitif_u8] accessor_ok_PRIMITIF [of objs "base @ [0]" Primitif_u16]
    accessor_ok_PRIMITIF [of objs "base @ [0]" Primitif_u32] accessor_ok_PRIMITIF [of objs "base @ [0]" Primitif_u64]
  by (simp add: length_accessor_def)

lemma members_accessors:
  assumes "members_loop (add_fields n objs) tys base i v = Some v'" and "\<forall>fa \<in> set v. accessor_ok objs fa"
    and "\<And>ty base v v'. add_fields n objs ty base v = Some v' \<Longrightarrow> \<forall>fa \<in> set v. accessor_ok objs fa \<Longrightarrow>
      \<forall>fa \<in> set v'. accessor_ok objs fa"
  shows "\<forall>fa \<in> set v'. accessor_ok objs fa"
  using assms(1,2)
proof (induction tys arbitrary: i v)
  case (Cons ty tys)
  obtain v1 where "add_fields n objs ty (base @ [i]) v = Some v1" "members_loop (add_fields n objs) tys base (i + 1) v1 = Some v'"
    using Cons.prems(1) by (auto simp: bind_eq_Some_conv)
  then show ?case using Cons.IH Cons.prems(2) assms(3) by blast
qed simp

lemma add_fields_accessors:
  assumes "heap_ok objs"
  shows "add_fields n objs ty base v = Some v' \<Longrightarrow> \<forall>fa \<in> set v. accessor_ok objs fa \<Longrightarrow> \<forall>fa \<in> set v'. accessor_ok objs fa"
proof (induction n arbitrary: ty base v v')
  case (Suc n)
  obtain t where t: "deref objs ty = Some t" using Suc.prems(1) by (auto simp: bind_eq_Some_conv)
  show ?case
  proof (cases "to_type t")
    case (TypePrimitif p)
    then show ?thesis using Suc.prems t accessor_ok_PRIMITIF by auto
  next
    case (TypeStruct s)
    show ?thesis
      by (rule members_accessors [OF _ Suc.prems(2) Suc.IH, where base = base and i = 0 and tys = "map f_type (so_fields s)"])
        (use Suc.prems(1) t TypeStruct in auto)
  next
    case (TypeArray a)
    then have "deref objs (ar_type a) \<noteq> None"
      using deref_parts [OF assms, of "ar_type a" ty] t by (simp add: parts_def)
    then have v: "accessor_ok objs \<lparr>fa_indices = base @ [1], fa_size = 0, fa_type = ar_type a\<rparr>"
      by (simp add: accessor_ok_def)
    show ?thesis
    proof (cases "ar_sizing a = SizingMax")
      case True
      then have "v' = v @ [\<lparr>fa_indices = base @ [1], fa_size = 0, fa_type = ar_type a\<rparr>, length_accessor base (ar_size a)]"
        using Suc.prems(1) t TypeArray by simp
      then show ?thesis using Suc.prems(2) v accessor_ok_length by auto
    next
      case False
      show ?thesis
        by (rule members_accessors [OF _ Suc.prems(2) Suc.IH, where base = base and i = 0 and
              tys = "replicate (unat (ar_size a)) (ar_type a)"])
          (use Suc.prems(1) t TypeArray False in auto)
    qed
  qed
qed simp

text \<open>The comparison is that of a key: constant size before variable, then the larger alignment.\<close>

definition rank :: "TypeObject list \<Rightarrow> FieldAccessor \<Rightarrow> int" where
  "rank objs fa = (if fa_size fa \<noteq> 0 then 256 else 0) + uint (stored objs (fa_type fa))"

lemma fa_compare_rank:
  assumes "deref objs (fa_type a) \<noteq> None" and "deref objs (fa_type b) \<noteq> None"
  shows "\<exists>r. fa_compare objs a b = Some r \<and> (r \<le> 0 \<longleftrightarrow> rank objs b \<le> rank objs a)"
proof -
  define x y where xy: "x = uint (stored objs (fa_type a))" "y = uint (stored objs (fa_type b))"
  have "fa_compare objs a b = Some (if fa_size b \<noteq> 0 \<and> fa_size a = 0 then 1
      else if fa_size a \<noteq> 0 \<and> fa_size b = 0 then - 1 else y - x)"
    using assms by (auto simp: fa_compare_def stored_def xy)
  moreover have "0 \<le> x" "x < 256" "0 \<le> y" "y < 256"
    unfolding xy using uint_lt2p [of "stored objs (fa_type a)"] uint_lt2p [of "stored objs (fa_type b)"] by simp_all
  ultimately show ?thesis unfolding rank_def xy [symmetric] by (cases "fa_size a = 0"; cases "fa_size b = 0") simp_all
qed

lemma ordered_rank:
  "deref objs (fa_type a) \<noteq> None \<Longrightarrow> deref objs (fa_type b) \<noteq> None \<Longrightarrow>
     ordered (fa_compare objs) a b \<longleftrightarrow> rank objs b \<le> rank objs a"
  using fa_compare_rank [of objs a b] by (auto simp: ordered_def)

lemma fa_compare_consistent:
  assumes "\<forall>fa \<in> set fs. accessor_ok objs fa"
  shows "consistent (fa_compare objs) fs"
  unfolding consistent_def
proof (intro ballI)
  fix a b assume "a \<in> set fs" "b \<in> set fs"
  then have d: "deref objs (fa_type a) \<noteq> None" "deref objs (fa_type b) \<noteq> None"
    using assms by (auto simp: accessor_ok_def)
  obtain r where r: "fa_compare objs a b = Some r" "r \<le> 0 \<longleftrightarrow> rank objs b \<le> rank objs a" using fa_compare_rank [OF d] by blast
  obtain r' where r': "fa_compare objs b a = Some r'" "r' \<le> 0 \<longleftrightarrow> rank objs a \<le> rank objs b"
    using fa_compare_rank [OF d(2,1)] by blast
  have "\<exists>u. fa_compare objs a c = Some u \<and> u \<le> 0"
    if c: "c \<in> set fs" and s: "fa_compare objs b c = Some s" and le: "r \<le> 0" "s \<le> 0" for c s
  proof -
    have dc: "deref objs (fa_type c) \<noteq> None" using assms c by (simp add: accessor_ok_def)
    have "rank objs c \<le> rank objs b" using fa_compare_rank [OF d(2) dc] s le(2) by auto
    then show ?thesis using fa_compare_rank [OF d(1) dc] r(2) le(1) by auto
  qed
  with r r' show "\<exists>r. fa_compare objs a b = Some r \<and> (\<exists>r'. fa_compare objs b a = Some r' \<and> (r \<le> 0 \<or> r' \<le> 0)) \<and>
     (\<forall>c \<in> set fs. \<forall>s. fa_compare objs b c = Some s \<longrightarrow> r \<le> 0 \<longrightarrow> s \<le> 0 \<longrightarrow> (\<exists>u. fa_compare objs a c = Some u \<and> u \<le> 0))"
    by (intro exI [of _ r] conjI exI [of _ r']) auto
qed

text \<open>The byte a field of constant size is written at: the sizes of the fields before it.\<close>

definition field_offset :: "FieldAccessor list \<Rightarrow> nat \<Rightarrow> nat" where
  "field_offset fs i = sum_list (map (\<lambda>fa. unat (fa_size fa)) (take i fs))"

lemma dvd_sum_list: "(\<And>x. x \<in> set xs \<Longrightarrow> d dvd x) \<Longrightarrow> d dvd (sum_list xs :: nat)"
  by (induction xs) simp_all

lemma primitif_size_dvd:
  assumes "al_value (primitif_align q) \<le> al_value (primitif_align p)"
  shows "unat (primitif_size q) dvd unat (primitif_size p)"
  using assms by (cases p; cases q) (simp_all add: ALIGN_defs word_le_nat_alt)

text \<open>What sorting the accessors of a type by the comparison gives.\<close>

definition sorted_accessors :: "TypeObject list \<Rightarrow> FieldAccessor list \<Rightarrow> bool" where
  "sorted_accessors objs ls \<longleftrightarrow> (\<forall>fa \<in> set ls. accessor_ok objs fa) \<and> sorted_wrt (ordered (fa_compare objs)) ls"

definition constant_count :: "FieldAccessor list \<Rightarrow> nat" where
  "constant_count ls = length (takeWhile (\<lambda>fa. fa_size fa \<noteq> 0) ls)"

lemma sorted_rank:
  assumes "sorted_accessors objs ls" and "i < j" and "j < length ls"
  shows "rank objs (ls ! j) \<le> rank objs (ls ! i)"
  using assms ordered_rank [of objs "ls ! i" "ls ! j"]
  by (simp add: sorted_accessors_def sorted_wrt_iff_nth_less accessor_ok_def)

lemma sorted_variable:
  assumes "sorted_accessors objs ls" and "fa_size (ls ! i) = 0" and "i < j" and "j < length ls"
  shows "fa_size (ls ! j) = 0"
proof (rule ccontr)
  assume "fa_size (ls ! j) \<noteq> 0"
  then have "256 + uint (stored objs (fa_type (ls ! j))) \<le> uint (stored objs (fa_type (ls ! i)))"
    using sorted_rank [OF assms(1,3,4)] assms(2) unfolding rank_def by simp
  then have "256 \<le> uint (stored objs (fa_type (ls ! i)))"
    using uint_ge_0 [of "stored objs (fa_type (ls ! j))"] by linarith
  then show False using uint_lt2p [of "stored objs (fa_type (ls ! i))"] by simp
qed

lemma constant_count_le: "constant_count ls \<le> length ls"
  by (simp add: constant_count_def length_takeWhile_le)

lemma sorted_constant_first:
  assumes "sorted_accessors objs ls" and "i < length ls"
  shows "fa_size (ls ! i) \<noteq> 0 \<longleftrightarrow> i < constant_count ls"
proof
  show "fa_size (ls ! i) \<noteq> 0" if "i < constant_count ls"
    using that nth_mem [of i "takeWhile (\<lambda>fa. fa_size fa \<noteq> 0) ls"] unfolding constant_count_def
    by (metis set_takeWhileD takeWhile_nth)
  show "i < constant_count ls" if "fa_size (ls ! i) \<noteq> 0"
  proof (rule ccontr)
    let ?k = "constant_count ls"
    assume "\<not> i < ?k"
    then have "?k \<le> i" by simp
    have "fa_size (ls ! ?k) = 0"
      using nth_length_takeWhile [of "\<lambda>fa. fa_size fa \<noteq> 0" ls] \<open>?k \<le> i\<close> assms(2) by (simp add: constant_count_def)
    then show False using sorted_variable [OF assms(1), of ?k i] that \<open>?k \<le> i\<close> assms(2) by (cases "?k = i") auto
  qed
qed

lemma sorted_primitif:
  assumes "sorted_accessors objs ls" and "i < constant_count ls"
  obtains ty where "fa_type (ls ! i) = Some (PRIMITIF ty)" and "fa_size (ls ! i) = primitif_size ty"
proof -
  have i: "i < length ls" using assms(2) constant_count_le [of ls] by simp
  then have "fa_size (ls ! i) \<noteq> 0" using sorted_constant_first [OF assms(1)] assms(2) by simp
  then show ?thesis using that assms(1) nth_mem [OF i] by (auto simp: sorted_accessors_def accessor_ok_def)
qed

lemma sorted_dvd:
  assumes "sorted_accessors objs ls" and "j < i" and "i < constant_count ls"
  shows "unat (fa_size (ls ! i)) dvd unat (fa_size (ls ! j))"
proof -
  have j: "j < constant_count ls" and l: "i < length ls" "j < length ls"
    using assms(2,3) constant_count_le [of ls] by simp_all
  obtain q where q: "fa_type (ls ! i) = Some (PRIMITIF q)" "fa_size (ls ! i) = primitif_size q"
    by (rule sorted_primitif [OF assms(1,3)])
  obtain p where p: "fa_type (ls ! j) = Some (PRIMITIF p)" "fa_size (ls ! j) = primitif_size p"
    by (rule sorted_primitif [OF assms(1) j])
  have "stored objs (fa_type (ls ! i)) \<le> stored objs (fa_type (ls ! j))"
    using sorted_rank [OF assms(1,2) l(1)] sorted_constant_first [OF assms(1)] l j assms(3) by (simp add: rank_def word_le_def)
  with p q show ?thesis using primitif_size_dvd [of q p] by (simp add: stored_def)
qed

lemma sorted_offsets:
  assumes "sorted_accessors objs ls" and "i < constant_count ls"
  shows "field_offset ls i mod unat (fa_size (ls ! i)) = 0"
proof -
  have "unat (fa_size (ls ! i)) dvd field_offset ls i"
    unfolding field_offset_def
  proof (rule dvd_sum_list)
    fix x assume "x \<in> set (map (\<lambda>fa. unat (fa_size fa)) (take i ls))"
    then obtain j where "j < i" "x = unat (fa_size (ls ! j))" by (auto simp: in_set_conv_nth)
    then show "unat (fa_size (ls ! i)) dvd x" using sorted_dvd [OF assms(1) _ assms(2)] by simp
  qed
  then show ?thesis by simp
qed

lemma sorted_sizes:
  assumes "sorted_accessors objs ls" and "i < constant_count ls"
  shows "unat (fa_size (ls ! i)) = unat (stored objs (fa_type (ls ! i)))"
proof -
  obtain p where "fa_type (ls ! i) = Some (PRIMITIF p)" "fa_size (ls ! i) = primitif_size p"
    by (rule sorted_primitif [OF assms])
  then show ?thesis by (cases p) (simp_all add: stored_def ALIGN_defs)
qed

lemma sorted_variable_alignments:
  assumes "sorted_accessors objs ls"
  shows "sorted_wrt (\<lambda>a b. stored objs (fa_type b) \<le> stored objs (fa_type a)) (drop (constant_count ls) ls)"
  unfolding sorted_wrt_iff_nth_less
proof (intro allI impI)
  let ?k = "constant_count ls"
  fix i j assume ij: "i < j" "j < length (drop ?k ls)"
  then show "stored objs (fa_type (drop ?k ls ! j)) \<le> stored objs (fa_type (drop ?k ls ! i))"
    using sorted_rank [OF assms, of "?k + i" "?k + j"] sorted_constant_first [OF assms, of "?k + i"]
      sorted_constant_first [OF assms, of "?k + j"] by (simp add: rank_def word_le_def)
qed

text \<open>C12: The layout of a type lists the fields of the type, those of a constant size first and each
  of these at a multiple of its size, which is its alignment: with the message itself aligned, no
  padding is needed between them. The fields of variable size follow by decreasing alignment.\<close>

theorem layout_aligned:
  assumes "qsort_spec qs" and "heap_ok objs" and "add_fields n objs (Some ty) [] [] = Some fs"
  shows "\<exists>l k. type_layout qs n objs ty = Some l \<and> ly_type l = ty \<and> mset (ly_fields l) = mset fs \<and> k \<le> length (ly_fields l) \<and>
    (\<forall>i < length (ly_fields l). fa_size (ly_fields l ! i) \<noteq> 0 \<longleftrightarrow> i < k) \<and>
    (\<forall>i < k. unat (fa_size (ly_fields l ! i)) = unat (stored objs (fa_type (ly_fields l ! i))) \<and>
       field_offset (ly_fields l) i mod unat (fa_size (ly_fields l ! i)) = 0) \<and>
    sorted_wrt (\<lambda>a b. stored objs (fa_type b) \<le> stored objs (fa_type a)) (drop k (ly_fields l))"
proof -
  have ok: "\<forall>fa \<in> set fs. accessor_ok objs fa" using add_fields_accessors [OF assms(2,3)] by simp
  then obtain ls where ls: "qs (fa_compare objs) fs = Some ls" "mset ls = mset fs" "sorted_wrt (ordered (fa_compare objs)) ls"
    using assms(1) fa_compare_consistent unfolding qsort_spec_def by blast
  then have s: "sorted_accessors objs ls" using ok mset_eq_setD [OF ls(2)] by (simp add: sorted_accessors_def)
  have "type_layout qs n objs ty = Some \<lparr>ly_fields = ls, ly_type = ty\<rparr>"
    using assms(3) ls(1) by (simp add: type_layout_def)
  then show ?thesis
    using ls(2) constant_count_le [of ls] sorted_constant_first [OF s] sorted_sizes [OF s] sorted_offsets [OF s]
      sorted_variable_alignments [OF s]
    by (intro exI [of _ "\<lparr>ly_fields = ls, ly_type = ty\<rparr>"] exI [of _ "constant_count ls"]) simp
qed

text \<open>A sort that keeps the promise of \<open>qsort\<close>: by insertion.\<close>

fun insert_by :: "('a \<Rightarrow> 'a \<Rightarrow> int option) \<Rightarrow> 'a \<Rightarrow> 'a list \<Rightarrow> 'a list option" where
  "insert_by cmp x [] = Some [x]"
| "insert_by cmp x (y # ys) = do {
     r \<leftarrow> cmp x y;
     if r \<le> 0 then Some (x # y # ys) else do { zs \<leftarrow> insert_by cmp x ys; Some (y # zs) }
   }"

fun insertion_sort :: "('a \<Rightarrow> 'a \<Rightarrow> int option) \<Rightarrow> 'a list \<Rightarrow> 'a list option" where
  "insertion_sort cmp [] = Some []"
| "insertion_sort cmp (x # xs) = do { ys \<leftarrow> insertion_sort cmp xs; insert_by cmp x ys }"

lemma consistent_total: "consistent cmp xs \<Longrightarrow> a \<in> set xs \<Longrightarrow> b \<in> set xs \<Longrightarrow> \<exists>r. cmp a b = Some r"
  unfolding consistent_def by blast

lemma consistent_linear:
  "consistent cmp xs \<Longrightarrow> a \<in> set xs \<Longrightarrow> b \<in> set xs \<Longrightarrow> \<not> ordered cmp a b \<Longrightarrow> ordered cmp b a"
  unfolding consistent_def ordered_def by blast

lemma consistent_trans:
  "consistent cmp xs \<Longrightarrow> a \<in> set xs \<Longrightarrow> b \<in> set xs \<Longrightarrow> c \<in> set xs \<Longrightarrow> ordered cmp a b \<Longrightarrow> ordered cmp b c \<Longrightarrow>
     ordered cmp a c"
  unfolding consistent_def ordered_def by fastforce

lemma insert_by_sorted:
  assumes "consistent cmp zs" and "set (x # ys) \<subseteq> set zs" and "sorted_wrt (ordered cmp) ys"
  shows "\<exists>ys'. insert_by cmp x ys = Some ys' \<and> mset ys' = mset (x # ys) \<and> sorted_wrt (ordered cmp) ys'"
  using assms(2,3)
proof (induction ys)
  case (Cons y ys)
  obtain r where r: "cmp x y = Some r" using consistent_total [OF assms(1), of x y] Cons.prems(1) by auto
  show ?case
  proof (cases "r \<le> 0")
    case True
    then have "ordered cmp x y" using r by (simp add: ordered_def)
    then have "ordered cmp x z" if "z \<in> set (y # ys)" for z
      using consistent_trans [OF assms(1), of x y z] Cons.prems that by auto
    then show ?thesis using r True Cons.prems(2) by simp
  next
    case False
    then have "\<not> ordered cmp x y" using r by (simp add: ordered_def)
    then have yx: "ordered cmp y x" using consistent_linear [OF assms(1)] Cons.prems(1) by auto
    obtain ys' where ys': "insert_by cmp x ys = Some ys'" "mset ys' = mset (x # ys)" "sorted_wrt (ordered cmp) ys'"
      using Cons by auto
    then have "set ys' = set (x # ys)" using mset_eq_setD by blast
    then show ?thesis using r False ys' yx Cons.prems(2) by auto
  qed
qed simp

lemma insertion_sort_sorts:
  assumes "consistent cmp zs"
  shows "\<exists>ys. insertion_sort cmp zs = Some ys \<and> mset ys = mset zs \<and> sorted_wrt (ordered cmp) ys"
proof -
  have "\<exists>ys. insertion_sort cmp xs = Some ys \<and> mset ys = mset xs \<and> sorted_wrt (ordered cmp) ys" if "set xs \<subseteq> set zs" for xs
    using that
  proof (induction xs)
    case (Cons x xs)
    then obtain ys where ys: "insertion_sort cmp xs = Some ys" "mset ys = mset xs" "sorted_wrt (ordered cmp) ys" by auto
    then have "set (x # ys) \<subseteq> set zs" using Cons.prems mset_eq_setD [OF ys(2)] by simp
    from insert_by_sorted [OF assms this ys(3)] ys show ?case by auto
  qed simp
  then show ?thesis by simp
qed

lemma insertion_sort_spec: "qsort_spec insertion_sort"
  unfolding qsort_spec_def using insertion_sort_sorts by blast

definition sample_struct :: "TypePtr list \<Rightarrow> TypeObject" where
  "sample_struct tys = \<lparr>to_align = unresolved_align, to_type = TypeStruct \<lparr>so_name = [0x41], so_fields =
     map (\<lambda>ty. \<lparr>f_name = [0x61], f_name_span = \<lparr>loc = location 0 0 0, s_len = 1\<rparr>, f_type = Some ty\<rparr>) tys, so_has_funcs = False\<rparr>\<rparr>"

lemma layout_aligned_witness:
  "\<exists>l. type_layout insertion_sort 2 [sample_struct [PRIMITIF Primitif_u8, PRIMITIF Primitif_u32]] (Obj 0) = Some l \<and>
     (\<forall>i < 2. field_offset (ly_fields l) i mod unat (fa_size (ly_fields l ! i)) = 0)"
proof -
  let ?objs = "[sample_struct [PRIMITIF Primitif_u8, PRIMITIF Primitif_u32]]"
  let ?fs = "[\<lparr>fa_indices = [0], fa_size = 1, fa_type = Some (PRIMITIF Primitif_u8)\<rparr>,
    \<lparr>fa_indices = [1], fa_size = 4, fa_type = Some (PRIMITIF Primitif_u32)\<rparr>]"
  have h: "heap_ok ?objs" by (simp add: heap_ok_def sample_struct_def)
  have a: "add_fields 2 ?objs (Some (Obj 0)) [] [] = Some ?fs"
    by (simp add: sample_struct_def deref_def numeral_2_eq_2)
  from layout_aligned [OF insertion_sort_spec h a] obtain l k where
    l: "type_layout insertion_sort 2 ?objs (Obj 0) = Some l" "mset (ly_fields l) = mset ?fs"
    "\<forall>i < length (ly_fields l). fa_size (ly_fields l ! i) \<noteq> 0 \<longleftrightarrow> i < k"
    "\<forall>i < k. field_offset (ly_fields l) i mod unat (fa_size (ly_fields l ! i)) = 0"
    by blast
  have len: "length (ly_fields l) = 2" using mset_eq_length [OF l(2)] by simp
  have "set (ly_fields l) = set ?fs" using mset_eq_setD [OF l(2)] .
  then have "\<forall>fa \<in> set (ly_fields l). fa_size fa \<noteq> 0" by simp
  then have "fa_size (ly_fields l ! i) \<noteq> 0" if "i < 2" for i using that len by simp
  with l(1,3,4) len show ?thesis by auto
qed

end
