(* ===== verification/Eval_Correct.thy ===== *)
theory Eval_Correct
  imports Eval Eval_Resolve_Correct Eval_Layout_Correct
begin

text \<open>
  The messages mirror their declarations; a null pointer left among the types stops the evaluation.
\<close>

section \<open>Messages\<close>

text \<open>The blocks of messages of a schema with their versions: a version counts for the next block
  only, and a block without one has the largest number. The messages of a block with their
  attributes: those written since the message before.\<close>

fun versioned_blocks :: "Constant table \<Rightarrow> u64 \<Rightarrow> AstItem list \<Rightarrow> (AstMessages \<times> u64) list" where
  "versioned_blocks cs ver [] = []"
| "versioned_blocks cs ver (AstItem.ATVersion v # items) = versioned_blocks cs (number_value cs (ver_number v)) items"
| "versioned_blocks cs ver (AstItem.ATMessages m # items) = (m, ver) # versioned_blocks cs (- 1) items"
| "versioned_blocks cs ver (item # items) = versioned_blocks cs ver items"

fun attributed_messages :: "Attribute set \<Rightarrow> AstAttributeOrMessage list \<Rightarrow> (AstMessage \<times> Attribute set) list" where
  "attributed_messages attrs [] = []"
| "attributed_messages attrs (AstAttributeOrMessage.ATAttribute a # cs) =
     attributed_messages (if token_text (at_ident a) = attr_versioned then insert Attr_versioned attrs else attrs) cs"
| "attributed_messages attrs (AstAttributeOrMessage.ATMessage m # cs) = (m, attrs) # attributed_messages {} cs"

definition message_mirrors :: "TypePtr option table \<Rightarrow> Constant table \<Rightarrow> TypeObject list \<Rightarrow> AstMessage \<times> Attribute set
    \<Rightarrow> MessageObject \<Rightarrow> bool" where
  "message_mirrors tds cs objs ma m \<longleftrightarrow> mo_name m = token_text (mg_ident (fst ma)) \<and> mo_attributes m = snd ma \<and>
     list_all2 (field_mirrors 0 tds cs objs) (mg_fields (fst ma)) (mo_fields m)"

definition block_mirrors :: "TypePtr option table \<Rightarrow> Constant table \<Rightarrow> TypeObject list \<Rightarrow> AstMessages \<times> u64
    \<Rightarrow> MessagesObject \<Rightarrow> bool" where
  "block_mirrors tds cs objs mv b \<longleftrightarrow> mso_name b = token_text (ms_name (fst mv)) \<and> mso_version b = snd mv \<and>
     list_all2 (message_mirrors tds cs objs) (attributed_messages {} (ms_children (fst mv))) (mso_messages b)"

lemma resolved_grown_all: "resolved {} ctx ctx' \<Longrightarrow>
    grown 0 (ec_typedefs ctx) (ec_type_objects ctx) (ec_typedefs ctx') (ec_type_objects ctx')"
  by (erule resolved_grown) simp

lemma message_mirrors_grown:
  "message_mirrors tds cs objs ma m \<Longrightarrow> grown 0 tds objs tds' objs' \<Longrightarrow> message_mirrors tds' cs objs' ma m"
  unfolding message_mirrors_def using field_mirrors_grown by (fastforce elim: list_all2_mono)

lemma block_mirrors_grown:
  "block_mirrors tds cs objs mv b \<Longrightarrow> grown 0 tds objs tds' objs' \<Longrightarrow> block_mirrors tds' cs objs' mv b"
  unfolding block_mirrors_def using message_mirrors_grown by (fastforce elim: list_all2_mono)

lemma resolved_messages: "resolved I ctx ctx' \<Longrightarrow> resolved I (ctx\<lparr>ec_messages := ms\<rparr>) (ctx'\<lparr>ec_messages := ms\<rparr>)"
  by (simp add: resolved_def unresolved_type_def)

lemma resolved_self [simp]: "resolved I ctx ctx"
  using resolved_refl [of I ctx "ec_errors ctx"] by simp

lemma add_name_conv:
  "\<exists>names' es. add_name tag name s names ctx = (names', ctx\<lparr>ec_errors := es\<rparr>)"
  by (rule exI [of _ "fst (add_name tag name s names ctx)"], rule exI [of _ "ec_errors (snd (add_name tag name s names ctx))"])
    (simp add: add_name_def push_error_def split: option.split)

text \<open>After the types no name is looked up as unresolved any more.\<close>

definition settled :: "EvaluationContext \<Rightarrow> bool" where
  "settled ctx \<longleftrightarrow> ec_unresolved ctx = None"

lemma settled_resolved: "settled ctx \<Longrightarrow> resolved I ctx ctx' \<Longrightarrow> settled ctx'"
  by (simp add: settled_def resolved_def)

lemma settled_undefined: "settled ctx \<Longrightarrow> undefined_names ctx = 0"
  by (simp add: settled_def undefined_names_def)

lemma message_fields_mirror:
  assumes "0 < n" and "settled ctx"
  shows "\<exists>fds' ctx'. message_fields_loop n fs names fds ctx = Some (fds @ fds', ctx') \<and> resolved {} ctx ctx' \<and>
    list_all2 (field_mirrors 0 (ec_typedefs ctx') (ec_constants ctx) (ec_type_objects ctx')) fs fds'"
  using assms(2)
proof (induction fs arbitrary: names fds ctx)
  case (Cons f fs)
  have "undefined_names ctx < n" using settled_undefined [OF Cons.prems] assms(1) by simp
  from ast_type_resolved [OF resolve_type_ok this, of "fd_type f"] obtain p ctx1 where
    r: "ast_type_to_type_obj (resolve_type n) (fd_type f) ctx = Some (p, ctx1)" "resolved {} ctx ctx1"
      "mirrors (length (ec_type_objects ctx)) (ec_typedefs ctx1) (ec_constants ctx) (ec_type_objects ctx1) (fd_type f) p"
    by blast
  let ?f = "\<lparr>f_name = token_text (fd_name f), f_name_span = span (fd_name f), f_type = p\<rparr>"
  obtain names' es where n: "add_name AstTag.ATField (f_name ?f) (f_name_span ?f) names ctx1 = (names', ctx1\<lparr>ec_errors := es\<rparr>)"
    using add_name_conv by blast
  let ?c = "ctx1\<lparr>ec_errors := es\<rparr>"
  have rc: "resolved {} ctx ?c" using resolved_trans [OF r(2) resolved_refl] by simp
  then have "settled ?c" using settled_resolved Cons.prems by blast
  from Cons.IH [OF this, of names' "fds @ [?f]"] obtain fds' ctx' where
    l: "message_fields_loop n fs names' (fds @ [?f]) ?c = Some ((fds @ [?f]) @ fds', ctx')" "resolved {} ?c ctx'"
      "list_all2 (field_mirrors 0 (ec_typedefs ctx') (ec_constants ?c) (ec_type_objects ctx')) fs fds'" by blast
  have "mirrors 0 (ec_typedefs ctx1) (ec_constants ctx) (ec_type_objects ctx1) (fd_type f) p"
    using mirrors_grown [OF r(3) grown_refl] by simp
  from mirrors_grown [OF this, of "ec_typedefs ctx'" "ec_type_objects ctx'" 0] resolved_grown_all [OF l(2)]
  have "field_mirrors 0 (ec_typedefs ctx') (ec_constants ctx) (ec_type_objects ctx') f ?f" by (simp add: field_mirrors_def)
  moreover have "ec_constants ?c = ec_constants ctx" using rc by (simp add: resolved_def)
  moreover have "message_fields_loop n (f # fs) names fds ctx = Some (fds @ ?f # fds', ctx')"
    using r(1) n l(1) by (simp add: resolve_field_def string_slice_from_token_def)
  moreover have "resolved {} ctx ctx'" using resolved_trans [OF rc l(2)] by simp
  ultimately show ?case using l(3) by (intro exI [of _ "?f # fds'"] exI [of _ ctx']) simp
qed simp

lemma resolved_errors_then:
  "resolved {} (ctx\<lparr>ec_errors := es\<rparr>) ctx' \<Longrightarrow> resolved {} ctx ctx'"
  using resolved_trans [OF resolved_refl [of "{}" ctx es]] by simp

lemma children_mirror:
  assumes "0 < n" and "settled ctx"
  shows "\<exists>ms' ctx'. children_loop n cs attrs names ms ctx = Some (ms @ ms', ctx') \<and> resolved {} ctx ctx' \<and>
    list_all2 (message_mirrors (ec_typedefs ctx') (ec_constants ctx) (ec_type_objects ctx')) (attributed_messages attrs cs) ms'"
  using assms(2)
proof (induction cs arbitrary: attrs names ms ctx)
  case (Cons c cs)
  show ?case
  proof (cases c)
    case (ATAttribute a)
    show ?thesis
    proof (cases "token_text (at_ident a) = attr_versioned")
      case True
      then show ?thesis using Cons.IH [OF Cons.prems] ATAttribute by (simp add: attribute_of_def)
    next
      case False
      let ?e = "err_unknown (span (at_ident a)) AstTag.ATAttribute (string_slice_from_token (at_ident a))"
      have "settled (push_error ?e ctx)" using Cons.prems by (simp add: settled_def push_error_def)
      from Cons.IH [OF this, of attrs names ms] obtain ms' ctx' where
        l: "children_loop n cs attrs names ms (push_error ?e ctx) = Some (ms @ ms', ctx')" "resolved {} (push_error ?e ctx) ctx'"
          "list_all2 (message_mirrors (ec_typedefs ctx') (ec_constants (push_error ?e ctx)) (ec_type_objects ctx'))
            (attributed_messages attrs cs) ms'" by blast
      have "resolved {} ctx ctx'" using l(2) unfolding push_error_def by (rule resolved_errors_then)
      with l(1,3) False ATAttribute show ?thesis
        by (intro exI [of _ ms'] exI [of _ ctx']) (simp add: attribute_of_def push_error_def)
    qed
  next
    case (ATMessage m)
    obtain names' es where a: "add_name AstTag.ATIdent (token_text (mg_ident m)) (span (mg_ident m)) names ctx =
        (names', ctx\<lparr>ec_errors := es\<rparr>)" using add_name_conv by blast
    let ?c = "ctx\<lparr>ec_errors := es\<rparr>"
    have "settled ?c" using Cons.prems by (simp add: settled_def)
    from message_fields_mirror [OF assms(1) this, of "mg_fields m" "[]" "[]"] obtain fds ctx1 where
      f: "message_fields_loop n (mg_fields m) [] [] ?c = Some (fds, ctx1)" "resolved {} ?c ctx1"
        "list_all2 (field_mirrors 0 (ec_typedefs ctx1) (ec_constants ?c) (ec_type_objects ctx1)) (mg_fields m) fds"
      by auto
    let ?m = "\<lparr>mo_name = token_text (mg_ident m), mo_fields = fds, mo_attributes = attrs\<rparr>"
    have r1: "resolved {} ctx ctx1" by (rule resolved_errors_then [OF f(2)])
    have "settled ctx1" using settled_resolved [OF Cons.prems r1] .
    from Cons.IH [OF this, of "{}" names' "ms @ [?m]"] obtain ms' ctx' where
      l: "children_loop n cs {} names' (ms @ [?m]) ctx1 = Some ((ms @ [?m]) @ ms', ctx')" "resolved {} ctx1 ctx'"
        "list_all2 (message_mirrors (ec_typedefs ctx') (ec_constants ctx1) (ec_type_objects ctx')) (attributed_messages {} cs) ms'"
      by blast
    have "message_mirrors (ec_typedefs ctx1) (ec_constants ctx) (ec_type_objects ctx1) (m, attrs) ?m"
      using f(3) by (simp add: message_mirrors_def)
    from message_mirrors_grown [OF this resolved_grown_all [OF l(2)]]
    have "message_mirrors (ec_typedefs ctx') (ec_constants ctx) (ec_type_objects ctx') (m, attrs) ?m" .
    moreover have "ec_constants ctx1 = ec_constants ctx" using r1 by (simp add: resolved_def)
    moreover have "resolved {} ctx ctx'" using resolved_trans [OF r1 l(2)] by simp
    moreover have "children_loop n (c # cs) attrs names ms ctx = Some (ms @ ?m # ms', ctx')"
      using ATMessage a f(1) l(1) by (simp add: sss_from_token_def)
    ultimately show ?thesis using ATMessage l(3) by (intro exI [of _ "?m # ms'"] exI [of _ ctx']) simp
  qed
qed simp

lemma blocks_mirror:
  assumes "0 < n" and "settled ctx"
  shows "\<exists>bs ctx'. messages_blocks_loop n items names ver ctx = Some ctx' \<and> ec_messages ctx' = ec_messages ctx @ bs \<and>
    resolved {} ctx (ctx'\<lparr>ec_messages := ec_messages ctx\<rparr>) \<and>
    list_all2 (block_mirrors (ec_typedefs ctx') (ec_constants ctx) (ec_type_objects ctx')) (versioned_blocks (ec_constants ctx) ver items) bs"
  using assms(2)
proof (induction items arbitrary: names ver ctx)
  case (Cons item items)
  show ?case
  proof (cases item)
    case (ATVersion v)
    obtain es where v: "get_ast_number_value (ver_number v) ctx = (number_value (ec_constants ctx) (ver_number v), ctx\<lparr>ec_errors := es\<rparr>)"
      using get_ast_number_value_conv by blast
    let ?c = "ctx\<lparr>ec_errors := es\<rparr>"
    have "settled ?c" using Cons.prems by (simp add: settled_def)
    from Cons.IH [OF this, of names "number_value (ec_constants ctx) (ver_number v)"] obtain bs ctx' where
      l: "messages_blocks_loop n items names (number_value (ec_constants ctx) (ver_number v)) ?c = Some ctx'"
        "ec_messages ctx' = ec_messages ctx @ bs" "resolved {} ?c (ctx'\<lparr>ec_messages := ec_messages ctx\<rparr>)"
        "list_all2 (block_mirrors (ec_typedefs ctx') (ec_constants ctx) (ec_type_objects ctx'))
          (versioned_blocks (ec_constants ctx) (number_value (ec_constants ctx) (ver_number v)) items) bs" by auto
    then show ?thesis using ATVersion v resolved_errors_then [OF l(3)] by (intro exI [of _ bs] exI [of _ ctx']) simp
  next
    case (ATMessages m)
    obtain names' es where a: "add_name AstTag.ATIdent (token_text (ms_name m)) (span (ms_name m)) names ctx =
        (names', ctx\<lparr>ec_errors := es\<rparr>)" using add_name_conv by blast
    let ?c = "ctx\<lparr>ec_errors := es\<rparr>"
    have "settled ?c" using Cons.prems by (simp add: settled_def)
    from children_mirror [OF assms(1) this, of "ms_children m" "{}" "[]" "[]"] obtain ms ctx1 where
      f: "children_loop n (ms_children m) {} [] [] ?c = Some (ms, ctx1)" "resolved {} ?c ctx1"
        "list_all2 (message_mirrors (ec_typedefs ctx1) (ec_constants ?c) (ec_type_objects ctx1))
          (attributed_messages {} (ms_children m)) ms" by auto
    have r1: "resolved {} ctx ctx1" by (rule resolved_errors_then [OF f(2)])
    let ?b = "\<lparr>mso_name = token_text (ms_name m), mso_messages = ms, mso_version = ver\<rparr>"
    let ?c2 = "ctx1\<lparr>ec_messages := ec_messages ctx1 @ [?b]\<rparr>"
    have "settled ?c2" using settled_resolved [OF Cons.prems r1] by (simp add: settled_def)
    from Cons.IH [OF this, of names' "- 1"] obtain bs ctx' where
      l: "messages_blocks_loop n items names' (- 1) ?c2 = Some ctx'" "ec_messages ctx' = ec_messages ?c2 @ bs"
        "resolved {} ?c2 (ctx'\<lparr>ec_messages := ec_messages ?c2\<rparr>)"
        "list_all2 (block_mirrors (ec_typedefs ctx') (ec_constants ?c2) (ec_type_objects ctx'))
          (versioned_blocks (ec_constants ?c2) (- 1) items) bs" by blast
    have eq: "ec_constants ctx1 = ec_constants ctx" "ec_messages ctx1 = ec_messages ctx" using r1 by (simp_all add: resolved_def)
    have r2: "resolved {} ctx1 (ctx'\<lparr>ec_messages := ec_messages ctx\<rparr>)"
      using resolved_messages [OF l(3), of "ec_messages ctx1"] unfolding eq(2) [symmetric] by simp
    have "block_mirrors (ec_typedefs ctx1) (ec_constants ctx) (ec_type_objects ctx1) (m, ver) ?b"
      using f(3) by (simp add: block_mirrors_def)
    from block_mirrors_grown [OF this, of "ec_typedefs ctx'" "ec_type_objects ctx'"] resolved_grown_all [OF r2]
    have "block_mirrors (ec_typedefs ctx') (ec_constants ctx) (ec_type_objects ctx') (m, ver) ?b" by simp
    moreover have "messages_blocks_loop n (item # items) names ver ctx = Some ctx'"
      using ATMessages a f(1) l(1) by (simp add: sss_from_token_def)
    moreover have "resolved {} ctx (ctx'\<lparr>ec_messages := ec_messages ctx\<rparr>)" using resolved_trans [OF r1 r2] by simp
    ultimately show ?thesis using ATMessages l(2,4) eq by (intro exI [of _ "?b # bs"] exI [of _ ctx']) simp
  qed (use Cons.IH [OF Cons.prems] in simp_all)
qed simp

text \<open>The messages of a program are the declared ones. Once the types are resolved, resolving the
  messages always ends; every block has its name, its messages in order and the version written
  before it (the largest number when there is none since the block before), and every message its
  name, its members with types that mirror the declared ones, and the attributes written since the
  message before it.\<close>

theorem resolve_messages_correct:
  assumes "0 < n" and "settled ctx"
  shows "\<exists>ctx'. resolve_messages n ctx = Some ctx' \<and>
    list_all2 (block_mirrors (ec_typedefs ctx') (ec_constants ctx) (ec_type_objects ctx'))
      (versioned_blocks (ec_constants ctx) (- 1) (ec_items ctx)) (ec_messages ctx')"
proof -
  have "settled (ctx\<lparr>ec_messages := []\<rparr>)" using assms(2) by (simp add: settled_def)
  from blocks_mirror [OF assms(1) this, of "ec_items ctx" "[]" "- 1"] show ?thesis
    unfolding resolve_messages_def by auto
qed

lemma resolve_messages_correct_witness:
  fixes items :: "AstItem list"
  defines "items \<equiv> [AstItem.ATVersion (ast_version (span (word_token [0x76])) (ast_number (span (word_token [0x33])) (token Number [0x33] 1 3 (location 0 0 0)))),
    AstItem.ATMessages (ast_messages (span (word_token [0x4D])) (word_token [0x4D])
      [AstAttributeOrMessage.ATAttribute (ast_attribute (span (word_token [0x4D])) (word_token attr_versioned)),
       AstAttributeOrMessage.ATMessage (ast_message (span (word_token [0x4D])) (word_token [0x41]) []),
       AstAttributeOrMessage.ATMessage (ast_message (span (word_token [0x4D])) (word_token [0x42]) [])])]"
  shows "\<exists>ctx'. resolve_messages 1 (initial_context items) = Some ctx' \<and> map mso_version (ec_messages ctx') = [3] \<and>
    map (map mo_attributes \<circ> mso_messages) (ec_messages ctx') = [[{Attr_versioned}, {}]]"
proof -
  have "settled (initial_context items)" by (simp add: settled_def initial_context_def)
  from resolve_messages_correct [OF zero_less_one this] obtain ctx' where
    r: "resolve_messages 1 (initial_context items) = Some ctx'"
      "list_all2 (block_mirrors (ec_typedefs ctx') [] (ec_type_objects ctx')) (versioned_blocks [] (- 1) items) (ec_messages ctx')"
    by (auto simp: initial_context_def)
  have "versioned_blocks [] (- 1) items = [(ast_messages (span (word_token [0x4D])) (word_token [0x4D])
      [AstAttributeOrMessage.ATAttribute (ast_attribute (span (word_token [0x4D])) (word_token attr_versioned)),
       AstAttributeOrMessage.ATMessage (ast_message (span (word_token [0x4D])) (word_token [0x41]) []),
       AstAttributeOrMessage.ATMessage (ast_message (span (word_token [0x4D])) (word_token [0x42]) [])], 3)]"
    by (simp add: items_def number_value_def ast_version_def ast_number_def token_def)
  with r show ?thesis
    by (auto simp: list_all2_Cons1 block_mirrors_def message_mirrors_def ast_messages_def ast_attribute_def word_token_def token_def
        attr_versioned_def)
qed

section \<open>Null pointers among the types\<close>

lemma resolve_alignment_None [simp]: "resolve_alignment n objs None seen = None"
  by (cases n) (simp_all add: deref_def)

lemma fields_alignment_None:
  "\<exists>f \<in> set fs. f_type f = None \<Longrightarrow> fields_alignment (resolve_alignment n objs) fs res seen = None"
proof (induction fs arbitrary: res seen)
  case (Cons f fs)
  then show ?case by (cases "resolve_alignment n objs (f_type f) seen") (auto simp: split: prod.splits)
qed simp

lemma resolve_alignment_null:
  assumes "None \<in> set (parts objs (Some (Obj i)))" and "stored objs (Some (Obj i)) = 0"
  shows "resolve_alignment n objs (Some (Obj i)) [] = None"
proof (cases n)
  case (Suc m)
  obtain t where t: "deref objs (Some (Obj i)) = Some t"
    using assms(1) by (cases "deref objs (Some (Obj i))") (auto simp: parts_def)
  then have al: "al_value (to_align t) = 0" using assms(2) by (simp add: stored_def)
  show ?thesis
  proof (cases "to_type t")
    case (TypeArray a)
    then have "ar_type a = None" using assms(1) t by (simp add: parts_def)
    with Suc t al TypeArray show ?thesis by (simp add: set_add_def)
  next
    case (TypePrimitif ty)
    then show ?thesis using assms(1) t by (simp add: parts_def)
  next
    case (TypeStruct s)
    then have "\<exists>f \<in> set (so_fields s). f_type f = None" using assms(1) t by (simp add: parts_def) (metis imageE)
    with Suc t al TypeStruct show ?thesis by (simp add: set_add_def fields_alignment_None)
  qed
qed simp

lemma alignment_loop_null:
  assumes "None \<in> set (parts objs (Some (Obj i)))" and "stored objs (Some (Obj i)) = 0" and "i \<in> set is"
    and "set is \<subseteq> {..<length objs}"
  shows "alignment_loop n is objs = None"
  using assms
proof (induction "is" arbitrary: objs)
  case (Cons j js)
  show ?case
  proof (cases "resolve_alignment n objs (Some (Obj j)) []")
    case (Some r)
    obtain al s where r: "r = (al, s)" by fastforce
    have ji: "j \<noteq> i" using resolve_alignment_null [OF Cons.prems(1,2)] Some by auto
    let ?objs = "objs[j := (objs ! j)\<lparr>to_align := al\<rparr>]"
    have j: "j < length objs" using Cons.prems(4) by simp
    have ty: "map to_type ?objs = map to_type objs" by (simp add: map_update) (metis list_update_id map_update)
    have "alignment_loop n js ?objs = None"
      by (rule Cons.IH) (use Cons.prems ji j in \<open>auto simp: graph_types(1) [OF ty] stored_update\<close>)
    then show ?thesis using Some r by simp
  qed simp
qed simp

text \<open>Alignments are computed whatever errors were found before, so a null pointer left in a type object
  stops the compiler.\<close>

lemma additional_info_null:
  assumes "None \<in> set (parts (ec_type_objects ctx) (Some (Obj i)))" and "stored (ec_type_objects ctx) (Some (Obj i)) = 0"
  shows "resolve_additional_type_info qs n ctx = None"
proof -
  have "i < length (ec_type_objects ctx)"
    using assms(1) by (auto simp: parts_def deref_def split: if_splits)
  then have "alignment_loop n [0..<length (ec_type_objects ctx)] (ec_type_objects ctx) = None"
    by (intro alignment_loop_null [OF assms]) auto
  then show ?thesis by (simp add: resolve_additional_type_info_def)
qed

end
