(* ===== verification/Eval_Program.thy ===== *)
theory Eval_Program
  imports Eval_Correct
begin

text \<open>
  Evaluation as a whole. A program that is returned is faithful to its schema: no type is missing,
  and every type and message is the declared one. Some schemas that are correct stop the compiler.
\<close>

section \<open>Declarations\<close>

fun type_decls :: "AstItem list \<Rightarrow> (StringSlice \<times> UnresolvedTypeDef) list" where
  "type_decls [] = []"
| "type_decls (item # items) = (case type_decl_of item of None \<Rightarrow> type_decls items | Some d \<Rightarrow> d # type_decls items)"

lemma load_types_table:
  "load_types items un es = (items', un', es') \<Longrightarrow> map_of un' = map_of un ++ map_of (rev (type_decls items))"
proof (induction items arbitrary: un es items' un' es')
  case (Cons item items)
  show ?case
  proof (cases "type_decl_of item")
    case None
    then obtain is1 where "load_types items un es = (is1, un', es')" using Cons.prems by (auto split: prod.splits)
    then show ?thesis using Cons.IH None by simp
  next
    case (Some d)
    obtain name td where d: "d = (name, td)" by fastforce
    have "\<exists>is1 es1. load_types items (AList.update name td un) es1 = (is1, un', es')"
      using Cons.prems Some d by (auto simp: Let_def split: option.splits prod.splits)
    then obtain is1 es1 where "load_types items (AList.update name td un) es1 = (is1, un', es')" by blast
    from Cons.IH [OF this] show ?thesis using Some d by (auto simp: fun_eq_iff map_add_def update_conv' split: option.splits)
  qed
qed simp

lemma load_types_decls:
  "load_types items un es = (items', un', es') \<Longrightarrow>
     fst ` set (type_decls items') = fst ` set (type_decls items) - dom (map_of un)"
proof (induction items arbitrary: un es items' un' es')
  case (Cons item items)
  show ?case
  proof (cases "type_decl_of item")
    case None
    then obtain is1 where i: "items' = item # is1" "load_types items un es = (is1, un', es')"
      using Cons.prems by (auto split: prod.splits)
    then show ?thesis using Cons.IH [OF i(2)] None by simp
  next
    case (Some d)
    obtain name td where d: "d = (name, td)" by fastforce
    have dom: "dom (map_of (AList.update name td un)) = insert name (dom (map_of un))" by (auto simp: update_conv')
    show ?thesis
    proof (cases "map_of un name")
      case None
      then obtain is1 es1 where i: "items' = item # is1" "load_types items (AList.update name td un) es1 = (is1, un', es')"
        using Cons.prems Some d by (auto simp: Let_def split: prod.splits)
      from Cons.IH [OF i(2)] show ?thesis using Some d i(1) None dom by auto
    next
      case (Some u)
      then obtain es1 where "load_types items (AList.update name td un) es1 = (items', un', es')"
        using Cons.prems \<open>type_decl_of item = Some d\<close> d by (auto simp: Let_def)
      from Cons.IH [OF this] show ?thesis using \<open>type_decl_of item = Some d\<close> d Some dom by auto
    qed
  qed
qed simp

text \<open>The check for cycles gives no name a type; it only marks names invalid.\<close>

definition marked :: "TypePtr option table \<Rightarrow> TypePtr option table \<Rightarrow> bool" where
  "marked tds tds' \<longleftrightarrow> (\<forall>n. map_of tds' n = map_of tds n \<or> map_of tds' n = Some None)"

lemma marked_refl [simp]: "marked tds tds" by (simp add: marked_def)

lemma marked_trans: "marked a b \<Longrightarrow> marked b c \<Longrightarrow> marked a c"
  unfolding marked_def by metis

lemma marked_update [simp]: "marked tds (AList.update n None tds)"
  by (simp add: marked_def update_conv')

lemma marked_mark_invalid: "marked tds (mark_invalid names tds)"
proof -
  have "marked tds (foldl (\<lambda>tds n. AList.update n None tds) tds' names)" if "marked tds tds'" for tds'
    using that by (induction names arbitrary: tds') (simp_all add: marked_trans [OF _ marked_update])
  then show ?thesis by (simp add: mark_invalid_def)
qed

lemma decl_chain_marked:
  "decl_chain un names spans idents v tds es = Some (valid, tds', es') \<Longrightarrow> marked tds tds'"
proof (induction un names spans idents v tds es rule: decl_chain.induct)
  case (1 un names spans idents v tds es)
  let ?n = "sss_from_token (id_token (inner_ident v))"
  note eq = 1(2) [unfolded decl_chain.simps [of un names spans idents v tds es] Let_def]
  show ?case
  proof (cases "slice ?n \<in> set names")
    case True
    then show ?thesis using eq marked_mark_invalid by (auto simp: bind_eq_Some_conv)
  next
    case False
    show ?thesis
    proof (cases "map_of tds (slice ?n)")
      case None
      show ?thesis
      proof (cases "map_of un (slice ?n)")
        case n: None
        then show ?thesis using eq False None by simp
      next
        case (Some unr)
        show ?thesis
        proof (cases "ut_value unr")
          case (NodeType ty)
          then show ?thesis using eq 1(1) [OF refl False None Some NodeType] False None Some by simp
        next
          case (NodeStruct s)
          then show ?thesis using eq False None Some by simp
        qed
      qed
    next
      case (Some x)
      then show ?thesis using eq False by (cases x) simp_all
    qed
  qed
qed

lemma decl_cycles_marked: "decl_cycles_loop un items tds es = Some (tds', es') \<Longrightarrow> marked tds tds'"
proof (induction items arbitrary: tds es)
  case (Cons item items)
  show ?case
  proof (cases item)
    case (ATTypeDecl td)
    obtain valid tds1 es1 where c: "decl_chain un [token_text (td_name td)] [td_span td] [token_text (td_name td)] (td_value td) tds es =
        Some (valid, tds1, es1)"
      "decl_cycles_loop un items (if valid then tds1 else AList.update (token_text (td_name td)) None tds1) es1 = Some (tds', es')"
      using Cons.prems ATTypeDecl by (auto simp: string_slice_from_token_def Let_def bind_eq_Some_conv)
    have "marked tds1 (if valid then tds1 else AList.update (token_text (td_name td)) None tds1)" by simp
    then show ?thesis using Cons.IH [OF c(2)] decl_chain_marked [OF c(1)] marked_trans by blast
  qed (use Cons in auto)
qed simp

section \<open>A returned program is faithful\<close>

text \<open>Mirrors without a missing type.\<close>

fun exact :: "TypePtr option table \<Rightarrow> Constant table \<Rightarrow> TypeObject list \<Rightarrow> AstType \<Rightarrow> TypePtr option \<Rightarrow> bool" where
  "exact tds cs objs (AstType.ATIdent i) p \<longleftrightarrow> p \<noteq> None \<and> map_of tds (token_text (id_token i)) = Some p"
| "exact tds cs objs (AstType.ATHeapArray _ ty sz) p \<longleftrightarrow>
     (\<exists>k el. p = Some (Obj k) \<and> k < length objs \<and>
       to_type (objs ! k) = TypeArray \<lparr>ar_sizing = fst (size_value cs sz), ar_size = snd (size_value cs sz), ar_heap = True, ar_type = el\<rparr> \<and>
       exact tds cs objs ty el)"
| "exact tds cs objs (AstType.ATFieldArray _ ty sz) p \<longleftrightarrow>
     (\<exists>k el. p = Some (Obj k) \<and> k < length objs \<and>
       to_type (objs ! k) = TypeArray \<lparr>ar_sizing = fst (size_value cs sz), ar_size = snd (size_value cs sz), ar_heap = False, ar_type = el\<rparr> \<and>
       exact tds cs objs ty el)"

definition exact_fields :: "TypePtr option table \<Rightarrow> Constant table \<Rightarrow> TypeObject list \<Rightarrow> AstField list \<Rightarrow> Field list \<Rightarrow> bool" where
  "exact_fields tds cs objs fds fs \<longleftrightarrow> list_all2 (\<lambda>fd f. f_name f = token_text (fd_name fd) \<and> exact tds cs objs (fd_type fd) (f_type f)) fds fs"

definition exact_decl :: "TypePtr option table \<Rightarrow> Constant table \<Rightarrow> TypeObject list \<Rightarrow> StringSlice \<Rightarrow> TypeNode \<Rightarrow> TypePtr \<Rightarrow> bool" where
  "exact_decl tds cs objs name node p = (case node of
     NodeType ty \<Rightarrow> exact tds cs objs ty (Some p)
   | NodeStruct s \<Rightarrow> (\<exists>k so. p = Obj k \<and> k < length objs \<and> to_type (objs ! k) = TypeStruct so \<and> so_name so = name \<and>
       exact_fields tds cs objs (st_fields s) (so_fields so)))"

definition no_null :: "TypeObject list \<Rightarrow> bool" where
  "no_null objs \<longleftrightarrow> (\<forall>i < length objs. None \<notin> set (parts objs (Some (Obj i))))"

lemma parts_struct: "k < length objs \<Longrightarrow> to_type (objs ! k) = TypeStruct so \<Longrightarrow> parts objs (Some (Obj k)) = map f_type (so_fields so)"
  and parts_array: "k < length objs \<Longrightarrow> to_type (objs ! k) = TypeArray a \<Longrightarrow> parts objs (Some (Obj k)) = [ar_type a]"
  by (simp_all add: parts_def deref_def)

lemma mirrors_exact:
  "mirrors b tds cs objs ty p \<Longrightarrow> no_null objs \<Longrightarrow> p \<noteq> None \<Longrightarrow> exact tds cs objs ty p"
proof (induction ty arbitrary: p)
  case (ATHeapArray s ty sz)
  then obtain k el where k: "p = Some (Obj k)" "k < length objs"
    "to_type (objs ! k) = TypeArray \<lparr>ar_sizing = fst (size_value cs sz), ar_size = snd (size_value cs sz), ar_heap = True, ar_type = el\<rparr>"
    "mirrors b tds cs objs ty el" by auto
  have "None \<notin> set (parts objs (Some (Obj k)))" using ATHeapArray.prems(2) k(2) unfolding no_null_def by blast
  then have "el \<noteq> None" using parts_array [OF k(2,3)] by auto
  with k ATHeapArray show ?case by simp
next
  case (ATFieldArray s ty sz)
  then obtain k el where k: "p = Some (Obj k)" "k < length objs"
    "to_type (objs ! k) = TypeArray \<lparr>ar_sizing = fst (size_value cs sz), ar_size = snd (size_value cs sz), ar_heap = False, ar_type = el\<rparr>"
    "mirrors b tds cs objs ty el" by auto
  have "None \<notin> set (parts objs (Some (Obj k)))" using ATFieldArray.prems(2) k(2) unfolding no_null_def by blast
  then have "el \<noteq> None" using parts_array [OF k(2,3)] by auto
  with k ATFieldArray show ?case by simp
qed simp

lemma field_mirrors_exact:
  assumes "list_all2 (field_mirrors b tds cs objs) fds fs" and "no_null objs" and "None \<notin> f_type ` set fs"
  shows "exact_fields tds cs objs fds fs"
  unfolding exact_fields_def
proof (rule list_all2_all_nthI)
  show "length fds = length fs" using assms(1) by (rule list_all2_lengthD)
  fix i assume i: "i < length fds"
  then have "field_mirrors b tds cs objs (fds ! i) (fs ! i)" using assms(1) by (simp add: list_all2_conv_all_nth)
  moreover have "fs ! i \<in> set fs" using i assms(1) by (simp add: list_all2_conv_all_nth)
  then have "f_type (fs ! i) \<noteq> None" using assms(3) by (metis imageI)
  ultimately show "f_name (fs ! i) = token_text (fd_name (fds ! i)) \<and> exact tds cs objs (fd_type (fds ! i)) (f_type (fs ! i))"
    using mirrors_exact [of b tds cs objs "fd_type (fds ! i)" "f_type (fs ! i)"] assms(2) by (simp add: field_mirrors_def)
qed

lemma declared_exact:
  assumes "declared_as b tds cs objs name td (Some p)" and "no_null objs"
  shows "exact_decl tds cs objs name (ut_value td) p"
proof (cases "ut_value td")
  case (NodeType ty)
  then show ?thesis using assms mirrors_exact [of b tds cs objs ty "Some p"] by (simp add: declared_as_def exact_decl_def)
next
  case (NodeStruct s)
  then obtain k so where k: "p = Obj k" "k < length objs" "to_type (objs ! k) = TypeStruct so" "so_name so = name"
    "list_all2 (field_mirrors b tds cs objs) (st_fields s) (so_fields so)"
    using assms(1) by (auto simp: declared_as_def struct_mirrors_def)
  have "None \<notin> set (parts objs (Some (Obj k)))" using assms(2) k(2) unfolding no_null_def by blast
  then have "None \<notin> f_type ` set (so_fields so)" using parts_struct [OF k(2,3)] by auto
  then show ?thesis using k NodeStruct field_mirrors_exact [OF k(5) assms(2)] by (auto simp: exact_decl_def)
qed

text \<open>Storing the alignments keeps the types.\<close>

lemma alignment_loop_types: "alignment_loop n is objs = Some objs' \<Longrightarrow> map to_type objs' = map to_type objs"
proof (induction "is" arbitrary: objs)
  case (Cons i "is")
  then obtain al s where "alignment_loop n is (objs[i := (objs ! i)\<lparr>to_align := al\<rparr>]) = Some objs'"
    by (auto simp: bind_eq_Some_conv)
  from Cons.IH [OF this] show ?case by (simp add: map_update) (metis list_update_id map_update)
qed simp

lemma to_type_nth: "map to_type objs' = map to_type objs \<Longrightarrow> k < length objs \<Longrightarrow> to_type (objs' ! k) = to_type (objs ! k)"
  by (metis length_map nth_map)

lemma exact_types:
  assumes "map to_type objs' = map to_type objs"
  shows "exact tds cs objs' ty p = exact tds cs objs ty p" "exact_fields tds cs objs' fds fs = exact_fields tds cs objs fds fs"
    "exact_decl tds cs objs' name node q = exact_decl tds cs objs name node q"
proof -
  have l: "length objs' = length objs" using assms by (rule map_eq_imp_length_eq)
  show e: "exact tds cs objs' ty p = exact tds cs objs ty p" for ty p
    by (induction ty arbitrary: p) (auto simp: l to_type_nth [OF assms])
  show f: "exact_fields tds cs objs' fds fs = exact_fields tds cs objs fds fs" for fds fs
    by (simp add: exact_fields_def e)
  show "exact_decl tds cs objs' name node q = exact_decl tds cs objs name node q"
    by (auto simp: exact_decl_def e f l to_type_nth [OF assms] split: TypeNode.splits)
qed

section \<open>New objects\<close>

text \<open>Until the alignments are computed no object has one.\<close>

definition fresh :: "EvaluationContext \<Rightarrow> bool" where
  "fresh ctx \<longleftrightarrow> (\<forall>t \<in> set (ec_type_objects ctx). al_value (to_align t) = 0)"

lemma fresh_errors [simp]: "fresh (ctx\<lparr>ec_errors := es\<rparr>) = fresh ctx" by (simp add: fresh_def)

lemma fresh_set_typedef [simp]: "fresh (set_typedef name v ctx) = fresh ctx" by (simp add: fresh_def set_typedef_def)

lemma fresh_new: "fresh ctx \<Longrightarrow> new_object ty ctx = (i, ctx') \<Longrightarrow> fresh ctx'"
  by (auto simp: fresh_def new_object_def unresolved_align_def)

lemma fresh_set: "fresh ctx \<Longrightarrow> fresh (set_object i ty ctx)"
  by (cases "i < length (ec_type_objects ctx)") (auto simp: fresh_def set_object_def list_update_beyond dest!: set_update_subset_insert [THEN subsetD])

lemma fresh_push: "fresh ctx \<Longrightarrow> fresh (push_field i f ctx)"
  by (simp add: push_field_def fresh_set split: TypeUnion.split)

lemma fresh_sizing: "fresh ctx \<Longrightarrow> ast_size_to_sizing sz ctx = (r, ctx') \<Longrightarrow> fresh ctx'"
  using ast_size_to_sizing_conv [of sz ctx] by auto

definition keeps_fresh :: "'a resolver \<Rightarrow> bool" where
  "keeps_fresh resolve \<longleftrightarrow> (\<forall>x ctx p ctx'. resolve x ctx = Some (p, ctx') \<longrightarrow> fresh ctx \<longrightarrow> fresh ctx')"

lemma array_fresh:
  assumes "(let (i, ctx) = new_object raw_array ctx; ((sizing, n), ctx) = ast_size_to_sizing sz ctx in do {
       (el, ctx) \<leftarrow> resolve ctx;
       Some (Some (Obj i), set_object i (TypeArray \<lparr>ar_sizing = sizing, ar_size = n, ar_heap = h, ar_type = el\<rparr>) ctx)
     }) = Some (p, ctx')"
    and "\<And>c p c'. resolve c = Some (p, c') \<Longrightarrow> fresh c \<Longrightarrow> fresh c'" and "fresh ctx"
  shows "fresh ctx'"
proof -
  obtain i c1 where n: "new_object raw_array ctx = (i, c1)" by fastforce
  obtain v k c2 where s: "ast_size_to_sizing sz c1 = ((v, k), c2)" by (metis prod.exhaust)
  obtain el c3 where r: "resolve c2 = Some (el, c3)"
    "ctx' = set_object i (TypeArray \<lparr>ar_sizing = v, ar_size = k, ar_heap = h, ar_type = el\<rparr>) c3"
    using assms(1) n s by (auto simp: bind_eq_Some_conv)
  have "fresh c3" using assms(2) [OF r(1)] fresh_sizing [OF fresh_new [OF assms(3) n] s] by blast
  then show ?thesis using r(2) fresh_set by blast
qed

lemma ast_type_fresh:
  assumes "keeps_fresh resolve" shows "keeps_fresh (ast_type_to_type_obj resolve)"
  unfolding keeps_fresh_def
proof (intro allI impI)
  fix ty ctx p ctx' assume "ast_type_to_type_obj resolve ty ctx = Some (p, ctx')" and "fresh ctx"
  then show "fresh ctx'"
  proof (induction ty arbitrary: ctx p ctx')
    case (ATIdent i)
    then show ?case using assms by (simp add: keeps_fresh_def)
  next
    case (ATHeapArray s ty sz)
    then show ?case using array_fresh [OF ATHeapArray.prems(1) [unfolded ast_type_to_type_obj.simps]] by blast
  next
    case (ATFieldArray s ty sz)
    then show ?case using array_fresh [OF ATFieldArray.prems(1) [unfolded ast_type_to_type_obj.simps]] by blast
  qed
qed

lemma struct_fields_fresh:
  "struct_fields_loop resolve i fs ctx = Some ctx' \<Longrightarrow> keeps_fresh resolve \<Longrightarrow> fresh ctx \<Longrightarrow> fresh ctx'"
proof (induction fs arbitrary: ctx)
  case (Cons f fs)
  obtain p c1 where r: "ast_type_to_type_obj resolve (fd_type f) ctx = Some (p, c1)"
    "\<exists>fd. struct_fields_loop resolve i fs (push_field i fd c1) = Some ctx'"
    using Cons.prems(1) by (auto simp: resolve_field_def bind_eq_Some_conv)
  have "fresh c1" using ast_type_fresh [OF Cons.prems(2)] r(1) Cons.prems(3) by (simp add: keeps_fresh_def)
  then show ?case using r(2) Cons.IH Cons.prems(2) fresh_push by blast
qed simp

lemma resolve_type_fresh: "keeps_fresh (resolve_type n)"
proof (induction n)
  case (Suc n)
  show ?case
    unfolding keeps_fresh_def
  proof (intro allI impI)
    fix name ctx p ctx' assume r: "resolve_type (Suc n) name ctx = Some (p, ctx')" and f: "fresh ctx"
    show "fresh ctx'"
    proof (cases "map_of (ec_typedefs ctx) (slice name)")
      case None
      show ?thesis
      proof (cases "unresolved_type (slice name) ctx")
        case u: None
        then show ?thesis using r f None by (auto simp: push_error_def)
      next
        case (Some td)
        show ?thesis
        proof (cases "ut_value td")
          case (NodeType ty)
          then obtain v c1 where "ast_type_to_type_obj (resolve_type n) ty (set_typedef (slice name) None ctx) = Some (v, c1)"
            "ctx' = set_typedef (slice name) v c1" using r None Some by (auto simp: bind_eq_Some_conv)
          then show ?thesis using ast_type_fresh [OF Suc] f by (simp add: keeps_fresh_def)
        next
          case (NodeStruct s)
          obtain i c1 where n: "new_object (TypeStruct \<lparr>so_name = slice name, so_fields = [], so_has_funcs = False\<rparr>) ctx = (i, c1)"
            by fastforce
          then have "struct_fields_loop (resolve_type n) i (st_fields s) (set_typedef (slice name) (Some (Obj i)) c1) = Some ctx'"
            using r None Some NodeStruct by (auto simp: bind_eq_Some_conv)
          then show ?thesis using struct_fields_fresh Suc fresh_new [OF f n] by (metis fresh_set_typedef)
        qed
      qed
    qed (use r f in simp)
  qed
qed (simp add: keeps_fresh_def)

lemma resolve_types_loop_fresh: "resolve_types_loop n items ctx = Some ctx' \<Longrightarrow> fresh ctx \<Longrightarrow> fresh ctx'"
proof (induction n items ctx rule: resolve_types_loop.induct)
  case (2 n s items ctx)
  then obtain p c1 where "resolve_type n (sss_from_token (st_ident s)) ctx = Some (p, c1)" "resolve_types_loop n items c1 = Some ctx'"
    by (auto simp: bind_eq_Some_conv)
  then show ?case using 2 resolve_type_fresh unfolding keeps_fresh_def by blast
next
  case (3 n t items ctx)
  then obtain p c1 where "resolve_type n (sss_from_token (td_name t)) ctx = Some (p, c1)" "resolve_types_loop n items c1 = Some ctx'"
    by (auto simp: bind_eq_Some_conv)
  then show ?case using 3 resolve_type_fresh unfolding keeps_fresh_def by blast
qed simp_all

section \<open>The passes together\<close>

lemma load_constants_keeps:
  "load_constants items un es = (items', un', es') \<Longrightarrow>
     type_decls items' = type_decls items \<and> versioned_blocks cs ver items' = versioned_blocks cs ver items \<and>
     length items' \<le> length items"
proof (induction items arbitrary: un es items' un' es' ver)
  case (Cons item items)
  show ?case
  proof (cases item)
    case (ATConstant c)
    let ?un = "AList.update (token_text (co_name c))
      \<lparr>uc_value = num_token (co_value c), uc_name_span = span (co_name c), uc_span = co_span c\<rparr> un"
    obtain es1 is1 where "load_constants items ?un es1 = (is1, un', es')" "items' = is1 \<or> items' = AstItem.ATConstant c # is1"
      using Cons.prems ATConstant by (auto simp: Let_def string_slice_from_token_def split: option.splits prod.splits)
    with Cons.IH [OF this(1)] ATConstant show ?thesis by fastforce
  next
    case (ATVersion v)
    then obtain is1 where "load_constants items un es = (is1, un', es')" "items' = AstItem.ATVersion v # is1"
      using Cons.prems by (auto split: prod.splits)
    with Cons.IH [OF this(1)] ATVersion show ?thesis by simp
  qed (use Cons in \<open>auto split: prod.splits\<close>)
qed simp

lemma load_types_keeps:
  "load_types items un es = (items', un', es') \<Longrightarrow> versioned_blocks cs ver items' = versioned_blocks cs ver items"
proof (induction items arbitrary: un es items' un' es' ver)
  case (Cons item items)
  show ?case
  proof (cases "type_decl_of item")
    case None
    then obtain is1 where i: "items' = item # is1" "load_types items un es = (is1, un', es')"
      using Cons.prems by (auto split: prod.splits)
    then show ?thesis using Cons.IH [OF i(2)] by (cases item) simp_all
  next
    case (Some d)
    obtain name td where d: "d = (name, td)" by fastforce
    obtain is1 es1 where i: "items' = is1 \<or> items' = item # is1" "load_types items (AList.update name td un) es1 = (is1, un', es')"
      using Cons.prems Some d by (auto simp: Let_def split: option.splits prod.splits)
    have skip: "versioned_blocks cs ver (item # is) = versioned_blocks cs ver is" for "is" using Some by (cases item) simp_all
    show ?thesis using i(1) Cons.IH [OF i(2)] skip by auto
  qed
qed simp

lemma type_decls_item:
  assumes "name \<in> fst ` set (type_decls items)"
  obtains item td where "item \<in> set items" and "type_decl_of item = Some (name, td)"
proof -
  have "\<exists>item \<in> set items. \<exists>td. type_decl_of item = Some (name, td)"
    using assms by (induction items) (auto split: option.splits)
  then show ?thesis using that by blast
qed

text \<open>Every type of the schema after the second pass.\<close>

lemma resolve_types_declared:
  assumes "resolve_types n ctx = Some ctx'" and "fresh ctx" and "length (ec_items ctx) < n"
  shows "settled ctx'" and "fresh ctx'" and "ec_constants ctx' = ec_constants ctx"
    and "versioned_blocks cs ver (ec_items ctx') = versioned_blocks cs ver (ec_items ctx)"
    and "name \<in> fst ` set (type_decls (ec_items ctx)) \<Longrightarrow> map_of (ec_typedefs ctx') name \<noteq> None"
    and "map_of (ec_typedefs ctx) name = None \<Longrightarrow> map_of (ec_typedefs ctx') name = Some (Some q) \<Longrightarrow>
      \<exists>td. map_of (rev (type_decls (ec_items ctx))) name = Some td \<and>
        declared_as 0 (ec_typedefs ctx') (ec_constants ctx) (ec_type_objects ctx') name td (Some q)"
proof -
  obtain items un es where l: "load_types (ec_items ctx) [] (ec_errors ctx) = (items, un, es)" by (metis prod.exhaust)
  obtain tds es1 ctx1 es2 where r: "decl_cycles_loop un items (ec_typedefs ctx) es = Some (tds, es1)"
    "resolve_types_loop n items (ctx\<lparr>ec_items := items, ec_unresolved := Some un, ec_typedefs := tds, ec_errors := es1\<rparr>) = Some ctx1"
    "ctx' = ctx1\<lparr>ec_errors := es2, ec_unresolved := None\<rparr>"
    using assms(1) l by (auto simp: resolve_types_def bind_eq_Some_conv)
  let ?c = "ctx\<lparr>ec_items := items, ec_unresolved := Some un, ec_typedefs := tds, ec_errors := es1\<rparr>"
  have un: "map_of un = map_of (rev (type_decls (ec_items ctx)))" using load_types_table [OF l] by simp
  have len: "length (type_decls items) \<le> length items" for items
    by (induction items) (auto split: option.split)
  have "fst ` set un = fst ` set (type_decls (ec_items ctx))"
    using arg_cong [OF un, of dom] by (simp add: dom_map_of_conv_image_fst)
  then have "undefined_names ?c \<le> card (fst ` set (type_decls (ec_items ctx)))"
    by (auto simp: undefined_names_def intro!: card_mono)
  also have "\<dots> \<le> length (type_decls (ec_items ctx))" by (metis card_length length_map set_map)
  finally have "undefined_names ?c < n" using len assms(3) by (meson le_less_trans)
  from resolve_types_loop_resolved [OF this, of items] r(2) have
    t: "resolved {} ?c ctx1" "\<forall>item \<in> set items. \<forall>name td. type_decl_of item = Some (name, td) \<longrightarrow>
      unresolved_type name ?c \<noteq> None \<longrightarrow> map_of (ec_typedefs ctx1) name \<noteq> None" by auto
  show "settled ctx'" "ec_constants ctx' = ec_constants ctx" using r(3) t(1) by (simp_all add: settled_def resolved_def)
  show "fresh ctx'" using resolve_types_loop_fresh [OF r(2)] assms(2) r(3) by (simp add: fresh_def)
  have "ec_items ctx' = items" using t(1) r(3) by (simp add: resolved_def)
  then show "versioned_blocks cs ver (ec_items ctx') = versioned_blocks cs ver (ec_items ctx)" using load_types_keeps [OF l] by simp
  show "map_of (ec_typedefs ctx') name \<noteq> None" if name: "name \<in> fst ` set (type_decls (ec_items ctx))"
  proof -
    have "name \<in> fst ` set (type_decls items)" using load_types_decls [OF l] name by simp
    then obtain item td where i: "item \<in> set items" "type_decl_of item = Some (name, td)"
      by (rule type_decls_item)
    have "unresolved_type name ?c \<noteq> None" using name un by (simp add: unresolved_type_def map_of_eq_None_iff)
    then show ?thesis using t(2) i r(3) by simp
  qed
  show "\<exists>td. map_of (rev (type_decls (ec_items ctx))) name = Some td \<and>
        declared_as 0 (ec_typedefs ctx') (ec_constants ctx) (ec_type_objects ctx') name td (Some q)"
    if n: "map_of (ec_typedefs ctx) name = None" "map_of (ec_typedefs ctx') name = Some (Some q)"
  proof -
    have "map_of (ec_typedefs ctx1) name = Some v" if "map_of tds name = Some v" for v
      using t(1) that by (simp add: resolved_def)
    moreover have "map_of tds name = None \<or> map_of tds name = Some None"
      using decl_cycles_marked [OF r(1)] n(1) unfolding marked_def by metis
    ultimately have "map_of tds name = None" using n(2) r(3) by auto
    then obtain td where "unresolved_type name ?c = Some td"
      "declared_as 0 (ec_typedefs ctx1) (ec_constants ctx) (ec_type_objects ctx1) name td (Some q)"
      using resolved_declared [OF t(1), of name "Some q"] n(2) r(3) by auto
    then show ?thesis using un r(3) by (simp add: unresolved_type_def)
  qed
qed

text \<open>Messages add arrays, no names.\<close>

lemma fresh_add_name: "add_name tag name s names ctx = (names', ctx') \<Longrightarrow> fresh ctx \<Longrightarrow> fresh ctx'"
  by (auto simp: add_name_def push_error_def split: option.splits)

lemma message_fields_fresh:
  "message_fields_loop n fs names fds ctx = Some (r, ctx') \<Longrightarrow> fresh ctx \<Longrightarrow> fresh ctx'"
proof (induction fs arbitrary: names fds ctx)
  case (Cons f fs)
  obtain fd c1 where r: "resolve_field (resolve_type n) f ctx = Some (fd, c1)"
    "(let (names, c) = add_name AstTag.ATField (f_name fd) (f_name_span fd) names c1 in message_fields_loop n fs names (fds @ [fd]) c) =
       Some (r, ctx')"
    using Cons.prems(1) by (auto simp: bind_eq_Some_conv)
  obtain names1 c2 where a: "add_name AstTag.ATField (f_name fd) (f_name_span fd) names c1 = (names1, c2)" by fastforce
  obtain p where "ast_type_to_type_obj (resolve_type n) (fd_type f) ctx = Some (p, c1)"
    using r(1) by (auto simp: resolve_field_def bind_eq_Some_conv)
  then have "fresh c1" using ast_type_fresh [OF resolve_type_fresh] Cons.prems(2) unfolding keeps_fresh_def by blast
  then have "fresh c2" using fresh_add_name [OF a] by simp
  then show ?case using Cons.IH [of names1 "fds @ [fd]" c2] r(2) a by simp
qed simp

lemma children_fresh: "children_loop n cs attrs names ms ctx = Some (r, ctx') \<Longrightarrow> fresh ctx \<Longrightarrow> fresh ctx'"
proof (induction cs arbitrary: attrs names ms ctx)
  case (Cons c cs)
  show ?case
  proof (cases c)
    case (ATAttribute a)
    then show ?thesis using Cons by (auto simp: push_error_def split: option.splits)
  next
    case (ATMessage m)
    obtain names1 c1 where a: "add_name AstTag.ATIdent (token_text (mg_ident m)) (span (mg_ident m)) names ctx = (names1, c1)"
      by fastforce
    obtain fds c2 where r: "message_fields_loop n (mg_fields m) [] [] c1 = Some (fds, c2)"
      "\<exists>ms. children_loop n cs {} names1 ms c2 = Some (r, ctx')"
      using Cons.prems(1) ATMessage a by (auto simp: sss_from_token_def bind_eq_Some_conv)
    have "fresh c2" using message_fields_fresh [OF r(1)] fresh_add_name [OF a] Cons.prems(2) by blast
    then show ?thesis using r(2) Cons.IH by blast
  qed
qed simp

lemma blocks_fresh: "messages_blocks_loop n items names ver ctx = Some ctx' \<Longrightarrow> fresh ctx \<Longrightarrow> fresh ctx'"
proof (induction items arbitrary: names ver ctx)
  case (Cons item items)
  show ?case
  proof (cases item)
    case (ATVersion v)
    obtain k es where "get_ast_number_value (ver_number v) ctx = (k, ctx\<lparr>ec_errors := es\<rparr>)" using get_ast_number_value_conv by blast
    then show ?thesis using Cons ATVersion by auto
  next
    case (ATMessages m)
    obtain names1 c1 where a: "add_name AstTag.ATIdent (token_text (ms_name m)) (span (ms_name m)) names ctx = (names1, c1)"
      by fastforce
    obtain ms c2 where r: "children_loop n (ms_children m) {} [] [] c1 = Some (ms, c2)"
      "\<exists>b. messages_blocks_loop n items names1 (- 1) (c2\<lparr>ec_messages := b\<rparr>) = Some ctx'"
      using Cons.prems(1) ATMessages a by (auto simp: sss_from_token_def bind_eq_Some_conv)
    have "fresh c2" using children_fresh [OF r(1)] fresh_add_name [OF a] Cons.prems(2) by blast
    then have "fresh (c2\<lparr>ec_messages := b\<rparr>)" for b by (simp add: fresh_def)
    then show ?thesis using r(2) Cons.IH by blast
  qed (use Cons in auto)
qed simp

definition member_exact :: "TypePtr option table \<Rightarrow> Constant table \<Rightarrow> TypeObject list \<Rightarrow> AstField \<Rightarrow> Field \<Rightarrow> bool" where
  "member_exact tds cs objs fd f \<longleftrightarrow> f_name f = token_text (fd_name fd) \<and>
     (f_type f = None \<or> exact tds cs objs (fd_type fd) (f_type f))"

definition message_exact :: "TypePtr option table \<Rightarrow> Constant table \<Rightarrow> TypeObject list \<Rightarrow> AstMessage \<times> Attribute set
    \<Rightarrow> MessageObject \<Rightarrow> bool" where
  "message_exact tds cs objs ma m \<longleftrightarrow> mo_name m = token_text (mg_ident (fst ma)) \<and> mo_attributes m = snd ma \<and>
     list_all2 (member_exact tds cs objs) (mg_fields (fst ma)) (mo_fields m)"

definition block_exact :: "TypePtr option table \<Rightarrow> Constant table \<Rightarrow> TypeObject list \<Rightarrow> AstMessages \<times> u64
    \<Rightarrow> MessagesObject \<Rightarrow> bool" where
  "block_exact tds cs objs mv b \<longleftrightarrow> mso_name b = token_text (ms_name (fst mv)) \<and> mso_version b = snd mv \<and>
     list_all2 (message_exact tds cs objs) (attributed_messages {} (ms_children (fst mv))) (mso_messages b)"

lemma block_mirrors_exact:
  assumes "block_mirrors tds cs objs mv b" and "no_null objs" and "map to_type objs' = map to_type objs"
  shows "block_exact tds cs objs' mv b"
proof -
  have "member_exact tds cs objs' fd f" if "field_mirrors 0 tds cs objs fd f" for fd f
    using that mirrors_exact [of 0 tds cs objs "fd_type fd" "f_type f"] assms(2)
    by (cases "f_type f") (simp_all add: member_exact_def field_mirrors_def exact_types(1) [OF assms(3)])
  then have "message_exact tds cs objs' ma m" if "message_mirrors tds cs objs ma m" for ma m
    using that unfolding message_mirrors_def message_exact_def by (auto elim: list_all2_mono)
  then show ?thesis using assms(1) unfolding block_mirrors_def block_exact_def by (auto elim: list_all2_mono)
qed

text \<open>A program is faithful to a schema and the values of its constants: every declared name has an
  entry, every type is the declared one down to the last member, and so is every message.\<close>

definition faithful :: "AstItem list \<Rightarrow> Constant table \<Rightarrow> Program \<Rightarrow> bool" where
  "faithful items cs p \<longleftrightarrow>
     (\<forall>name \<in> fst ` set (type_decls items). map_of (pr_typedefs p) name \<noteq> None) \<and>
     (\<forall>name q. name \<notin> fst ` set primitif_names \<longrightarrow> map_of (pr_typedefs p) name = Some (Some q) \<longrightarrow>
        (\<exists>td. map_of (rev (type_decls items)) name = Some td \<and>
           exact_decl (pr_typedefs p) cs (pr_type_objects p) name (ut_value td) q)) \<and>
     list_all2 (block_exact (pr_typedefs p) cs (pr_type_objects p)) (versioned_blocks cs (- 1) items) (pr_messages p)"

lemma primitif_typedefs:
  "map_of (ec_typedefs (context_init items)) name = None \<longleftrightarrow> name \<notin> fst ` set primitif_names"
  by (simp add: context_init_def primitif_names_def update_conv' map_of_eq_None_iff)

lemma additional_no_null:
  assumes "alignment_loop n [0..<length objs] objs = Some objs'" and "fresh ctx" and "ec_type_objects ctx = objs"
  shows "no_null objs"
  unfolding no_null_def
proof (intro allI impI notI)
  fix i assume i: "i < length objs" "None \<in> set (parts objs (Some (Obj i)))"
  have "stored objs (Some (Obj i)) = 0" using i(1) assms(2,3) by (simp add: stored_def deref_def fresh_def)
  then have "alignment_loop n [0..<length objs] objs = None" using i by (intro alignment_loop_null [of objs i]) auto
  then show False using assms(1) by simp
qed


text \<open>A sample: \<open>struct S { x: u8[2] } type A = S messages M { message B { a: A } }\<close>, with the constant
  \<open>2\<close> for every version number left out.\<close>

definition any_span :: Span where
  "any_span = span (word_token [0x41])"

definition named_type :: "byte list \<Rightarrow> AstType" where
  "named_type w = AstType.ATIdent (ast_ident any_span (word_token w))"

definition sample_items :: "AstItem list" where
  "sample_items =
    [AstItem.ATStruct (ast_struct any_span (word_token [0x53]) [ast_field any_span (word_token [0x78])
       (ast_field_array any_span (named_type [0x75, 0x38])
         (ast_fixed_size any_span (ast_number any_span (token Number [0x32] 1 2 (location 0 0 0)))))]),
     AstItem.ATTypeDecl (ast_type_decl any_span (word_token [0x41]) (named_type [0x53])),
     AstItem.ATMessages (ast_messages any_span (word_token [0x4D]) [AstAttributeOrMessage.ATMessage
       (ast_message any_span (word_token [0x42]) [ast_field any_span (word_token [0x61]) (named_type [0x41])])])]"


section \<open>Schemas that stop the compiler\<close>

definition alias_decl :: "byte list \<Rightarrow> AstItem" where
  "alias_decl w = AstItem.ATTypeDecl (ast_type_decl any_span (word_token [0x41])
     (ast_heap_array any_span (named_type w) (ast_no_size any_span)))"

definition node_decl :: "byte list \<Rightarrow> AstItem" where
  "node_decl w = AstItem.ATStruct (ast_struct any_span (word_token [0x53]) [ast_field any_span (word_token [0x78]) (named_type w)])"

lemmas run_defs = resolve_types_def context_init_def alias_decl_def node_decl_def any_span_def ast_defs named_type_def
  word_token_def primitif_names_def token_def string_slice_from_token_def sss_from_token_def decl_chain.simps
  unresolved_type_def new_object_def set_typedef_def set_object_def push_field_def empty_struct_errors_def
  resolve_field_def set_add_def raw_array_def struct_of_def deref_def push_error_def

text \<open>Both schemas get as far as a struct with a null pointer, with as much fuel as they need.\<close>

lemma alias_first_types:
  assumes "resolve_types n (context_init [alias_decl [0x53], node_decl [0x41]]) = Some ctx"
  shows "None \<in> set (parts (ec_type_objects ctx) (Some (Obj 1))) \<and> stored (ec_type_objects ctx) (Some (Obj 1)) = 0 \<and>
     ec_items ctx = [alias_decl [0x53], node_decl [0x41]]"
proof -
  consider "n = 0" | "n = Suc 0" | "n = Suc (Suc 0)" | m where "n = Suc (Suc (Suc m))" by (metis not0_implies_Suc)
  then show ?thesis using assms by cases (auto simp: run_defs parts_def stored_def unresolved_align_def)
qed

lemma unknown_types:
  assumes "resolve_types n (context_init [node_decl [0x42]]) = Some ctx"
  shows "None \<in> set (parts (ec_type_objects ctx) (Some (Obj 0))) \<and> stored (ec_type_objects ctx) (Some (Obj 0)) = 0 \<and>
     ec_items ctx = [node_decl [0x42]]"
proof -
  consider "n = 0" | "n = Suc 0" | m where "n = Suc (Suc m)" by (metis not0_implies_Suc)
  then show ?thesis using assms by cases (auto simp: run_defs parts_def stored_def unresolved_align_def)
qed

lemma null_types_stop:
  assumes "\<And>ctx. resolve_types n (context_init items) = Some ctx \<Longrightarrow>
      None \<in> set (parts (ec_type_objects ctx) (Some (Obj i))) \<and> stored (ec_type_objects ctx) (Some (Obj i)) = 0 \<and> ec_items ctx = items"
    and "\<And>item. item \<in> set items \<Longrightarrow> type_decl_of item \<noteq> None"
  shows "resolve_statics qs n (ast_items s items) = None"
proof (rule ccontr)
  have skip: "list_all (\<lambda>item. type_decl_of item \<noteq> None) items" using assms(2) by (simp add: list_all_iff)
  then have c: "resolve_constants (context_init items) = Some (context_init items)"
  proof -
    have "load_constants items un es = (items, un, es)" "constants_loop un items cs es = Some (cs, es)" for un es cs
      using skip by (induction items) (auto elim: type_decl_of.elims)
    then show ?thesis by (simp add: resolve_constants_def context_init_def)
  qed
  assume "resolve_statics qs n (ast_items s items) \<noteq> None"
  then obtain c2 c3 where r: "resolve_types n (context_init items) = Some c2" "resolve_messages n c2 = Some c3"
    "resolve_additional_type_info qs n c3 \<noteq> None"
    using c unfolding resolve_statics_def by (auto simp: bind_eq_Some_conv ast_items_def)
  have "messages_blocks_loop n items names ver ctx = Some ctx" for names ver ctx
    using skip by (induction items) (auto elim: type_decl_of.elims)
  then have "ec_type_objects c3 = ec_type_objects c2" using r(2) assms(1) [OF r(1)] by (auto simp: resolve_messages_def)
  then show False using additional_info_null [of c3 i] assms(1) [OF r(1)] r(3) by simp
qed

text \<open>C39: A valid schema stops the compiler when a type is declared before the struct that refers back
  to it: \<open>type A = S[] struct S { x: A }\<close> never gets past the evaluator, whatever the sort and the fuel,
  while the same declarations in the other order compile without an error. An unknown name in a
  struct stops it too, before the error is printed.\<close>

theorem alias_before_struct_stops:
  "resolve_statics qs n (ast_items any_span [alias_decl [0x53], node_decl [0x41]]) = None \<and>
   (\<exists>p. resolve_statics insertion_sort 10 (ast_items any_span [node_decl [0x41], alias_decl [0x53]]) = Some (p, [])) \<and>
   resolve_statics qs n (ast_items any_span [node_decl [0x42]]) = None"
proof (intro conjI)
  show "resolve_statics qs n (ast_items any_span [alias_decl [0x53], node_decl [0x41]]) = None"
    by (rule null_types_stop [OF alias_first_types]) (auto simp: alias_decl_def node_decl_def)
  show "resolve_statics qs n (ast_items any_span [node_decl [0x42]]) = None"
    by (rule null_types_stop [OF unknown_types]) (auto simp: node_decl_def)
  have "map_option snd (resolve_statics insertion_sort 10 (ast_items any_span [node_decl [0x41], alias_decl [0x53]])) = Some []"
    by code_simp
  then show "\<exists>p. resolve_statics insertion_sort 10 (ast_items any_span [node_decl [0x41], alias_decl [0x53]]) = Some (p, [])"
    by auto
qed

section \<open>Which types have a layout\<close>

lemma layout_loop_dom: "layout_loop qs n objs tys ls = Some ls' \<Longrightarrow> dom (map_of ls') = dom (map_of ls) \<union> set tys"
proof (induction tys arbitrary: ls)
  case (Cons ty tys)
  then obtain l where "layout_loop qs n objs tys (AList.update ty l ls) = Some ls'" by (auto simp: bind_eq_Some_conv)
  from Cons.IH [OF this] show ?case by (auto simp: update_conv')
qed simp



end
