(* ===== verification/Hid.thy ===== *)
theory Hid
  imports Net Util
begin

text \<open>
  The device scanner, \<^verbatim>\<open>hid.h\<close> and \<^verbatim>\<open>hid.c\<close>: which input devices of the machine are picked up, what
  is asked of the kernel about each, and the lists through which they are handed to the threads of
  the server. What the kernel answers about an entry of \<^verbatim>\<open>/sys/class/input\<close> is the record
  \<open>EventFile\<close>, an argument of the definitions. The use of a pointer that is not valid is
  \<^const>\<open>None\<close>; so is a store past the end of an array.
\<close>

section \<open>Constants of the kernel's interface\<close>

definition EV_SYN :: nat where "EV_SYN = 0"
definition EV_KEY :: nat where "EV_KEY = 1"
definition EV_REL :: nat where "EV_REL = 2"
definition EV_ABS :: nat where "EV_ABS = 3"
definition EV_MAX :: nat where "EV_MAX = 0x1F"
definition KEY_MAX :: nat where "KEY_MAX = 0x2FF"
definition ABS_CNT :: nat where "ABS_CNT = 0x40"
definition REL_CNT :: nat where "REL_CNT = 0x10"
definition KEY_CNT :: nat where "KEY_CNT = 0x300"

lemmas event_defs = EV_SYN_def EV_KEY_def EV_REL_def EV_ABS_def EV_MAX_def KEY_MAX_def
  ABS_CNT_def REL_CNT_def KEY_CNT_def

section \<open>Devices and controllers\<close>

record DeviceMap =
  abs_indices :: "u16 list"
  rel_indices :: "u16 list"
  key_indices :: "u16 list"

text \<open>The name of a device: the default one, a string of its own, or the pointer the struct was
  created with, which nothing was stored to.\<close>

datatype DeviceName = DefaultName | OwnName "byte list" | NoName

record PhysicalDevice =
  pd_event :: int
  pd_hidraw :: int
  pd_uniq :: u64
  pd_id :: u64
  pd_name :: DeviceName
  pd_mapping :: DeviceMap
  pd_info :: DeviceInfo

text \<open>The configuration of the server (\<^verbatim>\<open>server.h\<close>). The vendor and the product are signed; a string
  that is not given is a null pointer.\<close>

record ControllerFilter =
  flt_uniq :: u64
  flt_vendor :: u32
  flt_product :: u32
  flt_js :: bool
  flt_name :: "byte list option"

record ServerConfigController =
  ctr_filter :: ControllerFilter
  ctr_tag :: "byte list option"
  ctr_duplicate :: bool
  ctr_ps4_hidraw :: bool

record Controller =
  c_dev :: PhysicalDevice
  c_ctr :: ServerConfigController

text \<open>What the kernel answers about an entry: its name and whether it is a link, the descriptor it
  opens as (negative when it does not), its name, the entries of its device directory with whether
  each is a directory, its address, its ids, the bits of its event types and of the features of
  each, the description of its axes, the entries of its \<^verbatim>\<open>hidraw\<close> directory (\<^const>\<open>None\<close> when there
  is none) and the descriptor that opens as.\<close>

record AbsInfo =
  ai_minimum :: u32
  ai_maximum :: u32
  ai_fuzz :: u32
  ai_flat :: u32
  ai_resolution :: u32

record EventFile =
  ef_name :: "byte list"
  ef_link :: bool
  ef_fd :: int
  ef_dev_name :: "byte list option"
  ef_device_dir :: "(bool \<times> byte list) list option"
  ef_uniq :: "byte list"
  ef_vendor :: u16
  ef_product :: u16
  ef_type_bits :: "byte list"
  ef_feat_bits :: "nat \<Rightarrow> byte list"
  ef_absinfo :: "nat \<Rightarrow> AbsInfo"
  ef_hidraw_dir :: "byte list list option"
  ef_hidraw_fd :: int

section \<open>Addresses\<close>

fun parse_uniq_loop :: "u64 \<Rightarrow> byte list \<Rightarrow> u64" where
  "parse_uniq_loop res [] = res"
| "parse_uniq_loop res (c # cs) =
    (if c \<ge> 0x30 \<and> c \<le> 0x39 then parse_uniq_loop (push_bit 4 res + ucast (c - 0x30)) cs
     else if c \<ge> 0x61 \<and> c \<le> 0x66 then parse_uniq_loop (push_bit 4 res + ucast (c - 0x61 + 10)) cs
     else if c \<ge> 0x41 \<and> c \<le> 0x46 then parse_uniq_loop (push_bit 4 res + ucast (c - 0x41 + 10)) cs
     else parse_uniq_loop res cs)"

text \<open>The buffer of 17 bytes is zero where the kernel wrote nothing.\<close>

definition zero_filled :: "nat \<Rightarrow> byte list \<Rightarrow> byte list" where
  "zero_filled n bs = take n (bs @ replicate n 0)"

definition parse_uniq :: "byte list \<Rightarrow> u64" where
  "parse_uniq uniq = parse_uniq_loop 0 (take 17 uniq)"

section \<open>Features\<close>

definition store_at :: "'a list \<Rightarrow> nat \<Rightarrow> 'a \<Rightarrow> 'a list option" where
  "store_at xs i x = (if i < length xs then Some (xs[i := x]) else None)"

definition no_index :: u16 where "no_index = - 1"

definition empty_mapping :: DeviceMap where
  "empty_mapping = \<lparr>abs_indices = replicate ABS_CNT no_index, rel_indices = replicate REL_CNT no_index,
     key_indices = replicate KEY_CNT no_index\<rparr>"

text \<open>The next free index, the feature stored there, and the index stored under the id of the feature.\<close>

definition add_feature :: "'a \<Rightarrow> nat \<Rightarrow> 'l::len word \<Rightarrow> 'a list \<Rightarrow> u16 list \<Rightarrow> ('l word \<times> 'a list \<times> u16 list) option" where
  "add_feature x i n data indices = do {
     data \<leftarrow> store_at data (unat (ucast n :: u16)) x;
     indices \<leftarrow> store_at indices i (ucast n);
     Some (n + 1, data, indices)
   }"

definition abs_of :: "AbsInfo \<Rightarrow> nat \<Rightarrow> Abs" where
  "abs_of ai i = \<lparr>abs_id = of_nat i, abs_min = ai_minimum ai, abs_max = ai_maximum ai, abs_fuzz = ai_fuzz ai,
     abs_flat = ai_flat ai, abs_res = ai_resolution ai\<rparr>"

definition setup_feature :: "EventFile \<Rightarrow> nat \<Rightarrow> nat \<Rightarrow> DeviceInfo \<times> DeviceMap \<Rightarrow> (DeviceInfo \<times> DeviceMap) option" where
  "setup_feature ef type i s = (case s of (info, mapping) \<Rightarrow>
     if type = EV_ABS then do {
       (n, d, m) \<leftarrow> add_feature (abs_of (ef_absinfo ef i) i) i (info_abs_len info) (info_abs info) (abs_indices mapping);
       Some (info\<lparr>info_abs_len := n, info_abs := d\<rparr>, mapping\<lparr>abs_indices := m\<rparr>)
     }
     else if type = EV_REL then do {
       (n, d, m) \<leftarrow> add_feature \<lparr>rel_id = of_nat i\<rparr> i (info_rel_len info) (info_rel info) (rel_indices mapping);
       Some (info\<lparr>info_rel_len := n, info_rel := d\<rparr>, mapping\<lparr>rel_indices := m\<rparr>)
     }
     else if type = EV_KEY then do {
       (n, d, m) \<leftarrow> add_feature \<lparr>key_id = of_nat i\<rparr> i (info_key_len info) (info_key info) (key_indices mapping);
       Some (info\<lparr>info_key_len := n, info_key := d\<rparr>, mapping\<lparr>key_indices := m\<rparr>)
     }
     else Some (info, mapping))"

text \<open>The loops over the features of a type and over the types; the buffers are cleared before the
  kernel fills them.\<close>

fun setup_features :: "EventFile \<Rightarrow> nat \<Rightarrow> nat list \<Rightarrow> DeviceInfo \<times> DeviceMap \<Rightarrow> (DeviceInfo \<times> DeviceMap) option" where
  "setup_features ef type [] s = Some s"
| "setup_features ef type (i # is) s = do {
     b \<leftarrow> bit_set (zero_filled ((KEY_MAX + 7) div 8) (ef_feat_bits ef type)) i;
     s \<leftarrow> (if b then setup_feature ef type i s else Some s);
     setup_features ef type is s
   }"

fun setup_types :: "EventFile \<Rightarrow> nat list \<Rightarrow> DeviceInfo \<times> DeviceMap \<Rightarrow> (DeviceInfo \<times> DeviceMap) option" where
  "setup_types ef [] s = Some s"
| "setup_types ef (type # types) s = do {
     b \<leftarrow> bit_set (zero_filled EV_MAX (ef_type_bits ef)) type;
     s \<leftarrow> (if b then setup_features ef type [0..<KEY_MAX] s else Some s);
     setup_types ef types s
   }"

definition setup_device :: "EventFile \<Rightarrow> PhysicalDevice \<Rightarrow> PhysicalDevice option" where
  "setup_device ef dev = do {
     (info, mapping) \<leftarrow> setup_types ef [0..<EV_MAX]
       ((pd_info dev)\<lparr>info_abs_len := 0, info_rel_len := 0, info_key_len := 0\<rparr>, empty_mapping);
     Some (dev\<lparr>pd_info := info, pd_mapping := mapping\<rparr>)
   }"

section \<open>Filters\<close>

text \<open>The characters of a C string in a buffer: those before the first NUL.\<close>

definition c_string :: "byte list \<Rightarrow> byte list" where
  "c_string bs = takeWhile (\<lambda>c. c \<noteq> 0) bs"

definition starts_with :: "byte list \<Rightarrow> byte list \<Rightarrow> bool" where
  "starts_with prefix s \<longleftrightarrow> take (length prefix) s = prefix"

definition str_js :: "byte list" where "str_js = [0x6A, 0x73]"
definition str_event :: "byte list" where "str_event = [0x65, 0x76, 0x65, 0x6E, 0x74]"
definition str_hidraw :: "byte list" where "str_hidraw = [0x68, 0x69, 0x64, 0x72, 0x61, 0x77]"

definition filter_event :: "EventFile \<Rightarrow> ControllerFilter \<Rightarrow> u64 \<Rightarrow> bool option" where
  "filter_event ef flt uniq = do {
     js \<leftarrow> (if flt_js flt then do {
         dir \<leftarrow> ef_device_dir ef;
         Some (\<exists>(is_dir, name) \<in> set dir. is_dir \<and> starts_with str_js name)
       } else Some True);
     if \<not> js then Some False
     else if (case flt_name flt of None \<Rightarrow> False
       | Some name \<Rightarrow> (case ef_dev_name ef of None \<Rightarrow> name \<noteq> [] | Some n \<Rightarrow> c_string (take 256 n) \<noteq> name)) then Some False
     else if flt_uniq flt > 0 \<and> uniq \<noteq> flt_uniq flt then Some False
     else if 0 <s flt_vendor flt \<and> flt_vendor flt \<noteq> ucast (ef_vendor ef) then Some False
     else if 0 <s flt_product flt \<and> flt_product flt \<noteq> ucast (ef_product ef) then Some False
     else Some True
   }"

fun find_controller :: "EventFile \<Rightarrow> u64 \<Rightarrow> ServerConfigController list \<Rightarrow> ServerConfigController option option" where
  "find_controller ef uniq [] = Some None"
| "find_controller ef uniq (ctr # ctrs) = do {
     b \<leftarrow> filter_event ef (ctr_filter ctr) uniq;
     if b then Some (Some ctr) else find_controller ef uniq ctrs
   }"

section \<open>The lists of devices\<close>

text \<open>The state of the scanner. Each list is guarded by a mutex, and the operations below are the
  critical sections. The last two fields count what was given back: the descriptors closed and the
  names freed.\<close>

record HidState =
  hs_known :: "u64 list"
  hs_available :: "Controller list"
  hs_cloneable :: "Controller list"
  hs_closed :: "int list"
  hs_freed :: "byte list list"

definition poll_devices_init :: HidState where
  "poll_devices_init = \<lparr>hs_known = [], hs_available = [], hs_cloneable = [], hs_closed = [], hs_freed = []\<rparr>"

definition parse_event_name :: "byte list \<Rightarrow> u64" where
  "parse_event_name event = of_int (atoll (drop 5 event))"

definition close_fd :: "int \<Rightarrow> HidState \<Rightarrow> HidState" where
  "close_fd fd h = h\<lparr>hs_closed := hs_closed h @ [fd]\<rparr>"

text \<open>The hidraw descriptor: \<^const>\<open>None\<close> when the device is skipped.\<close>

definition find_hidraw :: "EventFile \<Rightarrow> ServerConfigController \<Rightarrow> int option option" where
  "find_hidraw ef ctr =
    (if \<not> ctr_ps4_hidraw ctr then Some (Some (- 1))
     else do {
       dir \<leftarrow> ef_hidraw_dir ef;
       Some (if \<not> (\<exists>name \<in> set dir. starts_with str_hidraw name) then None
         else if ef_hidraw_fd ef < 0 then None else Some (ef_hidraw_fd ef))
     })"

text \<open>The name of the device: the string the kernel gave is copied, but nothing is stored when it gave
  none.\<close>

definition device_name :: "EventFile \<Rightarrow> DeviceName" where
  "device_name ef = (case ef_dev_name ef of Some n \<Rightarrow> OwnName (c_string (take 256 n)) | None \<Rightarrow> NoName)"

text \<open>One entry of \<^verbatim>\<open>/sys/class/input\<close>. The struct of the device is new, with whatever was in its memory
  where the code stores nothing: \<open>raw\<close> is the part the device description occupies.\<close>

definition poll_entry :: "ServerConfigController list \<Rightarrow> DeviceInfo \<Rightarrow> EventFile \<Rightarrow> HidState \<Rightarrow> HidState option" where
  "poll_entry config raw ef h = (
     if \<not> ef_link ef \<or> \<not> starts_with str_event (ef_name ef) then Some h
     else if ef_fd ef < 0 then Some h
     else do {
       let id = parse_event_name (ef_name ef);
       let uniq = parse_uniq (zero_filled 17 (ef_uniq ef));
       found \<leftarrow> find_controller ef uniq config;
       case found of
         None \<Rightarrow> Some (close_fd (ef_fd ef) h)
       | Some ctr \<Rightarrow>
           if id \<in> set (hs_known h) then Some (close_fd (ef_fd ef) h)
           else do {
             hidraw \<leftarrow> find_hidraw ef ctr;
             case hidraw of
               None \<Rightarrow> Some (close_fd (ef_fd ef) h)
             | Some fd \<Rightarrow> do {
                 dev \<leftarrow> setup_device ef \<lparr>pd_event = ef_fd ef, pd_hidraw = fd, pd_uniq = uniq, pd_id = id,
                   pd_name = device_name ef, pd_mapping = empty_mapping, pd_info = raw\<rparr>;
                 let c = \<lparr>c_dev = dev, c_ctr = ctr\<rparr>;
                 let h = h\<lparr>hs_known := hs_known h @ [id]\<rparr>;
                 Some (if ctr_duplicate ctr then h\<lparr>hs_cloneable := hs_cloneable h @ [c]\<rparr>
                   else h\<lparr>hs_available := hs_available h @ [c]\<rparr>)
               }
           }
     })"

fun poll_devices :: "ServerConfigController list \<Rightarrow> DeviceInfo \<Rightarrow> EventFile list \<Rightarrow> HidState \<Rightarrow> HidState option" where
  "poll_devices config raw [] h = Some h"
| "poll_devices config raw (ef # efs) h = do { h \<leftarrow> poll_entry config raw ef h; poll_devices config raw efs h }"

section \<open>Handing out devices\<close>

text \<open>The index of the first tag that is the device's; comparing with a null pointer is \<^const>\<open>None\<close>.\<close>

fun match_tags_loop :: "byte list \<Rightarrow> byte list list \<Rightarrow> nat \<Rightarrow> nat option" where
  "match_tags_loop tag [] i = None"
| "match_tags_loop tag (t # ts) i = (if tag = t then Some i else match_tags_loop tag ts (i + 1))"

definition match_tags :: "byte list option \<Rightarrow> byte list list \<Rightarrow> nat option option" where
  "match_tags tag tags = (if tags = [] then Some None else do { t \<leftarrow> tag; Some (match_tags_loop t tags 0) })"

text \<open>The loops over a list: the position of the first device with a matching tag, and the index of
  the tag.\<close>

fun find_device :: "byte list list \<Rightarrow> Controller list \<Rightarrow> nat \<Rightarrow> (nat \<times> nat) option option" where
  "find_device tags [] i = Some None"
| "find_device tags (c # cs) i = do {
     m \<leftarrow> match_tags (ctr_tag (c_ctr c)) tags;
     case m of Some index \<Rightarrow> Some (Some (i, index)) | None \<Rightarrow> find_device tags cs (i + 1)
   }"

text \<open>One round of the loop of \<open>get_device\<close>: it stops, or it has a device, or it waits.\<close>

datatype GetResult = Stopped | Got Controller u8 | Waits

definition get_device :: "byte list list \<Rightarrow> bool \<Rightarrow> HidState \<Rightarrow> (GetResult \<times> HidState) option" where
  "get_device tags stop h =
    (if stop then Some (Stopped, h)
     else do {
       a \<leftarrow> find_device tags (hs_available h) 0;
       case a of
         Some (i, index) \<Rightarrow>
           Some (Got (hs_available h ! i) (of_nat index),
             h\<lparr>hs_available := take i (hs_available h) @ drop (i + 1) (hs_available h)\<rparr>)
       | None \<Rightarrow> do {
           b \<leftarrow> find_device tags (hs_cloneable h) 0;
           case b of
             Some (i, index) \<Rightarrow> Some (Got (hs_cloneable h ! i) (of_nat index), h)
           | None \<Rightarrow> Some (Waits, h)
         }
     })"

definition return_device :: "Controller \<Rightarrow> HidState \<Rightarrow> HidState" where
  "return_device c h = (if ctr_duplicate (c_ctr c) then h else h\<lparr>hs_available := hs_available h @ [c]\<rparr>)"

text \<open>The search among the shared devices takes each element, which is a controller, for a pointer to
  one: it goes through the two descriptors the struct starts with.\<close>

definition forget_device :: "Controller \<Rightarrow> HidState \<Rightarrow> HidState option" where
  "forget_device c h =
    (if ctr_duplicate (c_ctr c) \<and> hs_cloneable h \<noteq> [] then None
     else do {
       h \<leftarrow> (case pd_name (c_dev c) of
           DefaultName \<Rightarrow> Some h
         | OwnName n \<Rightarrow> Some (h\<lparr>hs_freed := hs_freed h @ [n]\<rparr>)
         | NoName \<Rightarrow> None);
       Some (h\<lparr>hs_closed := hs_closed h @ [pd_event (c_dev c), pd_hidraw (c_dev c)],
         hs_known := remove1 (pd_id (c_dev c)) (hs_known h)\<rparr>)
     })"

section \<open>Controller states\<close>

text \<open>What is written to the hidraw descriptor.\<close>

definition state_report :: "DeviceControllerState \<Rightarrow> byte list" where
  "state_report st = [0x05, 0xFF, 0, 0, cs_small_rumble st, cs_big_rumble st, cs_led0 st, cs_led1 st, cs_led2 st,
     cs_flash_on st, cs_flash_off st] @ replicate 21 0"

definition apply_controller_state :: "Controller \<Rightarrow> DeviceControllerState \<Rightarrow> (int \<times> byte list) list" where
  "apply_controller_state c st =
    (if ctr_ps4_hidraw (c_ctr c) \<and> pd_hidraw (c_dev c) < 0 then []
     else let w = (pd_hidraw (c_dev c), state_report st) in
       if cs_flash_on st = 0 \<and> cs_flash_off st = 0 then [w, w] else [w])"

end
