(* ===== verification/Server.thy ===== *)
theory Server
  imports Hid Net_Correct Vec
begin

text \<open>
  The server, \<^verbatim>\<open>server.c\<close>: the thread that serves one device to one slot of a client, and the
  thread of a connection. What the kernel reads from a device and from a socket is an argument. A
  message is passed to the serializer as one view of the union; the other views of the model's
  record are blank.
\<close>

section \<open>A device thread\<close>

record InputEvent =
  ie_type :: u16
  ie_code :: u16
  ie_value :: u32

datatype ReadResult = Read_event InputEvent | Read_short | Read_lost

definition info_message :: "DeviceInfo \<Rightarrow> DeviceMessage" where
  "info_message i = blank_message\<lparr>msg_tag := DeviceTagInfo, msg_info := i\<rparr>"

definition report_message :: "DeviceReport \<Rightarrow> DeviceMessage" where
  "report_message r = blank_message\<lparr>msg_tag := DeviceTagReport, msg_report := r\<rparr>"

definition destroy_message :: "DeviceDestroy \<Rightarrow> DeviceMessage" where
  "destroy_message d = blank_message\<lparr>msg_tag := DeviceTagDestroy, msg_destroy := d\<rparr>"

text \<open>The description sent for a device: the one the scanner made, with the slot and the index of the
  tag. The report starts with zeros.\<close>

definition device_description :: "Controller \<Rightarrow> nat \<Rightarrow> u8 \<Rightarrow> DeviceInfo" where
  "device_description c slot index = (pd_info (c_dev c))\<lparr>info_slot := of_nat slot, info_index := index\<rparr>"

definition first_report :: "Controller \<Rightarrow> nat \<Rightarrow> u8 \<Rightarrow> DeviceReport" where
  "first_report c slot index = \<lparr>report_slot = of_nat slot, report_index = index,
     report_abs_len = info_abs_len (pd_info (c_dev c)), report_abs = replicate 64 0,
     report_rel_len = info_rel_len (pd_info (c_dev c)), report_rel = replicate 16 0,
     report_key_len = info_key_len (pd_info (c_dev c)), report_key = replicate 768 0\<rparr>"

text \<open>An event that is not the end of a report. The index is read into a signed integer from an
  unsigned 16-bit one; the code of the event is not checked against the size of the table.\<close>

definition read_index :: "u16 list \<Rightarrow> u16 \<Rightarrow> int option" where
  "read_index indices code = (if unat code < length indices then Some (uint (indices ! unat code)) else None)"

definition report_event :: "DeviceMap \<Rightarrow> InputEvent \<Rightarrow> DeviceReport \<Rightarrow> DeviceReport option" where
  "report_event mapping e r =
    (if unat (ie_type e) = EV_ABS then do {
       index \<leftarrow> read_index (abs_indices mapping) (ie_code e);
       if index < 0 then Some r
       else do { d \<leftarrow> store_at (report_abs r) (nat index) (ie_value e); Some (r\<lparr>report_abs := d\<rparr>) }
     }
     else if unat (ie_type e) = EV_REL then do {
       index \<leftarrow> read_index (rel_indices mapping) (ie_code e);
       if index < 0 then Some r
       else do { d \<leftarrow> store_at (report_rel r) (nat index) (ie_value e); Some (r\<lparr>report_rel := d\<rparr>) }
     }
     else if unat (ie_type e) = EV_KEY then do {
       index \<leftarrow> read_index (key_indices mapping) (ie_code e);
       if index < 0 then Some r
       else do { d \<leftarrow> store_at (report_key r) (nat index) (if ie_value e \<noteq> 0 then 1 else 0); Some (r\<lparr>report_key := d\<rparr>) }
     }
     else Some r)"

text \<open>The buffer of the thread has 2048 bytes at the address \<open>a\<close>; a packet is what is sent of it.\<close>

definition send_message :: "nat \<Rightarrow> byte list \<Rightarrow> DeviceMessage \<Rightarrow> (byte list \<times> byte list list) option" where
  "send_message a buf msg = do {
     (len, buf, _) \<leftarrow> msg_device_serialize a buf 2048 msg;
     Some (buf, if len < 0 then [] else [take (nat len) buf])
   }"

text \<open>The inner loop, over what is read from the device until it is lost: the packets sent.\<close>

fun report_loop :: "nat \<Rightarrow> DeviceMap \<Rightarrow> ReadResult list \<Rightarrow> DeviceReport \<Rightarrow> byte list
    \<Rightarrow> (DeviceReport \<times> byte list \<times> byte list list) option" where
  "report_loop a mapping [] r buf = Some (r, buf, [])"
| "report_loop a mapping (Read_lost # reads) r buf = Some (r, buf, [])"
| "report_loop a mapping (Read_short # reads) r buf = report_loop a mapping reads r buf"
| "report_loop a mapping (Read_event e # reads) r buf =
    (if unat (ie_type e) = EV_SYN then do {
       (buf, p) \<leftarrow> send_message a buf (report_message r);
       (r, buf, ps) \<leftarrow> report_loop a mapping reads r buf;
       Some (r, buf, p @ ps)
     }
     else do {
       r \<leftarrow> report_event mapping e r;
       report_loop a mapping reads r buf
     })"

text \<open>One round of the outer loop, with a device in hand and a socket that accepts what is written: the
  description, the reports, and the message that the device is gone.\<close>

definition device_round :: "nat \<Rightarrow> Controller \<Rightarrow> nat \<Rightarrow> u8 \<Rightarrow> ReadResult list \<Rightarrow> byte list \<Rightarrow> (byte list \<times> byte list list) option" where
  "device_round a c slot index reads buf = do {
     (buf, p) \<leftarrow> send_message a buf (info_message (device_description c slot index));
     (r, buf, ps) \<leftarrow> report_loop a (pd_mapping (c_dev c)) reads (first_report c slot index) buf;
     (buf, q) \<leftarrow> send_message a buf (destroy_message \<lparr>destroy_index = of_nat slot\<rparr>);
     Some (buf, p @ ps @ q)
   }"

section \<open>A connection\<close>

text \<open>A thread is given its index, its tags and a pointer into the array of controllers: the block the
  array was in when the pointer was taken, and the index there.\<close>

record DeviceThreadArgs =
  da_index :: nat
  da_tags :: "byte list list"
  da_block :: nat
  da_slot :: nat

record Connection =
  cn_got_request :: bool
  cn_controllers :: "Controller option Vec"
  cn_block :: nat
  cn_threads :: "DeviceThreadArgs list"

definition connection_start :: Connection where
  "connection_start = \<lparr>cn_got_request = False, cn_controllers = vec_new 8, cn_block = 0, cn_threads = []\<rparr>"

text \<open>\<open>vec_push\<close>, with the number of the block: another one when the array grew.\<close>

definition push_controller :: "Controller option \<Rightarrow> Connection \<Rightarrow> Connection option" where
  "push_controller c conn = do {
     v \<leftarrow> vec_push c (cn_controllers conn);
     Some (conn\<lparr>cn_controllers := v,
       cn_block := (if v_cap v = v_cap (cn_controllers conn) then cn_block conn else cn_block conn + 1)\<rparr>)
   }"

definition strndup :: "Tag \<Rightarrow> byte list" where
  "strndup t = c_string (take (unat (name_len t)) (name_data t))"

text \<open>The loop over the requests of a message, which starts a thread for each.\<close>

fun request_loop :: "TagList list \<Rightarrow> Connection \<Rightarrow> Connection option" where
  "request_loop [] conn = Some conn"
| "request_loop (req # reqs) conn = do {
     let index = v_len (cn_controllers conn);
     conn \<leftarrow> push_controller None conn;
     slot \<leftarrow> vec_get (cn_controllers conn) index;
     request_loop reqs (conn\<lparr>cn_threads := cn_threads conn @
       [\<lparr>da_index = index, da_tags = map strndup (take (unat (tags_len req)) (tags_data req)),
         da_block = cn_block conn, da_slot = slot\<rparr>]\<rparr>)
   }"

text \<open>The messages a client sends: the connection afterwards, what is written to devices and the
  objects freed.\<close>

definition handle_message :: "DeviceMessage \<Rightarrow> Connection \<Rightarrow> (Connection \<times> (int \<times> byte list) list \<times> nat list) option" where
  "handle_message msg conn = (case msg_tag msg of
     DeviceTagControllerState \<Rightarrow> (
       let i = unat (cs_index (msg_controller_state msg)) in
       if i \<ge> v_len (cn_controllers conn) then Some (conn, [], [])
       else do {
         slot \<leftarrow> vec_get (cn_controllers conn) i;
         cell \<leftarrow> load 1 (v_data (cn_controllers conn)) slot;
         ptr \<leftarrow> hd cell;
         case ptr of
           None \<Rightarrow> Some (conn, [], [])
         | Some ctr \<Rightarrow> Some (conn, apply_controller_state ctr (msg_controller_state msg), [])
       })
   | DeviceTagRequest \<Rightarrow>
       (if cn_got_request conn then Some (conn, [], msg_device_free msg)
        else do {
          conn \<leftarrow> request_loop (take (unat (req_len (msg_request msg))) (req_data (msg_request msg)))
            (conn\<lparr>cn_got_request := True\<rparr>);
          Some (conn, [], msg_device_free msg)
        })
   | _ \<Rightarrow> Some (conn, [], []))"

text \<open>One iteration of the loop of \<open>server_handle_conn\<close>: what \<open>poll\<close> and \<open>recv\<close> report.\<close>

datatype ConnEvent = Poll_timeout | Poll_error | Hang_up | Recv_failed | Received "byte list"

datatype ConnResult = Closing | Continues Connection "byte list" "(int \<times> byte list) list" "nat list" nat

definition connection_step :: "nat \<Rightarrow> DeviceMessage \<Rightarrow> ConnEvent \<Rightarrow> Connection \<Rightarrow> byte list \<Rightarrow> nat \<Rightarrow> ConnResult option" where
  "connection_step b msg ev conn buf h = (case ev of
     Poll_timeout \<Rightarrow> Some (if cn_got_request conn then Continues conn buf [] [] h else Closing)
   | Poll_error \<Rightarrow> Some Closing
   | Hang_up \<Rightarrow> Some Closing
   | Recv_failed \<Rightarrow> Some Closing
   | Received bs \<Rightarrow> do {
       buf \<leftarrow> store bs buf 0;
       (msg_len, msg, freed, h) \<leftarrow> msg_device_deserialize b buf (length bs) h msg;
       if msg_len < 0 then Some (Continues conn buf [] freed h)
       else do {
         (conn, ws, freed) \<leftarrow> handle_message msg conn;
         Some (Continues conn buf ws freed h)
       }
     })"

end
