(* ===== verification/Client.thy ===== *)
theory Client
  imports Hid Net_Correct
begin

text \<open>
  The client, \<^verbatim>\<open>client.c\<close>: one virtual device per slot, which the messages of the server create,
  drive and destroy. What the client asks of the kernel's uinput devices is a list of operations,
  each with the descriptor it is made on. An access past the end of an array is \<^const>\<open>None\<close>.
\<close>

section \<open>Configuration\<close>

text \<open>The tag is a null pointer when the configuration gives none.\<close>

record ClientController =
  cc_tag :: "byte list option"
  cc_device_vendor :: u32
  cc_device_product :: u32
  cc_device_name :: "byte list"

record ClientSlot =
  sl_controllers :: "ClientController list"

record ClientConfig =
  cf_slots :: "ClientSlot list"
  cf_fifo_path :: "byte list"
  cf_retry_delay :: "u64 \<times> u64"

definition VIRTUAL_DEVICE_VERSION :: u16 where "VIRTUAL_DEVICE_VERSION = 1"
definition UINPUT_MAX_NAME_SIZE :: nat where "UINPUT_MAX_NAME_SIZE = 80"

section \<open>Virtual devices\<close>

datatype UinputOp =
  UI_SET_EVBIT nat
| UI_ABS_SETUP Abs
| UI_SET_RELBIT u16
| UI_SET_KEYBIT u16
| UI_DEV_SETUP u16 u16 u16 "byte list"
| UI_DEV_CREATE
| UI_DEV_DESTROY
| Emit u16 u16 u32

text \<open>The descriptors and the descriptions of the slots; a description whose tag is \<open>DeviceTagNone\<close> is
  \<^const>\<open>None\<close>, since nothing else of it is read then.\<close>

record ClientState =
  cl_fds :: "int list"
  cl_infos :: "DeviceInfo option list"
  cl_ops :: "(int \<times> UinputOp) list"

definition ioctl :: "int \<Rightarrow> UinputOp list \<Rightarrow> ClientState \<Rightarrow> ClientState" where
  "ioctl fd ops st = st\<lparr>cl_ops := cl_ops st @ map (Pair fd) ops\<rparr>"

definition setup_devices :: "ClientConfig \<Rightarrow> int list \<Rightarrow> ClientState" where
  "setup_devices config fds =
     \<lparr>cl_fds = take (length (cf_slots config)) fds, cl_infos = replicate (length (cf_slots config)) None, cl_ops = []\<rparr>"

definition device_exists :: "nat \<Rightarrow> ClientState \<Rightarrow> bool" where
  "device_exists index st = (if index \<ge> length (cl_infos st) then False else cl_infos st ! index \<noteq> None)"

definition device_destroy :: "nat \<Rightarrow> ClientState \<Rightarrow> ClientState" where
  "device_destroy slot st =
    (if slot \<ge> length (cl_infos st) then st
     else if cl_infos st ! slot \<noteq> None then
       (ioctl (cl_fds st ! slot) [UI_DEV_DESTROY] st)\<lparr>cl_infos := (cl_infos st)[slot := None]\<rparr>
     else st)"

text \<open>The loop of \<open>destroy_devices\<close>, over the slots of the configuration.\<close>

fun destroy_loop :: "nat list \<Rightarrow> ClientState \<Rightarrow> ClientState" where
  "destroy_loop [] st = st"
| "destroy_loop (i # is) st = destroy_loop is
     (if cl_infos st ! i \<noteq> None then (ioctl (cl_fds st ! i) [UI_DEV_DESTROY] st)\<lparr>cl_infos := (cl_infos st)[i := None]\<rparr> else st)"

definition destroy_devices :: "ClientConfig \<Rightarrow> ClientState \<Rightarrow> ClientState" where
  "destroy_devices config st = destroy_loop [0..<length (cf_slots config)] st"

text \<open>The first \<open>n\<close> elements of an array.\<close>

definition first_elements :: "nat \<Rightarrow> 'a list \<Rightarrow> 'a list option" where
  "first_elements n xs = (if n \<le> length xs then Some (take n xs) else None)"

definition element :: "'a list \<Rightarrow> nat \<Rightarrow> 'a option" where
  "element xs i = (if i < length xs then Some (xs ! i) else None)"

text \<open>\<open>strncpy\<close> into the cleared name of the setup.\<close>

definition setup_name :: "byte list \<Rightarrow> byte list" where
  "setup_name name = zero_filled UINPUT_MAX_NAME_SIZE (c_string name)"

definition device_init :: "ClientConfig \<Rightarrow> DeviceInfo \<Rightarrow> ClientState \<Rightarrow> ClientState option" where
  "device_init config dev st =
    (let slot = unat (info_slot dev) in
     if slot \<ge> length (cl_infos st) then Some st
     else do {
       let st = device_destroy slot st;
       let fd = cl_fds st ! slot;
       as \<leftarrow> first_elements (unat (info_abs_len dev)) (info_abs dev);
       rs \<leftarrow> first_elements (unat (info_rel_len dev)) (info_rel dev);
       ks \<leftarrow> first_elements (unat (info_key_len dev)) (info_key dev);
       sl \<leftarrow> element (cf_slots config) slot;
       ctr \<leftarrow> element (sl_controllers sl) (unat (info_index dev));
       let st = ioctl fd ((if info_abs_len dev > 0 then UI_SET_EVBIT EV_ABS # map UI_ABS_SETUP as else []) @
         (if info_rel_len dev > 0 then UI_SET_EVBIT EV_REL # map (UI_SET_RELBIT \<circ> rel_id) rs else []) @
         (if info_key_len dev > 0 then UI_SET_EVBIT EV_KEY # map (UI_SET_KEYBIT \<circ> key_id) ks else []) @
         [UI_DEV_SETUP (ucast (cc_device_vendor ctr)) (ucast (cc_device_product ctr)) VIRTUAL_DEVICE_VERSION
            (setup_name (cc_device_name ctr)), UI_DEV_CREATE]) st;
       Some (st\<lparr>cl_infos := (cl_infos st)[slot := Some dev]\<rparr>)
     })"

definition device_emit :: "nat \<Rightarrow> nat \<Rightarrow> u16 \<Rightarrow> u32 \<Rightarrow> ClientState \<Rightarrow> ClientState" where
  "device_emit index type code val st =
    (if index \<ge> length (cl_fds st) then st else ioctl (cl_fds st ! index) [Emit (of_nat type) code val] st)"

text \<open>The loop over the values of a report, each with the feature of its index.\<close>

fun emit_loop :: "nat \<Rightarrow> nat \<Rightarrow> ('a \<Rightarrow> u16) \<Rightarrow> ('b \<Rightarrow> u32) \<Rightarrow> nat list \<Rightarrow> 'a list \<Rightarrow> 'b list \<Rightarrow> ClientState \<Rightarrow> ClientState option" where
  "emit_loop slot type code val [] fs vs st = Some st"
| "emit_loop slot type code val (i # is) fs vs st = do {
     f \<leftarrow> element fs i;
     v \<leftarrow> element vs i;
     emit_loop slot type code val is fs vs (device_emit slot type (code f) (val v) st)
   }"

definition key_value :: "u8 \<Rightarrow> u32" where
  "key_value v = (if v = 0 then 1 else 0) - 1"

definition device_handle_report :: "DeviceReport \<Rightarrow> ClientState \<Rightarrow> ClientState option" where
  "device_handle_report r st =
    (let slot = unat (report_slot r) in
     if \<not> device_exists slot st then Some st
     else case cl_infos st ! slot of
       None \<Rightarrow> None
     | Some info \<Rightarrow>
         if report_abs_len r \<noteq> info_abs_len info \<or> report_rel_len r \<noteq> info_rel_len info \<or> report_key_len r \<noteq> info_key_len info
         then Some st
         else do {
           st \<leftarrow> emit_loop slot EV_ABS abs_id (\<lambda>v. v) [0..<unat (report_abs_len r)] (info_abs info) (report_abs r) st;
           st \<leftarrow> emit_loop slot EV_REL rel_id (\<lambda>v. v) [0..<unat (report_rel_len r)] (info_rel info) (report_rel r) st;
           st \<leftarrow> emit_loop slot EV_KEY key_id key_value [0..<unat (report_key_len r)] (info_key info) (report_key r) st;
           Some (device_emit slot EV_SYN 0 0 st)
         })"

section \<open>Messages\<close>

definition client_message :: "ClientConfig \<Rightarrow> DeviceMessage \<Rightarrow> ClientState \<Rightarrow> ClientState option" where
  "client_message config msg st = (case msg_tag msg of
     DeviceTagInfo \<Rightarrow> device_init config (msg_info msg) st
   | DeviceTagReport \<Rightarrow> device_handle_report (msg_report msg) st
   | DeviceTagDestroy \<Rightarrow> Some (device_destroy (unat (destroy_index (msg_destroy msg))) st)
   | _ \<Rightarrow> Some st)"

text \<open>One round of the socket part of the loop: \<open>queue\<close> is what the socket has received and not given
  out. The message is read from a peek of at most 2048 bytes; what does not parse is dropped, and of
  a message exactly its bytes are taken. The buffer and the message are kept from round to round.\<close>

record ClientIO =
  io_queue :: "byte list"
  io_buf :: "byte list"
  io_message :: DeviceMessage

definition client_receive :: "nat \<Rightarrow> nat \<Rightarrow> ClientConfig \<Rightarrow> ClientIO \<Rightarrow> ClientState \<Rightarrow> (ClientIO \<times> ClientState) option" where
  "client_receive b h config io st = do {
     let peek = take 2048 (io_queue io);
     buf \<leftarrow> store peek (io_buf io) 0;
     (msg_len, msg, _, _) \<leftarrow> msg_device_deserialize b buf (length peek) h (io_message io);
     if msg_len < 0 then Some (io\<lparr>io_queue := drop 2048 (io_queue io), io_buf := buf, io_message := msg\<rparr>, st)
     else do {
       st \<leftarrow> client_message config msg st;
       Some (io\<lparr>io_queue := drop (nat msg_len) (io_queue io), io_buf := buf, io_message := msg\<rparr>, st)
     }
   }"

text \<open>As many rounds as the fuel allows, while there is something to read.\<close>

fun client_loop :: "nat \<Rightarrow> nat \<Rightarrow> nat \<Rightarrow> ClientConfig \<Rightarrow> ClientIO \<Rightarrow> ClientState \<Rightarrow> (ClientIO \<times> ClientState) option" where
  "client_loop 0 b h config io st = (if io_queue io = [] then Some (io, st) else None)"
| "client_loop (Suc n) b h config io st =
    (if io_queue io = [] then Some (io, st)
     else do { (io, st) \<leftarrow> client_receive b h config io st; client_loop n b h config io st })"

section \<open>The request\<close>

text \<open>\<open>build_device_request\<close>. The lengths are stored in 16 bits; the arrays are allocated one after
  another, which numbers the pointers. The length of a null pointer's string is \<^const>\<open>None\<close>.\<close>

definition slot_request :: "nat \<Rightarrow> ClientSlot \<Rightarrow> TagList option" where
  "slot_request ptr sl = do {
     names \<leftarrow> those (map cc_tag (sl_controllers sl));
     Some \<lparr>tags_len = of_nat (length (sl_controllers sl)),
       tags_data = map (\<lambda>name. \<lparr>name_len = of_nat (length name), name_data = name, name_ptr = 0\<rparr>) names, tags_ptr = ptr\<rparr>
   }"

definition build_device_request :: "ClientConfig \<Rightarrow> DeviceRequest option" where
  "build_device_request config = do {
     lists \<leftarrow> those (map2 slot_request [1..<length (cf_slots config) + 1] (cf_slots config));
     Some \<lparr>req_len = of_nat (length (cf_slots config)), req_data = lists, req_ptr = 0, req_version = 0\<rparr>
   }"

text \<open>What \<open>connect_server\<close> sends once it is connected, from a fresh buffer at the address \<open>a\<close>.\<close>

definition connect_server :: "nat \<Rightarrow> ClientConfig \<Rightarrow> byte list option" where
  "connect_server a config = do {
     request \<leftarrow> build_device_request config;
     (len, buf, _) \<leftarrow> msg_device_serialize a (replicate 2048 0) 2048
       (blank_message\<lparr>msg_tag := DeviceTagRequest, msg_request := request\<rparr>);
     Some (if len > 0 then take (nat len) buf else [])
   }"

text \<open>What is sent for a state written to the fifo, once it is read.\<close>

definition send_controller_state :: "nat \<Rightarrow> byte list \<Rightarrow> DeviceControllerState \<Rightarrow> (byte list \<times> byte list) option" where
  "send_controller_state a buf state = do {
     (len, buf, _) \<leftarrow> msg_device_serialize a buf 2048
       (blank_message\<lparr>msg_tag := DeviceTagControllerState, msg_controller_state := state\<rparr>);
     Some (buf, if len > 0 then take (nat len) buf else [])
   }"

end
