(* ===== verification/Hid_Correct.thy ===== *)
theory Hid_Correct
  imports Hid Net_Correct
begin

text \<open>
  What the device scanner finds out about a device: the numbering of its features, which goes both
  ways, and the meaning of the filters.
\<close>

section \<open>Numbering the features of a device\<close>

definition has_bit :: "byte list \<Rightarrow> nat \<Rightarrow> bool" where
  "has_bit bits i \<longleftrightarrow> bit_set bits i = Some True"

text \<open>The features the kernel reports for a type, in order.\<close>

definition features :: "EventFile \<Rightarrow> nat \<Rightarrow> nat list" where
  "features ef type = (if has_bit (zero_filled EV_MAX (ef_type_bits ef)) type
     then List.filter (has_bit (zero_filled ((KEY_MAX + 7) div 8) (ef_feat_bits ef type))) [0..<KEY_MAX] else [])"

text \<open>The kernel has no axis with a number from \<open>ABS_CNT\<close> or \<open>REL_CNT\<close> on.\<close>

definition kernel_ok :: "EventFile \<Rightarrow> bool" where
  "kernel_ok ef \<longleftrightarrow> (\<forall>i \<in> set (features ef EV_ABS). i < ABS_CNT) \<and> (\<forall>i \<in> set (features ef EV_REL). i < REL_CNT)"

lemma length_zero_filled [simp]: "length (zero_filled n bs) = n"
  by (simp add: zero_filled_def)

lemma bit_set_total:
  assumes "i div 8 < length bits" shows "bit_set bits i = Some (has_bit bits i)"
proof -
  have "bit_set bits i \<noteq> None" using assms by (simp add: bit_set_def load8_def load_def)
  then show ?thesis by (auto simp: has_bit_def)
qed

text \<open>Ids and indices go both ways.\<close>

definition indexed :: "(nat \<Rightarrow> 'a) \<Rightarrow> nat list \<Rightarrow> 'l::len word \<Rightarrow> 'a list \<Rightarrow> u16 list \<Rightarrow> nat \<Rightarrow> bool" where
  "indexed f ids n data indices cnt \<longleftrightarrow> unat n = length ids \<and> length ids \<le> length data \<and> take (length ids) data = map f ids \<and>
     length indices = cnt \<and> (\<forall>k < length ids. ids ! k < cnt \<and> indices ! (ids ! k) = of_nat k) \<and>
     (\<forall>i < cnt. i \<notin> set ids \<longrightarrow> indices ! i = no_index)"

fun add_features :: "(nat \<Rightarrow> 'a) \<Rightarrow> nat list \<Rightarrow> 'l::len word \<times> 'a list \<times> u16 list \<Rightarrow> ('l word \<times> 'a list \<times> u16 list) option" where
  "add_features f [] s = Some s"
| "add_features f (i # is) (n, d, m) = do { s \<leftarrow> add_feature (f i) i n d m; add_features f is s }"

lemma indexed_snoc:
  fixes n :: "'l::len word"
  assumes "indexed f ids n d m cnt" and "i < cnt" and "i \<notin> set ids"
    and "length ids < length d" and "length d < 2 ^ LENGTH('l)" and "LENGTH('l) \<le> 16"
  shows "\<exists>d' m'. add_feature (f i) i n d m = Some (n + 1, d', m') \<and> length d' = length d \<and>
    indexed f (ids @ [i]) (n + 1) d' m' cnt"
proof -
  have len: "unat n = length ids" "length m = cnt" using assms(1) by (simp_all add: indexed_def)
  have small: "length ids < 2 ^ 16" using assms(4-6) by (meson le_less_trans less_imp_le less_le_trans one_le_numeral power_increasing)
  have u: "unat (ucast n :: u16) = length ids"
    using len(1) small by (simp add: unsigned_ucast_eq take_bit_nat_eq_self)
  have w: "ucast n = (of_nat (length ids) :: u16)" by (simp flip: len(1))
  have s: "unat (n + 1) = Suc (length ids)"
    using len(1) assms(4,5) by (simp add: unat_word_ariths)
  let ?d = "d[length ids := f i]" and ?m = "m[i := ucast n]"
  have "take (Suc (length ids)) ?d = map f (ids @ [i])"
    using assms(1,4) by (simp add: take_Suc_conv_app_nth indexed_def)
  moreover have "?m ! ((ids @ [i]) ! k) = of_nat k \<and> (ids @ [i]) ! k < cnt" if "k < length (ids @ [i])" for k
  proof (cases "k = length ids")
    case True
    then show ?thesis using assms(2) len(2) w by simp
  next
    case False
    then have k: "ids ! k \<noteq> i" "k < length ids" using that assms(3) by auto
    then have "?m ! (ids ! k) = m ! (ids ! k)" by simp
    with k(2) show ?thesis using assms(1) by (simp add: indexed_def nth_append)
  qed
  moreover have "?m ! j = no_index" if "j < cnt" "j \<notin> set (ids @ [i])" for j
    using assms(1) that by (auto simp: indexed_def)
  ultimately have "indexed f (ids @ [i]) (n + 1) ?d ?m cnt" using s len(2) assms(4) by (auto simp: indexed_def)
  moreover have "add_feature (f i) i n d m = Some (n + 1, ?d, ?m)"
    using u assms(2,4) len(2) by (simp add: add_feature_def store_at_def)
  ultimately show ?thesis by auto
qed

lemma add_features_indexed:
  fixes n :: "'l::len word"
  assumes "indexed f ids n d m cnt" and "\<forall>i \<in> set is. i < cnt" and "distinct (ids @ is)"
    and "length (ids @ is) \<le> length d" and "length d < 2 ^ LENGTH('l)" and "LENGTH('l) \<le> 16"
  shows "\<exists>n' d' m'. add_features f is (n, d, m) = Some (n', d', m') \<and> length d' = length d \<and> indexed f (ids @ is) n' d' m' cnt"
  using assms
proof (induction "is" arbitrary: ids n d m)
  case (Cons i "is")
  obtain d' m' where 1: "add_feature (f i) i n d m = Some (n + 1, d', m')" "length d' = length d"
    "indexed f (ids @ [i]) (n + 1) d' m' cnt"
    using indexed_snoc [OF Cons.prems(1), of i] Cons.prems by auto
  from Cons.IH [OF 1(3)] Cons.prems 1(2) obtain n2 d2 m2 where
    "add_features f is (n + 1, d', m') = Some (n2, d2, m2)" "length d2 = length d" "indexed f (ids @ i # is) n2 d2 m2 cnt"
    by auto
  then show ?case using 1(1) by auto
qed simp

lemma indexed_empty: "indexed f [] 0 d (replicate cnt no_index) cnt"
  by (simp add: indexed_def)

text \<open>The loop over the features of a type adds those the kernel reports.\<close>

lemma setup_features_abs:
  "\<forall>i \<in> set is. i < KEY_MAX \<Longrightarrow> setup_features ef EV_ABS is (info, mapping) = do {
     (n, d, m) \<leftarrow> add_features (\<lambda>i. abs_of (ef_absinfo ef i) i)
       (List.filter (has_bit (zero_filled ((KEY_MAX + 7) div 8) (ef_feat_bits ef EV_ABS))) is)
       (info_abs_len info, info_abs info, abs_indices mapping);
     Some (info\<lparr>info_abs_len := n, info_abs := d\<rparr>, mapping\<lparr>abs_indices := m\<rparr>) }"
  by (induction "is" arbitrary: info mapping)
    (auto simp: bit_set_total setup_feature_def event_defs split: bind_split prod.split)

lemma setup_features_rel:
  "\<forall>i \<in> set is. i < KEY_MAX \<Longrightarrow> setup_features ef EV_REL is (info, mapping) = do {
     (n, d, m) \<leftarrow> add_features (\<lambda>i. \<lparr>rel_id = of_nat i\<rparr>)
       (List.filter (has_bit (zero_filled ((KEY_MAX + 7) div 8) (ef_feat_bits ef EV_REL))) is)
       (info_rel_len info, info_rel info, rel_indices mapping);
     Some (info\<lparr>info_rel_len := n, info_rel := d\<rparr>, mapping\<lparr>rel_indices := m\<rparr>) }"
  by (induction "is" arbitrary: info mapping)
    (auto simp: bit_set_total setup_feature_def event_defs split: bind_split prod.split)

lemma setup_features_key:
  "\<forall>i \<in> set is. i < KEY_MAX \<Longrightarrow> setup_features ef EV_KEY is (info, mapping) = do {
     (n, d, m) \<leftarrow> add_features (\<lambda>i. \<lparr>key_id = of_nat i\<rparr>)
       (List.filter (has_bit (zero_filled ((KEY_MAX + 7) div 8) (ef_feat_bits ef EV_KEY))) is)
       (info_key_len info, info_key info, key_indices mapping);
     Some (info\<lparr>info_key_len := n, info_key := d\<rparr>, mapping\<lparr>key_indices := m\<rparr>) }"
  by (induction "is" arbitrary: info mapping)
    (auto simp: bit_set_total setup_feature_def event_defs split: bind_split prod.split)

lemma setup_features_other:
  "type \<notin> {EV_ABS, EV_REL, EV_KEY} \<Longrightarrow> \<forall>i \<in> set is. i < KEY_MAX \<Longrightarrow> setup_features ef type is s = Some s"
  by (induction "is" arbitrary: s) (auto simp: bit_set_total setup_feature_def event_defs)

lemma add_features_all:
  fixes n :: "'l::len word"
  assumes "n = 0" and "m = replicate cnt no_index" and "\<forall>i \<in> set (features ef type). i < cnt" and "length (features ef type) \<le> length d"
    and "length d < 2 ^ LENGTH('l)" and "LENGTH('l) \<le> 16" and "has_bit (zero_filled EV_MAX (ef_type_bits ef)) type"
  shows "\<exists>n' d' m'. add_features f (List.filter (has_bit (zero_filled ((KEY_MAX + 7) div 8) (ef_feat_bits ef type))) [0..<KEY_MAX]) (n, d, m) =
      Some (n', d', m') \<and> length d' = length d \<and> indexed f (features ef type) n' d' m' cnt"
proof -
  have "indexed f [] n d m cnt" using assms(1,2) by (simp add: indexed_empty)
  from add_features_indexed [OF this, of "features ef type"] assms show ?thesis by (simp add: features_def)
qed

definition numbered :: "EventFile \<Rightarrow> DeviceInfo \<Rightarrow> DeviceMap \<Rightarrow> bool" where
  "numbered ef info mapping \<longleftrightarrow>
     indexed (\<lambda>i. abs_of (ef_absinfo ef i) i) (features ef EV_ABS) (info_abs_len info) (info_abs info) (abs_indices mapping) ABS_CNT \<and>
     indexed (\<lambda>i. \<lparr>rel_id = of_nat i\<rparr>) (features ef EV_REL) (info_rel_len info) (info_rel info) (rel_indices mapping) REL_CNT \<and>
     indexed (\<lambda>i. \<lparr>key_id = of_nat i\<rparr>) (features ef EV_KEY) (info_key_len info) (info_key info) (key_indices mapping) KEY_CNT"

lemma setup_types_append:
  "setup_types ef (xs @ ys) s = do { s \<leftarrow> setup_types ef xs s; setup_types ef ys s }"
  by (induction xs arbitrary: s) (auto split: bind_split)

lemma setup_types_other:
  "\<forall>t \<in> set types. t \<notin> {EV_ABS, EV_REL, EV_KEY} \<and> t < EV_MAX \<Longrightarrow> setup_types ef types s = Some s"
proof (induction types arbitrary: s)
  case (Cons t types)
  have "t < EV_MAX" using Cons.prems by simp
  then have "t div 8 < EV_MAX" by (meson div_le_dividend le_less_trans)
  then have b: "bit_set (zero_filled EV_MAX (ef_type_bits ef)) t = Some (has_bit (zero_filled EV_MAX (ef_type_bits ef)) t)"
    by (intro bit_set_total) simp
  have "setup_features ef t [0..<KEY_MAX] s = Some s" by (rule setup_features_other) (use Cons.prems in auto)
  with b Cons show ?case by simp
qed simp

lemma setup_types_one:
  "t < EV_MAX \<Longrightarrow> setup_types ef (t # types) s =
     (if has_bit (zero_filled EV_MAX (ef_type_bits ef)) t then do { s \<leftarrow> setup_features ef t [0..<KEY_MAX] s; setup_types ef types s }
      else setup_types ef types s)"
  using bit_set_total [of t "zero_filled EV_MAX (ef_type_bits ef)"] by (simp add: event_defs)

lemma few_features: "distinct (features ef type)" "\<forall>i \<in> set (features ef type). i < cnt \<Longrightarrow> length (features ef type) \<le> cnt"
proof -
  show d: "distinct (features ef type)" by (simp add: features_def)
  assume "\<forall>i \<in> set (features ef type). i < cnt"
  then have "set (features ef type) \<subseteq> {..<cnt}" by auto
  from card_mono [OF _ this] show "length (features ef type) \<le> cnt" using distinct_card [OF d] by simp
qed

lemma setup_key:
  assumes "info_arrays_ok info" and "info_key_len info = 0" and "key_indices mapping = replicate KEY_CNT no_index"
  shows "\<exists>n d m. setup_types ef (EV_KEY # types) (info, mapping) =
      setup_types ef types (info\<lparr>info_key_len := n, info_key := d\<rparr>, mapping\<lparr>key_indices := m\<rparr>) \<and> length d = 768 \<and>
    indexed (\<lambda>i. \<lparr>key_id = of_nat i\<rparr>) (features ef EV_KEY) n d m KEY_CNT"
proof (cases "has_bit (zero_filled EV_MAX (ef_type_bits ef)) EV_KEY")
  case True
  have small: "\<forall>i \<in> set (features ef EV_KEY). i < KEY_CNT" by (auto simp: features_def event_defs)
  have "length (features ef EV_KEY) \<le> length (info_key info)"
    using few_features(2) [OF small] assms(1) by (simp add: info_arrays_ok_def event_defs)
  from add_features_all [where f = "\<lambda>i. \<lparr>key_id = of_nat i\<rparr>", OF assms(2,3) small this _ _ True] assms(1) obtain n d m where
    "add_features (\<lambda>i. \<lparr>key_id = of_nat i\<rparr>) (List.filter (has_bit (zero_filled ((KEY_MAX + 7) div 8) (ef_feat_bits ef EV_KEY))) [0..<KEY_MAX])
      (info_key_len info, info_key info, key_indices mapping) = Some (n, d, m)" "length d = 768"
    "indexed (\<lambda>i. \<lparr>key_id = of_nat i\<rparr>) (features ef EV_KEY) n d m KEY_CNT" by (auto simp: info_arrays_ok_def)
  then show ?thesis using True setup_types_one [of EV_KEY ef types] setup_features_key [of "[0..<KEY_MAX]" ef info mapping]
    by (intro exI [of _ n] exI [of _ d] exI [of _ m]) (simp add: EV_KEY_def EV_MAX_def)
next
  case False
  have t: "(info\<lparr>info_key_len := info_key_len info, info_key := info_key info\<rparr>, mapping\<lparr>key_indices := key_indices mapping\<rparr>) = (info, mapping)"
    by simp
  have e: "setup_types ef (EV_KEY # types) (info, mapping) = setup_types ef types (info, mapping)"
    using False setup_types_one [of EV_KEY ef types "(info, mapping)"] by (simp add: EV_KEY_def EV_MAX_def)
  have "indexed (\<lambda>i. \<lparr>key_id = of_nat i\<rparr>) (features ef EV_KEY) (info_key_len info) (info_key info) (key_indices mapping) KEY_CNT"
    using False unfolding assms(2,3) by (simp add: features_def indexed_empty)
  then show ?thesis using assms(1)
    by (intro exI [of _ "info_key_len info"] exI [of _ "info_key info"] exI [of _ "key_indices mapping"])
      (simp only: t e info_arrays_ok_def simp_thms)
qed

lemma setup_rel:
  assumes "kernel_ok ef" and "info_arrays_ok info" and "info_rel_len info = 0" and "rel_indices mapping = replicate REL_CNT no_index"
  shows "\<exists>n d m. setup_types ef (EV_REL # types) (info, mapping) =
      setup_types ef types (info\<lparr>info_rel_len := n, info_rel := d\<rparr>, mapping\<lparr>rel_indices := m\<rparr>) \<and> length d = 16 \<and>
    indexed (\<lambda>i. \<lparr>rel_id = of_nat i\<rparr>) (features ef EV_REL) n d m REL_CNT"
proof (cases "has_bit (zero_filled EV_MAX (ef_type_bits ef)) EV_REL")
  case True
  have small: "\<forall>i \<in> set (features ef EV_REL). i < REL_CNT" using assms(1) by (simp add: kernel_ok_def)
  have "length (features ef EV_REL) \<le> length (info_rel info)"
    using few_features(2) [OF small] assms(2) by (simp add: info_arrays_ok_def event_defs)
  from add_features_all [where f = "\<lambda>i. \<lparr>rel_id = of_nat i\<rparr>", OF assms(3,4) small this _ _ True] assms(2) obtain n d m where
    "add_features (\<lambda>i. \<lparr>rel_id = of_nat i\<rparr>) (List.filter (has_bit (zero_filled ((KEY_MAX + 7) div 8) (ef_feat_bits ef EV_REL))) [0..<KEY_MAX])
      (info_rel_len info, info_rel info, rel_indices mapping) = Some (n, d, m)" "length d = 16"
    "indexed (\<lambda>i. \<lparr>rel_id = of_nat i\<rparr>) (features ef EV_REL) n d m REL_CNT" by (auto simp: info_arrays_ok_def)
  then show ?thesis using True setup_types_one [of EV_REL ef types] setup_features_rel [of "[0..<KEY_MAX]" ef info mapping]
    by (intro exI [of _ n] exI [of _ d] exI [of _ m]) (simp add: EV_REL_def EV_MAX_def)
next
  case False
  have t: "(info\<lparr>info_rel_len := info_rel_len info, info_rel := info_rel info\<rparr>, mapping\<lparr>rel_indices := rel_indices mapping\<rparr>) = (info, mapping)"
    by simp
  have e: "setup_types ef (EV_REL # types) (info, mapping) = setup_types ef types (info, mapping)"
    using False setup_types_one [of EV_REL ef types "(info, mapping)"] by (simp add: EV_REL_def EV_MAX_def)
  have "indexed (\<lambda>i. \<lparr>rel_id = of_nat i\<rparr>) (features ef EV_REL) (info_rel_len info) (info_rel info) (rel_indices mapping) REL_CNT"
    using False unfolding assms(3,4) by (simp add: features_def indexed_empty)
  then show ?thesis using assms(2)
    by (intro exI [of _ "info_rel_len info"] exI [of _ "info_rel info"] exI [of _ "rel_indices mapping"])
      (simp only: t e info_arrays_ok_def simp_thms)
qed

lemma setup_abs:
  assumes "kernel_ok ef" and "info_arrays_ok info" and "info_abs_len info = 0" and "abs_indices mapping = replicate ABS_CNT no_index"
  shows "\<exists>n d m. setup_types ef (EV_ABS # types) (info, mapping) =
      setup_types ef types (info\<lparr>info_abs_len := n, info_abs := d\<rparr>, mapping\<lparr>abs_indices := m\<rparr>) \<and> length d = 64 \<and>
    indexed (\<lambda>i. abs_of (ef_absinfo ef i) i) (features ef EV_ABS) n d m ABS_CNT"
proof (cases "has_bit (zero_filled EV_MAX (ef_type_bits ef)) EV_ABS")
  case True
  have small: "\<forall>i \<in> set (features ef EV_ABS). i < ABS_CNT" using assms(1) by (simp add: kernel_ok_def)
  have "length (features ef EV_ABS) \<le> length (info_abs info)"
    using few_features(2) [OF small] assms(2) by (simp add: info_arrays_ok_def event_defs)
  from add_features_all [where f = "\<lambda>i. abs_of (ef_absinfo ef i) i", OF assms(3,4) small this _ _ True] assms(2) obtain n d m where
    "add_features (\<lambda>i. abs_of (ef_absinfo ef i) i) (List.filter (has_bit (zero_filled ((KEY_MAX + 7) div 8) (ef_feat_bits ef EV_ABS))) [0..<KEY_MAX])
      (info_abs_len info, info_abs info, abs_indices mapping) = Some (n, d, m)" "length d = 64"
    "indexed (\<lambda>i. abs_of (ef_absinfo ef i) i) (features ef EV_ABS) n d m ABS_CNT" by (auto simp: info_arrays_ok_def)
  then show ?thesis using True setup_types_one [of EV_ABS ef types] setup_features_abs [of "[0..<KEY_MAX]" ef info mapping]
    by (intro exI [of _ n] exI [of _ d] exI [of _ m]) (simp add: EV_ABS_def EV_MAX_def)
next
  case False
  have t: "(info\<lparr>info_abs_len := info_abs_len info, info_abs := info_abs info\<rparr>, mapping\<lparr>abs_indices := abs_indices mapping\<rparr>) = (info, mapping)"
    by simp
  have e: "setup_types ef (EV_ABS # types) (info, mapping) = setup_types ef types (info, mapping)"
    using False setup_types_one [of EV_ABS ef types "(info, mapping)"] by (simp add: EV_ABS_def EV_MAX_def)
  have "indexed (\<lambda>i. abs_of (ef_absinfo ef i) i) (features ef EV_ABS) (info_abs_len info) (info_abs info) (abs_indices mapping) ABS_CNT"
    using False unfolding assms(3,4) by (simp add: features_def indexed_empty)
  then show ?thesis using assms(2)
    by (intro exI [of _ "info_abs_len info"] exI [of _ "info_abs info"] exI [of _ "abs_indices mapping"])
      (simp only: t e info_arrays_ok_def simp_thms)
qed

lemma setup_device_numbers:
  assumes "kernel_ok ef" and "info_arrays_ok (pd_info dev)"
  shows "\<exists>info mapping. setup_device ef dev = Some (dev\<lparr>pd_info := info, pd_mapping := mapping\<rparr>) \<and>
    info_arrays_ok info \<and> numbered ef info mapping"
proof -
  let ?i0 = "(pd_info dev)\<lparr>info_abs_len := 0, info_rel_len := 0, info_key_len := 0\<rparr>"
  have "[0..<EV_MAX] = [0] @ EV_KEY # EV_REL # EV_ABS # [4..<EV_MAX]"
    by (simp add: event_defs upt_conv_Cons)
  then have "setup_types ef [0..<EV_MAX] (?i0, empty_mapping) =
      setup_types ef (EV_KEY # EV_REL # EV_ABS # [4..<EV_MAX]) (?i0, empty_mapping)"
    using setup_types_other [of "[0]"] by (simp only: setup_types_append) (simp add: event_defs)
  moreover obtain kn kd km where k: "setup_types ef (EV_KEY # EV_REL # EV_ABS # [4..<EV_MAX]) (?i0, empty_mapping) =
      setup_types ef (EV_REL # EV_ABS # [4..<EV_MAX]) (?i0\<lparr>info_key_len := kn, info_key := kd\<rparr>, empty_mapping\<lparr>key_indices := km\<rparr>)"
      "length kd = 768" "indexed (\<lambda>i. \<lparr>key_id = of_nat i\<rparr>) (features ef EV_KEY) kn kd km KEY_CNT"
    using setup_key [of ?i0 empty_mapping ef "EV_REL # EV_ABS # [4..<EV_MAX]"] assms by (auto simp: info_arrays_ok_def empty_mapping_def)
  let ?i1 = "?i0\<lparr>info_key_len := kn, info_key := kd\<rparr>" and ?m1 = "empty_mapping\<lparr>key_indices := km\<rparr>"
  obtain rn rd rm where r: "setup_types ef (EV_REL # EV_ABS # [4..<EV_MAX]) (?i1, ?m1) =
      setup_types ef (EV_ABS # [4..<EV_MAX]) (?i1\<lparr>info_rel_len := rn, info_rel := rd\<rparr>, ?m1\<lparr>rel_indices := rm\<rparr>)"
      "length rd = 16" "indexed (\<lambda>i. \<lparr>rel_id = of_nat i\<rparr>) (features ef EV_REL) rn rd rm REL_CNT"
    using setup_rel [of ef ?i1 ?m1 "EV_ABS # [4..<EV_MAX]"] assms k(2) by (auto simp: info_arrays_ok_def empty_mapping_def)
  let ?i2 = "?i1\<lparr>info_rel_len := rn, info_rel := rd\<rparr>" and ?m2 = "?m1\<lparr>rel_indices := rm\<rparr>"
  obtain an ad am where a: "setup_types ef (EV_ABS # [4..<EV_MAX]) (?i2, ?m2) =
      setup_types ef [4..<EV_MAX] (?i2\<lparr>info_abs_len := an, info_abs := ad\<rparr>, ?m2\<lparr>abs_indices := am\<rparr>)"
      "length ad = 64" "indexed (\<lambda>i. abs_of (ef_absinfo ef i) i) (features ef EV_ABS) an ad am ABS_CNT"
    using setup_abs [of ef ?i2 ?m2 "[4..<EV_MAX]"] assms k(2) r(2) by (auto simp: info_arrays_ok_def empty_mapping_def)
  let ?i3 = "?i2\<lparr>info_abs_len := an, info_abs := ad\<rparr>" and ?m3 = "?m2\<lparr>abs_indices := am\<rparr>"
  have "setup_types ef [4..<EV_MAX] (?i3, ?m3) = Some (?i3, ?m3)"
    by (rule setup_types_other) (auto simp: event_defs)
  ultimately have "setup_types ef [0..<EV_MAX] (?i0, empty_mapping) = Some (?i3, ?m3)" using k(1) r(1) a(1) by simp
  moreover have "numbered ef ?i3 ?m3" using k(3) r(3) a(3) by (simp add: numbered_def)
  moreover have "info_arrays_ok ?i3" using k(2) r(2) a(2) by (simp add: info_arrays_ok_def)
  ultimately show ?thesis by (simp add: setup_device_def) blast
qed

section \<open>Addresses\<close>

lemma nibble_or:
  fixes a :: u64 and d :: byte
  assumes "d < 16"
  shows "push_bit 4 a OR ucast d = push_bit 4 a + ucast d"
proof -
  have "\<not> bit d n" if "4 \<le> n" for n
  proof -
    have "unat d < 16" using assms by (simp add: word_less_nat_alt)
    then have "d = take_bit 4 d" by (simp add: word_unat_eq_iff unsigned_take_bit_eq take_bit_nat_eq_self)
    then show ?thesis using that by (metis bit_take_bit_iff not_less)
  qed
  then have "push_bit 4 a AND ucast d = 0" by (intro bit_eqI) (auto simp: bit_simps not_le)
  then show ?thesis by (simp add: disjunctive_add_eq_or)
qed

lemma uniq_loop_parse: "uniq_loop mac s = Some v \<Longrightarrow> parse_uniq_loop mac s = v"
proof (induction s arbitrary: mac)
  case (Cons c s)
  have "c - 0x30 < 16" if "0x30 \<le> c" "c \<le> 0x39" using that by unat_arith
  moreover have "c - 0x61 + 10 < 16" if "0x61 \<le> c" "c \<le> 0x66" using that by unat_arith
  moreover have "c - 0x41 + 10 < 16" if "0x41 \<le> c" "c \<le> 0x46" using that by unat_arith
  ultimately show ?case using Cons by (auto simp: nibble_or [symmetric] split: if_splits)
qed simp

text \<open>C29: The filter on the address of a device compares like with like: a string that the configuration
  reads as an address is read by the scanner, from the kernel's buffer, as the same number.\<close>

theorem addresses_agree:
  assumes "tsf_uniq_to_u64 s = Some v"
  shows "parse_uniq (zero_filled 17 s) = v"
proof -
  have "length s = 17" "uniq_loop 0 s = Some v" using assms by (auto simp: tsf_uniq_to_u64_def split: if_splits)
  then show ?thesis by (simp add: parse_uniq_def zero_filled_def uniq_loop_parse)
qed

lemma addresses_agree_witness:
  "parse_uniq (zero_filled 17 (format_uniq 0xAABBCCDDEE0F)) = 0xAABBCCDDEE0F"
  by (rule addresses_agree) code_simp

text \<open>A filter for the vendor or product number 0 accepts every device, as if there were no filter:
  the number is compared only when it is positive, while a missing one is -1.\<close>

theorem zero_filters_nothing:
  "filter_event ef (flt\<lparr>flt_vendor := 0\<rparr>) uniq = filter_event ef (flt\<lparr>flt_vendor := - 1\<rparr>) uniq \<and>
   filter_event ef (flt\<lparr>flt_product := 0\<rparr>) uniq = filter_event ef (flt\<lparr>flt_product := - 1\<rparr>) uniq"
proof -
  have z: "(0 :: u32) <s 0 \<longleftrightarrow> False" "(0 :: u32) <s - 1 \<longleftrightarrow> False" by simp_all
  show ?thesis
    by (cases flt) (simp only: filter_event_def ControllerFilter.select_convs ControllerFilter.update_convs z simp_thms if_False)
qed

section \<open>A device with features\<close>

text \<open>A device with the keys 0 and 9 and the axes 0 and 1.\<close>

definition sample_pad :: EventFile where
  "sample_pad = \<lparr>ef_name = str_event @ [0x30], ef_link = True, ef_fd = 4, ef_dev_name = None,
     ef_device_dir = None, ef_uniq = [], ef_vendor = 0, ef_product = 0, ef_type_bits = [0x0A],
     ef_feat_bits = (\<lambda>t. if t = EV_ABS then [3] else if t = EV_KEY then [1, 2] else []),
     ef_absinfo = (\<lambda>i. \<lparr>ai_minimum = 0, ai_maximum = 255, ai_fuzz = 0, ai_flat = 0, ai_resolution = of_nat i\<rparr>),
     ef_hidraw_dir = None, ef_hidraw_fd = - 1\<rparr>"

lemma no_bit_beyond: "length bs \<le> i div 8 \<Longrightarrow> \<not> has_bit (zero_filled n bs) i"
  by (auto simp: has_bit_def bit_set_def load8_def load_def zero_filled_def take_Cons' nth_append le_val.simps
      simp flip: hd_drop_conv_nth)

lemma few_bytes:
  assumes "8 * length (ef_feat_bits ef type) \<le> KEY_MAX"
  shows "features ef type = (if has_bit (zero_filled EV_MAX (ef_type_bits ef)) type
     then List.filter (has_bit (zero_filled ((KEY_MAX + 7) div 8) (ef_feat_bits ef type))) [0..<8 * length (ef_feat_bits ef type)] else [])"
proof -
  let ?n = "8 * length (ef_feat_bits ef type)"
  have "[0..<KEY_MAX] = [0..<?n] @ [?n..<KEY_MAX]" using assms by (metis le0 le_add_diff_inverse upt_add_eq_append)
  moreover have "List.filter (has_bit (zero_filled ((KEY_MAX + 7) div 8) (ef_feat_bits ef type))) [?n..<KEY_MAX] = []"
    by (auto simp: filter_empty_conv intro!: no_bit_beyond)
  ultimately show ?thesis by (simp add: features_def)
qed

lemma sample_pad_features:
  "features sample_pad EV_ABS = [0, 1]" "features sample_pad EV_REL = []" "features sample_pad EV_KEY = [0, 9]"
  by (subst few_bytes, simp add: sample_pad_def event_defs, code_simp)+

definition sample_device :: PhysicalDevice where
  "sample_device = \<lparr>pd_event = 4, pd_hidraw = - 1, pd_uniq = 0, pd_id = 0, pd_name = NoName, pd_mapping = empty_mapping,
     pd_info = \<lparr>info_slot = 0, info_index = 0, info_abs_len = 0, info_abs = replicate 64 (abs_of (ef_absinfo sample_pad 0) 0),
       info_rel_len = 0, info_rel = replicate 16 \<lparr>rel_id = 0\<rparr>, info_key_len = 0, info_key = replicate 768 \<lparr>key_id = 0\<rparr>\<rparr>\<rparr>"

lemma sample_device_ok: "kernel_ok sample_pad" "info_arrays_ok (pd_info sample_device)"
  by (simp add: kernel_ok_def sample_pad_features, simp add: event_defs) (simp add: sample_device_def info_arrays_ok_def)



end
