(* ===== verification/Device_Pool.thy ===== *)
theory Device_Pool
  imports Hid_Correct "HOL-Library.Multiset"
begin

text \<open>
  The device scanner and the threads that serve clients, interleaved: \<^verbatim>\<open>hid_thread\<close> of
  \<^verbatim>\<open>hid.c\<close> and the loop of \<^verbatim>\<open>device_thread\<close> of \<^verbatim>\<open>server.c\<close> with the lists of devices between
  them. A step is one critical section. A device that is not shared has one user at a time, as long
  as no thread ends between forgetting a device and getting the next one.
\<close>

section \<open>Transition systems\<close>

inductive reachable :: "'s \<Rightarrow> ('s \<Rightarrow> 'l \<Rightarrow> 's \<Rightarrow> bool) \<Rightarrow> ('l \<Rightarrow> bool) \<Rightarrow> 's \<Rightarrow> bool" for init step ok where
  start: "reachable init step ok init"
| next_state: "reachable init step ok s \<Longrightarrow> step s l s' \<Longrightarrow> ok l \<Longrightarrow> reachable init step ok s'"

locale inductive_invariant =
  fixes init :: 's and step :: "'s \<Rightarrow> 'l \<Rightarrow> 's \<Rightarrow> bool" and ok :: "'l \<Rightarrow> bool" and inv :: "'s \<Rightarrow> bool"
  assumes holds_at_start: "inv init"
    and kept_by_steps: "inv s \<Longrightarrow> step s l s' \<Longrightarrow> ok l \<Longrightarrow> inv s'"
begin

lemma always: "reachable init step ok s \<Longrightarrow> inv s"
  by (induction rule: reachable.induct) (auto intro: holds_at_start kept_by_steps)

end

section \<open>The threads\<close>

text \<open>A thread waits in \<open>get_device\<close>, serves a device, has forgotten its device but not yet told the
  client and asked for the next, or has ended.\<close>

datatype Phase = Waiting | Serving Controller u8 | Lost Controller | Ended

record Pool =
  po_hid :: HidState
  po_threads :: "nat \<Rightarrow> Phase"

datatype Action = Poll EventFile | Take nat | Stop nat | Lose nat | Resume nat | Leave nat | Leave_lost nat

inductive pool_step :: "ServerConfigController list \<Rightarrow> DeviceInfo \<Rightarrow> (nat \<Rightarrow> byte list list) \<Rightarrow> Pool \<Rightarrow> Action \<Rightarrow> Pool \<Rightarrow> bool"
  for config raw tags where
  poll: "poll_entry config raw ef (po_hid s) = Some h \<Longrightarrow> pool_step config raw tags s (Poll ef) (s\<lparr>po_hid := h\<rparr>)"
| take: "po_threads s t = Waiting \<Longrightarrow> get_device (tags t) False (po_hid s) = Some (Got c i, h) \<Longrightarrow>
    pool_step config raw tags s (Take t) (s\<lparr>po_hid := h, po_threads := (po_threads s)(t := Serving c i)\<rparr>)"
| stop: "po_threads s t = Waiting \<Longrightarrow> get_device (tags t) True (po_hid s) = Some (Stopped, h) \<Longrightarrow>
    pool_step config raw tags s (Stop t) (s\<lparr>po_hid := h, po_threads := (po_threads s)(t := Ended)\<rparr>)"
| lose: "po_threads s t = Serving c i \<Longrightarrow> forget_device c (po_hid s) = Some h \<Longrightarrow>
    pool_step config raw tags s (Lose t) (s\<lparr>po_hid := h, po_threads := (po_threads s)(t := Lost c)\<rparr>)"
| resume: "po_threads s t = Lost c \<Longrightarrow> pool_step config raw tags s (Resume t) (s\<lparr>po_threads := (po_threads s)(t := Waiting)\<rparr>)"
| leave: "po_threads s t = Serving c i \<Longrightarrow>
    pool_step config raw tags s (Leave t) (s\<lparr>po_hid := return_device c (po_hid s), po_threads := (po_threads s)(t := Ended)\<rparr>)"
| leave_lost: "po_threads s t = Lost c \<Longrightarrow>
    pool_step config raw tags s (Leave_lost t) (s\<lparr>po_hid := return_device c (po_hid s), po_threads := (po_threads s)(t := Ended)\<rparr>)"

inductive_simps poll_step_iff: "pool_step config raw tags s (Poll ef) s'"
inductive_simps take_step_iff: "pool_step config raw tags s (Take t) s'"
inductive_simps lose_step_iff: "pool_step config raw tags s (Lose t) s'"
inductive_simps leave_lost_step_iff: "pool_step config raw tags s (Leave_lost t) s'"

definition pool_start :: Pool where
  "pool_start = \<lparr>po_hid = poll_devices_init, po_threads = (\<lambda>_. Waiting)\<rparr>"

text \<open>No thread ends in the window between forgetting a device and the next one.\<close>

definition clean :: "Action \<Rightarrow> bool" where
  "clean a \<longleftrightarrow> (\<forall>t. a \<noteq> Leave_lost t)"

section \<open>Handing out a device\<close>

lemma find_device_bounds:
  "find_device tags cs i = Some (Some (k, j)) \<Longrightarrow> i \<le> k \<and> k < i + length cs"
proof (induction cs arbitrary: i)
  case (Cons c cs)
  obtain m where m: "match_tags (ctr_tag (c_ctr c)) tags = Some m" using Cons.prems by (auto simp: bind_eq_Some_conv)
  show ?case
  proof (cases m)
    case None
    then show ?thesis using Cons.IH [of "i + 1"] Cons.prems m by auto
  next
    case (Some x)
    then show ?thesis using Cons.prems m by auto
  qed
qed simp

lemma get_device_Got:
  assumes "get_device tags stop h = Some (Got c i, h')"
  shows "(\<exists>xs ys. hs_available h = xs @ c # ys \<and> h' = h\<lparr>hs_available := xs @ ys\<rparr>) \<or> (c \<in> set (hs_cloneable h) \<and> h' = h)"
proof -
  obtain a where a: "find_device tags (hs_available h) 0 = Some a" "\<not> stop"
    using assms by (auto simp: get_device_def bind_eq_Some_conv split: if_splits)
  show ?thesis
  proof (cases a)
    case (Some x)
    obtain k j where x: "x = (k, j)" by fastforce
    have k: "k < length (hs_available h)" using find_device_bounds a Some x by fastforce
    have "c = hs_available h ! k" "h' = h\<lparr>hs_available := take k (hs_available h) @ drop (Suc k) (hs_available h)\<rparr>"
      using assms a Some x by (simp_all add: get_device_def)
    then show ?thesis using id_take_nth_drop [OF k] by blast
  next
    case None
    then obtain k j where "find_device tags (hs_cloneable h) 0 = Some (Some (k, j))" "c = hs_cloneable h ! k" "h' = h"
      using assms a by (auto simp: get_device_def bind_eq_Some_conv split: option.splits)
    then show ?thesis using find_device_bounds by fastforce
  qed
qed

lemma poll_entry_cases:
  assumes "poll_entry config raw ef h = Some h'"
  obtains "hs_known h' = hs_known h" "hs_available h' = hs_available h" "hs_cloneable h' = hs_cloneable h"
  | c where "hs_known h' = hs_known h @ [pd_id (c_dev c)]" "pd_id (c_dev c) \<notin> set (hs_known h)"
      "if ctr_duplicate (c_ctr c) then hs_cloneable h' = hs_cloneable h @ [c] \<and> hs_available h' = hs_available h
       else hs_available h' = hs_available h @ [c] \<and> hs_cloneable h' = hs_cloneable h"
proof (cases "ef_link ef \<and> starts_with str_event (ef_name ef) \<and> \<not> ef_fd ef < 0")
  case False
  then have "h' = h" using assms by (auto simp: poll_entry_def split: if_splits)
  then show thesis using that(1) by simp
next
  case True
  let ?id = "parse_event_name (ef_name ef)" and ?uniq = "parse_uniq (zero_filled 17 (ef_uniq ef))"
  obtain found where f: "find_controller ef ?uniq config = Some found"
    using assms True by (auto simp: poll_entry_def Let_def bind_eq_Some_conv)
  show thesis
  proof (cases "found = None \<or> ?id \<in> set (hs_known h)")
    case skip: True
    then have "h' = close_fd (ef_fd ef) h"
      using assms True f by (auto simp: poll_entry_def Let_def split: option.splits)
    then show thesis using that(1) by (simp add: close_fd_def)
  next
    case new: False
    then obtain ctr where ctr: "found = Some ctr" by (cases found) auto
    obtain hidraw where r: "find_hidraw ef ctr = Some hidraw"
      using assms True f ctr new by (auto simp: poll_entry_def Let_def bind_eq_Some_conv)
    show thesis
    proof (cases hidraw)
      case None
      then have "h' = close_fd (ef_fd ef) h" using assms True f ctr new r by (simp add: poll_entry_def Let_def)
      then show thesis using that(1) by (simp add: close_fd_def)
    next
      case (Some fd)
      let ?dev = "\<lparr>pd_event = ef_fd ef, pd_hidraw = fd, pd_uniq = ?uniq, pd_id = ?id,
        pd_name = device_name ef, pd_mapping = empty_mapping, pd_info = raw\<rparr>"
      obtain dev where d: "setup_device ef ?dev = Some dev"
        using assms True f ctr new r Some by (auto simp: poll_entry_def Let_def bind_eq_Some_conv)
      then have "pd_id dev = ?id" by (auto simp: setup_device_def bind_eq_Some_conv)
      then show thesis using assms True f ctr new r Some d
        by (intro that(2) [of "\<lparr>c_dev = dev, c_ctr = ctr\<rparr>"]) (auto simp: poll_entry_def Let_def split: if_splits)
    qed
  qed
qed

section \<open>One user at a time\<close>

definition device_ids :: "Controller list \<Rightarrow> u64 list" where
  "device_ids cs = map (\<lambda>c. pd_id (c_dev c)) cs"

lemma device_ids_simps [simp]:
  "device_ids [] = []" "device_ids (c # cs) = pd_id (c_dev c) # device_ids cs" "device_ids (cs @ ds) = device_ids cs @ device_ids ds"
  by (simp_all add: device_ids_def)

lemma device_ids_member: "c \<in> set cs \<Longrightarrow> pd_id (c_dev c) \<in> set (device_ids cs)"
  by (simp add: device_ids_def)

text \<open>The device a thread holds for itself.\<close>

definition held :: "Pool \<Rightarrow> nat \<Rightarrow> u64 option" where
  "held s t = (case po_threads s t of
     Serving c i \<Rightarrow> if ctr_duplicate (c_ctr c) then None else Some (pd_id (c_dev c)) | _ \<Rightarrow> None)"

definition lists_ok :: "HidState \<Rightarrow> bool" where
  "lists_ok h \<longleftrightarrow> distinct (hs_known h) \<and> distinct (device_ids (hs_available h)) \<and>
     set (device_ids (hs_available h)) \<subseteq> set (hs_known h) \<and> set (device_ids (hs_cloneable h)) \<subseteq> set (hs_known h) \<and>
     set (device_ids (hs_available h)) \<inter> set (device_ids (hs_cloneable h)) = {} \<and>
     (\<forall>c \<in> set (hs_available h). \<not> ctr_duplicate (c_ctr c)) \<and> (\<forall>c \<in> set (hs_cloneable h). ctr_duplicate (c_ctr c))"

definition held_ok :: "Pool \<Rightarrow> bool" where
  "held_ok s \<longleftrightarrow> (\<forall>t id. held s t = Some id \<longrightarrow> id \<in> set (hs_known (po_hid s)) \<and> id \<notin> set (device_ids (hs_available (po_hid s))) \<and>
       id \<notin> set (device_ids (hs_cloneable (po_hid s))) \<and> (\<forall>t'. held s t' = Some id \<longrightarrow> t' = t)) \<and>
     (\<forall>t c i. po_threads s t = Serving c i \<longrightarrow> ctr_duplicate (c_ctr c) \<longrightarrow> c \<in> set (hs_cloneable (po_hid s)))"

definition exclusive :: "Pool \<Rightarrow> bool" where
  "exclusive s \<longleftrightarrow> lists_ok (po_hid s) \<and> held_ok s"

lemma held_update:
  "held (s\<lparr>po_hid := h\<rparr>) t = held s t"
  "held (s\<lparr>po_threads := (po_threads s)(t := p)\<rparr>) t' = (if t' = t then (case p of
     Serving c i \<Rightarrow> if ctr_duplicate (c_ctr c) then None else Some (pd_id (c_dev c)) | _ \<Rightarrow> None) else held s t')"
  "held (s\<lparr>po_hid := h, po_threads := (po_threads s)(t := p)\<rparr>) t' = (if t' = t then (case p of
     Serving c i \<Rightarrow> if ctr_duplicate (c_ctr c) then None else Some (pd_id (c_dev c)) | _ \<Rightarrow> None) else held s t')"
  by (simp_all add: held_def)

lemma exclusive_poll:
  assumes "exclusive s" and "poll_entry config raw ef (po_hid s) = Some h"
  shows "exclusive (s\<lparr>po_hid := h\<rparr>)"
  using assms(2)
proof (cases rule: poll_entry_cases)
  case 1
  then show ?thesis using assms(1) by (simp add: exclusive_def lists_ok_def held_ok_def held_update)
next
  case (2 c)
  have known: "held s t = Some id \<Longrightarrow> id \<in> set (hs_known (po_hid s))" for t id
    using assms(1) by (simp add: exclusive_def held_ok_def)
  show ?thesis
  proof (cases "ctr_duplicate (c_ctr c)")
    case True
    then have h: "hs_cloneable h = hs_cloneable (po_hid s) @ [c]" "hs_available h = hs_available (po_hid s)" using 2 by auto
    have "lists_ok h" using assms(1) 2 True h by (auto simp: exclusive_def lists_ok_def)
    moreover have "held_ok (s\<lparr>po_hid := h\<rparr>)" using assms(1) 2 h known by (auto simp: exclusive_def held_ok_def held_update)
    ultimately show ?thesis by (simp add: exclusive_def)
  next
    case False
    then have h: "hs_available h = hs_available (po_hid s) @ [c]" "hs_cloneable h = hs_cloneable (po_hid s)" using 2 by auto
    have "lists_ok h" using assms(1) 2 False h by (auto simp: exclusive_def lists_ok_def)
    moreover have "held_ok (s\<lparr>po_hid := h\<rparr>)" using assms(1) 2 h known by (auto simp: exclusive_def held_ok_def held_update)
    ultimately show ?thesis by (simp add: exclusive_def)
  qed
qed

lemma exclusive_take:
  assumes "exclusive s" and "po_threads s t = Waiting" and "get_device tags stop (po_hid s) = Some (Got c i, h)"
  shows "exclusive (s\<lparr>po_hid := h, po_threads := (po_threads s)(t := Serving c i)\<rparr>)"
proof -
  consider xs ys where "hs_available (po_hid s) = xs @ c # ys" "h = (po_hid s)\<lparr>hs_available := xs @ ys\<rparr>"
    | "c \<in> set (hs_cloneable (po_hid s))" "h = po_hid s"
    using get_device_Got [OF assms(3)] by blast
  then show ?thesis
  proof cases
    case (1 xs ys)
    have other: "held s t' \<noteq> Some (pd_id (c_dev c))" for t'
      using assms(1) 1(1) by (auto simp: exclusive_def held_ok_def)
    have "lists_ok h" using assms(1) 1 by (auto simp: exclusive_def lists_ok_def)
    moreover have "held_ok (s\<lparr>po_hid := h, po_threads := (po_threads s)(t := Serving c i)\<rparr>)"
      using assms(1) 1 other by (auto simp: exclusive_def held_ok_def held_update lists_ok_def split: if_splits)
    ultimately show ?thesis by (simp add: exclusive_def)
  next
    case 2
    then have "ctr_duplicate (c_ctr c)" using assms(1) by (auto simp: exclusive_def lists_ok_def)
    then show ?thesis using assms(1) 2 by (auto simp: exclusive_def held_ok_def held_update split: if_splits)
  qed
qed

lemma exclusive_release:
  assumes "exclusive s" and "\<And>c i. p \<noteq> Serving c i"
  shows "exclusive (s\<lparr>po_threads := (po_threads s)(t := p)\<rparr>)"
  using assms by (cases p) (auto simp: exclusive_def held_ok_def held_update split: if_splits)

lemma exclusive_lose:
  assumes "exclusive s" and "po_threads s t = Serving c i" and "forget_device c (po_hid s) = Some h"
  shows "exclusive (s\<lparr>po_hid := h, po_threads := (po_threads s)(t := Lost c)\<rparr>)"
proof -
  have "c \<in> set (hs_cloneable (po_hid s))" if "ctr_duplicate (c_ctr c)"
    using assms(1,2) that unfolding exclusive_def held_ok_def by blast
  then have own: "\<not> ctr_duplicate (c_ctr c)" using assms(3) by (auto simp: forget_device_def split: if_splits)
  then have h: "hs_known h = remove1 (pd_id (c_dev c)) (hs_known (po_hid s))" "hs_available h = hs_available (po_hid s)"
    "hs_cloneable h = hs_cloneable (po_hid s)"
    using assms(3) by (auto simp: forget_device_def bind_eq_Some_conv split: DeviceName.splits)
  have mine: "held s t = Some (pd_id (c_dev c))" using assms(2) own by (simp add: held_def)
  then have away: "pd_id (c_dev c) \<notin> set (device_ids (hs_available (po_hid s)))" "pd_id (c_dev c) \<notin> set (device_ids (hs_cloneable (po_hid s)))"
    "held s t' = Some (pd_id (c_dev c)) \<longrightarrow> t' = t" for t'
    using assms(1) by (auto simp: exclusive_def held_ok_def)
  have known: "set (hs_known h) = set (hs_known (po_hid s)) - {pd_id (c_dev c)}" "distinct (hs_known h)"
    using assms(1) h(1) by (auto simp: exclusive_def lists_ok_def)
  have "lists_ok h" using assms(1) h away known by (auto simp: exclusive_def lists_ok_def)
  moreover have "held_ok (s\<lparr>po_hid := h, po_threads := (po_threads s)(t := Lost c)\<rparr>)"
    using assms(1) h away(3) known by (auto simp: exclusive_def held_ok_def held_update split: if_splits)
  ultimately show ?thesis by (simp add: exclusive_def)
qed

lemma exclusive_leave:
  assumes "exclusive s" and "po_threads s t = Serving c i"
  shows "exclusive (s\<lparr>po_hid := return_device c (po_hid s), po_threads := (po_threads s)(t := Ended)\<rparr>)"
proof (cases "ctr_duplicate (c_ctr c)")
  case True
  then show ?thesis using assms(1) by (auto simp: return_device_def exclusive_def held_ok_def held_update split: if_splits)
next
  case False
  then have mine: "held s t = Some (pd_id (c_dev c))" using assms(2) by (simp add: held_def)
  have other: "held s t' \<noteq> Some (pd_id (c_dev c))" if "t' \<noteq> t" for t'
    using assms(1) mine that by (auto simp: exclusive_def held_ok_def)
  have "lists_ok (return_device c (po_hid s))"
    using assms(1) mine False by (auto simp: return_device_def exclusive_def lists_ok_def held_ok_def)
  moreover have "held_ok (s\<lparr>po_hid := return_device c (po_hid s), po_threads := (po_threads s)(t := Ended)\<rparr>)"
    using assms(1) other False by (auto simp: return_device_def exclusive_def held_ok_def held_update split: if_splits)
  ultimately show ?thesis by (simp add: exclusive_def)
qed

lemma exclusive_start: "exclusive pool_start"
  by (simp add: exclusive_def lists_ok_def held_ok_def held_def pool_start_def poll_devices_init_def)

lemma exclusive_step:
  assumes "exclusive s" and "pool_step config raw tags s a s'" and "clean a"
  shows "exclusive s'"
  using assms(2)
proof (cases rule: pool_step.cases)
  case (poll ef h)
  then show ?thesis using exclusive_poll [OF assms(1)] by simp
next
  case (take t c i h)
  then show ?thesis using exclusive_take [OF assms(1)] by simp
next
  case (stop t h)
  then have "h = po_hid s" by (simp add: get_device_def)
  then show ?thesis using stop exclusive_release [OF assms(1), of Ended t] by simp
next
  case (lose t c i h)
  then show ?thesis using exclusive_lose [OF assms(1)] by simp
next
  case (resume t c)
  then show ?thesis using exclusive_release [OF assms(1), of Waiting t] by simp
next
  case (leave t c i)
  then show ?thesis using exclusive_leave [OF assms(1)] by simp
next
  case (leave_lost t c)
  then show ?thesis using assms(3) by (simp add: clean_def)
qed

interpretation pool: inductive_invariant pool_start "pool_step config raw tags" clean exclusive
  for config raw tags
  by unfold_locales (auto intro: exclusive_start exclusive_step)

section \<open>A sample device\<close>

text \<open>The entry \<open>event5\<close>, a device without features, opened as the given descriptor, and a configuration
  that takes every device under the tag \<open>T\<close>.\<close>

definition sample_file :: "int \<Rightarrow> EventFile" where
  "sample_file fd = \<lparr>ef_name = str_event @ [0x35], ef_link = True, ef_fd = fd, ef_dev_name = Some [0x50],
     ef_device_dir = None, ef_uniq = [], ef_vendor = 0, ef_product = 0, ef_type_bits = [], ef_feat_bits = (\<lambda>_. []),
     ef_absinfo = (\<lambda>_. \<lparr>ai_minimum = 0, ai_maximum = 0, ai_fuzz = 0, ai_flat = 0, ai_resolution = 0\<rparr>),
     ef_hidraw_dir = None, ef_hidraw_fd = - 1\<rparr>"

definition sample_filter :: ControllerFilter where
  "sample_filter = \<lparr>flt_uniq = 0, flt_vendor = - 1, flt_product = - 1, flt_js = False, flt_name = None\<rparr>"

definition sample_ctr :: "bool \<Rightarrow> ServerConfigController" where
  "sample_ctr dup = \<lparr>ctr_filter = sample_filter, ctr_tag = Some [0x54], ctr_duplicate = dup, ctr_ps4_hidraw = False\<rparr>"

definition sample_controller :: "bool \<Rightarrow> DeviceInfo \<Rightarrow> int \<Rightarrow> Controller" where
  "sample_controller dup raw fd = \<lparr>c_dev = \<lparr>pd_event = fd, pd_hidraw = - 1, pd_uniq = 0, pd_id = 5, pd_name = OwnName [0x50],
     pd_mapping = empty_mapping, pd_info = raw\<lparr>info_abs_len := 0, info_rel_len := 0, info_key_len := 0\<rparr>\<rparr>, c_ctr = sample_ctr dup\<rparr>"

lemma no_features: "ef_type_bits ef = [] \<Longrightarrow> \<forall>t \<in> set types. t < EV_MAX \<Longrightarrow> setup_types ef types s = Some s"
proof (induction types arbitrary: s)
  case (Cons t types)
  have "\<not> has_bit (zero_filled EV_MAX (ef_type_bits ef)) t"
    using Cons.prems by (auto simp: has_bit_def bit_set_def load8_def load_def zero_filled_def take_Cons' le_val.simps)
  then show ?case using Cons setup_types_one [of t ef types s] by simp
qed simp

lemma sample_poll:
  assumes "5 \<notin> set (hs_known h)" and "0 \<le> fd"
  shows "poll_entry [sample_ctr dup] raw (sample_file fd) h = Some (if dup
    then h\<lparr>hs_known := hs_known h @ [5], hs_cloneable := hs_cloneable h @ [sample_controller dup raw fd]\<rparr>
    else h\<lparr>hs_known := hs_known h @ [5], hs_available := hs_available h @ [sample_controller dup raw fd]\<rparr>)"
proof -
  have name: "parse_event_name (str_event @ [0x35]) = 5" by code_simp
  have uniq: "parse_uniq (zero_filled 17 []) = 0" by code_simp
  have set: "setup_device (sample_file fd) dev = Some (dev\<lparr>pd_info := (pd_info dev)\<lparr>info_abs_len := 0, info_rel_len := 0, info_key_len := 0\<rparr>,
      pd_mapping := empty_mapping\<rparr>)" for dev
    unfolding setup_device_def by (subst no_features) (auto simp: sample_file_def)
  show ?thesis
    using assms set
    by (simp add: poll_entry_def name uniq sample_file_def sample_ctr_def sample_filter_def filter_event_def find_hidraw_def
        starts_with_def Let_def sample_controller_def device_name_def c_string_def)
qed

lemma sample_get:
  "hs_available h = sample_controller dup raw fd # cs \<Longrightarrow>
     get_device [[0x54]] False h = Some (Got (sample_controller dup raw fd) 0, h\<lparr>hs_available := cs\<rparr>)"
  by (simp add: get_device_def match_tags_def sample_controller_def sample_ctr_def)



text \<open>C31: A thread that ends after it has forgotten its device hands the dead device back. The device
  is then served twice: with the same number, by a client that gets the descriptor that was closed
  and the name that was freed, and by one that gets the device plugged in again.\<close>

theorem lost_device_returns:
  "\<exists>s c c'. reachable pool_start (pool_step [sample_ctr False] raw (\<lambda>_. [[0x54]])) (\<lambda>_. True) s \<and>
    po_threads s 1 = Serving c 0 \<and> po_threads s 2 = Serving c' 0 \<and> pd_id (c_dev c) = pd_id (c_dev c') \<and>
    \<not> ctr_duplicate (c_ctr c) \<and> \<not> ctr_duplicate (c_ctr c') \<and>
    pd_event (c_dev c') \<in> set (hs_closed (po_hid s)) \<and> (\<exists>n \<in> set (hs_freed (po_hid s)). pd_name (c_dev c') = OwnName n)"
proof -
  let ?R = "reachable pool_start (pool_step [sample_ctr False] raw (\<lambda>_. [[0x54]])) (\<lambda>_. True)"
  let ?c = "sample_controller False raw 7" and ?d = "sample_controller False raw 8"
  let ?h = "\<lambda>known available closed freed. \<lparr>hs_known = known, hs_available = available, hs_cloneable = [], hs_closed = closed, hs_freed = freed\<rparr>"
  let ?p = "\<lambda>h ts. \<lparr>po_hid = h, po_threads = ts\<rparr>"
  let ?t1 = "(\<lambda>_. Waiting)(0 := Serving ?c 0)" and ?t2 = "(\<lambda>_. Waiting)(0 := Lost ?c)" and ?t3 = "(\<lambda>_. Waiting)(0 := Ended)"
  note simps = sample_poll sample_get pool_start_def poll_devices_init_def forget_device_def return_device_def
  have 1: "?R (?p (?h [5] [?c] [] []) (\<lambda>_. Waiting))"
    by (rule reachable.next_state [where l = "Poll (sample_file 7)", OF reachable.start]) (auto simp: poll_step_iff simps)
  have 2: "?R (?p (?h [5] [] [] []) ?t1)"
    by (rule reachable.next_state [where l = "Take 0", OF 1]) (simp_all add: take_step_iff simps)
  have 3: "?R (?p (?h [] [] [7, - 1] [[0x50]]) ?t2)"
    by (rule reachable.next_state [where l = "Lose 0", OF 2]) (simp_all add: lose_step_iff simps sample_controller_def sample_ctr_def)
  have 4: "?R (?p (?h [5] [?d] [7, - 1] [[0x50]]) ?t2)"
    by (rule reachable.next_state [where l = "Poll (sample_file 8)", OF 3]) (auto simp: poll_step_iff simps)
  have 5: "?R (?p (?h [5] [?d, ?c] [7, - 1] [[0x50]]) ?t3)"
    by (rule reachable.next_state [where l = "Leave_lost 0", OF 4]) (simp_all add: leave_lost_step_iff simps sample_controller_def sample_ctr_def)
  have 6: "?R (?p (?h [5] [?c] [7, - 1] [[0x50]]) (?t3(1 := Serving ?d 0)))"
    by (rule reachable.next_state [where l = "Take 1", OF 5]) (simp_all add: take_step_iff simps)
  have 7: "?R (?p (?h [5] [] [7, - 1] [[0x50]]) (?t3(1 := Serving ?d 0, 2 := Serving ?c 0)))"
    by (rule reachable.next_state [where l = "Take 2", OF 6]) (simp_all add: take_step_iff simps)
  show ?thesis
    by (rule exI, rule exI [of _ ?d], rule exI [of _ ?c], rule conjI [OF 7]) (simp add: sample_controller_def sample_ctr_def)
qed

text \<open>Losing a shared device crashes the server: the search among the shared devices takes a
  controller for a pointer.\<close>

theorem losing_a_shared_device:
  assumes "reachable pool_start (pool_step config raw tags) clean s"
    and "po_threads s t = Serving c i" and "ctr_duplicate (c_ctr c)"
  shows "forget_device c (po_hid s) = None"
proof -
  have "exclusive s" using assms(1) by (rule pool.always)
  then have "c \<in> set (hs_cloneable (po_hid s))" using assms(2,3) unfolding exclusive_def held_ok_def by blast
  then show ?thesis using assms(3) by (auto simp: forget_device_def)
qed

lemma sample_get_shared:
  "hs_available h = [] \<Longrightarrow> hs_cloneable h = sample_controller dup raw fd # cs \<Longrightarrow>
     get_device [[0x54]] False h = Some (Got (sample_controller dup raw fd) 0, h)"
  by (simp add: get_device_def match_tags_def sample_controller_def sample_ctr_def)

lemma losing_a_shared_device_witness:
  "\<forall>raw :: DeviceInfo. \<exists>s c. reachable pool_start (pool_step [sample_ctr True] raw (\<lambda>_. [[0x54]])) clean s \<and>
    po_threads s 0 = Serving c 0 \<and> forget_device c (po_hid s) = None"
proof
  fix raw :: DeviceInfo
  let ?R = "reachable pool_start (pool_step [sample_ctr True] raw (\<lambda>_. [[0x54]])) clean"
  let ?c = "sample_controller True raw 7"
  let ?s1 = "pool_start\<lparr>po_hid := poll_devices_init\<lparr>hs_known := [5], hs_cloneable := [?c]\<rparr>\<rparr>"
  let ?s2 = "?s1\<lparr>po_threads := (po_threads ?s1)(0 := Serving ?c 0)\<rparr>"
  have 1: "?R ?s1"
    by (rule reachable.next_state [where l = "Poll (sample_file 7)", OF reachable.start])
      (auto simp: poll_step_iff sample_poll pool_start_def poll_devices_init_def clean_def)
  have 2: "?R ?s2"
    by (rule reachable.next_state [where l = "Take 0", OF 1])
      (auto simp: take_step_iff sample_get_shared pool_start_def poll_devices_init_def clean_def)
  have s: "po_threads ?s2 0 = Serving ?c 0" "ctr_duplicate (c_ctr ?c)" by (simp_all add: sample_controller_def sample_ctr_def)
  from losing_a_shared_device [OF 2 s] 2 s(1) show "\<exists>s c. ?R s \<and> po_threads s 0 = Serving c 0 \<and> forget_device c (po_hid s) = None" by blast
qed

end
