(* ===== verification/Forward.thy ===== *)
theory Forward
  imports Net_Safety Server Client Device_Pool
begin

text \<open>
  The whole way of an input event, from the kernel of the server to the virtual device of the
  client: the numbering of the scanner, the report of the device thread, the wire and the client.
\<close>

section \<open>The wire\<close>

text \<open>A packet is read back from the front of a buffer at an address of the same alignment, whatever
  follows it, as a message that agrees with the one sent.\<close>

definition reads_as :: "nat \<Rightarrow> byte list \<Rightarrow> DeviceMessage \<Rightarrow> bool" where
  "reads_as b packet msg \<longleftrightarrow> (\<forall>received n h old. arrays_ok old \<longrightarrow> take (length packet) received = packet \<longrightarrow> length packet \<le> n \<longrightarrow>
     (\<exists>new h'. msg_device_deserialize b received n h old = Some (int (length packet), new, [], h') \<and>
        same_message msg new \<and> arrays_ok new))"

lemma fill_array_length: "fill_array old vs = Some xs \<Longrightarrow> length xs = length old"
  by (auto simp: fill_array_def split: if_splits)

lemma deserialize_body_arrays:
  assumes "deserialize_body b m p h tag old = Some (new, q, h', x)" and "arrays_ok old"
  shows "arrays_ok new"
  using assms
  by (auto simp: deserialize_body_def deserialize_info_def deserialize_report_def arrays_ok_def info_arrays_ok_def
      report_arrays_ok_def bind_eq_Some_conv dest!: fill_array_length split: if_splits)

lemma deserialize_arrays:
  assumes "msg_device_deserialize b m n h old = Some (rc, new, freed, h')" and "arrays_ok old"
  shows "arrays_ok new"
  using assms
  by (auto simp: msg_device_deserialize_def Let_def bind_eq_Some_conv split: if_splits
      dest: deserialize_body_arrays)

lemma send_message_ok:
  assumes "wf_message msg" and "wire_size a msg \<le> 2048" and "length buf = 2048" and "arrays_ok msg"
    and "msg_tag msg \<noteq> DeviceTagNone" and "0 < a" and "0 < b" and "a mod 8 = b mod 8"
  obtains buf' packet where "send_message a buf msg = Some (buf', [packet])" and "length buf' = 2048"
    and "length packet = wire_size a msg" and "reads_as b packet (stamp_version msg)"
proof -
  obtain buf' where s: "msg_device_serialize a buf 2048 msg = Some (int (wire_size a msg), buf', stamp_version msg)"
    using serialize_wire_size [OF assms(6), of 2048 msg buf] assms(1-3) by auto
  have len: "length buf' = 2048" using msg_device_serialize_SomeE [OF s assms(6)] assms(3) by force
  let ?p = "take (wire_size a msg) buf'"
  have p: "length ?p = wire_size a msg" using len assms(2) by simp
  have "reads_as b ?p (stamp_version msg)"
    unfolding reads_as_def
  proof (intro allI impI)
    fix received n h old
    assume r: "arrays_ok old" "take (length ?p) received = ?p" "length ?p \<le> n"
    obtain new h' where d: "msg_device_deserialize b received n h old = Some (int (wire_size a msg), new, [], h')"
      "same_message (stamp_version msg) new"
      using serialized_is_read [OF s _ assms(5) assms(4) r(1) assms(6-8), of received n h] r(2,3) p by auto
    with p deserialize_arrays [OF d(1) r(1)]
    show "\<exists>new h'. msg_device_deserialize b received n h old = Some (int (length ?p), new, [], h') \<and>
        same_message (stamp_version msg) new \<and> arrays_ok new" by auto
  qed
  moreover have "send_message a buf msg = Some (buf', [?p])" using s by (simp add: send_message_def)
  ultimately show thesis using that len p by blast
qed

text \<open>The client takes one packet at a time.\<close>

definition io_ok :: "ClientIO \<Rightarrow> bool" where
  "io_ok io \<longleftrightarrow> length (io_buf io) = 2048 \<and> arrays_ok (io_message io)"

lemma client_receive_packet:
  assumes "reads_as b packet msg" and "io_queue io = packet @ rest" and "io_ok io" and "length packet \<le> 2048"
  obtains new io' where "same_message msg new" and "arrays_ok new" and "io_ok io'" and "io_queue io' = rest"
    and "client_receive b h config io st = Option.bind (client_message config new st) (\<lambda>st. Some (io', st))"
proof -
  let ?peek = "take 2048 (io_queue io)"
  have peek: "length ?peek \<le> 2048" "length packet \<le> length ?peek" "take (length packet) ?peek = packet"
    using assms(2,4) by auto
  have st: "store ?peek (io_buf io) 0 = Some (put ?peek (io_buf io) 0)"
    using peek(1) assms(3) by (simp add: store_def io_ok_def)
  have "take (length packet) (put ?peek (io_buf io) 0) = packet"
    using peek(2,3) by (simp add: put_def)
  then obtain new h' where d: "msg_device_deserialize b (put ?peek (io_buf io) 0) (length ?peek) h (io_message io) = Some (int (length packet), new, [], h')"
    "same_message msg new" "arrays_ok new"
    using assms(1,3) peek(2) unfolding reads_as_def io_ok_def by blast
  let ?io = "io\<lparr>io_queue := rest, io_buf := put ?peek (io_buf io) 0, io_message := new\<rparr>"
  have "client_receive b h config io st = Option.bind (client_message config new st) (\<lambda>st. Some (?io, st))"
    using st d(1) assms(2) by (simp add: client_receive_def)
  moreover have "io_ok ?io" using peek(1) assms(3) d(3) by (simp add: io_ok_def length_put)
  ultimately show thesis using that [OF d(2,3), of ?io] by simp
qed

section \<open>Reports\<close>

text \<open>The last value of a feature in a list of events; it starts as zero.\<close>

definition latest :: "nat \<Rightarrow> nat \<Rightarrow> InputEvent list \<Rightarrow> u32" where
  "latest type i evs = foldl (\<lambda>v e. if unat (ie_type e) = type \<and> unat (ie_code e) = i then ie_value e else v) 0 evs"

lemma latest_snoc:
  "latest type i (evs @ [e]) = (if unat (ie_type e) = type \<and> unat (ie_code e) = i then ie_value e else latest type i evs)"
  by (simp add: latest_def)

text \<open>The kernel reports events of the features of the device only.\<close>

definition known_event :: "EventFile \<Rightarrow> InputEvent \<Rightarrow> bool" where
  "known_event ef e \<longleftrightarrow> unat (ie_type e) \<in> {EV_ABS, EV_REL, EV_KEY} \<longrightarrow> unat (ie_code e) \<in> set (features ef (unat (ie_type e)))"

definition pressed :: "u32 \<Rightarrow> u8" where
  "pressed v = (if v \<noteq> 0 then 1 else 0)"

text \<open>A report that shows the latest values, feature by feature.\<close>

definition shows_latest :: "EventFile \<Rightarrow> InputEvent list \<Rightarrow> DeviceReport \<Rightarrow> bool" where
  "shows_latest ef evs r \<longleftrightarrow> length (report_abs r) = 64 \<and> length (report_rel r) = 16 \<and> length (report_key r) = 768 \<and>
     take (length (features ef EV_ABS)) (report_abs r) = map (\<lambda>i. latest EV_ABS i evs) (features ef EV_ABS) \<and>
     take (length (features ef EV_REL)) (report_rel r) = map (\<lambda>i. latest EV_REL i evs) (features ef EV_REL) \<and>
     take (length (features ef EV_KEY)) (report_key r) = map (\<lambda>i. pressed (latest EV_KEY i evs)) (features ef EV_KEY)"

text \<open>One array of a report: storing the value of the event at the index of its id.\<close>

lemma indexed_store:
  assumes "indexed f ids n data indices cnt" and "i \<in> set ids" and "distinct ids" and "length ids < 2 ^ 16"
    and "take (length ids) xs = map g ids" and "length ids \<le> length xs" and "unat code = i"
  shows "\<exists>k. read_index indices code = Some (int k) \<and> store_at xs k v = Some (xs[k := v]) \<and>
    take (length ids) (xs[k := v]) = map (\<lambda>j. if j = i then v else g j) ids"
proof -
  obtain k where k: "k < length ids" "ids ! k = i" using assms(2) by (auto simp: in_set_conv_nth)
  have "indices ! i = of_nat k" "i < length indices" using assms(1) k by (auto simp: indexed_def)
  then have "read_index indices code = Some (int k)"
    using assms(4,7) k(1) by (simp add: read_index_def unsigned_of_nat take_bit_nat_eq_self)
  moreover have "store_at xs k v = Some (xs[k := v])" using k(1) assms(6) by (simp add: store_at_def)
  moreover have "take (length ids) (xs[k := v]) = map (\<lambda>j. if j = i then v else g j) ids"
  proof (rule nth_equalityI)
    fix j assume "j < length (take (length ids) (xs[k := v]))"
    then have j: "j < length ids" by simp
    have "xs ! j = g (ids ! j)" using arg_cong [OF assms(5), of "\<lambda>l. l ! j"] j by simp
    moreover have "ids ! j = i \<longleftrightarrow> j = k" using j k assms(3) by (auto simp: nth_eq_iff_index_eq)
    ultimately show "take (length ids) (xs[k := v]) ! j = map (\<lambda>j. if j = i then v else g j) ids ! j"
      using j k assms(6) by (simp add: nth_list_update)
  qed (use assms(6) in simp)
  ultimately show ?thesis by blast
qed

lemma features_small: "distinct (features ef type)" "length (features ef type) < 2 ^ 16"
proof -
  show "distinct (features ef type)" by (simp add: features_def)
  have "length (features ef type) \<le> length [0..<KEY_MAX]"
    by (auto simp: features_def simp del: length_upt intro: order_trans [OF length_filter_le])
  then show "length (features ef type) < 2 ^ 16" by (simp add: KEY_MAX_def)
qed

lemma numberedD:
  assumes "numbered ef info mapping" and "info_arrays_ok info"
  shows "length (features ef EV_ABS) \<le> 64" "length (features ef EV_REL) \<le> 16" "length (features ef EV_KEY) \<le> 768"
  using assms by (auto simp: numbered_def indexed_def info_arrays_ok_def)

lemma report_abs_shows:
  assumes "numbered ef info mapping" and "info_arrays_ok info" and "shows_latest ef evs r" and "known_event ef e"
    and type: "unat (ie_type e) = EV_ABS"
  shows "\<exists>d. report_event mapping e r = Some (r\<lparr>report_abs := d\<rparr>) \<and> shows_latest ef (evs @ [e]) (r\<lparr>report_abs := d\<rparr>)"
proof -
  let ?v = "ie_value e" and ?i = "unat (ie_code e)"
  have i: "?i \<in> set (features ef EV_ABS)" using assms(4) type by (simp add: known_event_def)
  have ind: "indexed (\<lambda>i. abs_of (ef_absinfo ef i) i) (features ef EV_ABS) (info_abs_len info) (info_abs info) (abs_indices mapping) ABS_CNT"
    using assms(1) by (simp add: numbered_def)
  have now: "take (length (features ef EV_ABS)) (report_abs r) = map (\<lambda>i. latest EV_ABS i evs) (features ef EV_ABS)"
    "length (features ef EV_ABS) \<le> length (report_abs r)"
    using assms(3) numberedD [OF assms(1,2)] by (simp_all add: shows_latest_def)
  from indexed_store [OF ind i features_small now refl] obtain k where
    k: "read_index (abs_indices mapping) (ie_code e) = Some (int k)" "store_at (report_abs r) k ?v = Some ((report_abs r)[k := ?v])"
      "take (length (features ef EV_ABS)) ((report_abs r)[k := ?v]) =
         map (\<lambda>j. if j = ?i then ?v else latest EV_ABS j evs) (features ef EV_ABS)" by blast
  have "report_event mapping e r = Some (r\<lparr>report_abs := (report_abs r)[k := ?v]\<rparr>)"
    using k type by (simp add: report_event_def event_defs)
  moreover have "shows_latest ef (evs @ [e]) (r\<lparr>report_abs := (report_abs r)[k := ?v]\<rparr>)"
    using assms(3) k(3) type by (auto simp: shows_latest_def latest_snoc event_defs)
  ultimately show ?thesis by blast
qed

lemma report_rel_shows:
  assumes "numbered ef info mapping" and "info_arrays_ok info" and "shows_latest ef evs r" and "known_event ef e"
    and type: "unat (ie_type e) = EV_REL"
  shows "\<exists>d. report_event mapping e r = Some (r\<lparr>report_rel := d\<rparr>) \<and> shows_latest ef (evs @ [e]) (r\<lparr>report_rel := d\<rparr>)"
proof -
  let ?v = "ie_value e" and ?i = "unat (ie_code e)"
  have i: "?i \<in> set (features ef EV_REL)" using assms(4) type by (simp add: known_event_def)
  have ind: "indexed (\<lambda>i. \<lparr>rel_id = of_nat i\<rparr>) (features ef EV_REL) (info_rel_len info) (info_rel info) (rel_indices mapping) REL_CNT"
    using assms(1) by (simp add: numbered_def)
  have now: "take (length (features ef EV_REL)) (report_rel r) = map (\<lambda>i. latest EV_REL i evs) (features ef EV_REL)"
    "length (features ef EV_REL) \<le> length (report_rel r)"
    using assms(3) numberedD [OF assms(1,2)] by (simp_all add: shows_latest_def)
  from indexed_store [OF ind i features_small now refl] obtain k where
    k: "read_index (rel_indices mapping) (ie_code e) = Some (int k)" "store_at (report_rel r) k ?v = Some ((report_rel r)[k := ?v])"
      "take (length (features ef EV_REL)) ((report_rel r)[k := ?v]) =
         map (\<lambda>j. if j = ?i then ?v else latest EV_REL j evs) (features ef EV_REL)" by blast
  have "report_event mapping e r = Some (r\<lparr>report_rel := (report_rel r)[k := ?v]\<rparr>)"
    using k type by (simp add: report_event_def event_defs)
  moreover have "shows_latest ef (evs @ [e]) (r\<lparr>report_rel := (report_rel r)[k := ?v]\<rparr>)"
    using assms(3) k(3) type by (auto simp: shows_latest_def latest_snoc event_defs)
  ultimately show ?thesis by blast
qed

lemma report_key_shows:
  assumes "numbered ef info mapping" and "info_arrays_ok info" and "shows_latest ef evs r" and "known_event ef e"
    and type: "unat (ie_type e) = EV_KEY"
  shows "\<exists>d. report_event mapping e r = Some (r\<lparr>report_key := d\<rparr>) \<and> shows_latest ef (evs @ [e]) (r\<lparr>report_key := d\<rparr>)"
proof -
  let ?v = "pressed (ie_value e)" and ?i = "unat (ie_code e)"
  have i: "?i \<in> set (features ef EV_KEY)" using assms(4) type by (simp add: known_event_def)
  have ind: "indexed (\<lambda>i. \<lparr>key_id = of_nat i\<rparr>) (features ef EV_KEY) (info_key_len info) (info_key info) (key_indices mapping) KEY_CNT"
    using assms(1) by (simp add: numbered_def)
  have now: "take (length (features ef EV_KEY)) (report_key r) = map (\<lambda>i. pressed (latest EV_KEY i evs)) (features ef EV_KEY)"
    "length (features ef EV_KEY) \<le> length (report_key r)"
    using assms(3) numberedD [OF assms(1,2)] by (simp_all add: shows_latest_def)
  from indexed_store [OF ind i features_small now refl] obtain k where
    k: "read_index (key_indices mapping) (ie_code e) = Some (int k)" "store_at (report_key r) k ?v = Some ((report_key r)[k := ?v])"
      "take (length (features ef EV_KEY)) ((report_key r)[k := ?v]) =
         map (\<lambda>j. if j = ?i then ?v else pressed (latest EV_KEY j evs)) (features ef EV_KEY)" by blast
  have "report_event mapping e r = Some (r\<lparr>report_key := (report_key r)[k := ?v]\<rparr>)"
    using k type by (simp add: report_event_def event_defs pressed_def)
  moreover have "shows_latest ef (evs @ [e]) (r\<lparr>report_key := (report_key r)[k := ?v]\<rparr>)"
    using assms(3) k(3) type by (auto simp: shows_latest_def latest_snoc event_defs)
  ultimately show ?thesis by blast
qed

text \<open>The fields of a report that no event changes.\<close>

definition same_header :: "DeviceReport \<Rightarrow> DeviceReport \<Rightarrow> bool" where
  "same_header r r' \<longleftrightarrow> report_slot r' = report_slot r \<and> report_index r' = report_index r \<and> report_abs_len r' = report_abs_len r \<and>
     report_rel_len r' = report_rel_len r \<and> report_key_len r' = report_key_len r"

lemma report_event_shows:
  assumes "numbered ef info mapping" and "info_arrays_ok info" and "shows_latest ef evs r" and "known_event ef e"
  shows "\<exists>r'. report_event mapping e r = Some r' \<and> shows_latest ef (evs @ [e]) r' \<and> same_header r r'"
proof -
  consider (abs) "unat (ie_type e) = EV_ABS" | (rel) "unat (ie_type e) = EV_REL" | (key) "unat (ie_type e) = EV_KEY"
    | (other) "unat (ie_type e) \<notin> {EV_ABS, EV_REL, EV_KEY}" by blast
  then show ?thesis
  proof cases
    case abs
    then show ?thesis using report_abs_shows [OF assms] by (auto simp: same_header_def)
  next
    case rel
    then show ?thesis using report_rel_shows [OF assms] by (auto simp: same_header_def)
  next
    case key
    then show ?thesis using report_key_shows [OF assms] by (auto simp: same_header_def)
  next
    case other
    have "shows_latest ef (evs @ [e]) r" using assms(3) other by (simp add: shows_latest_def latest_snoc)
    then show ?thesis using other by (simp add: report_event_def same_header_def)
  qed
qed

section \<open>What the client does with a report\<close>

text \<open>The client's description of a device has the features the kernel of the server reported.\<close>

definition describes :: "EventFile \<Rightarrow> DeviceInfo \<Rightarrow> bool" where
  "describes ef info \<longleftrightarrow> unat (info_abs_len info) = length (features ef EV_ABS) \<and> unat (info_rel_len info) = length (features ef EV_REL) \<and>
     unat (info_key_len info) = length (features ef EV_KEY) \<and> info_arrays_ok info \<and>
     take (length (features ef EV_ABS)) (info_abs info) = map (\<lambda>i. abs_of (ef_absinfo ef i) i) (features ef EV_ABS) \<and>
     take (length (features ef EV_REL)) (info_rel info) = map (\<lambda>i. \<lparr>rel_id = of_nat i\<rparr>) (features ef EV_REL) \<and>
     take (length (features ef EV_KEY)) (info_key info) = map (\<lambda>i. \<lparr>key_id = of_nat i\<rparr>) (features ef EV_KEY)"

lemma numbered_describes: "numbered ef info mapping \<Longrightarrow> info_arrays_ok info \<Longrightarrow> describes ef info"
  by (simp add: numbered_def indexed_def describes_def)

text \<open>The events of one report, from the latest values. A key that is down has the value -1.\<close>

definition frame :: "EventFile \<Rightarrow> InputEvent list \<Rightarrow> UinputOp list" where
  "frame ef evs = map (\<lambda>i. Emit (of_nat EV_ABS) (of_nat i) (latest EV_ABS i evs)) (features ef EV_ABS) @
     map (\<lambda>i. Emit (of_nat EV_REL) (of_nat i) (latest EV_REL i evs)) (features ef EV_REL) @
     map (\<lambda>i. Emit (of_nat EV_KEY) (of_nat i) (if latest EV_KEY i evs = 0 then 0 else - 1)) (features ef EV_KEY) @
     [Emit (of_nat EV_SYN) 0 0]"

lemma emit_loop_range:
  assumes "slot < length (cl_fds st)" and "n \<le> length fs" and "n \<le> length vs" and "i \<le> n"
  shows "emit_loop slot type code val [i..<n] fs vs st =
    Some (ioctl (cl_fds st ! slot) (map2 (\<lambda>f v. Emit (of_nat type) (code f) (val v)) (drop i (take n fs)) (drop i (take n vs))) st)"
  using assms
proof (induction "n - i" arbitrary: i st)
  case 0
  then show ?case by (simp add: ioctl_def)
next
  case (Suc k)
  then have i: "i < n" by simp
  let ?st = "ioctl (cl_fds st ! slot) [Emit (of_nat type) (code (fs ! i)) (val (vs ! i))] st"
  have d: "drop i (take n fs) = fs ! i # drop (Suc i) (take n fs)" "drop i (take n vs) = vs ! i # drop (Suc i) (take n vs)"
    using i Suc.prems(2,3) by (simp_all flip: Cons_nth_drop_Suc add: min_def)
  have "emit_loop slot type code val [Suc i..<n] fs vs ?st =
    Some (ioctl (cl_fds ?st ! slot) (map2 (\<lambda>f v. Emit (of_nat type) (code f) (val v)) (drop (Suc i) (take n fs)) (drop (Suc i) (take n vs))) ?st)"
    by (rule Suc.hyps(1)) (use Suc i in \<open>simp_all add: ioctl_def\<close>)
  then show ?case using Suc.prems i d
    by (simp add: upt_conv_Cons element_def device_emit_def ioctl_def)
qed

lemma emit_features:
  assumes "slot < length (cl_fds st)" and "take (length ids) fs = map f ids" and "take (length ids) vs = map g ids"
  shows "emit_loop slot type code val [0..<length ids] fs vs st =
    Some (ioctl (cl_fds st ! slot) (map (\<lambda>i. Emit (of_nat type) (code (f i)) (val (g i))) ids) st)"
proof -
  have len: "length ids \<le> length fs" "length ids \<le> length vs"
    using arg_cong [OF assms(2), of length] arg_cong [OF assms(3), of length] by simp_all
  show ?thesis
    using emit_loop_range [OF assms(1) len, of 0 type code val] assms by (simp add: zip_map_map zip_same_conv_map comp_def)
qed

lemma ioctl_ioctl [simp]: "ioctl fd ops' (ioctl fd ops st) = ioctl fd (ops @ ops') st"
  by (simp add: ioctl_def)

lemma ioctl_fields [simp]: "cl_fds (ioctl fd ops st) = cl_fds st" "cl_infos (ioctl fd ops st) = cl_infos st"
  by (simp_all add: ioctl_def)

lemma key_value_pressed: "key_value (pressed v) = (if v = 0 then 0 else - 1)"
  by (simp add: key_value_def pressed_def)

lemma client_report:
  assumes "describes ef info" and "slot < length (cl_infos st)" and "slot < length (cl_fds st)" and "cl_infos st ! slot = Some info"
    and "shows_latest ef evs r" and "unat (report_slot r) = slot" and "report_abs_len r = info_abs_len info"
    and "report_rel_len r = info_rel_len info" and "report_key_len r = info_key_len info" and "same_report r new"
  shows "device_handle_report new st = Some (ioctl (cl_fds st ! slot) (frame ef evs) st)"
proof -
  have lens: "unat (info_abs_len info) = length (features ef EV_ABS)" "unat (info_rel_len info) = length (features ef EV_REL)"
    "unat (info_key_len info) = length (features ef EV_KEY)" using assms(1) by (simp_all add: describes_def)
  have new: "report_abs_len new = info_abs_len info" "report_rel_len new = info_rel_len info" "report_key_len new = info_key_len info"
    "unat (report_slot new) = slot"
    using assms(6-10) by (simp_all add: same_report_def)
  have vals: "take (length (features ef EV_ABS)) (report_abs new) = map (\<lambda>i. latest EV_ABS i evs) (features ef EV_ABS)"
    "take (length (features ef EV_REL)) (report_rel new) = map (\<lambda>i. latest EV_REL i evs) (features ef EV_REL)"
    "take (length (features ef EV_KEY)) (report_key new) = map (\<lambda>i. pressed (latest EV_KEY i evs)) (features ef EV_KEY)"
    using assms(5,7-10) lens by (simp_all add: same_report_def shows_latest_def)
  have fs: "take (length (features ef EV_ABS)) (info_abs info) = map (\<lambda>i. abs_of (ef_absinfo ef i) i) (features ef EV_ABS)"
    "take (length (features ef EV_REL)) (info_rel info) = map (\<lambda>i. \<lparr>rel_id = of_nat i\<rparr>) (features ef EV_REL)"
    "take (length (features ef EV_KEY)) (info_key info) = map (\<lambda>i. \<lparr>key_id = of_nat i\<rparr>) (features ef EV_KEY)"
    using assms(1) by (simp_all add: describes_def)
  show ?thesis
    using assms(2-4) new lens
    by (simp add: device_handle_report_def device_exists_def Let_def emit_features [OF _ fs(1) vals(1)]
        emit_features [OF _ fs(2) vals(2)] emit_features [OF _ fs(3) vals(3)] device_emit_def frame_def abs_of_def
        key_value_pressed)
qed

section \<open>Streams of packets\<close>

text \<open>Packets at the front of the queue are taken one by one, and bring the client to a state with \<open>Q\<close>.\<close>

definition delivers :: "nat \<Rightarrow> nat \<Rightarrow> ClientConfig \<Rightarrow> byte list list \<Rightarrow> ClientState \<Rightarrow> (ClientState \<Rightarrow> bool) \<Rightarrow> bool" where
  "delivers b h config packets st Q \<longleftrightarrow> (\<forall>io rest k. io_ok io \<longrightarrow> io_queue io = concat packets @ rest \<longrightarrow>
     (\<exists>io' st'. io_ok io' \<and> io_queue io' = rest \<and> Q st' \<and>
        client_loop (length packets + k) b h config io st = client_loop k b h config io' st'))"

lemma delivers_Nil: "Q st \<Longrightarrow> delivers b h config [] st Q"
  unfolding delivers_def by auto

lemma delivers_all:
  assumes "delivers b h config ps st (\<lambda>st'. st' = final)" and "io_ok io" and "io_queue io = concat ps"
  shows "\<exists>io'. client_loop (length ps) b h config io st = Some (io', final)"
proof -
  have "io_queue io = concat ps @ []" using assms(3) by simp
  with assms(1,2) obtain io' st' where "io_queue io' = []" "st' = final"
    "client_loop (length ps + 0) b h config io st = client_loop 0 b h config io' st'"
    unfolding delivers_def by blast
  then show ?thesis by simp
qed

lemma delivers_append:
  assumes "delivers b h config ps st Q" and "\<And>st'. Q st' \<Longrightarrow> delivers b h config qs st' R"
  shows "delivers b h config (ps @ qs) st R"
  unfolding delivers_def
proof (intro allI impI)
  fix io rest k assume io: "io_ok io" "io_queue io = concat (ps @ qs) @ rest"
  then obtain io1 st1 where 1: "io_ok io1" "io_queue io1 = concat qs @ rest" "Q st1"
    "client_loop (length ps + (length qs + k)) b h config io st = client_loop (length qs + k) b h config io1 st1"
    using assms(1) unfolding delivers_def by (metis append_assoc concat_append)
  with assms(2) [OF 1(3)] obtain io2 st2 where "io_ok io2" "io_queue io2 = rest" "R st2"
    "client_loop (length qs + k) b h config io1 st1 = client_loop k b h config io2 st2"
    unfolding delivers_def by blast
  with 1(4) show "\<exists>io' st'. io_ok io' \<and> io_queue io' = rest \<and> R st' \<and>
      client_loop (length (ps @ qs) + k) b h config io st = client_loop k b h config io' st'"
    by (auto simp: add.assoc)
qed

lemma delivers_packet:
  assumes "reads_as b packet msg" and "packet \<noteq> []" and "length packet \<le> 2048"
    and "\<And>new. same_message msg new \<Longrightarrow> arrays_ok new \<Longrightarrow> \<exists>st'. client_message config new st = Some st' \<and> Q st'"
  shows "delivers b h config [packet] st Q"
  unfolding delivers_def
proof (intro allI impI)
  fix io rest k assume io: "io_ok io" "io_queue io = concat [packet] @ rest"
  then have "io_queue io = packet @ rest" by simp
  from client_receive_packet [OF assms(1) this io(1) assms(3), of h config st] obtain new io' where
    r: "same_message msg new" "arrays_ok new" "io_ok io'" "io_queue io' = rest"
      "client_receive b h config io st = Option.bind (client_message config new st) (\<lambda>st. Some (io', st))" by blast
  with assms(4) [OF r(1,2)] obtain st' where "client_message config new st = Some st'" "Q st'" by blast
  with r(3-5) assms(2) io(2) show "\<exists>io' st'. io_ok io' \<and> io_queue io' = rest \<and> Q st' \<and>
      client_loop (length [packet] + k) b h config io st = client_loop k b h config io' st'"
    by (intro exI [of _ io'] exI [of _ st']) simp
qed

section \<open>A device, from first to last\<close>

definition creation :: "EventFile \<Rightarrow> ClientController \<Rightarrow> UinputOp list" where
  "creation ef ctr =
     (if features ef EV_ABS \<noteq> [] then UI_SET_EVBIT EV_ABS # map (\<lambda>i. UI_ABS_SETUP (abs_of (ef_absinfo ef i) i)) (features ef EV_ABS) else []) @
     (if features ef EV_REL \<noteq> [] then UI_SET_EVBIT EV_REL # map (\<lambda>i. UI_SET_RELBIT (of_nat i)) (features ef EV_REL) else []) @
     (if features ef EV_KEY \<noteq> [] then UI_SET_EVBIT EV_KEY # map (\<lambda>i. UI_SET_KEYBIT (of_nat i)) (features ef EV_KEY) else []) @
     [UI_DEV_SETUP (ucast (cc_device_vendor ctr)) (ucast (cc_device_product ctr)) VIRTUAL_DEVICE_VERSION (setup_name (cc_device_name ctr)),
      UI_DEV_CREATE]"

lemma pos_length: "unat (n :: 'l::len word) = length xs \<Longrightarrow> (0 < n) = (xs \<noteq> [])"
  by (metis length_0_conv unat_eq_zero word_neq_0_conv)

lemma client_device:
  assumes "describes ef new" and "unat (info_slot new) = slot" and "slot < length (cl_infos st)" and "cl_infos st ! slot = None"
    and "slot < length (cf_slots config)" and "unat (info_index new) < length (sl_controllers (cf_slots config ! slot))"
  shows "device_init config new st = Some ((ioctl (cl_fds st ! slot)
      (creation ef (sl_controllers (cf_slots config ! slot) ! unat (info_index new))) st)\<lparr>cl_infos := (cl_infos st)[slot := Some new]\<rparr>)"
proof -
  have lens: "unat (info_abs_len new) = length (features ef EV_ABS)" "unat (info_rel_len new) = length (features ef EV_REL)"
    "unat (info_key_len new) = length (features ef EV_KEY)" using assms(1) by (simp_all add: describes_def)
  have fs: "take (length (features ef EV_ABS)) (info_abs new) = map (\<lambda>i. abs_of (ef_absinfo ef i) i) (features ef EV_ABS)"
    "take (length (features ef EV_REL)) (info_rel new) = map (\<lambda>i. \<lparr>rel_id = of_nat i\<rparr>) (features ef EV_REL)"
    "take (length (features ef EV_KEY)) (info_key new) = map (\<lambda>i. \<lparr>key_id = of_nat i\<rparr>) (features ef EV_KEY)"
    using assms(1) by (simp_all add: describes_def)
  have "length (features ef EV_ABS) \<le> length (info_abs new)" "length (features ef EV_REL) \<le> length (info_rel new)"
    "length (features ef EV_KEY) \<le> length (info_key new)"
    using arg_cong [OF fs(1), of length] arg_cong [OF fs(2), of length] arg_cong [OF fs(3), of length] by simp_all
  then show ?thesis
    using assms lens fs by (simp add: device_init_def device_destroy_def first_elements_def element_def creation_def Let_def
        pos_length [OF lens(1)] pos_length [OF lens(2)] pos_length [OF lens(3)] comp_def)
qed

lemma same_info_describes: "describes ef info \<Longrightarrow> same_info info new \<Longrightarrow> info_arrays_ok new \<Longrightarrow> describes ef new"
  by (simp add: describes_def same_info_def)

text \<open>What the reports of a device make of the events read from it.\<close>

fun frames :: "EventFile \<Rightarrow> InputEvent list \<Rightarrow> ReadResult list \<Rightarrow> UinputOp list" where
  "frames ef evs [] = []"
| "frames ef evs (Read_lost # reads) = []"
| "frames ef evs (Read_short # reads) = frames ef evs reads"
| "frames ef evs (Read_event e # reads) =
    (if unat (ie_type e) = EV_SYN then frame ef evs @ frames ef evs reads else frames ef (evs @ [e]) reads)"

definition known_reads :: "EventFile \<Rightarrow> ReadResult list \<Rightarrow> bool" where
  "known_reads ef reads \<longleftrightarrow> (\<forall>e. Read_event e \<in> set reads \<longrightarrow> known_event ef e)"

text \<open>The report is one of the device, and the client knows the device in the slot.\<close>

definition report_of :: "EventFile \<Rightarrow> nat \<Rightarrow> DeviceReport \<Rightarrow> bool" where
  "report_of ef slot r \<longleftrightarrow> unat (report_slot r) = slot \<and> unat (report_abs_len r) = length (features ef EV_ABS) \<and>
     unat (report_rel_len r) = length (features ef EV_REL) \<and> unat (report_key_len r) = length (features ef EV_KEY)"

definition client_has :: "EventFile \<Rightarrow> nat \<Rightarrow> ClientState \<Rightarrow> bool" where
  "client_has ef slot st \<longleftrightarrow> slot < length (cl_infos st) \<and> slot < length (cl_fds st) \<and>
     (\<exists>info. cl_infos st ! slot = Some info \<and> describes ef info)"

lemma report_delivered:
  assumes "report_of ef slot r" and "shows_latest ef evs r" and "client_has ef slot st" and "same_report r new"
  shows "device_handle_report new st = Some (ioctl (cl_fds st ! slot) (frame ef evs) st)"
proof -
  obtain info where i: "cl_infos st ! slot = Some info" "describes ef info" using assms(3) by (auto simp: client_has_def)
  show ?thesis
    by (rule client_report [OF i(2) _ _ i(1) assms(2) _ _ _ _ assms(4)])
      (use assms(1,3) i(2) in \<open>auto simp: client_has_def report_of_def describes_def intro: word_unat_eq_iff [THEN iffD2]\<close>)
qed

lemma report_packet:
  assumes "report_of ef slot r" and "shows_latest ef evs r" and "length (features ef EV_ABS) \<le> 64" and "length (features ef EV_REL) \<le> 16"
    and "length (features ef EV_KEY) \<le> 768" and "length buf = 2048" and "0 < a" and "0 < b" and "a mod 8 = b mod 8"
    and "client_has ef slot st"
  obtains buf' packet where "send_message a buf (report_message r) = Some (buf', [packet])" and "length buf' = 2048"
    and "delivers b h config [packet] st (\<lambda>st'. st' = ioctl (cl_fds st ! slot) (frame ef evs) st)"
proof -
  have "wf_message (report_message r)" "arrays_ok (report_message r)" "msg_tag (report_message r) \<noteq> DeviceTagNone"
    using assms(1-5) by (simp_all add: wf_message_def report_message_def report_of_def shows_latest_def arrays_ok_def
        report_arrays_ok_def info_arrays_ok_def blank_message_def)
  moreover have w: "wire_size a (report_message r) \<le> 2048" "0 < wire_size a (report_message r)"
    using assms(1,3-5) align_ptr_bounds(2) [OF assms(7), of 3]
    by (simp_all add: wire_size_def report_message_def report_of_def le_trans [OF add_right_mono [OF align_ptr_bounds(2) [OF assms(7)]]])
  ultimately obtain buf' packet where s: "send_message a buf (report_message r) = Some (buf', [packet])" "length buf' = 2048"
    "length packet = wire_size a (report_message r)" "reads_as b packet (stamp_version (report_message r))"
    using send_message_ok [OF _ _ assms(6)] assms(7-9) by metis
  have "\<exists>st'. client_message config new st = Some st' \<and> st' = ioctl (cl_fds st ! slot) (frame ef evs) st"
    if "same_message (stamp_version (report_message r)) new" for new
  proof -
    have "same_report r (msg_report new)" "msg_tag new = DeviceTagReport"
      using that by (simp_all add: same_message_def stamp_version_def report_message_def)
    then show ?thesis using report_delivered [OF assms(1,2,10)] by (simp add: client_message_def)
  qed
  then have "delivers b h config [packet] st (\<lambda>st'. st' = ioctl (cl_fds st ! slot) (frame ef evs) st)"
    using delivers_packet [OF s(4)] s(3) w by fastforce
  with s(1,2) show thesis using that by blast
qed

lemma report_loop_delivers:
  assumes "numbered ef info mapping" and "info_arrays_ok info" and "known_reads ef reads"
    and "report_of ef slot r" and "shows_latest ef evs r" and "length buf = 2048" and "0 < a" and "0 < b" and "a mod 8 = b mod 8"
    and "client_has ef slot st"
  shows "\<exists>r' buf' packets. report_loop a mapping reads r buf = Some (r', buf', packets) \<and> length buf' = 2048 \<and>
    delivers b h config packets st (\<lambda>st'. st' = ioctl (cl_fds st ! slot) (frames ef evs reads) st)"
  using assms(1,3-6,10)
proof (induction ef evs reads arbitrary: r buf st rule: frames.induct)
  case (4 ef evs e reads)
  have known: "known_reads ef reads" "known_event ef e" using "4.prems"(2) by (auto simp: known_reads_def)
  let ?fd = "cl_fds st ! slot"
  show ?case
  proof (cases "unat (ie_type e) = EV_SYN")
    case True
    obtain buf1 packet where p: "send_message a buf (report_message r) = Some (buf1, [packet])" "length buf1 = 2048"
      "delivers b h config [packet] st (\<lambda>st'. st' = ioctl ?fd (frame ef evs) st)"
      using report_packet [OF "4.prems"(3,4) numberedD [OF "4.prems"(1) assms(2)] "4.prems"(5) assms(7-9) "4.prems"(6)] by blast
    have "client_has ef slot (ioctl ?fd (frame ef evs) st)" using "4.prems"(6) by (simp add: client_has_def)
    from "4.IH"(1) [OF True "4.prems"(1) known(1) "4.prems"(3,4) p(2) this] obtain r' buf' ps where
      l: "report_loop a mapping reads r buf1 = Some (r', buf', ps)" "length buf' = 2048"
        "delivers b h config ps (ioctl ?fd (frame ef evs) st) (\<lambda>st'. st' = ioctl ?fd (frames ef evs reads) (ioctl ?fd (frame ef evs) st))"
      by auto
    have "delivers b h config ([packet] @ ps) st (\<lambda>st'. st' = ioctl ?fd (frame ef evs @ frames ef evs reads) st)"
      using delivers_append [OF p(3)] l(3) by simp
    then show ?thesis using True p(1) l(1,2) by simp
  next
    case False
    obtain r1 where r1: "report_event mapping e r = Some r1" "shows_latest ef (evs @ [e]) r1" "same_header r r1"
      using report_event_shows [OF "4.prems"(1) assms(2) "4.prems"(4) known(2)] by blast
    have "report_of ef slot r1" using "4.prems"(3) r1(3) by (simp add: report_of_def same_header_def)
    from "4.IH"(2) [OF False "4.prems"(1) known(1) this r1(2) "4.prems"(5,6)] show ?thesis using False r1(1) by simp
  qed
next
  case (3 ef evs reads)
  then show ?case by (simp add: known_reads_def)
qed (auto intro!: delivers_Nil simp: ioctl_def)

lemma info_packet:
  assumes "describes ef info" and "wire_size a (info_message info) \<le> 2048" and "length buf = 2048" and "0 < a" and "0 < b" and "a mod 8 = b mod 8"
    and "unat (info_slot info) = slot" and "slot < length (cl_infos st)" and "cl_infos st ! slot = None"
    and "slot < length (cf_slots config)" and "unat (info_index info) < length (sl_controllers (cf_slots config ! slot))"
  obtains buf' packet where "send_message a buf (info_message info) = Some (buf', [packet])" and "length buf' = 2048"
    and "delivers b h config [packet] st (\<lambda>st'. \<exists>new. describes ef new \<and> st' = (ioctl (cl_fds st ! slot)
        (creation ef (sl_controllers (cf_slots config ! slot) ! unat (info_index info))) st)\<lparr>cl_infos := (cl_infos st)[slot := Some new]\<rparr>)"
proof -
  have i: "info_arrays_ok info" using assms(1) by (simp add: describes_def)
  have "wf_message (info_message info)"
    using assms(1) by (auto simp: wf_message_def info_message_def describes_def dest: arg_cong [of _ _ length])
  moreover have "arrays_ok (info_message info)" "msg_tag (info_message info) \<noteq> DeviceTagNone"
    using i by (simp_all add: info_message_def arrays_ok_def report_arrays_ok_def blank_message_def)
  ultimately obtain buf' packet where s: "send_message a buf (info_message info) = Some (buf', [packet])" "length buf' = 2048"
    "length packet = wire_size a (info_message info)" "reads_as b packet (stamp_version (info_message info))"
    using send_message_ok [OF _ assms(2,3)] assms(4-6) by metis
  have "\<exists>st'. client_message config new st = Some st' \<and> (\<exists>new. describes ef new \<and> st' = (ioctl (cl_fds st ! slot)
        (creation ef (sl_controllers (cf_slots config ! slot) ! unat (info_index info))) st)\<lparr>cl_infos := (cl_infos st)[slot := Some new]\<rparr>)"
    if m: "same_message (stamp_version (info_message info)) new" "arrays_ok new" for new
  proof -
    have n: "same_info info (msg_info new)" "msg_tag new = DeviceTagInfo"
      using m(1) by (simp_all add: same_message_def stamp_version_def info_message_def)
    have "describes ef (msg_info new)" using same_info_describes [OF assms(1) n(1)] m(2) by (simp add: arrays_ok_def)
    from client_device [OF this _ assms(8-10)] n this show ?thesis
      using assms(7,11) by (simp add: client_message_def same_info_def) blast
  qed
  moreover have "0 < wire_size a (info_message info)" by (simp add: wire_size_def)
  ultimately show thesis using that [OF s(1,2)] delivers_packet [OF s(4)] s(3) assms(2) by fastforce
qed

lemma destroy_packet:
  assumes "length buf = 2048" and "0 < a" and "0 < b" and "a mod 8 = b mod 8"
    and "slot < 2 ^ 16" and "slot < length (cl_infos st)" and "cl_infos st ! slot \<noteq> None"
  obtains buf' packet where "send_message a buf (destroy_message \<lparr>destroy_index = of_nat slot\<rparr>) = Some (buf', [packet])"
    and "length buf' = 2048" and "delivers b h config [packet] st
      (\<lambda>st'. st' = (ioctl (cl_fds st ! slot) [UI_DEV_DESTROY] st)\<lparr>cl_infos := (cl_infos st)[slot := None]\<rparr>)"
proof -
  let ?m = "destroy_message \<lparr>destroy_index = of_nat slot\<rparr>"
  have "wf_message ?m" "wire_size a ?m \<le> 2048" "arrays_ok ?m" "msg_tag ?m \<noteq> DeviceTagNone"
    by (simp_all add: wf_message_def wire_size_def destroy_message_def arrays_ok_def report_arrays_ok_def info_arrays_ok_def blank_message_def)
  then obtain buf' packet where s: "send_message a buf ?m = Some (buf', [packet])" "length buf' = 2048"
    "length packet = wire_size a ?m" "reads_as b packet (stamp_version ?m)"
    using send_message_ok [OF _ _ assms(1)] assms(2-4) by metis
  have "client_message config new st = Some ((ioctl (cl_fds st ! slot) [UI_DEV_DESTROY] st)\<lparr>cl_infos := (cl_infos st)[slot := None]\<rparr>)"
    if "same_message (stamp_version ?m) new" for new
    using that assms(5-7)
    by (simp add: same_message_def stamp_version_def destroy_message_def client_message_def device_destroy_def unsigned_of_nat take_bit_nat_eq_self)
  moreover have "length packet = 24" using s(3) by (simp add: wire_size_def destroy_message_def)
  ultimately show thesis using that [OF s(1,2)] delivers_packet [OF s(4)] by fastforce
qed

lemma first_report_ok:
  assumes "numbered ef (pd_info (c_dev c)) mapping" and "info_arrays_ok (pd_info (c_dev c))" and "slot < 256"
  shows "report_of ef slot (first_report c slot index)" and "shows_latest ef [] (first_report c slot index)"
  using assms numberedD [OF assms(1,2)]
  by (simp_all add: report_of_def first_report_def numbered_def indexed_def shows_latest_def latest_def pressed_def
      unsigned_of_nat take_bit_nat_eq_self map_replicate_const min_def)

lemma device_round_delivers:
  assumes "numbered ef (pd_info (c_dev c)) (pd_mapping (c_dev c))" and "info_arrays_ok (pd_info (c_dev c))" and "known_reads ef reads"
    and "wire_size a (info_message (device_description c slot index)) \<le> 2048"
    and "length buf = 2048" and "0 < a" and "0 < b" and "a mod 8 = b mod 8"
    and "slot < 256" and "slot < length (cl_infos st)" and "slot < length (cl_fds st)" and "cl_infos st ! slot = None"
    and "slot < length (cf_slots config)" and "unat index < length (sl_controllers (cf_slots config ! slot))"
  shows "\<exists>buf' packets. device_round a c slot index reads buf = Some (buf', packets) \<and>
    delivers b h config packets st (\<lambda>st'. st' = ioctl (cl_fds st ! slot)
      (creation ef (sl_controllers (cf_slots config ! slot) ! unat index) @ frames ef [] reads @ [UI_DEV_DESTROY]) st)"
proof -
  let ?info = "device_description c slot index" and ?fd = "cl_fds st ! slot"
  let ?create = "creation ef (sl_controllers (cf_slots config ! slot) ! unat index)"
  let ?st = "\<lambda>new. (ioctl ?fd ?create st)\<lparr>cl_infos := (cl_infos st)[slot := Some new]\<rparr>"
  have d: "describes ef ?info" "unat (info_slot ?info) = slot" "info_index ?info = index"
    using numbered_describes [OF assms(1,2)] assms(9)
    by (simp_all add: device_description_def describes_def info_arrays_ok_def unsigned_of_nat take_bit_nat_eq_self)
  obtain buf1 p1 where 1: "send_message a buf (info_message ?info) = Some (buf1, [p1])" "length buf1 = 2048"
    "delivers b h config [p1] st (\<lambda>st'. \<exists>new. describes ef new \<and> st' = ?st new)"
    by (rule info_packet [OF d(1) assms(4-8) d(2) assms(10,12,13)]) (use assms(14) d(3) in simp_all)
  have has: "client_has ef slot (?st new)" if "describes ef new" for new
    using that assms(10,11) by (simp add: client_has_def)
  have loop: "\<exists>r' buf' ps. report_loop a (pd_mapping (c_dev c)) reads (first_report c slot index) buf1 = Some (r', buf', ps) \<and>
      length buf' = 2048 \<and> delivers b h config ps (?st new) (\<lambda>st'. st' = ioctl ?fd (frames ef [] reads) (?st new))"
    if "describes ef new" for new
    using report_loop_delivers [where h = h and config = config, OF assms(1-3) first_report_ok [OF assms(1,2,9)] 1(2) assms(6-8) has [OF that]] by simp
  from loop [OF d(1)] obtain r' buf2 ps where
    2: "report_loop a (pd_mapping (c_dev c)) reads (first_report c slot index) buf1 = Some (r', buf2, ps)" "length buf2 = 2048"
    by blast
  have 3: "delivers b h config ps (?st new) (\<lambda>st'. st' = ioctl ?fd (frames ef [] reads) (?st new))" if "describes ef new" for new
    using loop [OF that] 2(1) by auto
  let ?last = "\<lambda>new. ioctl ?fd (frames ef [] reads) (?st new)"
  obtain buf3 p3 where 4: "send_message a buf2 (destroy_message \<lparr>destroy_index = of_nat slot\<rparr>) = Some (buf3, [p3])"
    by (rule destroy_packet [where slot = slot and st = "?last undefined" and b = b, OF 2(2) assms(6-8)])
      (use assms(9,10) in \<open>auto simp: ioctl_def\<close>)
  have 5: "delivers b h config [p3] (?last new) (\<lambda>st'. st' = ioctl ?fd (?create @ frames ef [] reads @ [UI_DEV_DESTROY]) st)" for new
  proof -
    have "(cl_infos st)[slot := None] = cl_infos st" using assms(12) by (metis list_update_id)
    then have "(ioctl ?fd [UI_DEV_DESTROY] (?last new))\<lparr>cl_infos := (cl_infos (?last new))[slot := None]\<rparr> =
        ioctl ?fd (?create @ frames ef [] reads @ [UI_DEV_DESTROY]) st" by (simp add: ioctl_def)
    moreover have "cl_fds (?last new) = cl_fds st" by (simp add: ioctl_def)
    ultimately show ?thesis
      by (rule_tac destroy_packet [where slot = slot and st = "?last new" and h = h and config = config, OF 2(2) assms(6-8)])
        (use assms(9,10) 4 in \<open>auto simp: ioctl_def\<close>)
  qed
  have "delivers b h config ([p1] @ ps @ [p3]) st (\<lambda>st'. st' = ioctl ?fd (?create @ frames ef [] reads @ [UI_DEV_DESTROY]) st)"
    by (rule delivers_append [OF 1(3)], elim exE conjE, hypsubst, rule delivers_append [OF 3], assumption, hypsubst, rule 5)
  moreover have "device_round a c slot index reads buf = Some (buf3, [p1] @ ps @ [p3])"
    using 1(1) 2(1) 4 by (simp add: device_round_def)
  ultimately show ?thesis by blast
qed

section \<open>From the device to the virtual device\<close>


text \<open>The pad with one key pressed and released, then unplugged.\<close>

definition sample_reads :: "ReadResult list" where
  "sample_reads = [Read_event \<lparr>ie_type = 1, ie_code = 9, ie_value = 1\<rparr>, Read_event \<lparr>ie_type = 0, ie_code = 0, ie_value = 0\<rparr>,
     Read_short, Read_event \<lparr>ie_type = 1, ie_code = 9, ie_value = 0\<rparr>, Read_event \<lparr>ie_type = 0, ie_code = 0, ie_value = 0\<rparr>, Read_lost]"

definition sample_config :: ClientConfig where
  "sample_config = \<lparr>cf_slots = [\<lparr>sl_controllers = [\<lparr>cc_tag = Some [0x54], cc_device_vendor = 6, cc_device_product = 7, cc_device_name = [0x50]\<rparr>]\<rparr>],
     cf_fifo_path = [], cf_retry_delay = (5, 0)\<rparr>"

lemmas sample_feature_lists = sample_pad_features [unfolded EV_ABS_def EV_REL_def EV_KEY_def]

lemma sample_known: "known_reads sample_pad sample_reads"
  by (auto simp: known_reads_def sample_reads_def known_event_def EV_ABS_def EV_REL_def EV_KEY_def sample_feature_lists simp del: One_nat_def)

lemma sample_frames: "frames sample_pad [] sample_reads =
    [Emit 3 0 0, Emit 3 1 0, Emit 1 0 0, Emit 1 9 (- 1), Emit 0 0 0, Emit 3 0 0, Emit 3 1 0, Emit 1 0 0, Emit 1 9 0, Emit 0 0 0]"
  by (simp add: sample_reads_def frame_def EV_SYN_def EV_ABS_def EV_REL_def EV_KEY_def sample_feature_lists latest_def del: One_nat_def)


end
