(* ===== verification/Json_Adapt.thy ===== *)
theory Json_Adapt
  imports Json
begin

text \<open>
  The adapters of \<^verbatim>\<open>json.c\<close>, which read a C structure out of the encoding of a JSON value
  (\<open>json_adapt\<close>). A structure is the list of its fields, the pointer to an array and its length being
  two of them; \<open>Raw\<close> is memory nothing has been stored to, and its use is \<^const>\<open>None\<close>. The path of
  the value at hand is a string in a buffer of 512 bytes, and a write past it is \<^const>\<open>None\<close> too.
\<close>

section \<open>Adapters\<close>

datatype CVal =
  Raw | NullPtr | Str "byte list" | Double u64 | Bool bool
| Int8 u8 | Int16 u16 | Int32 u32 | Int64 u64 | Timespec u64 u64
| Fields "CVal list" | Elements "CVal list"

text \<open>A property has a path, the adapter of its value and the place of its field, which the functions for
  the default and the transformation are given: the fields from there on.\<close>

datatype JSONAdapter = PrimitiveAdapter JSONType | StructAdapter "JSONPropertyAdapter list" nat
and JSONPropertyAdapter = PropertyAdapter (ad_path: "byte list") (ad_type: JSONAdapter) (ad_offset: nat)
  (ad_default: "(CVal list \<Rightarrow> CVal list) option") (ad_transformer: "(CVal \<Rightarrow> CVal list \<Rightarrow> CVal list option) option")

definition NumberAdapter :: JSONAdapter where "NumberAdapter = PrimitiveAdapter Number"
definition StringAdapter :: JSONAdapter where "StringAdapter = PrimitiveAdapter String"
definition BooleanAdapter :: JSONAdapter where "BooleanAdapter = PrimitiveAdapter Boolean"

text \<open>Memory for the value of an adapter, before anything is stored.\<close>

fun raw_value :: "JSONAdapter \<Rightarrow> CVal" where
  "raw_value (PrimitiveAdapter t) = Raw"
| "raw_value (StructAdapter props sz) = Fields (replicate sz Raw)"

definition ends_with :: "byte list \<Rightarrow> byte list \<Rightarrow> bool" where
  "ends_with str pat \<longleftrightarrow> length pat \<le> length str \<and> drop (length str - length pat) str = pat"

definition from_field :: "nat \<Rightarrow> (CVal list \<Rightarrow> CVal list) \<Rightarrow> CVal list \<Rightarrow> CVal list" where
  "from_field i f vs = take i vs @ f (drop i vs)"

text \<open>The length of an array is cleared first. A structure inside a structure is one field.\<close>

fun json_adapt_set_defaults :: "JSONAdapter \<Rightarrow> CVal \<Rightarrow> CVal"
  and set_default_properties :: "JSONPropertyAdapter list \<Rightarrow> CVal list \<Rightarrow> CVal list"
where
  "json_adapt_set_defaults (PrimitiveAdapter t) v = v"
| "json_adapt_set_defaults (StructAdapter props sz) v =
     Fields (set_default_properties props (case v of Fields vs \<Rightarrow> vs | _ \<Rightarrow> replicate sz Raw))"
| "set_default_properties [] vs = vs"
| "set_default_properties (PropertyAdapter path ty i dflt tsf # props) vs = (
     let vs = (if ends_with path [0x5B, 0x5D] then vs[i + 1 := Int64 0] else vs) in
     set_default_properties props (case dflt of Some f \<Rightarrow> from_field i f vs
       | None \<Rightarrow> (case ty of PrimitiveAdapter t \<Rightarrow> vs | StructAdapter ps n \<Rightarrow> vs[i := json_adapt_set_defaults ty (vs ! i)])))"

section \<open>Paths\<close>

definition path_buffer_size :: nat where "path_buffer_size = 512"

text \<open>A string written at \<open>k\<close> characters into the path that starts at \<open>p\<close> in the buffer.\<close>

definition path_write :: "nat \<Rightarrow> byte list \<Rightarrow> nat \<Rightarrow> byte list \<Rightarrow> byte list option" where
  "path_write p cur k w = (if p + k + length w < path_buffer_size then Some (take k cur @ w) else None)"

fun digits_of :: "nat \<Rightarrow> nat \<Rightarrow> byte list" where
  "digits_of 0 n = []"
| "digits_of (Suc d) n = (if n < 10 then [0x30 + of_nat n] else digits_of d (n div 10) @ [0x30 + of_nat (n mod 10)])"

definition index_path :: "nat \<Rightarrow> byte list" where
  "index_path i = 0x2E # digits_of 20 i"

section \<open>Reading a value\<close>

definition json_type_of :: "u32 \<Rightarrow> JSONType option" where
  "json_type_of w = List.find (\<lambda>t. json_type_val t = w) [String, Number, Object, Array, Boolean, Null]"

definition read_header :: "byte list \<Rightarrow> nat \<Rightarrow> (JSONType option \<times> u32) option" where
  "read_header mem p = do { t \<leftarrow> load32 mem p; len \<leftarrow> load32 mem (p + 4); Some (json_type_of t, len) }"

definition padded :: "u32 \<Rightarrow> nat" where
  "padded len = unat (align_8 (ucast len))"

definition c_chars :: "byte list \<Rightarrow> byte list" where
  "c_chars bs = takeWhile (\<lambda>c. c \<noteq> 0) bs"

definition read_primitive :: "byte list \<Rightarrow> nat \<Rightarrow> JSONType \<Rightarrow> u32 \<Rightarrow> CVal \<Rightarrow> (nat \<times> CVal) option" where
  "read_primitive mem p t len v = (case t of
     Boolean \<Rightarrow> do { w \<leftarrow> load64 mem p; Some (p + 8, Bool (w = 1)) }
   | Number \<Rightarrow> do { w \<leftarrow> load64 mem p; Some (p + 8, Double w) }
   | String \<Rightarrow> do { bs \<leftarrow> load (unat len) mem p; Some (p + padded len, Str (c_chars bs)) }
   | _ \<Rightarrow> Some (p, v))"

text \<open>A loop over the values up to \<open>fin\<close> ends after as many rounds as there are bytes, since each value
  moves the position; it is given one more.\<close>

fun count_loop :: "nat \<Rightarrow> byte list \<Rightarrow> nat \<Rightarrow> nat \<Rightarrow> nat option" where
  "count_loop 0 mem p fin = None"
| "count_loop (Suc m) mem p fin =
    (if p < fin then do {
       (_, len) \<leftarrow> read_header mem p;
       c \<leftarrow> count_loop m mem (p + padded len + sizeof_JSONHeader) fin;
       Some (c + 1)
     } else Some 0)"

definition count_elements :: "byte list \<Rightarrow> nat \<Rightarrow> nat \<Rightarrow> nat option" where
  "count_elements mem p fin = count_loop (Suc (fin - p)) mem p fin"

text \<open>The parts of \<open>json_adapt_priv\<close>, with its recursive calls as the argument \<open>rec\<close>: it reads the value at
  a position with an adapter into some memory, where the path starts at \<open>b\<close> in the buffer, is \<open>cur\<close> and
  goes on at \<open>k\<close>. The elements of an array:\<close>

type_synonym reader = "nat \<Rightarrow> JSONAdapter \<Rightarrow> CVal \<Rightarrow> nat \<Rightarrow> byte list \<Rightarrow> nat \<Rightarrow> (nat \<times> CVal) option"

fun read_elements :: "reader \<Rightarrow> nat \<Rightarrow> JSONAdapter \<Rightarrow> nat \<Rightarrow> nat \<Rightarrow> CVal list option" where
  "read_elements rec p ad b 0 = Some []"
| "read_elements rec p ad b (Suc c) = do {
     (p, v) \<leftarrow> rec p ad (raw_value ad) b [0x2E] 0;
     vs \<leftarrow> read_elements rec p ad b c;
     Some (v # vs)
   }"

text \<open>A property whose path is the current one; the path then ends where the value began.\<close>

definition read_property :: "reader \<Rightarrow> byte list \<Rightarrow> nat \<Rightarrow> JSONPropertyAdapter \<Rightarrow> CVal list \<Rightarrow> nat \<Rightarrow> CVal list option" where
  "read_property rec mem p pr vs b = do {
     (ty, len) \<leftarrow> read_header mem p;
     if ty = Some Array then do {
       c \<leftarrow> count_elements mem (p + sizeof_JSONHeader) (p + sizeof_JSONHeader + unat len);
       es \<leftarrow> read_elements rec (p + sizeof_JSONHeader) (ad_type pr) b c;
       Some (vs[ad_offset pr := Elements es, ad_offset pr + 1 := Int64 (of_nat c)])
     }
     else do {
       (_, tmp) \<leftarrow> rec p (ad_type pr) (raw_value (ad_type pr)) b [0x2E] 0;
       case ad_transformer pr of
         Some tsf \<Rightarrow> do { ws \<leftarrow> tsf tmp (drop (ad_offset pr) vs); Some (take (ad_offset pr) vs @ ws) }
       | None \<Rightarrow> Some (vs[ad_offset pr := tmp])
     }
   }"

fun read_properties :: "reader \<Rightarrow> byte list \<Rightarrow> nat \<Rightarrow> JSONPropertyAdapter list \<Rightarrow> CVal list \<Rightarrow> nat \<Rightarrow> byte list \<Rightarrow> nat
    \<Rightarrow> CVal list option" where
  "read_properties rec mem p [] vs b cur k = Some vs"
| "read_properties rec mem p (pr # props) vs b cur k =
    (if ad_path pr = cur then do {
       _ \<leftarrow> path_write b cur k [0x2E];
       vs \<leftarrow> read_property rec mem p pr vs (b + k);
       read_properties rec mem p props vs b (take k cur) k
     }
     else read_properties rec mem p props vs b cur k)"

text \<open>The descents into arrays and objects.\<close>

fun walk_array :: "nat \<Rightarrow> reader \<Rightarrow> nat \<Rightarrow> nat \<Rightarrow> JSONAdapter \<Rightarrow> CVal \<Rightarrow> nat \<Rightarrow> byte list \<Rightarrow> nat \<Rightarrow> nat \<Rightarrow> (nat \<times> CVal) option" where
  "walk_array 0 rec p fin ad v b cur k i = None"
| "walk_array (Suc m) rec p fin ad v b cur k i =
    (if p < fin then do {
       cur \<leftarrow> path_write b cur k (index_path i);
       (p, v) \<leftarrow> rec p ad v b cur (length cur);
       walk_array m rec p fin ad v b cur k (i + 1)
     } else Some (p, v))"

fun walk_object :: "nat \<Rightarrow> reader \<Rightarrow> byte list \<Rightarrow> nat \<Rightarrow> nat \<Rightarrow> JSONAdapter \<Rightarrow> CVal \<Rightarrow> nat \<Rightarrow> byte list \<Rightarrow> nat \<Rightarrow> (nat \<times> CVal) option" where
  "walk_object 0 rec mem p fin ad v b cur k = None"
| "walk_object (Suc m) rec mem p fin ad v b cur k =
    (if p < fin then do {
       (_, len) \<leftarrow> read_header mem p;
       key \<leftarrow> load (unat len) mem (p + sizeof_JSONHeader);
       cur \<leftarrow> path_write b cur k (0x2E # c_chars key);
       (p, v) \<leftarrow> rec (p + sizeof_JSONHeader + padded len) ad v b cur (length cur);
       walk_object m rec mem p fin ad v b cur k
     } else Some (p, v))"

text \<open>The whole function; a type that is none of the six leaves the position where it is.\<close>

definition adapt_step :: "reader \<Rightarrow> byte list \<Rightarrow> reader" where
  "adapt_step rec mem p ad v b cur k = do {
     (ty, len) \<leftarrow> read_header mem p;
     cur \<leftarrow> (if ty = Some Array then path_write b cur k [0x5B, 0x5D] else Some cur);
     let q = p + sizeof_JSONHeader;
     case ad of
       PrimitiveAdapter t \<Rightarrow> if ty \<noteq> Some t then Some (p, v) else read_primitive mem q t len v
     | StructAdapter props sz \<Rightarrow> do {
         vs \<leftarrow> (case if k = 0 then json_adapt_set_defaults ad v else v of Fields vs \<Rightarrow> read_properties rec mem p props vs b cur k | _ \<Rightarrow> None);
         case ty of
           None \<Rightarrow> Some (p, Fields vs)
         | Some t \<Rightarrow> (case t of
             String \<Rightarrow> Some (q + padded len, Fields vs)
           | Number \<Rightarrow> Some (q + 8, Fields vs)
           | Boolean \<Rightarrow> Some (q + 8, Fields vs)
           | Null \<Rightarrow> Some (q, Fields vs)
           | Array \<Rightarrow> walk_array (Suc (unat len)) rec q (q + unat len) ad (Fields vs) b cur k 0
           | Object \<Rightarrow> walk_object (Suc (unat len)) rec mem q (q + unat len) ad (Fields vs) b cur k)
       }
   }"

fun json_adapt_priv :: "nat \<Rightarrow> byte list \<Rightarrow> reader" where
  "json_adapt_priv 0 mem p ad v b cur k = None"
| "json_adapt_priv (Suc n) mem p ad v b cur k = adapt_step (json_adapt_priv n mem) mem p ad v b cur k"

text \<open>A call goes into a value or from an adapter to the one of a property, so there are no more calls
  inside each other than values inside each other and adapters inside each other.\<close>

fun adapter_depth :: "JSONAdapter \<Rightarrow> nat" and properties_depth :: "JSONPropertyAdapter list \<Rightarrow> nat" where
  "adapter_depth (PrimitiveAdapter t) = 0"
| "adapter_depth (StructAdapter props sz) = Suc (properties_depth props)"
| "properties_depth [] = 0"
| "properties_depth (PropertyAdapter path ty i dflt tsf # props) = max (adapter_depth ty) (properties_depth props)"

definition json_adapt :: "byte list \<Rightarrow> JSONAdapter \<Rightarrow> CVal \<Rightarrow> CVal option" where
  "json_adapt buf ad v = map_option snd (json_adapt_priv (Suc (length buf) + adapter_depth ad) buf 0 ad v 0 [0x2E] 0)"

end
