(* ===== verification/Config.thy ===== *)
theory Config
  imports Json_Adapt Server Client
begin

text \<open>
  The configuration files: the adapter tables of \<^verbatim>\<open>server.c\<close> and \<^verbatim>\<open>client.c\<close>, the defaults and
  transformers of \<^verbatim>\<open>util.c\<close> they use, and what \<open>server_run\<close> and \<open>client_run\<close> read with them. The
  operations on doubles that transformers use extend the record \<open>fpu\<close> of the JSON parser.
\<close>

definition ascii :: "string \<Rightarrow> byte list" where
  "ascii s = map of_char s"

section \<open>Defaults\<close>

definition default_to :: "CVal \<Rightarrow> CVal list \<Rightarrow> CVal list" where
  "default_to v vs = vs[0 := v]"

definition default_to_null :: "CVal list \<Rightarrow> CVal list" where "default_to_null = default_to NullPtr"
definition default_to_false :: "CVal list \<Rightarrow> CVal list" where "default_to_false = default_to (Bool False)"
definition default_to_zero_u8 :: "CVal list \<Rightarrow> CVal list" where "default_to_zero_u8 = default_to (Int8 0)"
definition default_to_zero_u64 :: "CVal list \<Rightarrow> CVal list" where "default_to_zero_u64 = default_to (Int64 0)"
definition default_to_negative_one_i32 :: "CVal list \<Rightarrow> CVal list" where "default_to_negative_one_i32 = default_to (Int32 (- 1))"

definition POLL_DEVICE_INTERVAL :: CVal where "POLL_DEVICE_INTERVAL = Timespec 1 0"
definition REQUEST_TIMEOUT :: u32 where "REQUEST_TIMEOUT = 2000"
definition FIFO_PATH :: "byte list" where "FIFO_PATH = ascii ''/tmp/jsfw_fifo''"
definition CONNECTION_RETRY_DELAY :: CVal where "CONNECTION_RETRY_DELAY = Timespec 5 0"
definition VIRTUAL_DEVICE_VENDOR :: u32 where "VIRTUAL_DEVICE_VENDOR = 0x6969"
definition VIRTUAL_DEVICE_PRODUCT :: u32 where "VIRTUAL_DEVICE_PRODUCT = 0x0420"
definition VIRTUAL_DEVICE_NAME :: "byte list" where "VIRTUAL_DEVICE_NAME = ascii ''JSFW Virtual Device''"

definition default_timespec :: "CVal list \<Rightarrow> CVal list" where "default_timespec = default_to POLL_DEVICE_INTERVAL"
definition default_request_timeout :: "CVal list \<Rightarrow> CVal list" where "default_request_timeout = default_to (Int32 REQUEST_TIMEOUT)"
definition default_fifo_path :: "CVal list \<Rightarrow> CVal list" where "default_fifo_path = default_to (Str FIFO_PATH)"
definition default_retry_delay :: "CVal list \<Rightarrow> CVal list" where "default_retry_delay = default_to CONNECTION_RETRY_DELAY"
definition default_vendor :: "CVal list \<Rightarrow> CVal list" where "default_vendor = default_to (Int32 VIRTUAL_DEVICE_VENDOR)"
definition default_product :: "CVal list \<Rightarrow> CVal list" where "default_product = default_to (Int32 VIRTUAL_DEVICE_PRODUCT)"
definition default_name :: "CVal list \<Rightarrow> CVal list" where "default_name = default_to (Str VIRTUAL_DEVICE_NAME)"
definition default_to_white :: "CVal list \<Rightarrow> CVal list" where
  "default_to_white vs = vs[0 := Int8 255, 1 := Int8 255, 2 := Int8 255]"

text \<open>Four bytes stored where the structure has a field of two and then two of one.\<close>

definition store_u32_over :: "u32 \<Rightarrow> CVal list \<Rightarrow> CVal list" where
  "store_u32_over w vs = vs[0 := Int16 (ucast w), 1 := Int8 (ucast (drop_bit 16 w)), 2 := Int8 (ucast (drop_bit 24 w))]"

section \<open>Transformers\<close>

record dpu = fpu +
  fp_floor :: "u64 \<Rightarrow> u64"
  fp_sub :: "u64 \<Rightarrow> u64 \<Rightarrow> u64"
  fp_greater :: "u64 \<Rightarrow> u64 \<Rightarrow> bool"
  fp_to_i64 :: "u64 \<Rightarrow> u64"
  fp_to_u32 :: "u64 \<Rightarrow> u32"
  fp_to_i32 :: "u64 \<Rightarrow> u32"
  fp_to_u8 :: "u64 \<Rightarrow> u8"

definition dbl_1e9 :: u64 where "dbl_1e9 = 0x41CDCD6500000000"
definition dbl_1000 :: u64 where "dbl_1000 = 0x408F400000000000"
definition dbl_255 :: u64 where "dbl_255 = 0x406FE00000000000"

definition tsf_numsec_to_timespec :: "dpu \<Rightarrow> CVal \<Rightarrow> CVal list \<Rightarrow> CVal list option" where
  "tsf_numsec_to_timespec D arg vs = (case arg of
     Double s \<Rightarrow> Some (vs[0 := Timespec (fp_to_i64 D (fp_floor D s))
       (fp_to_i64 D (fp_mul D (fp_sub D s (fp_floor D s)) dbl_1e9))])
   | _ \<Rightarrow> None)"

definition tsf_numsec_to_intms :: "dpu \<Rightarrow> CVal \<Rightarrow> CVal list \<Rightarrow> CVal list option" where
  "tsf_numsec_to_intms D arg vs = (case arg of
     Double s \<Rightarrow> Some (vs[0 := Int32 (fp_to_u32 D (fp_mul D s dbl_1000))]) | _ \<Rightarrow> None)"

definition uniq_transformer :: "CVal \<Rightarrow> CVal list \<Rightarrow> CVal list option" where
  "uniq_transformer arg vs = (case arg of
     Str s \<Rightarrow> Some (case tsf_uniq_to_u64 s of Some w \<Rightarrow> vs[0 := Int64 w] | None \<Rightarrow> vs) | _ \<Rightarrow> None)"

definition hex_transformer :: "CVal \<Rightarrow> CVal list \<Rightarrow> CVal list option" where
  "hex_transformer arg vs = (case arg of
     Str s \<Rightarrow> Some (case tsf_hex_to_i32 s of Some w \<Rightarrow> vs[0 := Int32 w] | None \<Rightarrow> vs) | _ \<Rightarrow> None)"

fun byte_of :: "CVal \<Rightarrow> byte" where
  "byte_of (Int8 b) = b"
| "byte_of _ = 0"

definition color_transformer :: "CVal \<Rightarrow> CVal list \<Rightarrow> CVal list option" where
  "color_transformer arg vs = (case arg of
     Str s \<Rightarrow> Some (map Int8 (snd (tsf_hex_to_color s (map byte_of (take 3 vs)))) @ drop 3 vs) | _ \<Rightarrow> None)"

definition tsf_num_to_u8_clamp :: "dpu \<Rightarrow> CVal \<Rightarrow> CVal list \<Rightarrow> CVal list option" where
  "tsf_num_to_u8_clamp D arg vs = (case arg of
     Double n \<Rightarrow> Some (vs[0 := Int8 (fp_to_u8 D (if fp_greater D n dbl_255 then dbl_255 else if fp_greater D dbl_0 n then dbl_0 else n))])
   | _ \<Rightarrow> None)"

definition tsf_num_to_int :: "dpu \<Rightarrow> CVal \<Rightarrow> CVal list \<Rightarrow> CVal list option" where
  "tsf_num_to_int D arg vs = (case arg of Double n \<Rightarrow> Some (store_u32_over (fp_to_i32 D n) vs) | _ \<Rightarrow> None)"

section \<open>The server's tables\<close>

definition FilterAdapter :: JSONAdapter where
  "FilterAdapter = StructAdapter [
     PropertyAdapter (ascii ''.uniq'') StringAdapter 0 (Some default_to_zero_u64) (Some uniq_transformer),
     PropertyAdapter (ascii ''.vendor'') StringAdapter 1 (Some default_to_negative_one_i32) (Some hex_transformer),
     PropertyAdapter (ascii ''.product'') StringAdapter 2 (Some default_to_negative_one_i32) (Some hex_transformer),
     PropertyAdapter (ascii ''.js'') BooleanAdapter 3 (Some default_to_false) None,
     PropertyAdapter (ascii ''.name'') StringAdapter 4 (Some default_to_null) None] 5"

definition ServerControllerAdapter :: JSONAdapter where
  "ServerControllerAdapter = StructAdapter [
     PropertyAdapter (ascii ''.filter'') FilterAdapter 0 None None,
     PropertyAdapter (ascii ''.tag'') StringAdapter 1 (Some default_to_null) None,
     PropertyAdapter (ascii ''.properties.duplicate'') BooleanAdapter 2 (Some default_to_false) None,
     PropertyAdapter (ascii ''.properties.ps4_hidraw'') BooleanAdapter 3 (Some default_to_false) None] 4"

definition ServerConfigAdapter :: "dpu \<Rightarrow> JSONAdapter" where
  "ServerConfigAdapter D = StructAdapter [
     PropertyAdapter (ascii ''.controllers[]'') ServerControllerAdapter 0 (Some default_to_null) None,
     PropertyAdapter (ascii ''.poll_interval'') NumberAdapter 2 (Some default_timespec) (Some (tsf_numsec_to_timespec D)),
     PropertyAdapter (ascii ''.request_timeout'') NumberAdapter 3 (Some default_request_timeout) (Some (tsf_numsec_to_intms D))] 4"

section \<open>The client's tables\<close>

definition ControllerStateAdapter :: "dpu \<Rightarrow> JSONAdapter" where
  "ControllerStateAdapter D = StructAdapter [
     PropertyAdapter (ascii ''.led_color'') StringAdapter 1 (Some default_to_white) (Some color_transformer),
     PropertyAdapter (ascii ''.rumble.0'') NumberAdapter 4 (Some default_to_zero_u8) (Some (tsf_num_to_u8_clamp D)),
     PropertyAdapter (ascii ''.rumble.1'') NumberAdapter 5 (Some default_to_zero_u8) (Some (tsf_num_to_u8_clamp D)),
     PropertyAdapter (ascii ''.flash.0'') NumberAdapter 6 (Some default_to_zero_u8) (Some (tsf_num_to_u8_clamp D)),
     PropertyAdapter (ascii ''.flash.1'') NumberAdapter 7 (Some default_to_zero_u8) (Some (tsf_num_to_u8_clamp D)),
     PropertyAdapter (ascii ''.index'') NumberAdapter 0 (Some (store_u32_over 0)) (Some (tsf_num_to_int D))] 8"

definition ClientControllerAdapter :: JSONAdapter where
  "ClientControllerAdapter = StructAdapter [
     PropertyAdapter (ascii ''.tag'') StringAdapter 0 (Some default_to_null) None,
     PropertyAdapter (ascii ''.vendor'') StringAdapter 1 (Some default_vendor) (Some hex_transformer),
     PropertyAdapter (ascii ''.product'') StringAdapter 2 (Some default_product) (Some hex_transformer),
     PropertyAdapter (ascii ''.name'') StringAdapter 3 (Some default_name) None] 4"

definition SlotAdapter :: JSONAdapter where
  "SlotAdapter = StructAdapter [
     PropertyAdapter (ascii ''.controllers[]'') ClientControllerAdapter 0 (Some default_to_null) None] 2"

definition ClientConfigAdapter :: "dpu \<Rightarrow> JSONAdapter" where
  "ClientConfigAdapter D = StructAdapter [
     PropertyAdapter (ascii ''.slots[]'') SlotAdapter 0 (Some default_to_null) None,
     PropertyAdapter (ascii ''.fifo_path'') StringAdapter 2 (Some default_fifo_path) None,
     PropertyAdapter (ascii ''.retry_delay'') NumberAdapter 3 (Some default_retry_delay) (Some (tsf_numsec_to_timespec D))] 4"

section \<open>The configurations read\<close>

text \<open>What the program sees of the structures; the use of memory nothing was stored to is \<^const>\<open>None\<close>.\<close>

fun c_pointer :: "CVal \<Rightarrow> byte list option option" where
  "c_pointer NullPtr = Some None"
| "c_pointer (Str s) = Some (Some s)"
| "c_pointer _ = None"

fun c_array :: "CVal \<Rightarrow> CVal \<Rightarrow> CVal list option" where
  "c_array (Elements es) (Int64 n) = (if unat n \<le> length es then Some (take (unat n) es) else None)"
| "c_array NullPtr (Int64 n) = (if n = 0 then Some [] else None)"
| "c_array _ _ = None"

definition controller_filter :: "CVal \<Rightarrow> ControllerFilter option" where
  "controller_filter v = (case v of
     Fields [Int64 uniq, Int32 vendor, Int32 product, Bool js, name] \<Rightarrow> do {
       name \<leftarrow> c_pointer name;
       Some \<lparr>flt_uniq = uniq, flt_vendor = vendor, flt_product = product, flt_js = js, flt_name = name\<rparr>
     }
   | _ \<Rightarrow> None)"

definition server_controller :: "CVal \<Rightarrow> ServerConfigController option" where
  "server_controller v = (case v of
     Fields [flt, tag, Bool duplicate, Bool ps4_hidraw] \<Rightarrow> do {
       flt \<leftarrow> controller_filter flt;
       tag \<leftarrow> c_pointer tag;
       Some \<lparr>ctr_filter = flt, ctr_tag = tag, ctr_duplicate = duplicate, ctr_ps4_hidraw = ps4_hidraw\<rparr>
     }
   | _ \<Rightarrow> None)"

record ServerConfig =
  sc_controllers :: "ServerConfigController list"
  sc_poll_interval :: "u64 \<times> u64"
  sc_request_timeout :: u32

definition server_config_of :: "CVal \<Rightarrow> ServerConfig option" where
  "server_config_of v = (case v of
     Fields [cs, n, Timespec sec nsec, Int32 timeout] \<Rightarrow> do {
       cs \<leftarrow> c_array cs n;
       cs \<leftarrow> those (map server_controller cs);
       Some \<lparr>sc_controllers = cs, sc_poll_interval = (sec, nsec), sc_request_timeout = timeout\<rparr>
     }
   | _ \<Rightarrow> None)"

definition client_controller :: "CVal \<Rightarrow> ClientController option" where
  "client_controller v = (case v of
     Fields [tag, Int32 vendor, Int32 product, name] \<Rightarrow> do {
       tag \<leftarrow> c_pointer tag;
       name \<leftarrow> Option.bind (c_pointer name) (\<lambda>n. n);
       Some \<lparr>cc_tag = tag, cc_device_vendor = vendor, cc_device_product = product, cc_device_name = name\<rparr>
     }
   | _ \<Rightarrow> None)"

definition client_slot :: "CVal \<Rightarrow> ClientSlot option" where
  "client_slot v = (case v of
     Fields [cs, n] \<Rightarrow> do { cs \<leftarrow> c_array cs n; cs \<leftarrow> those (map client_controller cs); Some \<lparr>sl_controllers = cs\<rparr> }
   | _ \<Rightarrow> None)"

definition client_config_of :: "CVal \<Rightarrow> ClientConfig option" where
  "client_config_of v = (case v of
     Fields [ss, n, fifo, Timespec sec nsec] \<Rightarrow> do {
       ss \<leftarrow> c_array ss n;
       ss \<leftarrow> those (map client_slot ss);
       fifo \<leftarrow> Option.bind (c_pointer fifo) (\<lambda>n. n);
       Some \<lparr>cf_slots = ss, cf_fifo_path = fifo, cf_retry_delay = (sec, nsec)\<rparr>
     }
   | _ \<Rightarrow> None)"

text \<open>The first 4096 bytes of the file are parsed into the second half of a buffer of 8192 bytes, of which
  \<open>raw\<close> is what was there. A parse error ends the program.\<close>

datatype 'a ConfigResult = Exits JSONError nat | Configured 'a

definition read_config :: "dpu \<Rightarrow> JSONAdapter \<Rightarrow> (CVal \<Rightarrow> 'a option) \<Rightarrow> byte list \<Rightarrow> byte list \<Rightarrow> 'a ConfigResult option" where
  "read_config D ad view raw file = do {
     (e, loc, jbuf) \<leftarrow> json_parse (fpu.truncate D) (take 4096 file) raw;
     if e \<noteq> NoError then Some (Exits e loc)
     else do { v \<leftarrow> json_adapt jbuf ad (raw_value ad); c \<leftarrow> view v; Some (Configured c) }
   }"

definition read_server_config :: "dpu \<Rightarrow> byte list \<Rightarrow> byte list \<Rightarrow> ServerConfig ConfigResult option" where
  "read_server_config D raw file = read_config D (ServerConfigAdapter D) server_config_of raw file"

definition read_client_config :: "dpu \<Rightarrow> byte list \<Rightarrow> byte list \<Rightarrow> ClientConfig ConfigResult option" where
  "read_client_config D raw file = read_config D (ClientConfigAdapter D) client_config_of raw file"

text \<open>A message on the fifo, of at most 2048 bytes: \<^const>\<open>None\<close> inside when it does not parse.\<close>

definition controller_state_of :: "CVal \<Rightarrow> DeviceControllerState option" where
  "controller_state_of v = (case v of
     Fields [Int16 i, Int8 l0, Int8 l1, Int8 l2, Int8 small, Int8 big, Int8 on, Int8 off] \<Rightarrow>
       Some \<lparr>cs_index = i, cs_led0 = l0, cs_led1 = l1, cs_led2 = l2, cs_small_rumble = small, cs_big_rumble = big,
         cs_flash_on = on, cs_flash_off = off\<rparr>
   | _ \<Rightarrow> None)"

definition fifo_message :: "dpu \<Rightarrow> byte list \<Rightarrow> byte list \<Rightarrow> DeviceControllerState option option" where
  "fifo_message D raw bs = do {
     (e, loc, jbuf) \<leftarrow> json_parse (fpu.truncate D) bs raw;
     if e \<noteq> NoError then Some None
     else do {
       v \<leftarrow> json_adapt jbuf (ControllerStateAdapter D) (raw_value (ControllerStateAdapter D));
       st \<leftarrow> controller_state_of v;
       Some (Some st)
     }
   }"

end
