(* ===== verification/Json_Adapt_Correct.thy ===== *)
theory Json_Adapt_Correct
  imports Json_Adapt Json_Correct
begin

text \<open>
  What the adapters compute, over JSON values instead of their encodings in a buffer, and the proof that
  the code computes it on the encoding of every value whose paths fit into the path buffer.
\<close>

section \<open>Adapters on values\<close>

text \<open>The value of a primitive adapter, when the types agree.\<close>

fun primitive_value :: "fpu \<Rightarrow> JSONType \<Rightarrow> json \<Rightarrow> CVal option" where
  "primitive_value F String (JStr s) = Some (Str (c_chars s))"
| "primitive_value F Number (JNum ds) = Some (Double (number_value F ds))"
| "primitive_value F Boolean (JBool b) = Some (Bool b)"
| "primitive_value F _ _ = None"

fun accepts :: "fpu \<Rightarrow> JSONAdapter \<Rightarrow> json \<Rightarrow> bool" where
  "accepts F (PrimitiveAdapter t) j \<longleftrightarrow> primitive_value F t j \<noteq> None"
| "accepts F (StructAdapter props sz) j \<longleftrightarrow> True"

text \<open>The loops: through a list with a state; over the elements of an array, where after one that is not of
  the type of its adapter the code reads the same one again; over properties, where those with the
  current path are set and end the path where the value began.\<close>

fun steps :: "('a \<Rightarrow> 's \<Rightarrow> 's option) \<Rightarrow> 'a list \<Rightarrow> 's \<Rightarrow> 's option" where
  "steps f [] s = Some s"
| "steps f (x # xs) s = do { s \<leftarrow> f x s; steps f xs s }"

fun elements :: "('a \<Rightarrow> CVal option) \<Rightarrow> ('a \<Rightarrow> bool) \<Rightarrow> 'a list \<Rightarrow> CVal list option" where
  "elements f ok [] = Some []"
| "elements f ok (x # xs) = do {
     v \<leftarrow> f x;
     vs \<leftarrow> (if ok x then elements f ok xs else Some (replicate (length xs) v));
     Some (v # vs)
   }"

fun at_path :: "(JSONPropertyAdapter \<Rightarrow> CVal list \<Rightarrow> CVal list option) \<Rightarrow> JSONPropertyAdapter list \<Rightarrow> CVal list
    \<Rightarrow> byte list \<Rightarrow> byte list \<Rightarrow> CVal list option" where
  "at_path f [] vs cur base = Some vs"
| "at_path f (pr # props) vs cur base =
    (if ad_path pr = cur then do { vs \<leftarrow> f pr vs; at_path f props vs base base } else at_path f props vs cur base)"

lemma steps_cong [fundef_cong]:
  "xs = ys \<Longrightarrow> s = t \<Longrightarrow> (\<And>x s. x \<in> set ys \<Longrightarrow> f x s = g x s) \<Longrightarrow> steps f xs s = steps g ys t"
  by (induction ys arbitrary: xs s t) (auto split: bind_split)

lemma elements_cong [fundef_cong]:
  "xs = ys \<Longrightarrow> (\<And>x. x \<in> set ys \<Longrightarrow> f x = g x) \<Longrightarrow> ok = ok' \<Longrightarrow> elements f ok xs = elements g ok' ys"
  by (induction ys arbitrary: xs) (auto split: bind_split)

lemma at_path_cong [fundef_cong]:
  "props = props' \<Longrightarrow> vs = vs' \<Longrightarrow> cur = cur' \<Longrightarrow> base = base' \<Longrightarrow> (\<And>x v. x \<in> set props' \<Longrightarrow> f x v = g x v) \<Longrightarrow>
     at_path f props vs cur base = at_path g props' vs' cur' base'"
  by (induction props' arbitrary: props vs vs' cur cur') (auto split: bind_split)

text \<open>A structure: the properties whose path is that of the value are set from it, and then those of the
  values inside. The path of the value is \<open>base\<close>, and \<open>.\<close> for the value the adapter starts at; an
  array's path ends in \<open>[]\<close>.\<close>

definition here :: "json \<Rightarrow> byte list \<Rightarrow> bool \<Rightarrow> byte list" where
  "here j base first = (case j of JArr _ \<Rightarrow> base @ [0x5B, 0x5D] | _ \<Rightarrow> if first then [0x2E] else base)"

lemma size_property: "pr \<in> set props \<Longrightarrow> size (ad_type pr) < Suc (size_list size props)"
proof (induction props)
  case (Cons p props)
  then show ?case by (cases p) auto
qed simp

lemma size_element: "j \<in> set js \<Longrightarrow> size (j :: json) < Suc (size_list size js)"
  by (induction js) auto

lemma size_member: "(k, j) \<in> set kvs \<Longrightarrow> size (j :: json) < Suc (size_list (size_prod (\<lambda>_. 0) size) kvs)"
  by (induction kvs) auto

definition store_property :: "JSONPropertyAdapter \<Rightarrow> CVal \<Rightarrow> CVal list \<Rightarrow> CVal list option" where
  "store_property pr v vs = (case ad_transformer pr of
     Some tsf \<Rightarrow> do { ws \<leftarrow> tsf v (drop (ad_offset pr) vs); Some (take (ad_offset pr) vs @ ws) }
   | None \<Rightarrow> Some (vs[ad_offset pr := v]))"

function adapt_value :: "fpu \<Rightarrow> JSONAdapter \<Rightarrow> json \<Rightarrow> CVal \<Rightarrow> byte list \<Rightarrow> bool \<Rightarrow> CVal option" where
  "adapt_value F ad j v base first = (case ad of
     PrimitiveAdapter t \<Rightarrow> Some (case primitive_value F t j of Some w \<Rightarrow> w | None \<Rightarrow> v)
   | StructAdapter props sz \<Rightarrow> do {
       vs \<leftarrow> (case if first then json_adapt_set_defaults ad v else v of
           Fields vs \<Rightarrow> at_path (\<lambda>pr vs. case j of
               JArr js \<Rightarrow> do {
                 es \<leftarrow> elements (\<lambda>j. adapt_value F (ad_type pr) j (raw_value (ad_type pr)) [] True) (accepts F (ad_type pr)) js;
                 Some (vs[ad_offset pr := Elements es, ad_offset pr + 1 := Int64 (of_nat (length js))])
               }
             | _ \<Rightarrow> do {
                 tmp \<leftarrow> adapt_value F (ad_type pr) j (raw_value (ad_type pr)) [] True;
                 store_property pr tmp vs
               }) props vs (here j base first) base
         | _ \<Rightarrow> None);
       case j of
         JObj kvs \<Rightarrow> steps (\<lambda>(key, j) v. adapt_value F ad j v (base @ 0x2E # c_chars key) False) kvs (Fields vs)
       | JArr js \<Rightarrow> steps (\<lambda>(j, i) v. adapt_value F ad j v (base @ index_path i) False) (zip js [0..<length js]) (Fields vs)
       | _ \<Rightarrow> Some (Fields vs)
     })"
  by pat_completeness auto
termination
proof (relation "measures [\<lambda>(F, ad, j, v, base, first). size j, \<lambda>(F, ad, j, v, base, first). size ad]", goal_cases)
  case 1
  then show ?case by simp
qed (auto dest!: set_zip_leftD intro: size_property size_element size_member)

declare adapt_value.simps [simp del]

section \<open>Encodings in a buffer\<close>

definition holds_at :: "byte list \<Rightarrow> nat \<Rightarrow> byte list \<Rightarrow> bool" where
  "holds_at mem p bs \<longleftrightarrow> load (length bs) mem p = Some bs"

lemma holds_at_append: "holds_at mem p (xs @ ys) \<longleftrightarrow> holds_at mem p xs \<and> holds_at mem (p + length xs) ys"
  by (auto simp: holds_at_def load_def take_add append_eq_append_conv add.commute split: if_splits)

lemma holds_at_length: "holds_at mem p bs \<Longrightarrow> p + length bs \<le> length mem"
  by (auto simp: holds_at_def load_def split: if_splits)

lemma read_header_hdr:
  assumes "holds_at mem p (hdr ty n)"
  shows "read_header mem p = Some (Some ty, of_nat n)"
proof -
  have "holds_at mem p (le_bytes 4 (json_type_val ty))" "holds_at mem (p + 4) (le_bytes 4 (of_nat n :: u32))"
    using assms by (simp_all add: hdr_def holds_at_append)
  moreover have "json_type_of (json_type_val ty) = Some ty" by (cases ty) (simp_all add: json_type_of_def)
  ultimately show ?thesis by (simp add: read_header_def load32_def holds_at_def)
qed

text \<open>The type and the length in the header of an encoding, and what follows it.\<close>

fun json_type :: "json \<Rightarrow> JSONType" where
  "json_type (JStr s) = String"
| "json_type (JNum ds) = Number"
| "json_type (JObj kvs) = Object"
| "json_type (JArr js) = Array"
| "json_type (JBool b) = Boolean"
| "json_type JNull = Null"

fun payload :: "fpu \<Rightarrow> json \<Rightarrow> byte list" where
  "payload F (JStr s) = s @ replicate (pad8 (length s)) 0"
| "payload F (JNum ds) = le_bytes 8 (number_value F ds)"
| "payload F (JObj kvs) = concat (map (\<lambda>(k, v). string_code k @ code F v) kvs)"
| "payload F (JArr js) = concat (map (code F) js)"
| "payload F (JBool b) = le_bytes 8 (if b then 1 else 0 :: u64)"
| "payload F JNull = []"

definition code_len :: "fpu \<Rightarrow> json \<Rightarrow> nat" where
  "code_len F j = (case j of JStr s \<Rightarrow> length s | _ \<Rightarrow> length (payload F j))"

lemma code_payload: "code F j = hdr (json_type j) (code_len F j) @ payload F j"
  by (cases j) (simp_all add: code_len_def string_code_def Let_def)

lemma length_string_code [simp]: "length (string_code s) = 8 + (length s + 7) div 8 * 8"
  by (simp add: string_code_def pad8_def)

lemma eight_dvd_code: "8 dvd length (code F j)"
proof (induction j)
  case (JObj kvs)
  then have "8 dvd length (concat (map (\<lambda>(k, v). string_code k @ code F v) kvs))"
    by (induction kvs) fastforce+
  then show ?case by (simp add: Let_def)
next
  case (JArr js)
  then have "8 dvd length (concat (map (code F) js))" by (induction js) auto
  then show ?case by (simp add: Let_def)
qed simp_all

lemma eight_le_code: "8 \<le> length (code F j)"
  by (simp add: code_payload [of F j])

lemma padded_of_nat: "n < 2 ^ 32 \<Longrightarrow> padded (of_nat n) = (n + 7) div 8 * 8"
proof -
  assume n: "n < 2 ^ 32"
  have "unat (ucast (of_nat n :: u32) :: u64) = n" using n by (simp add: unsigned_ucast_eq unsigned_of_nat take_bit_nat_eq_self)
  then show ?thesis using align_unat [of "ucast (of_nat n :: u32)" 3] n by (simp add: padded_def align_8_def)
qed

lemma padded_code: "code_len F j < 2 ^ 32 \<Longrightarrow> 8 + padded (of_nat (code_len F j)) = length (code F j)"
proof -
  assume n: "code_len F j < 2 ^ 32"
  have "8 dvd length (payload F j)" using eight_dvd_code [of F j] by (simp add: code_payload [of F j])
  then have "(code_len F j + 7) div 8 * 8 = length (payload F j)"
    by (cases j) (auto simp: code_len_def pad8_def elim!: dvdE)
  then show ?thesis using padded_of_nat [OF n] by (simp add: code_payload [of F j])
qed

section \<open>The loops\<close>

text \<open>Room for the paths inside a value, from the one of the value on.\<close>

fun path_room :: "json \<Rightarrow> nat" where
  "path_room (JObj kvs) = foldr (\<lambda>(k, v) n. max (1 + length k + path_room v) n) kvs 2"
| "path_room (JArr js) = foldr (\<lambda>v n. max (21 + path_room v) n) js 2"
| "path_room _ = 2"

lemma path_room_least: "2 \<le> path_room j"
proof (cases j)
  case (JObj kvs)
  have "2 \<le> foldr (\<lambda>(k, v) n. max (1 + length k + path_room v) n) kvs 2" by (induction kvs) auto
  then show ?thesis using JObj by simp
next
  case (JArr js)
  have "2 \<le> foldr (\<lambda>v n. max (21 + path_room v) n) js 2" by (induction js) auto
  then show ?thesis using JArr by simp
qed simp_all

lemma path_room_member: "(k, j) \<in> set kvs \<Longrightarrow> 1 + length k + path_room j \<le> path_room (JObj kvs)"
  by (induction kvs) auto

lemma path_room_element: "j \<in> set js \<Longrightarrow> 21 + path_room j \<le> path_room (JArr js)"
  by (induction js) auto

lemma length_digits_of: "length (digits_of d n) \<le> d"
  by (induction d n rule: digits_of.induct) auto

lemma length_index_path: "length (index_path i) \<le> 21" "index_path i \<noteq> []"
  using length_digits_of [of 20 i] by (simp_all add: index_path_def)

lemma length_c_chars: "length (c_chars k) \<le> length k"
  by (simp add: c_chars_def length_takeWhile_le)

text \<open>A reader computes the adapter's value of an encoding, wherever it lies in the buffer, and moves
  past it, except that it stays at a primitive value of another type.\<close>

definition computes :: "fpu \<Rightarrow> byte list \<Rightarrow> reader \<Rightarrow> JSONAdapter \<Rightarrow> json \<Rightarrow> bool" where
  "computes F mem rec ad j \<longleftrightarrow> (\<forall>p v b base. holds_at mem p (code F j) \<longrightarrow> b + length base + path_room j < path_buffer_size \<longrightarrow>
     rec p ad v b (if base = [] then [0x2E] else base) (length base) =
       map_option (Pair (if accepts F ad j then p + length (code F j) else p)) (adapt_value F ad j v base (base = [])))"

lemma computes_first:
  assumes "computes F mem rec ad j" and "holds_at mem p (code F j)" and "b + path_room j < path_buffer_size"
  shows "rec p ad v b [0x2E] 0 =
    map_option (Pair (if accepts F ad j then p + length (code F j) else p)) (adapt_value F ad j v [] True)"
proof -
  have "b + length ([] :: byte list) + path_room j < path_buffer_size" using assms(3) by simp
  then show ?thesis using assms(1,2) unfolding computes_def by fastforce
qed

lemma computes_inside:
  assumes "computes F mem rec ad j" and "holds_at mem p (code F j)" and "b + length base + path_room j < path_buffer_size"
    and "base \<noteq> []" and "accepts F ad j"
  shows "rec p ad v b base (length base) = map_option (Pair (p + length (code F j))) (adapt_value F ad j v base False)"
  using assms unfolding computes_def by fastforce

lemma count_loop_codes:
  assumes "length mem < 2 ^ 32" and "holds_at mem p (concat (map (code F) js))" and "length js < m"
  shows "count_loop m mem p (p + length (concat (map (code F) js))) = Some (length js)"
  using assms(2,3)
proof (induction js arbitrary: p m)
  case (Cons j js)
  then obtain m' where m: "m = Suc m'" by (cases m) auto
  have h: "holds_at mem p (code F j)" "holds_at mem (p + length (code F j)) (concat (map (code F) js))"
    using Cons.prems(1) by (simp_all add: holds_at_append)
  then have "read_header mem p = Some (Some (json_type j), of_nat (code_len F j))"
    by (simp add: code_payload [of F j] holds_at_append read_header_hdr)
  moreover have "code_len F j < 2 ^ 32"
    using holds_at_length [OF h(1)] assms(1) by (cases j) (simp_all add: code_len_def code_payload string_code_def)
  then have "p + padded (of_nat (code_len F j)) + sizeof_JSONHeader = p + length (code F j)"
    using padded_code [of F j] by (simp add: sizeof_JSONHeader_def)
  moreover have "p < p + length (code F j)" using eight_le_code [of F j] by linarith
  ultimately show ?case using Cons.IH [OF h(2), of m'] Cons.prems(2) m by (simp add: add.assoc)
qed (auto simp: gr0_conv_Suc)

lemma length_codes: "length js \<le> length (concat (map (code F) js))"
proof (induction js)
  case (Cons j js)
  then show ?case using eight_le_code [of F j] by simp
qed simp

lemma read_elements_stuck:
  assumes "rec p ad (raw_value ad) b [0x2E] 0 = Some (p, w)"
  shows "read_elements rec p ad b c = Some (replicate c w)"
  by (induction c) (simp_all add: assms)

lemma read_elements_codes:
  assumes "\<And>j. j \<in> set js \<Longrightarrow> computes F mem rec ad j" and "holds_at mem p (concat (map (code F) js))"
    and "\<And>j. j \<in> set js \<Longrightarrow> b + path_room j < path_buffer_size"
  shows "read_elements rec p ad b (length js) = elements (\<lambda>j. adapt_value F ad j (raw_value ad) [] True) (accepts F ad) js"
  using assms
proof (induction js arbitrary: p)
  case (Cons j js)
  have h: "holds_at mem p (code F j)" "holds_at mem (p + length (code F j)) (concat (map (code F) js))"
    using Cons.prems(2) by (simp_all add: holds_at_append)
  have r: "rec p ad v b [0x2E] 0 =
      map_option (Pair (if accepts F ad j then p + length (code F j) else p)) (adapt_value F ad j v [] True)" for v
    by (rule computes_first [OF Cons.prems(1) h(1) Cons.prems(3)]) simp_all
  show ?case
  proof (cases "accepts F ad j")
    case True
    then show ?thesis using r Cons.IH [OF _ h(2)] Cons.prems(1,3) by (auto split: bind_split)
  next
    case False
    then show ?thesis using r [of "raw_value ad"] read_elements_stuck [of rec p ad b]
      by (cases "adapt_value F ad j (raw_value ad) [] True") auto
  qed
qed simp

lemma read_properties_at_path:
  assumes "\<And>pr vs. pr \<in> set props \<Longrightarrow> read_property rec mem p pr vs (b + k) = f pr vs"
    and "b + k + 1 < path_buffer_size" and "take k cur = base"
  shows "read_properties rec mem p props vs b cur k = at_path f props vs cur base"
  using assms(1,3)
proof (induction props arbitrary: vs cur)
  case (Cons pr props)
  have "take k base = base" unfolding Cons.prems(2) [symmetric] by simp
  with Cons show ?case using assms(2) by (auto simp: path_write_def split: bind_split)
qed simp

lemma walk_array_items:
  assumes "\<And>j. j \<in> set js \<Longrightarrow> computes F mem rec ad j \<and> accepts F ad j \<and> b + k + 21 + path_room j < path_buffer_size"
    and "holds_at mem p (concat (map (code F) js))" and "length js < m" and "take k cur = base" and "length base = k"
  shows "walk_array m rec p (p + length (concat (map (code F) js))) ad v b cur k i =
    map_option (Pair (p + length (concat (map (code F) js))))
      (steps (\<lambda>(j, i) v. adapt_value F ad j v (base @ index_path i) False) (zip js [i..<i + length js]) v)"
  using assms(1-4)
proof (induction js arbitrary: p m cur v i)
  case (Cons j js)
  then obtain m' where m: "m = Suc m'" by (cases m) auto
  have h: "holds_at mem p (code F j)" "holds_at mem (p + length (code F j)) (concat (map (code F) js))"
    using Cons.prems(2) by (simp_all add: holds_at_append)
  have c: "computes F mem rec ad j" "accepts F ad j" and room: "b + k + 21 + path_room j < path_buffer_size"
    using Cons.prems(1) by simp_all
  have w: "path_write b cur k (index_path i) = Some (base @ index_path i)"
    using room length_index_path(1) [of i] Cons.prems(4) by (simp add: path_write_def)
  have "b + length (base @ index_path i) + path_room j < path_buffer_size"
    using room length_index_path(1) [of i] assms(5) by simp
  from computes_inside [OF c(1) h(1) this _ c(2)] length_index_path(2)
  have r: "rec p ad v b (base @ index_path i) (length (base @ index_path i)) =
      map_option (Pair (p + length (code F j))) (adapt_value F ad j v (base @ index_path i) False)" by simp
  have "take k (base @ index_path i) = base" using assms(5) by simp
  note ih = Cons.IH [OF _ h(2) _ this, of m' _ "Suc i"]
  have "[i..<i + length (j # js)] = i # [Suc i..<Suc i + length js]" by (simp add: upt_rec)
  moreover have "p < p + length (code F j)" using eight_le_code [of F j] by linarith
  ultimately show ?case using m w r ih Cons.prems(1,3)
    by (cases "adapt_value F ad j v (base @ index_path i) False") (simp_all add: add.assoc)
qed (auto simp: gr0_conv_Suc)

lemma walk_object_members:
  assumes "\<And>key j. (key, j) \<in> set kvs \<Longrightarrow>
      computes F mem rec ad j \<and> accepts F ad j \<and> b + k + 1 + length key + path_room j < path_buffer_size"
    and "holds_at mem p (concat (map (\<lambda>(k, v). string_code k @ code F v) kvs))" and "length kvs < m"
    and "take k cur = base" and "length base = k" and "length mem < 2 ^ 32"
  shows "walk_object m rec mem p (p + length (concat (map (\<lambda>(k, v). string_code k @ code F v) kvs))) ad v b cur k =
    map_option (Pair (p + length (concat (map (\<lambda>(k, v). string_code k @ code F v) kvs))))
      (steps (\<lambda>(key, j) v. adapt_value F ad j v (base @ 0x2E # c_chars key) False) kvs v)"
  using assms(1-4)
proof (induction kvs arbitrary: p m cur v)
  case (Cons kv kvs)
  obtain key j where kv: "kv = (key, j)" by (cases kv) auto
  obtain m' where m: "m = Suc m'" using Cons.prems(3) by (cases m) auto
  let ?q = "p + length (string_code key)" and ?cur = "base @ 0x2E # c_chars key"
  have h: "holds_at mem p (string_code key)" "holds_at mem ?q (code F j)"
    "holds_at mem (?q + length (code F j)) (concat (map (\<lambda>(k, v). string_code k @ code F v) kvs))"
    using Cons.prems(2) by (simp_all only: kv concat.simps list.map prod.case holds_at_append length_append add.assoc)
  have hk: "holds_at mem p (hdr String (length key))" "holds_at mem (p + 8) key"
    using h(1) by (simp_all add: string_code_def holds_at_append)
  have len: "length key < 2 ^ 32" using holds_at_length [OF hk(2)] assms(6) by simp
  have key: "read_header mem p = Some (Some String, of_nat (length key))"
    "load (unat (of_nat (length key) :: u32)) mem (p + sizeof_JSONHeader) = Some key"
    using read_header_hdr [OF hk(1)] hk(2) len
    by (simp_all add: holds_at_def sizeof_JSONHeader_def unsigned_of_nat take_bit_nat_eq_self)
  have q: "p + sizeof_JSONHeader + padded (of_nat (length key)) = ?q"
    using padded_of_nat [OF len] by (simp add: sizeof_JSONHeader_def)
  have c: "computes F mem rec ad j" "accepts F ad j" and room: "b + k + 1 + length key + path_room j < path_buffer_size"
    using Cons.prems(1) [of key j] kv by simp_all
  have w: "path_write b cur k (0x2E # c_chars key) = Some ?cur"
    using room length_c_chars [of key] Cons.prems(4) by (simp add: path_write_def)
  have "b + length ?cur + path_room j < path_buffer_size" using room length_c_chars [of key] assms(5) by simp
  from computes_inside [OF c(1) h(2) this _ c(2)]
  have r: "rec ?q ad v b ?cur (length ?cur) = map_option (Pair (?q + length (code F j))) (adapt_value F ad j v ?cur False)" by simp
  have "take k ?cur = base" using assms(5) by simp
  moreover have "computes F mem rec ad j \<and> accepts F ad j \<and> b + k + 1 + length key + path_room j < path_buffer_size"
    if "(key, j) \<in> set kvs" for key j
    by (rule Cons.prems(1)) (simp add: that)
  ultimately have ih: "length kvs < m' \<Longrightarrow> walk_object m' rec mem (?q + length (code F j)) (?q + length (code F j) +
        length (concat (map (\<lambda>(k, v). string_code k @ code F v) kvs))) ad v b ?cur k =
      map_option (Pair (?q + length (code F j) + length (concat (map (\<lambda>(k, v). string_code k @ code F v) kvs))))
        (steps (\<lambda>(key, j) v. adapt_value F ad j v (base @ 0x2E # c_chars key) False) kvs v)" for v
    using Cons.IH [OF _ h(3), of m' ?cur] by blast
  have "p < ?q + length (code F j)" using eight_le_code [of F j] by linarith
  then show ?case using m key w r q ih Cons.prems(1,3)
    by (cases "adapt_value F ad j v ?cur False") (simp_all add: kv add.assoc)
qed (auto simp: gr0_conv_Suc)

section \<open>The whole function\<close>

text \<open>The primitive adapters there are.\<close>

function wf_adapter :: "JSONAdapter \<Rightarrow> bool" where
  "wf_adapter ad = (case ad of PrimitiveAdapter t \<Rightarrow> t \<in> {String, Number, Boolean}
     | StructAdapter props sz \<Rightarrow> \<forall>pr \<in> set props. wf_adapter (ad_type pr))"
  by pat_completeness auto
termination by (relation "measure size") (auto intro: size_property)

lemma wf_adapter_simps [simp]:
  "wf_adapter (PrimitiveAdapter t) \<longleftrightarrow> t \<in> {String, Number, Boolean}"
  "wf_adapter (StructAdapter props sz) \<longleftrightarrow> (\<forall>pr \<in> set props. wf_adapter (ad_type pr))"
  by (subst wf_adapter.simps, simp)+

declare wf_adapter.simps [simp del]

lemma depth_property: "pr \<in> set props \<Longrightarrow> adapter_depth (ad_type pr) \<le> properties_depth props"
proof (induction props)
  case (Cons p props)
  then show ?case by (cases p) auto
qed simp

lemma code_len_small:
  assumes "holds_at mem p (code F j)" and "length mem < 2 ^ 32"
  shows "code_len F j < 2 ^ 32" and "unat (of_nat (code_len F j) :: u32) = code_len F j"
proof -
  have "p + length (code F j) < 2 ^ 32" using holds_at_length [OF assms(1)] assms(2) by simp
  moreover have "code_len F j \<le> length (code F j)" by (cases j) (simp_all add: code_len_def code_payload string_code_def Let_def)
  ultimately show "code_len F j < 2 ^ 32" by linarith
  then show "unat (of_nat (code_len F j) :: u32) = code_len F j" by (simp add: unsigned_of_nat take_bit_nat_eq_self)
qed

lemma code_header:
  assumes "holds_at mem p (code F j)"
  shows "read_header mem p = Some (Some (json_type j), of_nat (code_len F j))"
    and "holds_at mem (p + sizeof_JSONHeader) (payload F j)"
  using assms by (simp_all add: code_payload [of F j] holds_at_append read_header_hdr sizeof_JSONHeader_def)

lemma primitive_read:
  assumes "holds_at mem p (code F j)" and "length mem < 2 ^ 32" and "t \<in> {String, Number, Boolean}"
  shows "(if Some (json_type j) \<noteq> Some t then Some (p, v)
      else read_primitive mem (p + sizeof_JSONHeader) t (of_nat (code_len F j)) v) =
    Some (if primitive_value F t j \<noteq> None then p + length (code F j) else p,
      case primitive_value F t j of Some w \<Rightarrow> w | None \<Rightarrow> v)"
proof -
  note h = code_header(2) [OF assms(1)]
  have "p + length (code F j) = p + sizeof_JSONHeader + padded (of_nat (code_len F j))"
    using padded_code [OF code_len_small(1) [OF assms(1,2)]] by (simp add: sizeof_JSONHeader_def)
  moreover have "load64 mem (p + sizeof_JSONHeader) = Some (le_val (payload F j))" if "length (payload F j) = 8"
    using h that by (simp add: load64_def holds_at_def)
  moreover have "load (length s) mem (p + sizeof_JSONHeader) = Some s" if "j = JStr s" for s
    using h that by (simp add: holds_at_append) (simp add: holds_at_def)
  ultimately show ?thesis
    using assms(3) h code_len_small [OF assms(1,2)]
    by (cases j) (auto simp: read_primitive_def holds_at_append sizeof_JSONHeader_def code_len_def holds_at_def)
qed

lemma property_read:
  assumes "holds_at mem p (code F j)" and "length mem < 2 ^ 32" and "b + path_room j < path_buffer_size"
    and "computes F mem rec (ad_type pr) j"
    and "\<And>js i. j = JArr js \<Longrightarrow> i \<in> set js \<Longrightarrow> computes F mem rec (ad_type pr) i"
  shows "read_property rec mem p pr vs b = (case j of
      JArr js \<Rightarrow> do {
        es \<leftarrow> elements (\<lambda>j. adapt_value F (ad_type pr) j (raw_value (ad_type pr)) [] True) (accepts F (ad_type pr)) js;
        Some (vs[ad_offset pr := Elements es, ad_offset pr + 1 := Int64 (of_nat (length js))])
      }
    | _ \<Rightarrow> do {
        tmp \<leftarrow> adapt_value F (ad_type pr) j (raw_value (ad_type pr)) [] True;
        store_property pr tmp vs
      })"
proof (cases "\<exists>js. j = JArr js")
  case True
  then obtain js where j: "j = JArr js" by blast
  note h = code_header [OF assms(1)] and n = code_len_small(2) [OF assms(1,2)]
  let ?q = "p + sizeof_JSONHeader"
  have a: "holds_at mem ?q (concat (map (code F) js))" using h(2) j by simp
  have "b + path_room i < path_buffer_size" if "i \<in> set js" for i
    using path_room_element [OF that] assms(3) j by simp
  then have e: "read_elements rec ?q (ad_type pr) b (length js) =
      elements (\<lambda>j. adapt_value F (ad_type pr) j (raw_value (ad_type pr)) [] True) (accepts F (ad_type pr)) js"
    by (intro read_elements_codes [OF _ a]) (use assms(5) j in simp_all)
  have c: "count_elements mem ?q (?q + length (concat (map (code F) js))) = Some (length js)"
    using count_loop_codes [OF assms(2) a, of "Suc (length (concat (map (code F) js)))"] length_codes [of js F]
    by (simp add: count_elements_def del: count_loop.simps)
  from e c n show ?thesis unfolding read_property_def h(1) by (simp add: j code_len_def)
next
  case False
  have r: "rec p (ad_type pr) (raw_value (ad_type pr)) b [0x2E] 0 =
      map_option (Pair (if accepts F (ad_type pr) j then p + length (code F j) else p))
        (adapt_value F (ad_type pr) j (raw_value (ad_type pr)) [] True)"
    by (rule computes_first [OF assms(4,1,3)])
  have t: "(json_type j = Array) = False" using False by (cases j) auto
  show ?thesis unfolding read_property_def code_header(1) [OF assms(1)]
    using False t r by (cases j) (auto simp: store_property_def bind_map_option comp_def)
qed

lemma shorter_element: "j \<in> set js \<Longrightarrow> length (code F j) < length (code F (JArr js))"
  by (induction js) (auto simp: Let_def)

lemma shorter_member: "(key, j) \<in> set kvs \<Longrightarrow> length (code F j) < length (code F (JObj kvs))"
  by (induction kvs) (auto simp: Let_def)

lemma bind_map_option_eq: "(\<And>x. f x = map_option g (h x)) \<Longrightarrow> Option.bind m f = map_option g (Option.bind m h)"
  by (cases m) simp_all

text \<open>The last part of the function, once the properties of the path are read.\<close>

lemma descent:
  assumes "holds_at mem p (code F j)" and "length mem < 2 ^ 32" and "b + length base + path_room j < path_buffer_size"
    and "take (length base) cur = base" and "wf_adapter (StructAdapter props sz)"
    and "\<And>js i. j = JArr js \<Longrightarrow> i \<in> set js \<Longrightarrow> computes F mem rec (StructAdapter props sz) i"
    and "\<And>kvs key i. j = JObj kvs \<Longrightarrow> (key, i) \<in> set kvs \<Longrightarrow> computes F mem rec (StructAdapter props sz) i"
  defines "q \<equiv> p + sizeof_JSONHeader" and "len \<equiv> of_nat (code_len F j) :: u32" and "ad \<equiv> StructAdapter props sz"
  shows "(case json_type j of
       String \<Rightarrow> Some (q + padded len, v)
     | Number \<Rightarrow> Some (q + 8, v)
     | Boolean \<Rightarrow> Some (q + 8, v)
     | Null \<Rightarrow> Some (q, v)
     | Array \<Rightarrow> walk_array (Suc (unat len)) rec q (q + unat len) ad v b cur (length base) 0
     | Object \<Rightarrow> walk_object (Suc (unat len)) rec mem q (q + unat len) ad v b cur (length base)) =
   map_option (Pair (p + length (code F j))) (case j of
       JObj kvs \<Rightarrow> steps (\<lambda>(key, j) v. adapt_value F ad j v (base @ 0x2E # c_chars key) False) kvs v
     | JArr js \<Rightarrow> steps (\<lambda>(j, i) v. adapt_value F ad j v (base @ index_path i) False) (zip js [0..<length js]) v
     | _ \<Rightarrow> Some v)"
proof -
  note pay = code_header(2) [OF assms(1), folded q_def]
  have len: "unat len = code_len F j" using code_len_small(2) [OF assms(1,2)] by (simp add: len_def)
  have all: "q + padded len = p + length (code F j)"
    using padded_code [OF code_len_small(1) [OF assms(1,2)]] by (simp add: q_def len_def sizeof_JSONHeader_def)
  show ?thesis
  proof (cases j)
    case (JObj kvs)
    then have pl: "holds_at mem q (concat (map (\<lambda>(k, v). string_code k @ code F v) kvs))" using pay by simp
    have n: "length kvs < Suc (unat len)"
    proof -
      have "length kvs \<le> length (concat (map (\<lambda>(k, v). string_code k @ code F v) kvs))"
        by (induction kvs) (auto simp: string_code_def)
      then show ?thesis using len JObj by (simp add: code_len_def)
    qed
    have r: "computes F mem rec ad i \<and> accepts F ad i \<and> b + length base + 1 + length key + path_room i < path_buffer_size"
      if "(key, i) \<in> set kvs" for key i
      using assms(7) [OF JObj that] path_room_member [OF that] assms(3) JObj by (simp add: ad_def)
    have fin: "q + unat len = q + length (concat (map (\<lambda>(k, v). string_code k @ code F v) kvs))"
      "p + length (code F j) = q + length (concat (map (\<lambda>(k, v). string_code k @ code F v) kvs))"
      using len JObj by (simp_all add: code_len_def q_def sizeof_JSONHeader_def Let_def)
    from walk_object_members [OF r pl n assms(4) refl assms(2)] show ?thesis
      unfolding fin by (simp add: JObj del: walk_object.simps)
  next
    case (JArr js)
    then have pl: "holds_at mem q (concat (map (code F) js))" using pay by simp
    have n: "length js < Suc (unat len)" using length_codes [of js F] len JArr by (simp add: code_len_def)
    have r: "computes F mem rec ad i \<and> accepts F ad i \<and> b + length base + 21 + path_room i < path_buffer_size" if "i \<in> set js" for i
      using assms(6) [OF JArr that] path_room_element [OF that] assms(3) JArr by (simp add: ad_def)
    have fin: "q + unat len = q + length (concat (map (code F) js))" "p + length (code F j) = q + length (concat (map (code F) js))"
      using len JArr by (simp_all add: code_len_def q_def sizeof_JSONHeader_def Let_def)
    from walk_array_items [OF r pl n assms(4) refl, of v 0] show ?thesis
      unfolding fin by (simp add: JArr del: walk_array.simps)
  qed (use all in \<open>simp_all add: q_def sizeof_JSONHeader_def string_code_def pad8_def\<close>)
qed

lemma json_adapt_priv_computes:
  assumes "wf_adapter ad" and "length mem < 2 ^ 32" and "length (code F j) + adapter_depth ad < n"
  shows "computes F mem (json_adapt_priv n mem) ad j"
  using assms(1,3)
proof (induction n arbitrary: j ad)
  case (Suc n)
  let ?rec = "json_adapt_priv n mem"
  show ?case unfolding computes_def
  proof (intro allI impI)
    fix p v b and base :: "byte list"
    assume h: "holds_at mem p (code F j)" and room: "b + length base + path_room j < path_buffer_size"
    let ?cur = "if base = [] then [0x2E] else base" and ?cur2 = "here j base (base = [])"
    have take: "take (length base) ?cur = base" by simp
    have cur: "(if Some (json_type j) = Some Array then path_write b ?cur (length base) [0x5B, 0x5D] else Some ?cur) = Some ?cur2"
      using room path_room_least [of j] take by (cases j) (simp_all add: here_def path_write_def)
    note step = json_adapt_priv.simps(2) adapt_step_def code_header(1) [OF h] Option.bind.simps prod.case cur Let_def
    show "json_adapt_priv (Suc n) mem p ad v b ?cur (length base) =
      map_option (Pair (if accepts F ad j then p + length (code F j) else p)) (adapt_value F ad j v base (base = []))"
    proof (cases ad)
      case (PrimitiveAdapter t)
      then have "t \<in> {String, Number, Boolean}" using Suc.prems(1) by simp
      from primitive_read [OF h assms(2) this] show ?thesis
        by (simp only: step PrimitiveAdapter JSONAdapter.case option.case) (simp add: adapt_value.simps)
    next
      case (StructAdapter props sz)
      have sub: "computes F mem ?rec (ad_type pr) i" if "pr \<in> set props" "length (code F i) \<le> length (code F j)" for pr i
        using Suc.prems depth_property [OF that(1)] that by (intro Suc.IH) (auto simp: StructAdapter)
      let ?f = "\<lambda>pr vs. case j of
           JArr js \<Rightarrow> do {
             es \<leftarrow> elements (\<lambda>j. adapt_value F (ad_type pr) j (raw_value (ad_type pr)) [] True) (accepts F (ad_type pr)) js;
             Some (vs[ad_offset pr := Elements es, ad_offset pr + 1 := Int64 (of_nat (length js))])
           }
         | _ \<Rightarrow> do {
             tmp \<leftarrow> adapt_value F (ad_type pr) j (raw_value (ad_type pr)) [] True;
             store_property pr tmp vs
           }"
      have "read_property ?rec mem p pr vs (b + length base) = ?f pr vs" if pr: "pr \<in> set props" for pr vs
      proof (rule property_read [OF h assms(2) room sub [OF pr order_refl]])
        fix js i assume "j = JArr js" "i \<in> set js"
        then show "computes F mem ?rec (ad_type pr) i" using sub [OF pr] shorter_element [of i js F] by (simp add: less_imp_le)
      qed
      moreover have cur2: "take (length base) ?cur2 = base" by (cases j) (simp_all add: here_def)
      ultimately have props: "read_properties ?rec mem p props vs b ?cur2 (length base) = at_path ?f props vs ?cur2 base" for vs
        using room path_room_least [of j] by (intro read_properties_at_path) auto
      have inside: "computes F mem ?rec (StructAdapter props sz) i" if "length (code F i) < length (code F j)" for i
        using Suc.prems that by (intro Suc.IH) (auto simp: StructAdapter)
      have walk: "(case json_type j of
           String \<Rightarrow> Some (p + sizeof_JSONHeader + padded (of_nat (code_len F j)), v)
         | Number \<Rightarrow> Some (p + sizeof_JSONHeader + 8, v) | Boolean \<Rightarrow> Some (p + sizeof_JSONHeader + 8, v)
         | Null \<Rightarrow> Some (p + sizeof_JSONHeader, v)
         | Array \<Rightarrow> walk_array (Suc (unat (of_nat (code_len F j) :: u32))) ?rec (p + sizeof_JSONHeader)
             (p + sizeof_JSONHeader + unat (of_nat (code_len F j) :: u32)) (StructAdapter props sz) v b ?cur2 (length base) 0
         | Object \<Rightarrow> walk_object (Suc (unat (of_nat (code_len F j) :: u32))) ?rec mem (p + sizeof_JSONHeader)
             (p + sizeof_JSONHeader + unat (of_nat (code_len F j) :: u32)) (StructAdapter props sz) v b ?cur2 (length base)) =
       map_option (Pair (p + length (code F j))) (case j of
           JObj kvs \<Rightarrow> steps (\<lambda>(key, j) v. adapt_value F (StructAdapter props sz) j v (base @ 0x2E # c_chars key) False) kvs v
         | JArr js \<Rightarrow> steps (\<lambda>(j, i) v. adapt_value F (StructAdapter props sz) j v (base @ index_path i) False) (zip js [0..<length js]) v
         | _ \<Rightarrow> Some v)" for v
        by (rule descent [OF h assms(2) room cur2 Suc.prems(1) [unfolded StructAdapter]])
          (simp_all add: inside shorter_element shorter_member del: code.simps)
      show ?thesis
        by (simp only: step StructAdapter JSONAdapter.case option.case adapt_value.simps [of F "StructAdapter props sz" j v base "base = []"]
            length_0_conv props walk accepts.simps if_True)
          (intro bind_map_option_eq refl)
    qed
  qed
qed simp

lemma json_adapt_value:
  assumes "wf_adapter ad" and "holds_at buf 0 (code F j)" and "length buf < 2 ^ 32" and "path_room j < path_buffer_size"
  shows "json_adapt buf ad v = adapt_value F ad j v [] True"
proof -
  have "length (code F j) \<le> length buf" using holds_at_length [OF assms(2)] by simp
  then have "computes F buf (json_adapt_priv (Suc (length buf) + adapter_depth ad) buf) ad j"
    by (intro json_adapt_priv_computes [OF assms(1,3)]) simp
  from computes_first [OF this assms(2), of 0 v] assms(4) show ?thesis
    by (simp add: json_adapt_def option.map_comp comp_def option.map_ident del: json_adapt_priv.simps)
qed



end
