(* ===== verification/Config_Correct.thy ===== *)
theory Config_Correct
  imports Config Json_Adapt_Correct "HOL-Library.Sublist"
begin

text \<open>
  A server configuration written as JSON is read back from its text, and what the configuration files
  of the documentation and the messages on the fifo are read as.
\<close>

section \<open>Values an adapter does not look at\<close>

lemma at_path_none:
  assumes "\<forall>pr \<in> set props. ad_path pr \<noteq> cur"
  shows "at_path f props vs cur base = Some vs"
  using assms by (induction props arbitrary: vs) auto

lemma steps_same:
  assumes "\<And>x. x \<in> set xs \<Longrightarrow> f x s = Some s"
  shows "steps f xs s = Some s"
  using assms by (induction xs) auto

text \<open>A value without parts sets the properties with its path.\<close>

fun flat :: "json \<Rightarrow> bool" where
  "flat (JObj kvs) \<longleftrightarrow> False"
| "flat (JArr js) \<longleftrightarrow> False"
| "flat _ \<longleftrightarrow> True"

lemma adapt_flat:
  assumes "flat j"
  shows "adapt_value F (StructAdapter props sz) j (Fields vs) base False =
    map_option Fields (at_path (\<lambda>pr vs. do {
        tmp \<leftarrow> adapt_value F (ad_type pr) j (raw_value (ad_type pr)) [] True;
        store_property pr tmp vs
      }) props vs base base)"
  using assms by (subst adapt_value.simps; cases j) (simp_all add: here_def map_conv_bind_option comp_def)

lemma at_path_prefix: "\<forall>pr \<in> set props. \<not> prefix base (ad_path pr) \<Longrightarrow> at_path f props vs base base' = Some vs"
  by (rule at_path_none) auto

text \<open>A value whose path begins no property's path changes nothing.\<close>

lemma adapt_untouched:
  assumes "\<forall>pr \<in> set props. \<not> prefix base (ad_path pr)"
  shows "adapt_value F (StructAdapter props sz) j (Fields vs) base False = Some (Fields vs)"
  using assms
proof (induction j arbitrary: base)
  case (JObj kvs)
  have inside: "adapt_value F (StructAdapter props sz) j (Fields vs) (base @ 0x2E # c_chars key) False = Some (Fields vs)"
    if "(key, j) \<in> set kvs" for key j
    using JObj.IH that JObj.prems append_prefixD by fastforce
  have "\<forall>pr \<in> set props. ad_path pr \<noteq> base" using JObj.prems by auto
  then show ?case
    by (subst adapt_value.simps) (simp add: at_path_none here_def, rule steps_same, use inside in auto)
next
  case (JArr js)
  have inside: "adapt_value F (StructAdapter props sz) j (Fields vs) (base @ index_path i) False = Some (Fields vs)"
    if "j \<in> set js" for j i
    using JArr.IH [OF that] JArr.prems append_prefixD by blast
  have "\<forall>pr \<in> set props. ad_path pr \<noteq> base @ [0x5B, 0x5D]" using JArr.prems by auto
  then show ?case
    by (subst adapt_value.simps) (simp add: at_path_none here_def, rule steps_same, use inside in \<open>auto dest: set_zip_leftD\<close>)
qed (simp_all add: adapt_flat at_path_prefix)

lemma steps_append: "steps f (xs @ ys) s = Option.bind (steps f xs s) (steps f ys)"
  by (induction xs arbitrary: s) (auto split: bind_split)

lemma adapt_primitive: "adapt_value F (PrimitiveAdapter t) j v base first = Some (case primitive_value F t j of Some w \<Rightarrow> w | None \<Rightarrow> v)"
  by (subst adapt_value.simps) simp

section \<open>A configuration as JSON\<close>

definition hex32 :: "u32 \<Rightarrow> byte list" where
  "hex32 w = map hex_char (nibbles 8 (ucast w))"

fun pointer :: "byte list option \<Rightarrow> CVal" where
  "pointer None = NullPtr"
| "pointer (Some s) = Str s"

definition member :: "bool \<Rightarrow> string \<Rightarrow> json \<Rightarrow> (byte list \<times> json) list" where
  "member given key j = (if given then [(ascii key, j)] else [])"

fun string_value :: "byte list option \<Rightarrow> json" where
  "string_value None = JNull"
| "string_value (Some s) = JStr s"

text \<open>What is not the default is written, addresses in their usual spelling and numbers with eight digits.\<close>

definition filter_json :: "ControllerFilter \<Rightarrow> json" where
  "filter_json f = JObj (
     member (flt_uniq f \<noteq> 0) ''uniq'' (JStr (format_uniq (flt_uniq f))) @
     member (flt_vendor f \<noteq> - 1) ''vendor'' (JStr (hex32 (flt_vendor f))) @
     member (flt_product f \<noteq> - 1) ''product'' (JStr (hex32 (flt_product f))) @
     member (flt_js f) ''js'' (JBool True) @
     member (flt_name f \<noteq> None) ''name'' (string_value (flt_name f)))"

definition controller_json :: "ServerConfigController \<Rightarrow> json" where
  "controller_json c = JObj ([(ascii ''filter'', filter_json (ctr_filter c))] @
     member (ctr_tag c \<noteq> None) ''tag'' (string_value (ctr_tag c)) @
     [(ascii ''properties'', JObj [(ascii ''duplicate'', JBool (ctr_duplicate c)), (ascii ''ps4_hidraw'', JBool (ctr_ps4_hidraw c))])])"

definition server_config_json :: "ServerConfigController list \<Rightarrow> json" where
  "server_config_json cs = JObj [(ascii ''controllers'', JArr (map controller_json cs))]"

text \<open>Strings the JSON parser accepts, and addresses of 48 bits.\<close>

definition name_ok :: "byte list option \<Rightarrow> bool" where
  "name_ok n \<longleftrightarrow> (\<forall>s. n = Some s \<longrightarrow> string_ok s)"

definition controller_ok :: "ServerConfigController \<Rightarrow> bool" where
  "controller_ok c \<longleftrightarrow> flt_uniq (ctr_filter c) < 2 ^ 48 \<and> name_ok (flt_name (ctr_filter c)) \<and> name_ok (ctr_tag c)"

section \<open>Strings\<close>

lemma c_chars_ok: "string_ok s \<Longrightarrow> c_chars s = s"
proof -
  have "c \<noteq> 0" if "char_ok c" for c using that by (auto simp: char_ok_def)
  then show "string_ok s \<Longrightarrow> c_chars s = s"
    unfolding c_chars_def string_ok_def list_all_iff by (subst takeWhile_eq_all_conv) auto
qed

lemma hex_char_ok: "d < 16 \<Longrightarrow> char_ok (hex_char d)"
  using nibble_cases [of d] by (auto simp: char_ok_def hex_char_def)

lemma nibbles_ok: "list_all char_ok (map hex_char (nibbles n w))"
  by (induction n) (simp_all add: hex_char_ok nibble_less [OF refl])

lemma length_nibbles [simp]: "length (nibbles n w) = n"
  by (induction n) simp_all

lemma with_colons_ok: "list_all char_ok cs \<Longrightarrow> list_all char_ok (with_colons cs)"
  by (induction cs rule: with_colons.induct) (simp_all add: char_ok_def)

lemma length_with_colons: "length (with_colons cs) \<le> 2 * length cs"
  by (induction cs rule: with_colons.induct) simp_all

lemma hex32_ok: "string_ok (hex32 w)"
  by (simp add: hex32_def string_ok_def nibbles_ok)

lemma format_uniq_ok: "string_ok (format_uniq w)"
  using length_with_colons [of "map hex_char (nibbles 12 w)"]
  by (simp add: format_uniq_def string_ok_def with_colons_ok nibbles_ok)

lemma hex_loop_nibble:
  assumes "d < 16"
  shows "hex_loop res (hex_char d # cs) = hex_loop (push_bit 4 res OR ucast d) cs"
  using nibble_cases [OF assms] by (elim insertE emptyE) (simp_all add: hex_char_def)

lemma hex_loop_nibbles:
  "hex_loop res (map hex_char (nibbles n w)) = Some (push_bit (4 * n) res OR ucast (take_bit (4 * n) w))"
proof (induction n arbitrary: res)
  case (Suc n)
  have "push_bit (4 * n) (push_bit 4 res OR ucast (take_bit 4 (drop_bit (4 * n) w))) OR ucast (take_bit (4 * n) w)
      = push_bit (4 * Suc n) res OR ucast (take_bit (4 * Suc n) w)"
    by (rule bit_word_eqI) (auto simp: bit_simps ac_simps)
  then show ?case by (simp only: nibbles.simps list.map hex_loop_nibble [OF nibble_less [OF refl]] Suc.IH)
qed simp

lemma hex32_read: "tsf_hex_to_i32 (hex32 w) = Some w"
proof -
  have "ucast (take_bit 32 (ucast w :: u64)) = w" by (rule bit_word_eqI) (auto simp: bit_simps)
  then show ?thesis using hex_loop_nibbles [of 0 8 "ucast w"] by (simp add: tsf_hex_to_i32_def hex32_def)
qed

section \<open>Reading it back\<close>

lemma ascii_eq [simp]: "ascii s = ascii t \<longleftrightarrow> s = t"
proof -
  have "inj (of_char :: char \<Rightarrow> byte)"
  proof (rule injI)
    fix c d :: char assume e: "(of_char c :: byte) = of_char d"
    have "bit (of_char c :: byte) n = bit (of_char d :: byte) n" for n by (simp only: e)
    from this [of 0] this [of 1] this [of 2] this [of 3] this [of 4] this [of 5] this [of 6] this [of 7]
    show "c = d" by (cases c; cases d) (simp only: of_char_Char bit_horner_sum_bit_word_iff, simp)
  qed
  then show ?thesis by (simp add: ascii_def inj_map_eq_map)
qed

lemma key_paths:
  "0x2E # c_chars (ascii ''uniq'') = ascii ''.uniq''" "0x2E # c_chars (ascii ''vendor'') = ascii ''.vendor''"
  "0x2E # c_chars (ascii ''product'') = ascii ''.product''" "0x2E # c_chars (ascii ''js'') = ascii ''.js''"
  "0x2E # c_chars (ascii ''name'') = ascii ''.name''" "0x2E # c_chars (ascii ''filter'') = ascii ''.filter''"
  "0x2E # c_chars (ascii ''tag'') = ascii ''.tag''" "0x2E # c_chars (ascii ''properties'') = ascii ''.properties''"
  "0x2E # c_chars (ascii ''controllers'') = ascii ''.controllers''"
  "ascii ''.properties'' @ 0x2E # c_chars (ascii ''duplicate'') = ascii ''.properties.duplicate''"
  "ascii ''.properties'' @ 0x2E # c_chars (ascii ''ps4_hidraw'') = ascii ''.properties.ps4_hidraw''"
  "ascii ''.controllers'' @ [0x5B, 0x5D] = ascii ''.controllers[]''"
  "[0x2E] = ascii ''.''"
  by code_simp+

lemmas reads = adapt_flat adapt_primitive store_property_def StringAdapter_def BooleanAdapter_def
  uniq_transformer_def hex_transformer_def format_uniq_read hex32_read c_chars_ok format_uniq_ok hex32_ok

lemma filter_steps:
  fixes F
  defines "step \<equiv> \<lambda>(key, j) v. adapt_value F FilterAdapter j v ([] @ 0x2E # c_chars key) False"
  shows "u < 2 ^ 48 \<Longrightarrow> steps step (member (u \<noteq> 0) ''uniq'' (JStr (format_uniq u))) (Fields [Int64 0, b, c, d, e]) = Some (Fields [Int64 u, b, c, d, e])"
    and "steps step (member (v \<noteq> - 1) ''vendor'' (JStr (hex32 v))) (Fields [a, Int32 (- 1), c, d, e]) = Some (Fields [a, Int32 v, c, d, e])"
    and "steps step (member (p \<noteq> - 1) ''product'' (JStr (hex32 p))) (Fields [a, b, Int32 (- 1), d, e]) = Some (Fields [a, b, Int32 p, d, e])"
    and "steps step (member js ''js'' (JBool True)) (Fields [a, b, c, Bool False, e]) = Some (Fields [a, b, c, Bool js, e])"
    and "name_ok n \<Longrightarrow> steps step (member (n \<noteq> None) ''name'' (string_value n)) (Fields [a, b, c, d, NullPtr]) = Some (Fields [a, b, c, d, pointer n])"
  unfolding step_def
  by (simp_all add: member_def key_paths FilterAdapter_def reads name_ok_def) (cases n; simp add: key_paths reads)

lemma adapt_object:
  assumes "\<forall>pr \<in> set props. ad_path pr \<noteq> [0x2E]"
  shows "adapt_value F (StructAdapter props sz) (JObj kvs) v [] True =
    steps (\<lambda>(key, j) v. adapt_value F (StructAdapter props sz) j v ([] @ 0x2E # c_chars key) False) kvs
      (json_adapt_set_defaults (StructAdapter props sz) v)"
  using assms by (subst adapt_value.simps) (simp add: here_def at_path_none)

lemma adapt_inner_object:
  "adapt_value F (StructAdapter props sz) (JObj kvs) (Fields vs) base False = do {
     vs \<leftarrow> at_path (\<lambda>pr vs. do {
         tmp \<leftarrow> adapt_value F (ad_type pr) (JObj kvs) (raw_value (ad_type pr)) [] True;
         store_property pr tmp vs
       }) props vs base base;
     steps (\<lambda>(key, j) v. adapt_value F (StructAdapter props sz) j v (base @ 0x2E # c_chars key) False) kvs (Fields vs)
   }"
  by (subst adapt_value.simps) (simp add: here_def)

lemma filter_defaults: "json_adapt_set_defaults FilterAdapter (raw_value FilterAdapter) =
    Fields [Int64 0, Int32 (- 1), Int32 (- 1), Bool False, NullPtr]"
  by code_simp

lemma filter_read:
  assumes "flt_uniq f < 2 ^ 48" and "name_ok (flt_name f)"
  shows "adapt_value F FilterAdapter (filter_json f) (raw_value FilterAdapter) [] True =
    Some (Fields [Int64 (flt_uniq f), Int32 (flt_vendor f), Int32 (flt_product f), Bool (flt_js f), pointer (flt_name f)])"
proof -
  have "adapt_value F FilterAdapter (JObj kvs) v [] True =
      steps (\<lambda>(key, j) v. adapt_value F FilterAdapter j v ([] @ 0x2E # c_chars key) False) kvs (json_adapt_set_defaults FilterAdapter v)"
    for kvs v unfolding FilterAdapter_def by (rule adapt_object) (simp add: key_paths)
  then show ?thesis using assms unfolding filter_json_def
    by (simp only: steps_append filter_defaults filter_steps Option.bind.simps)
qed

definition controller_fields :: "ServerConfigController \<Rightarrow> CVal" where
  "controller_fields c = (let f = ctr_filter c in Fields [
     Fields [Int64 (flt_uniq f), Int32 (flt_vendor f), Int32 (flt_product f), Bool (flt_js f), pointer (flt_name f)],
     pointer (ctr_tag c), Bool (ctr_duplicate c), Bool (ctr_ps4_hidraw c)])"

lemma controller_defaults: "json_adapt_set_defaults ServerControllerAdapter (raw_value ServerControllerAdapter) =
    Fields [Fields [Int64 0, Int32 (- 1), Int32 (- 1), Bool False, NullPtr], NullPtr, Bool False, Bool False]"
  by code_simp

text \<open>Inside a value that is a property itself, no other property is met: no path goes on with a dot after it.\<close>

lemma inside_untouched:
  assumes "\<forall>pr \<in> set props. \<not> prefix (base @ [0x2E]) (ad_path pr)"
  shows "steps (\<lambda>(key, j) v. adapt_value F (StructAdapter props sz) j v (base @ 0x2E # c_chars key) False) kvs (Fields vs) = Some (Fields vs)"
proof (rule steps_same)
  fix x assume "x \<in> set kvs"
  obtain key j where x: "x = (key, j)" by (cases x)
  have "\<forall>pr \<in> set props. \<not> prefix (base @ 0x2E # c_chars key) (ad_path pr)"
    using assms append_prefixD [of "base @ [0x2E]" "c_chars key"] by auto
  then show "(case x of (key, j) \<Rightarrow> \<lambda>v. adapt_value F (StructAdapter props sz) j v (base @ 0x2E # c_chars key) False) (Fields vs) =
      Some (Fields vs)"
    by (simp add: x adapt_untouched)
qed

lemma filter_member:
  "adapt_value F ServerControllerAdapter (JObj kvs) (Fields [a, b, c, d]) (ascii ''.filter'') False =
     map_option (\<lambda>f. Fields [f, b, c, d]) (adapt_value F FilterAdapter (JObj kvs) (raw_value FilterAdapter) [] True)"
proof -
  have "list_all (\<lambda>pr. \<not> prefix (ascii ''.filter'' @ [0x2E]) (ad_path pr)) [PropertyAdapter (ascii ''.filter'') FilterAdapter 0 None None,
     PropertyAdapter (ascii ''.tag'') StringAdapter 1 (Some default_to_null) None,
     PropertyAdapter (ascii ''.properties.duplicate'') BooleanAdapter 2 (Some default_to_false) None,
     PropertyAdapter (ascii ''.properties.ps4_hidraw'') BooleanAdapter 3 (Some default_to_false) None]"
    by code_simp
  note no = inside_untouched [OF this [unfolded list_all_iff]]
  show ?thesis
    unfolding ServerControllerAdapter_def adapt_inner_object
    by (cases "adapt_value F FilterAdapter (JObj kvs) (raw_value FilterAdapter) [] True") (simp_all add: store_property_def no del: One_nat_def)
qed

lemma controller_steps:
  fixes F
  defines "step \<equiv> \<lambda>(key, j) v. adapt_value F ServerControllerAdapter j v ([] @ 0x2E # c_chars key) False"
  shows "flt_uniq f < 2 ^ 48 \<Longrightarrow> name_ok (flt_name f) \<Longrightarrow> steps step [(ascii ''filter'', filter_json f)] (Fields [a, b, c, d]) =
      Some (Fields [Fields [Int64 (flt_uniq f), Int32 (flt_vendor f), Int32 (flt_product f), Bool (flt_js f), pointer (flt_name f)], b, c, d])"
    and "name_ok n \<Longrightarrow> steps step (member (n \<noteq> None) ''tag'' (string_value n)) (Fields [a, NullPtr, c, d]) = Some (Fields [a, pointer n, c, d])"
    and "steps step [(ascii ''properties'', JObj [(ascii ''duplicate'', JBool du), (ascii ''ps4_hidraw'', JBool ps)])] (Fields [a, b, c, d]) =
      Some (Fields [a, b, Bool du, Bool ps])"
proof -
  show "flt_uniq f < 2 ^ 48 \<Longrightarrow> name_ok (flt_name f) \<Longrightarrow> steps step [(ascii ''filter'', filter_json f)] (Fields [a, b, c, d]) =
      Some (Fields [Fields [Int64 (flt_uniq f), Int32 (flt_vendor f), Int32 (flt_product f), Bool (flt_js f), pointer (flt_name f)], b, c, d])"
    using filter_read [of f F] unfolding step_def by (simp add: key_paths filter_json_def filter_member)
  show "name_ok n \<Longrightarrow> steps step (member (n \<noteq> None) ''tag'' (string_value n)) (Fields [a, NullPtr, c, d]) = Some (Fields [a, pointer n, c, d])"
    unfolding step_def by (cases n) (simp_all add: member_def key_paths ServerControllerAdapter_def reads name_ok_def)
  show "steps step [(ascii ''properties'', JObj [(ascii ''duplicate'', JBool du), (ascii ''ps4_hidraw'', JBool ps)])] (Fields [a, b, c, d]) =
      Some (Fields [a, b, Bool du, Bool ps])"
    unfolding step_def ServerControllerAdapter_def by (simp add: key_paths adapt_inner_object reads)
qed

lemma controller_read:
  assumes "controller_ok c"
  shows "adapt_value F ServerControllerAdapter (controller_json c) (raw_value ServerControllerAdapter) [] True = Some (controller_fields c)"
proof -
  have "adapt_value F ServerControllerAdapter (JObj kvs) v [] True =
      steps (\<lambda>(key, j) v. adapt_value F ServerControllerAdapter j v ([] @ 0x2E # c_chars key) False) kvs
        (json_adapt_set_defaults ServerControllerAdapter v)"
    for kvs v unfolding ServerControllerAdapter_def by (rule adapt_object) (simp add: key_paths)
  then show ?thesis using assms unfolding controller_json_def controller_ok_def
    by (simp only: steps_append controller_defaults controller_steps Option.bind.simps controller_fields_def Let_def)
qed

lemma elements_all:
  "\<lbrakk>\<And>x. x \<in> set xs \<Longrightarrow> f (g x) = Some (h x) \<and> ok (g x)\<rbrakk> \<Longrightarrow> elements f ok (map g xs) = Some (map h xs)"
  by (induction xs) auto

lemma adapt_inner_array:
  "adapt_value F (StructAdapter props sz) (JArr js) (Fields vs) base False = do {
     vs \<leftarrow> at_path (\<lambda>pr vs. do {
         es \<leftarrow> elements (\<lambda>j. adapt_value F (ad_type pr) j (raw_value (ad_type pr)) [] True) (accepts F (ad_type pr)) js;
         Some (vs[ad_offset pr := Elements es, ad_offset pr + 1 := Int64 (of_nat (length js))])
       }) props vs (base @ [0x5B, 0x5D]) base;
     steps (\<lambda>(j, i) v. adapt_value F (StructAdapter props sz) j v (base @ index_path i) False) (zip js [0..<length js]) (Fields vs)
   }"
  by (subst adapt_value.simps) (simp add: here_def)

lemma items_untouched:
  assumes "\<forall>pr \<in> set props. \<not> prefix (base @ [0x2E]) (ad_path pr)"
  shows "steps (\<lambda>(j, i) v. adapt_value F (StructAdapter props sz) j v (base @ index_path i) False) xs (Fields vs) = Some (Fields vs)"
proof (rule steps_same)
  fix x :: "json \<times> nat" assume "x \<in> set xs"
  obtain j i where x: "x = (j, i)" by (cases x)
  have "\<forall>pr \<in> set props. \<not> prefix (base @ index_path i) (ad_path pr)"
    using assms append_prefixD [of "base @ [0x2E]" "digits_of 20 i"] by (auto simp: index_path_def)
  then show "(case x of (j, i) \<Rightarrow> \<lambda>v. adapt_value F (StructAdapter props sz) j v (base @ index_path i) False) (Fields vs) =
      Some (Fields vs)"
    by (simp add: x adapt_untouched)
qed

lemma server_defaults: "json_adapt_set_defaults (ServerConfigAdapter D) (raw_value (ServerConfigAdapter D)) =
    Fields [NullPtr, Int64 0, Timespec 1 0, Int32 2000]"
  by code_simp

lemma server_paths: "list_all (\<lambda>pr. \<not> prefix (ascii ''.controllers'' @ [0x2E]) (ad_path pr)) [
     PropertyAdapter (ascii ''.controllers[]'') ServerControllerAdapter 0 (Some default_to_null) None,
     PropertyAdapter (ascii ''.poll_interval'') NumberAdapter 2 (Some default_timespec) (Some (tsf_numsec_to_timespec D)),
     PropertyAdapter (ascii ''.request_timeout'') NumberAdapter 3 (Some default_request_timeout) (Some (tsf_numsec_to_intms D))]"
  by code_simp

lemma server_config_read:
  assumes "\<forall>c \<in> set cs. controller_ok c"
  shows "adapt_value F (ServerConfigAdapter D) (server_config_json cs) (raw_value (ServerConfigAdapter D)) [] True =
    Some (Fields [Elements (map controller_fields cs), Int64 (of_nat (length cs)), Timespec 1 0, Int32 2000])"
proof -
  have e: "elements (\<lambda>j. adapt_value F ServerControllerAdapter j (raw_value ServerControllerAdapter) [] True)
      (accepts F ServerControllerAdapter) (map controller_json cs) = Some (map controller_fields cs)"
    by (rule elements_all) (use assms in \<open>simp add: controller_read\<close>, simp add: ServerControllerAdapter_def)
  note no = items_untouched [OF server_paths [of D, unfolded list_all_iff]]
  have "adapt_value F (ServerConfigAdapter D) (JArr (map controller_json cs)) (Fields [NullPtr, Int64 0, Timespec 1 0, Int32 2000])
      (ascii ''.controllers'') False =
    Some (Fields [Elements (map controller_fields cs), Int64 (of_nat (length cs)), Timespec 1 0, Int32 2000])"
    unfolding ServerConfigAdapter_def adapt_inner_array key_paths by (simp add: e no)
  moreover have "adapt_value F (ServerConfigAdapter D) (JObj kvs) v [] True =
      steps (\<lambda>(key, j) v. adapt_value F (ServerConfigAdapter D) j v ([] @ 0x2E # c_chars key) False) kvs
        (json_adapt_set_defaults (ServerConfigAdapter D) v)"
    for kvs v unfolding ServerConfigAdapter_def by (rule adapt_object) (simp add: key_paths)
  ultimately show ?thesis by (simp add: server_config_json_def server_defaults key_paths)
qed

section \<open>The configuration as a text\<close>

lemma length_ascii [simp]: "length (ascii s) = length s"
  by (simp add: ascii_def)

lemma path_room_controller: "path_room (controller_json c) \<le> 40"
  by (cases "ctr_tag c"; cases "flt_name (ctr_filter c)") (simp_all add: controller_json_def filter_json_def member_def)

lemma path_room_config: "path_room (server_config_json cs) < path_buffer_size"
proof -
  have "path_room (JArr (map controller_json cs)) \<le> 61" by (induction cs) (auto intro: order_trans [OF path_room_controller])
  then show ?thesis by (simp add: server_config_json_def path_buffer_size_def)
qed

lemma key_chars: "list_all (\<lambda>k. list_all char_ok (ascii k)) [''uniq'', ''vendor'', ''product'', ''js'', ''name'', ''filter'', ''tag'',
    ''properties'', ''duplicate'', ''ps4_hidraw'', ''controllers'']"
  by code_simp

lemma keys_ok: "list_all (\<lambda>k. string_ok (ascii k)) [''uniq'', ''vendor'', ''product'', ''js'', ''name'', ''filter'', ''tag'',
    ''properties'', ''duplicate'', ''ps4_hidraw'', ''controllers'']"
  using key_chars by (simp add: string_ok_def)

lemma json_ok_config: "\<forall>c \<in> set cs. controller_ok c \<Longrightarrow> json_ok (server_config_json cs)"
proof -
  have "json_ok (controller_json c)" if "controller_ok c" for c
    using that keys_ok
    by (cases "ctr_tag c"; cases "flt_name (ctr_filter c)")
      (simp_all add: controller_json_def filter_json_def member_def controller_ok_def name_ok_def format_uniq_ok hex32_ok)
  then show "\<forall>c \<in> set cs. controller_ok c \<Longrightarrow> json_ok (server_config_json cs)"
    using keys_ok by (simp add: server_config_json_def list_all_iff)
qed

lemma wf_server: "wf_adapter (ServerConfigAdapter D)"
  by (simp add: ServerConfigAdapter_def ServerControllerAdapter_def FilterAdapter_def StringAdapter_def BooleanAdapter_def NumberAdapter_def)

lemma c_pointer_pointer [simp]: "c_pointer (pointer n) = Some n"
  by (cases n) simp_all

lemma controller_fields_view: "server_controller (controller_fields c) = Some c"
  by (simp add: server_controller_def controller_fields_def controller_filter_def Let_def)

lemma those_map: "(\<And>x. x \<in> set xs \<Longrightarrow> f (g x) = Some x) \<Longrightarrow> those (map f (map g xs)) = Some xs"
  by (induction xs) auto

text \<open>C6: A server configuration is read back from its text. Whatever filters, tags and properties the
  controllers have, when the configuration is written as JSON, leaving out what is the default, and
  fits into the 4096 bytes the server reads and the 4096 it parses into, the server is configured
  with exactly these controllers, in order, and the documented defaults.\<close>

theorem server_config_roundtrip:
  assumes "\<forall>c \<in> set cs. controller_ok c" and "length (json_text (server_config_json cs)) \<le> 4096"
    and "length raw = 4096" and "length (code (fpu.truncate D) (server_config_json cs)) < 4096"
  shows "read_server_config D raw (json_text (server_config_json cs)) =
    Some (Configured \<lparr>sc_controllers = cs, sc_poll_interval = (1, 0), sc_request_timeout = 2000\<rparr>)"
proof -
  let ?F = "fpu.truncate D" and ?j = "server_config_json cs"
  have p: "json_parse ?F (json_text ?j) raw = Some (NoError, length (json_text ?j), put (code ?F ?j) raw 0)"
    using json_parse_text [OF json_ok_config [OF assms(1)]] assms(3,4) by simp
  have "holds_at (put (code ?F ?j) raw 0) 0 (code ?F ?j)" "length (put (code ?F ?j) raw 0) < 2 ^ 32"
    using assms(3,4) by (simp_all add: holds_at_def load_def put_def)
  from json_adapt_value [OF wf_server this path_room_config, of D "raw_value (ServerConfigAdapter D)"]
  have a: "json_adapt (put (code ?F ?j) raw 0) (ServerConfigAdapter D) (raw_value (ServerConfigAdapter D)) =
      Some (Fields [Elements (map controller_fields cs), Int64 (of_nat (length cs)), Timespec 1 0, Int32 2000])"
    by (simp add: server_config_read [OF assms(1)])
  have "length cs \<le> length (code ?F ?j)"
    using length_codes [of "map controller_json cs" ?F] by (simp add: server_config_json_def Let_def)
  then have "unat (of_nat (length cs) :: u64) = length cs" using assms(4) by (simp add: unsigned_of_nat take_bit_nat_eq_self)
  then have "server_config_of (Fields [Elements (map controller_fields cs), Int64 (of_nat (length cs)), Timespec 1 0, Int32 2000]) =
      Some \<lparr>sc_controllers = cs, sc_poll_interval = (1, 0), sc_request_timeout = 2000\<rparr>"
    using those_map [of cs server_controller controller_fields] by (simp add: server_config_of_def controller_fields_view)
  then show ?thesis using p a assms(2) by (simp add: read_server_config_def read_config_def)
qed

definition sample_dpu :: dpu where
  "sample_dpu = \<lparr>fp_add = (+), fp_mul = (*), fp_pow = (\<lambda>a b. a), fp_of_int = of_int, fp_floor = (\<lambda>x. x), fp_sub = (-),
     fp_greater = (\<lambda>x y. y < x), fp_to_i64 = (\<lambda>x. x), fp_to_u32 = ucast, fp_to_i32 = ucast, fp_to_u8 = ucast\<rparr>"

definition sample_server :: "ServerConfigController list" where
  "sample_server = [
     \<lparr>ctr_filter = \<lparr>flt_uniq = 0x001A7DDA7113, flt_vendor = 0x54C, flt_product = - 1, flt_js = True, flt_name = None\<rparr>,
       ctr_tag = Some (ascii ''pad''), ctr_duplicate = True, ctr_ps4_hidraw = False\<rparr>]"

lemma server_config_roundtrip_witness:
  "read_server_config sample_dpu (replicate 4096 0) (json_text (server_config_json sample_server)) =
     Some (Configured \<lparr>sc_controllers = sample_server, sc_poll_interval = (1, 0), sc_request_timeout = 2000\<rparr>)"
proof (rule server_config_roundtrip)
  have "list_all char_ok (ascii ''pad'')" by code_simp
  then show "\<forall>c \<in> set sample_server. controller_ok c"
    by (simp add: sample_server_def controller_ok_def name_ok_def string_ok_def)
  have "length (json_text (server_config_json sample_server)) = 150" by code_simp
  then show "length (json_text (server_config_json sample_server)) \<le> 4096" by simp
  have "length (code (fpu.truncate sample_dpu) (server_config_json sample_server)) = 328" by code_simp
  then show "length (code (fpu.truncate sample_dpu) (server_config_json sample_server)) < 4096" by simp
qed simp

section \<open>What goes wrong\<close>

lemma read_json:
  assumes "json_ok j" and "length (code (fpu.truncate D) j) < length raw" and "length raw < 2 ^ 32"
    and "path_room j < path_buffer_size" and "wf_adapter ad"
  shows "\<exists>buf. json_parse (fpu.truncate D) (json_text j) raw = Some (NoError, length (json_text j), buf) \<and>
    (\<forall>v. json_adapt buf ad v = adapt_value (fpu.truncate D) ad j v [] True)"
proof -
  let ?buf = "put (code (fpu.truncate D) j) raw 0"
  have "holds_at ?buf 0 (code (fpu.truncate D) j)" "length ?buf < 2 ^ 32" using assms(2,3) by (simp_all add: holds_at_def load_def put_def)
  then show ?thesis using json_parse_text [OF assms(1,2)] json_adapt_value [OF assms(5) _ _ assms(4)] by simp
qed

lemma wf_state: "wf_adapter (ControllerStateAdapter D)" "wf_adapter (ClientConfigAdapter D)"
  by (simp_all add: ControllerStateAdapter_def ClientConfigAdapter_def SlotAdapter_def ClientControllerAdapter_def
      StringAdapter_def NumberAdapter_def)

lemma fifo_read:
  assumes "json_ok j" and "length (code (fpu.truncate D) j) < length raw" and "length raw < 2 ^ 32" and "path_room j < path_buffer_size"
  shows "fifo_message D raw (json_text j) = do {
    v \<leftarrow> adapt_value (fpu.truncate D) (ControllerStateAdapter D) j (raw_value (ControllerStateAdapter D)) [] True;
    st \<leftarrow> controller_state_of v;
    Some (Some st)
  }"
  using read_json [OF assms wf_state(1) [of D]] by (auto simp: fifo_message_def)

lemma client_read:
  assumes "json_ok j" and "length (code (fpu.truncate D) j) < length raw" and "length raw < 2 ^ 32" and "path_room j < path_buffer_size"
    and "length (json_text j) \<le> 4096"
  shows "read_client_config D raw (json_text j) = map_option Configured
    (Option.bind (adapt_value (fpu.truncate D) (ClientConfigAdapter D) j (raw_value (ClientConfigAdapter D)) [] True) client_config_of)"
  using read_json [OF assms(1-4) wf_state(2) [of D]] assms(5) by (auto simp: read_client_config_def read_config_def map_conv_bind_option comp_def)

text \<open>The color of a controller is lost to its index. The index is stored as four bytes into a field
  of two, and the color follows: a message on the fifo that gives no color asks for blue instead of
  the documented white, and one that gives the index after the color loses the red and the green.\<close>

theorem index_overwrites_color:
  "fifo_message D (replicate 2048 0) (ascii ''{}'') = Some (Some \<lparr>cs_index = 0, cs_led0 = 0, cs_led1 = 0, cs_led2 = 255,
     cs_small_rumble = 0, cs_big_rumble = 0, cs_flash_on = 0, cs_flash_off = 0\<rparr>) \<and>
   fifo_message sample_dpu (replicate 2048 0) (ascii ''{\"led_color\":\"#FF8040\",\"index\":0}'') = Some (Some \<lparr>cs_index = 0,
     cs_led0 = 0, cs_led1 = 0, cs_led2 = 0x40, cs_small_rumble = 0, cs_big_rumble = 0, cs_flash_on = 0, cs_flash_off = 0\<rparr>)"
proof
  let ?j = "JObj [(ascii ''led_color'', JStr (ascii ''#FF8040'')), (ascii ''index'', JNum [0x30])]"
  have t: "json_text (JObj []) = ascii ''{}''" "json_text ?j = ascii ''{\"led_color\":\"#FF8040\",\"index\":0}''" by code_simp+
  have "adapt_value (fpu.truncate D) (ControllerStateAdapter D) (JObj []) (raw_value (ControllerStateAdapter D)) [] True =
      Some (Fields [Int16 0, Int8 0, Int8 0, Int8 255, Int8 0, Int8 0, Int8 0, Int8 0])" by code_simp
  then show "fifo_message D (replicate 2048 0) (ascii ''{}'') = Some (Some \<lparr>cs_index = 0, cs_led0 = 0, cs_led1 = 0, cs_led2 = 255,
     cs_small_rumble = 0, cs_big_rumble = 0, cs_flash_on = 0, cs_flash_off = 0\<rparr>)"
    unfolding t(1) [symmetric] by (subst fifo_read) (simp_all add: path_buffer_size_def controller_state_of_def)
  have "list_all (list_all char_ok) [ascii ''led_color'', ascii ''#FF8040'', ascii ''index'']" by code_simp
  then have "json_ok ?j" by (simp add: string_ok_def)
  moreover have "adapt_value (fpu.truncate sample_dpu) (ControllerStateAdapter sample_dpu) ?j
      (raw_value (ControllerStateAdapter sample_dpu)) [] True =
      Some (Fields [Int16 0, Int8 0, Int8 0, Int8 0x40, Int8 0, Int8 0, Int8 0, Int8 0])" by code_simp
  ultimately show "fifo_message sample_dpu (replicate 2048 0) (ascii ''{\"led_color\":\"#FF8040\",\"index\":0}'') = Some (Some \<lparr>cs_index = 0,
     cs_led0 = 0, cs_led1 = 0, cs_led2 = 0x40, cs_small_rumble = 0, cs_big_rumble = 0, cs_flash_on = 0, cs_flash_off = 0\<rparr>)"
    unfolding t(2) [symmetric]
    by (subst fifo_read) (simp_all add: path_buffer_size_def controller_state_of_def Let_def del: json_text.simps)
qed

text \<open>The client of the documentation does not start. Its configuration gives the tag as an array,
  which no property of the table is, so the tag stays the null pointer, and the request that is built
  next takes the length of the string there.\<close>

theorem documented_tag_crashes:
  "\<exists>config. read_client_config D (replicate 4096 0) (ascii ''{\"slots\":[{\"controllers\":[{\"tag\":[\"Joystick\"]}]}]}'') =
     Some (Configured config) \<and> build_device_request config = None"
proof -
  let ?j = "JObj [(ascii ''slots'', JArr [JObj [(ascii ''controllers'', JArr [JObj [(ascii ''tag'', JArr [JStr (ascii ''Joystick'')])]])]])]"
  let ?c = "\<lparr>cf_slots = [\<lparr>sl_controllers = [\<lparr>cc_tag = None, cc_device_vendor = 0x6969, cc_device_product = 0x420,
    cc_device_name = VIRTUAL_DEVICE_NAME\<rparr>]\<rparr>], cf_fifo_path = FIFO_PATH, cf_retry_delay = (5, 0)\<rparr>"
  have t: "json_text ?j = ascii ''{\"slots\":[{\"controllers\":[{\"tag\":[\"Joystick\"]}]}]}''" by code_simp
  have "list_all (list_all char_ok) [ascii ''slots'', ascii ''controllers'', ascii ''tag'', ascii ''Joystick'']" by code_simp
  then have "json_ok ?j" by (simp add: string_ok_def)
  moreover have "Option.bind (adapt_value (fpu.truncate D) (ClientConfigAdapter D) ?j (raw_value (ClientConfigAdapter D)) [] True)
      client_config_of = Some ?c" by code_simp
  moreover have "length (json_text ?j) \<le> 4096" unfolding t by simp
  ultimately have "read_client_config D (replicate 4096 0) (json_text ?j) = Some (Configured ?c)"
    by (subst client_read) (simp_all add: path_buffer_size_def Let_def del: json_text.simps)
  moreover have "build_device_request ?c = None" by (simp add: build_device_request_def slot_request_def)
  ultimately show ?thesis unfolding t by blast
qed

lemma read_properties_none:
  assumes "\<forall>pr \<in> set props. ad_path pr \<noteq> cur"
  shows "read_properties rec mem p props vs b cur k = Some vs"
  using assms by (induction props) auto

lemma long_key_stuck:
  assumes "holds_at mem 0 (code F (JObj [(key, j)]))" and "length mem < 2 ^ 32" and "string_ok key" and "511 \<le> length key"
    and "\<forall>pr \<in> set props. ad_path pr \<noteq> [0x2E]"
  shows "json_adapt_priv n mem 0 (StructAdapter props sz) v 0 [0x2E] 0 = None"
proof (cases n)
  case (Suc m)
  let ?p = "string_code key @ code F j"
  note h = code_header [OF assms(1)] and n = code_len_small(2) [OF assms(1,2)]
  have "holds_at mem 8 (hdr String (length key))" "holds_at mem 16 key"
    using h(2) by (simp_all add: holds_at_append string_code_def sizeof_JSONHeader_def)
  then have key: "read_header mem 8 = Some (Some String, of_nat (length key))" "load (length key) mem 16 = Some key" "length key + 16 \<le> length mem"
    using holds_at_length [of mem 16 key] by (simp_all add: read_header_hdr holds_at_def)
  have len: "unat (of_nat (length key) :: u32) = length key" using key(3) assms(2) by (simp add: unsigned_of_nat take_bit_nat_eq_self)
  have "0 < unat (of_nat (code_len F (JObj [(key, j)])) :: u32)" using n by (simp add: code_len_def)
  moreover have "path_write 0 [0x2E] 0 (0x2E # c_chars key) = None"
    using assms(3,4) by (simp add: path_write_def path_buffer_size_def c_chars_ok)
  moreover obtain vs where "json_adapt_set_defaults (StructAdapter props sz) v = Fields vs" by simp
  ultimately show ?thesis
    using key(1,2) len h(1) read_properties_none [OF assms(5)] by (simp add: Suc adapt_step_def sizeof_JSONHeader_def Let_def)
qed simp



end
