(* ===== verification/Codegen.thy ===== *)
theory Codegen
  imports Eval
begin

text \<open>
  What the two code generators share (\<^verbatim>\<open>ser/codegen.h\<close>, \<^verbatim>\<open>ser/codegen.c\<close>): the text they print,
  the position of a field relative to an alignment, the order in which structs are defined, and the
  spelling of names. A \<open>Writer\<close> only ever appends, so a function that prints is the text it appends;
  a result of \<^const>\<open>None\<close> is a failed assertion, the use of a null pointer, or fuel that does not
  suffice to descend into nested types.
\<close>

section \<open>Text\<close>

definition nl :: string where "nl = [CHR 0x0A]"

text \<open>The conversions \<open>%.*s\<close> of a slice, \<open>%*s\<close> of the empty string, \<open>%lu\<close> and \<open>%016lX\<close>.\<close>

definition chars :: "StringSlice \<Rightarrow> string" where "chars s = map (\<lambda>c. char_of (unat c)) s"

definition bytes :: "string \<Rightarrow> byte list" where "bytes s = map of_char s"

lemma chars_bytes [simp]: "chars (bytes s) = s"
proof -
  have "char_of (unat (of_char c :: byte)) = c" for c
  proof -
    have "(of_char c :: byte) = of_nat (of_char c)" by (cases c) simp
    then have "unat (of_char c :: byte) = of_char c mod 256" by (simp add: unat_of_nat del: of_nat_of_char)
    then show ?thesis by simp
  qed
  then show ?thesis by (simp add: chars_def bytes_def comp_def)
qed

definition pad :: "nat \<Rightarrow> string" where "pad n = replicate n (CHR '' '')"

definition digit :: "nat \<Rightarrow> char" where "digit d = ''0123456789ABCDEF'' ! d"

fun decimal :: "nat \<Rightarrow> string" where
  "decimal n = (if n < 10 then [digit n] else decimal (n div 10) @ [digit (n mod 10)])"

declare decimal.simps [simp del]

definition lu :: "u64 \<Rightarrow> string" where "lu n = decimal (unat n)"

definition lX016 :: "u64 \<Rightarrow> string" where
  "lX016 n = map (\<lambda>i. digit (unat n div 16 ^ i mod 16)) (rev [0..<16])"

text \<open>The texts of a loop that prints one piece for each element.\<close>

fun emit_all :: "('a \<Rightarrow> string option) \<Rightarrow> 'a list \<Rightarrow> string option" where
  "emit_all emit [] = Some []"
| "emit_all emit (x # xs) = do { t \<leftarrow> emit x; ts \<leftarrow> emit_all emit xs; Some (t @ ts) }"

definition INDENT :: nat where "INDENT = 4"

definition MSG_MAGIC_START :: u64 where "MSG_MAGIC_START = 0xCAFEF00DBEEFDEAD"
definition MSG_MAGIC_END :: u64 where "MSG_MAGIC_END = 0xF00DBEEFCAFEDEAD"

section \<open>Relative alignment\<close>

record CurrentAlignment =
  ca_align :: Alignment
  ca_offset :: u8

definition calign_is_aligned :: "CurrentAlignment \<Rightarrow> Alignment \<Rightarrow> bool option" where
  "calign_is_aligned c to =
    (if al_value to \<le> al_value (ca_align c) then Some (ca_offset c AND al_mask to = 0) else None)"

definition calign_add :: "CurrentAlignment \<Rightarrow> u8 \<Rightarrow> CurrentAlignment" where
  "calign_add c off = c\<lparr>ca_offset := (ca_offset c + off) AND al_mask (ca_align c)\<rparr>"

definition calign_to :: "CurrentAlignment \<Rightarrow> Alignment \<Rightarrow> u8 option" where
  "calign_to c a =
    (if al_value a \<le> al_value (ca_align c) then Some ((- ca_offset c) AND al_mask a) else None)"

section \<open>The order of the structs\<close>

text \<open>A \<open>StructObject *\<close> is the address of the type object it is a member of.\<close>

fun strncmp :: "nat \<Rightarrow> byte list \<Rightarrow> byte list \<Rightarrow> int" where
  "strncmp n (a # as) (b # bs) =
    (if n = 0 then 0 else if a \<noteq> b then uint a - uint b else if a = 0 then 0 else strncmp (n - 1) as bs)"
| "strncmp _ _ _ = 0"

definition struct_object_compare :: "TypeObject list \<Rightarrow> TypePtr \<Rightarrow> TypePtr \<Rightarrow> int option" where
  "struct_object_compare objs a b = do {
     sa \<leftarrow> struct_of objs a;
     sb \<leftarrow> struct_of objs b;
     let len = min (length (so_name sa)) (length (so_name sb));
     Some (strncmp len (so_name sa) (so_name sb))
   }"

text \<open>Arrays that are stored in place are skipped; what is left is a direct dependency when it is
  a struct.\<close>

primrec skip_arrays :: "nat \<Rightarrow> TypeObject list \<Rightarrow> TypePtr option \<Rightarrow> TypePtr option option" where
  "skip_arrays 0 objs ty = None"
| "skip_arrays (Suc n) objs ty = do {
     t \<leftarrow> deref objs ty;
     case to_type t of
       TypeArray a \<Rightarrow> if ar_heap a then Some ty else skip_arrays n objs (ar_type a)
     | _ \<Rightarrow> Some ty
   }"

fun struct_dependencies :: "nat \<Rightarrow> TypeObject list \<Rightarrow> Field list \<Rightarrow> TypePtr list option" where
  "struct_dependencies n objs [] = Some []"
| "struct_dependencies n objs (f # fs) = do {
     ty \<leftarrow> skip_arrays n objs (f_type f);
     t \<leftarrow> deref objs ty;
     deps \<leftarrow> struct_dependencies n objs fs;
     case to_type t of TypeStruct _ \<Rightarrow> Some (the ty # deps) | _ \<Rightarrow> Some deps
   }"

type_synonym dependencies = "(TypePtr \<times> TypePtr list) list"

fun collect_structs :: "nat \<Rightarrow> TypeObject list \<Rightarrow> TypePtr option list \<Rightarrow> dependencies \<Rightarrow> dependencies option" where
  "collect_structs n objs [] deps = Some deps"
| "collect_structs n objs (v # vs) deps = do {
     t \<leftarrow> deref objs v;
     case to_type t of
       TypeStruct s \<Rightarrow> do {
         ds \<leftarrow> struct_dependencies n objs (so_fields s);
         collect_structs n objs vs (AList.update (the v) ds deps)
       }
     | _ \<Rightarrow> collect_structs n objs vs deps
   }"

definition to_define :: "dependencies \<Rightarrow> TypePtr list" where
  "to_define deps = map fst (filter (\<lambda>(s, ds). \<forall>d \<in> set ds. d \<notin> fst ` set deps) deps)"

fun define_all :: "(TypePtr \<Rightarrow> 's \<Rightarrow> (string \<times> 's) option) \<Rightarrow> TypePtr list \<Rightarrow> 's \<Rightarrow> (string \<times> 's) option" where
  "define_all define [] s = Some ([], s)"
| "define_all define (x # xs) s = do {
     (t, s) \<leftarrow> define x s;
     (ts, s) \<leftarrow> define_all define xs s;
     Some (t @ ts, s)
   }"

text \<open>
  The passes. The table of dependencies is visited in the order of its buckets, which is the argument
  \<open>it\<close>; \<open>qsort\<close> is the argument \<open>qs\<close>. A pass that defines no struct is the last one; what is left
  in the table then is the third component.
\<close>

type_synonym struct_sort = "(TypePtr \<Rightarrow> TypePtr \<Rightarrow> int option) \<Rightarrow> TypePtr list \<Rightarrow> TypePtr list option"

partial_function (option) define_passes :: "(dependencies \<Rightarrow> dependencies) \<Rightarrow> struct_sort \<Rightarrow> TypeObject list
    \<Rightarrow> (TypePtr \<Rightarrow> 's \<Rightarrow> (string \<times> 's) option) \<Rightarrow> dependencies \<Rightarrow> 's \<Rightarrow> (string \<times> 's \<times> dependencies) option" where
  "define_passes it qs objs define deps s = do {
     td \<leftarrow> qs (struct_object_compare objs) (to_define (it deps));
     r \<leftarrow> define_all define td s;
     if td = [] then Some (fst r, snd r, deps)
     else do {
       r' \<leftarrow> define_passes it qs objs define (filter (\<lambda>d. fst d \<notin> set td) deps) (snd r);
       Some (fst r @ fst r', snd r')
     }
   }"

declare define_passes.simps [code]

definition define_structs :: "nat \<Rightarrow> (dependencies \<Rightarrow> dependencies) \<Rightarrow> struct_sort \<Rightarrow> TypeObject list \<Rightarrow> TypePtr option table
    \<Rightarrow> (TypePtr \<Rightarrow> 's \<Rightarrow> (string \<times> 's) option) \<Rightarrow> 's \<Rightarrow> (string \<times> 's) option" where
  "define_structs n it qs objs typedefs define s = do {
     deps \<leftarrow> collect_structs n objs (map snd typedefs) [];
     (t, s, left) \<leftarrow> define_passes it qs objs define deps s;
     Some (t, s)
   }"

section \<open>Names\<close>

definition isupper :: "byte \<Rightarrow> bool" where "isupper c \<longleftrightarrow> 0x41 \<le> c \<and> c \<le> 0x5A"

definition tolower :: "byte \<Rightarrow> byte" where "tolower c = (if isupper c then c + 0x20 else c)"

fun snake_loop :: "bool \<Rightarrow> byte list \<Rightarrow> byte list" where
  "snake_loop was_upper [] = []"
| "snake_loop was_upper (c # cs) =
    (if isupper c \<and> \<not> was_upper then [0x5F] else []) @ tolower c # snake_loop (isupper c) cs"

definition pascal_to_snake_case :: "StringSlice \<Rightarrow> StringSlice" where
  "pascal_to_snake_case s = (case s of [] \<Rightarrow> [] | c # cs \<Rightarrow> tolower c # snake_loop False cs)"

definition snake_case_to_screaming_snake_case :: "StringSlice \<Rightarrow> StringSlice" where
  "snake_case_to_screaming_snake_case s = map (\<lambda>c. if 0x61 \<le> c \<and> c \<le> 0x7A then c - 0x61 + 0x41 else c) s"

end
