(* ===== verification/Codegen_Order.thy ===== *)
theory Codegen_Order
  imports Codegen Eval_Layout_Correct
begin

text \<open>
  The order in which the structs of a program are defined: whatever is printed for a struct comes
  after what is printed for the structs it holds in place, each struct comes once, and only those that
  contain themselves are left out.
\<close>

section \<open>Dependencies\<close>

definition struct_sort_spec :: "struct_sort \<Rightarrow> bool" where
  "struct_sort_spec qp \<longleftrightarrow> (\<forall>cmp xs. consistent cmp xs \<longrightarrow>
     (\<exists>ys. qp cmp xs = Some ys \<and> mset ys = mset xs \<and> sorted_wrt (ordered cmp) ys))"

text \<open>Structs that do not contain themselves, directly or through others.\<close>

inductive definable :: "dependencies \<Rightarrow> TypePtr \<Rightarrow> bool" for deps where
  "(x, ds) \<in> set deps \<Longrightarrow> (\<And>d. d \<in> set ds \<Longrightarrow> d \<in> fst ` set deps \<Longrightarrow> definable deps d) \<Longrightarrow> definable deps x"

text \<open>Every struct in a list comes after the ones it depends on.\<close>

fun in_order :: "dependencies \<Rightarrow> TypePtr set \<Rightarrow> TypePtr list \<Rightarrow> bool" where
  "in_order deps seen [] = True"
| "in_order deps seen (x # xs) \<longleftrightarrow>
     (case map_of deps x of None \<Rightarrow> False | Some ds \<Rightarrow> set ds \<inter> fst ` set deps \<subseteq> seen) \<and> in_order deps (insert x seen) xs"

lemma in_order_append: "in_order deps seen (xs @ ys) \<longleftrightarrow> in_order deps seen xs \<and> in_order deps (seen \<union> set xs) ys"
  by (induction xs arbitrary: seen) auto

lemma in_order_ready:
  "(\<And>x. x \<in> set xs \<Longrightarrow> \<exists>ds. map_of deps x = Some ds \<and> set ds \<inter> fst ` set deps \<subseteq> seen) \<Longrightarrow> seen \<subseteq> seen' \<Longrightarrow>
     in_order deps seen' xs"
proof (induction xs arbitrary: seen')
  case (Cons x xs)
  obtain ds where "map_of deps x = Some ds" "set ds \<inter> fst ` set deps \<subseteq> seen" using Cons.prems(1) [of x] by auto
  moreover have "in_order deps (insert x seen') xs" using Cons.IH [of "insert x seen'"] Cons.prems by auto
  ultimately show ?case using Cons.prems(2) by auto
qed simp

lemma define_all_append:
  "define_all define (xs @ ys) s =
     (case define_all define xs s of None \<Rightarrow> None
      | Some (t, s) \<Rightarrow> (case define_all define ys s of None \<Rightarrow> None | Some (t', s) \<Rightarrow> Some (t @ t', s)))"
  by (induction xs arbitrary: s) (auto split: option.split bind_splits)

section \<open>Collecting them\<close>

lemma collect_structs_distinct:
  "collect_structs n objs vs deps = Some deps' \<Longrightarrow> distinct (map fst deps) \<Longrightarrow> distinct (map fst deps')"
proof (induction vs arbitrary: deps)
  case (Cons v vs)
  from Cons.prems(1) obtain t where t: "deref objs v = Some t" by (auto split: bind_splits)
  show ?case
  proof (cases "to_type t")
    case (TypeStruct s)
    with Cons.prems(1) t obtain ds where "collect_structs n objs vs (AList.update (the v) ds deps) = Some deps'"
      by (auto split: bind_splits)
    then show ?thesis using Cons.IH distinct_update [OF Cons.prems(2)] by blast
  qed (use Cons t in auto)
qed simp

section \<open>The passes\<close>

lemma to_define_set:
  assumes "mset ds' = mset ds"
  shows "set (to_define ds') = {x. \<exists>es. (x, es) \<in> set ds \<and> set es \<inter> fst ` set ds = {}}"
proof -
  have "set ds' = set ds" using mset_eq_setD [OF assms] .
  then have "set (to_define ds') = fst ` {d \<in> set ds. set (snd d) \<inter> fst ` set ds = {}}"
    unfolding to_define_def by (simp add: case_prod_beta disjoint_iff Ball_def)
  moreover have "fst ` {d \<in> S. Q (snd d)} = {x. \<exists>es. (x, es) \<in> S \<and> Q es}" for S :: "(TypePtr \<times> TypePtr list) set" and Q
    by force
  ultimately show ?thesis by simp
qed

lemma to_define_distinct: "mset ds' = mset ds \<Longrightarrow> distinct (map fst ds) \<Longrightarrow> distinct (to_define ds')"
proof -
  assume m: "mset ds' = mset ds" and d: "distinct (map fst ds)"
  then have "distinct (map fst ds')" using mset_eq_imp_distinct_iff [of "map fst ds'" "map fst ds"] by simp
  then show ?thesis unfolding to_define_def by (rule distinct_map_filter)
qed

lemma consistent_subset:
  assumes "consistent cmp xs" and "set ys \<subseteq> set xs"
  shows "consistent cmp ys"
  unfolding consistent_def
proof (intro ballI)
  fix a b assume "a \<in> set ys" "b \<in> set ys"
  with assms(2) have ab: "a \<in> set xs" "b \<in> set xs" by auto
  obtain r where r: "cmp a b = Some r" "\<exists>r'. cmp b a = Some r' \<and> (r \<le> 0 \<or> r' \<le> 0)"
      "\<And>c s. c \<in> set xs \<Longrightarrow> cmp b c = Some s \<Longrightarrow> r \<le> 0 \<Longrightarrow> s \<le> 0 \<Longrightarrow> \<exists>u. cmp a c = Some u \<and> u \<le> 0"
    using assms(1) [unfolded consistent_def, rule_format, OF ab] by blast
  then show "\<exists>r. cmp a b = Some r \<and> (\<exists>r'. cmp b a = Some r' \<and> (r \<le> 0 \<or> r' \<le> 0)) \<and>
      (\<forall>c \<in> set ys. \<forall>s. cmp b c = Some s \<longrightarrow> r \<le> 0 \<longrightarrow> s \<le> 0 \<longrightarrow> (\<exists>u. cmp a c = Some u \<and> u \<le> 0))"
    using assms(2) by blast
qed

text \<open>What is left to define of \<open>deps\<close> when the structs \<open>ds\<close> have been defined.\<close>

definition left_over :: "dependencies \<Rightarrow> TypePtr list \<Rightarrow> dependencies" where
  "left_over deps ds = filter (\<lambda>d. fst d \<notin> set ds) deps"

lemma left_over_fst: "fst ` set (left_over deps ds) = fst ` set deps - set ds"
  by (auto simp: left_over_def)

lemma left_over_append: "filter (\<lambda>d. fst d \<notin> set td) (left_over deps ds) = left_over deps (ds @ td)"
  by (auto simp: left_over_def intro: filter_cong)

text \<open>A pass that finds nothing to define leaves no struct that could be defined.\<close>

lemma stuck:
  assumes "distinct (map fst deps)" and "{x. \<exists>es. (x, es) \<in> set (left_over deps ds) \<and> set es \<inter> fst ` set (left_over deps ds) = {}} = {}"
    and "definable deps x"
  shows "x \<in> set ds"
  using assms(3)
proof induction
  case (1 x es)
  have "set es \<inter> fst ` set (left_over deps ds) = {}"
    using "1.IH" unfolding left_over_fst by blast
  moreover have "(x, es) \<in> set (left_over deps ds)" if "x \<notin> set ds"
    using that "1.hyps"(1) by (simp add: left_over_def)
  ultimately show ?case using assms(2) by blast
qed

lemma ready_definable:
  assumes "distinct (map fst deps)" and "(x, es) \<in> set (left_over deps ds)" and "set es \<inter> fst ` set (left_over deps ds) = {}"
    and "\<And>d. d \<in> set ds \<Longrightarrow> definable deps d"
  shows "definable deps x" and "\<exists>es. map_of deps x = Some es \<and> set es \<inter> fst ` set deps \<subseteq> set ds" and "x \<notin> set ds"
proof -
  have x: "(x, es) \<in> set deps" "set es \<inter> fst ` set deps \<subseteq> set ds" "x \<notin> set ds"
    using assms(2,3) unfolding left_over_fst by (auto simp: left_over_def)
  then show "definable deps x" using assms(4) by (intro definable.intros [of x es]) blast+
  show "\<exists>es. map_of deps x = Some es \<and> set es \<inter> fst ` set deps \<subseteq> set ds"
    using x assms(1) map_of_is_SomeI by fast
  show "x \<notin> set ds" by (rule x(3))
qed

lemma passes_order:
  assumes "struct_sort_spec qp" and it: "\<And>ds. mset (it ds) = mset ds" and "distinct (map fst deps)"
    and "consistent (struct_object_compare objs) (map fst deps)"
    and "distinct ds" and "in_order deps {} ds" and "\<And>d. d \<in> set ds \<Longrightarrow> definable deps d"
  shows "\<exists>order. distinct (ds @ order) \<and> in_order deps {} (ds @ order) \<and> set (ds @ order) = {x. definable deps x} \<and>
    (\<forall>s. define_passes it qp objs define (left_over deps ds) s =
       map_option (\<lambda>(t, s). (t, s, left_over deps (ds @ order))) (define_all define order s))"
  using assms(5-7)
proof (induction "length (left_over deps ds)" arbitrary: ds rule: less_induct)
  case less
  let ?cur = "left_over deps ds"
  have d: "distinct (map fst ?cur)" using assms(3) unfolding left_over_def by (rule distinct_map_filter)
  have ready: "set (to_define (it ?cur)) = {x. \<exists>es. (x, es) \<in> set ?cur \<and> set es \<inter> fst ` set ?cur = {}}"
    by (rule to_define_set [OF it])
  then have "set (to_define (it ?cur)) \<subseteq> set (map fst deps)" by (force simp: left_over_def)
  then obtain td where td: "qp (struct_object_compare objs) (to_define (it ?cur)) = Some td" "mset td = mset (to_define (it ?cur))"
    using consistent_subset [OF assms(4)] assms(1) unfolding struct_sort_spec_def by blast
  then have set_td: "set td = {x. \<exists>es. (x, es) \<in> set ?cur \<and> set es \<inter> fst ` set ?cur = {}}"
    using ready mset_eq_setD by blast
  have "distinct td" using td(2) to_define_distinct [OF it d] mset_eq_imp_distinct_iff by blast
  show ?case
  proof (cases "td = []")
    case True
    then have "x \<in> set ds" if "definable deps x" for x
      using stuck [OF assms(3) _ that] set_td by simp
    then have "set ds = {x. definable deps x}" using less.prems(3) by blast
    moreover have "define_passes it qp objs define ?cur s = Some ([], s, ?cur)" for s
      using True td(1) by (simp add: define_passes.simps)
    ultimately show ?thesis using less.prems by (intro exI [of _ "[]"]) simp
  next
    case False
    note r = ready_definable [OF assms(3) _ _ less.prems(3)]
    have x: "definable deps x" "\<exists>es. map_of deps x = Some es \<and> set es \<inter> fst ` set deps \<subseteq> set ds" "x \<notin> set ds" if "x \<in> set td" for x
      using that r unfolding set_td by blast+
    have "distinct (ds @ td)" using \<open>distinct td\<close> less.prems(1) x(3) by auto
    moreover have "in_order deps {} (ds @ td)" using less.prems(2) in_order_ready [OF x(2) order_refl] by (simp add: in_order_append)
    moreover have "length (left_over deps (ds @ td)) < length ?cur"
    proof -
      obtain y where y: "y \<in> set td" using False by (cases td) auto
      then obtain es where "(y, es) \<in> set ?cur" using set_td by blast
      with y have "y \<in> set td" "(y, es) \<in> set ?cur" by auto
      then show ?thesis
        using length_filter_less [of "(y, es)" ?cur "\<lambda>d. fst d \<notin> set td"] by (simp add: left_over_append)
    qed
    ultimately obtain order where o: "distinct ((ds @ td) @ order)" "in_order deps {} ((ds @ td) @ order)"
        "set ((ds @ td) @ order) = {x. definable deps x}"
        "\<And>s. define_passes it qp objs define (left_over deps (ds @ td)) s =
          map_option (\<lambda>(t, s). (t, s, left_over deps ((ds @ td) @ order))) (define_all define order s)"
      using less.hyps [of "ds @ td"] less.prems(3) x(1) by (metis Un_iff set_append)
    have "define_passes it qp objs define ?cur s =
        map_option (\<lambda>(t, s). (t, s, left_over deps (ds @ td @ order))) (define_all define (td @ order) s)" for s
      using False td(1) o(4)
      by (subst define_passes.simps) (auto simp: left_over_append define_all_append split: option.split bind_splits)
    then show ?thesis using o by (intro exI [of _ "td @ order"]) simp
  qed
qed

section \<open>The order\<close>


definition named_struct :: "byte list \<Rightarrow> TypePtr list \<Rightarrow> TypeObject" where
  "named_struct name tys = \<lparr>to_align = unresolved_align, to_type = TypeStruct \<lparr>so_name = name, so_fields =
     map (\<lambda>ty. \<lparr>f_name = [0x61], f_name_span = \<lparr>loc = location 0 0 0, s_len = 1\<rparr>, f_type = Some ty\<rparr>) tys, so_has_funcs = False\<rparr>\<rparr>"

text \<open>A struct \<open>A\<close> that holds a \<open>B\<close> and a struct \<open>C\<close> that holds itself.\<close>

definition nested_structs :: "TypeObject list" where
  "nested_structs = [named_struct [0x41] [Obj 1], named_struct [0x42] [], named_struct [0x43] [Obj 2]]"


end
