(* ===== verification/Codegen_C.thy ===== *)
theory Codegen_C
  imports Codegen
begin

text \<open>
  The C code generator (\<^verbatim>\<open>ser/codegen_c.c\<close>), function by function; each returns the text it
  prints. Fuel bounds the descent into nested types. A message printed by \<open>log_error\<close> goes to the
  terminal and is not part of the text.
\<close>

section \<open>Types and declarators\<close>

datatype Modifier = MOD_PTR | MOD_ARRAY u64

definition is_ptr :: "Modifier \<Rightarrow> bool" where "is_ptr m \<longleftrightarrow> m = MOD_PTR"

definition array_size_type :: "u64 \<Rightarrow> string" where
  "array_size_type sz =
    (if sz \<le> 0xFF then ''uint8_t'' else if sz \<le> 0xFFFF then ''uint16_t''
     else if sz \<le> 0xFFFFFFFF then ''uint32_t'' else ''uint64_t'')"

fun primitif_name :: "PrimitifType \<Rightarrow> string" where
  "primitif_name Primitif_u8 = ''uint8_t''"
| "primitif_name Primitif_u16 = ''uint16_t''"
| "primitif_name Primitif_u32 = ''uint32_t''"
| "primitif_name Primitif_u64 = ''uint64_t''"
| "primitif_name Primitif_i8 = ''uint8_t''"
| "primitif_name Primitif_i16 = ''uint16_t''"
| "primitif_name Primitif_i32 = ''uint32_t''"
| "primitif_name Primitif_i64 = ''uint64_t''"
| "primitif_name Primitif_f32 = ''float''"
| "primitif_name Primitif_f64 = ''double''"
| "primitif_name Primitif_char = ''char''"
| "primitif_name Primitif_bool = ''bool''"

text \<open>The loop of \<open>write_field\<close> that takes the arrays of fixed size off a type.\<close>

primrec take_modifiers :: "nat \<Rightarrow> TypeObject list \<Rightarrow> TypePtr option \<Rightarrow> (Modifier list \<times> TypePtr option) option" where
  "take_modifiers 0 objs ty = None"
| "take_modifiers (Suc n) objs ty = do {
     t \<leftarrow> deref objs ty;
     case to_type t of
       TypeArray a \<Rightarrow>
         if ar_sizing a = SizingFixed then do {
           (mods, base) \<leftarrow> take_modifiers n objs (ar_type a);
           Some ((if ar_heap a then MOD_PTR else MOD_ARRAY (ar_size a)) # mods, base)
         }
         else Some ([], ty)
     | _ \<Rightarrow> Some ([], ty)
   }"

text \<open>The stars before the name, from the last modifier to the first, and the sizes after it.\<close>

definition pointer_texts :: "Modifier list \<Rightarrow> string" where
  "pointer_texts mods = concat (map (\<lambda>i.
     if \<not> is_ptr (mods ! i) then []
     else if i = length mods - 1 \<or> is_ptr (mods ! (i + 1)) then ''*'' else ''(*'') (rev [0..<length mods]))"

definition array_texts :: "Modifier list \<Rightarrow> string" where
  "array_texts mods = concat (map (\<lambda>i. case mods ! i of
     MOD_PTR \<Rightarrow> []
   | MOD_ARRAY sz \<Rightarrow>
       if i = 0 \<or> \<not> is_ptr (mods ! (i - 1)) then ''['' @ lu sz @ '']'' else '')['' @ lu sz @ '']'') [0..<length mods])"

definition write_declarator :: "StringSlice \<Rightarrow> Modifier list \<Rightarrow> string" where
  "write_declarator name mods = pointer_texts mods @ chars name @ array_texts mods"

definition write_field_with :: "(TypePtr option \<Rightarrow> nat \<Rightarrow> string option) \<Rightarrow> nat \<Rightarrow> TypeObject list
    \<Rightarrow> StringSlice \<Rightarrow> TypePtr option \<Rightarrow> Modifier list \<Rightarrow> nat \<Rightarrow> string option" where
  "write_field_with write n objs name ty mods indent = do {
     (ms, base) \<leftarrow> take_modifiers n objs ty;
     t \<leftarrow> write base indent;
     Some (t @ write_declarator name (mods @ ms))
   }"

definition data_name :: StringSlice where "data_name = [0x64, 0x61, 0x74, 0x61]"

primrec write_type :: "nat \<Rightarrow> TypeObject list \<Rightarrow> TypePtr option \<Rightarrow> nat \<Rightarrow> string option" where
  "write_type 0 objs ty indent = None"
| "write_type (Suc n) objs ty indent = do {
     t \<leftarrow> deref objs ty;
     case to_type t of
       TypePrimitif p \<Rightarrow> Some (pad indent @ primitif_name p @ '' '')
     | TypeStruct s \<Rightarrow> Some (pad indent @ ''struct '' @ chars (so_name s) @ '' '')
     | TypeArray a \<Rightarrow>
         if ar_sizing a = SizingMax then do {
           let modifier = (if ar_heap a then MOD_PTR else MOD_ARRAY (ar_size a));
           f \<leftarrow> write_field_with (write_type n objs) n objs data_name (ar_type a) [modifier] (indent + INDENT);
           Some (pad indent @ ''struct {'' @ nl @ pad (indent + INDENT) @ array_size_type (ar_size a) @ '' len;'' @ nl @
             f @ '';'' @ nl @ pad indent @ ''} '')
         }
         else Some []
   }"

definition write_field :: "nat \<Rightarrow> TypeObject list \<Rightarrow> Field \<Rightarrow> Modifier list \<Rightarrow> nat \<Rightarrow> string option" where
  "write_field n objs f mods indent = write_field_with (write_type n objs) n objs (f_name f) (f_type f) mods indent"

definition write_struct :: "nat \<Rightarrow> TypePtr \<Rightarrow> TypeObject list \<Rightarrow> (string \<times> TypeObject list) option" where
  "write_struct n obj objs = do {
     s \<leftarrow> struct_of objs obj;
     fs \<leftarrow> emit_all (\<lambda>f. do { t \<leftarrow> write_field n objs f [] INDENT; Some (t @ '';'' @ nl) }) (so_fields s);
     Some (''typedef struct '' @ chars (so_name s) @ '' {'' @ nl @ fs @ ''} '' @ chars (so_name s) @ '';'' @ nl @ nl, objs)
   }"

section \<open>Accesses\<close>

definition write_align :: "string \<Rightarrow> Alignment \<Rightarrow> nat \<Rightarrow> string" where
  "write_align var al indent =
    pad indent @ var @ '' = (byte*)(((((uintptr_t)'' @ var @ '' - 1) >> '' @ decimal (unat (al_po2 al)) @
    '') + 1) << '' @ decimal (unat (al_po2 al)) @ '');'' @ nl"

definition size_primitif :: "u64 \<Rightarrow> PrimitifType" where
  "size_primitif sz =
    (if sz \<le> 0xFF then Primitif_u8 else if sz \<le> 0xFFFF then Primitif_u16
     else if sz \<le> 0xFFFFFFFF then Primitif_u32 else Primitif_u64)"

fun accessor_loop :: "TypeObject list \<Rightarrow> TypePtr option \<Rightarrow> u64 list \<Rightarrow> string \<Rightarrow> string option" where
  "accessor_loop objs ty [] dot = Some []"
| "accessor_loop objs ty (i # is) dot = do {
     t \<leftarrow> deref objs ty;
     case to_type t of
       TypeStruct s \<Rightarrow>
         if unat i < length (so_fields s) then do {
           let f = so_fields s ! unat i;
           r \<leftarrow> accessor_loop objs (f_type f) is ''.'';
           Some (dot @ chars (f_name f) @ r)
         }
         else None
     | TypeArray a \<Rightarrow>
         if ar_sizing a = SizingMax then
           if i = 0 then do {
             r \<leftarrow> accessor_loop objs (Some (PRIMITIF (size_primitif (ar_size a)))) is ''.'';
             Some (dot @ ''len'' @ r)
           }
           else do {
             r \<leftarrow> accessor_loop objs (ar_type a) is ''.'';
             Some (dot @ ''data'' @ r)
           }
         else do {
           r \<leftarrow> accessor_loop objs (ar_type a) is ''.'';
           Some (''['' @ lu i @ '']'' @ r)
         }
     | TypePrimitif _ \<Rightarrow> accessor_loop objs ty is ''.''
   }"

definition write_accessor :: "TypeObject list \<Rightarrow> TypePtr option \<Rightarrow> FieldAccessor \<Rightarrow> bool \<Rightarrow> string option" where
  "write_accessor objs base_type fa ptr =
    (if fa_indices fa = [] then Some []
     else do {
       t \<leftarrow> accessor_loop objs base_type (fa_indices fa) [];
       Some ((if ptr then ''->'' else ''.'') @ t)
     })"

fun heap_array_loop :: "TypeObject list \<Rightarrow> TypePtr option \<Rightarrow> u64 list \<Rightarrow> bool option" where
  "heap_array_loop objs ty [] = do {
     t \<leftarrow> deref objs ty;
     case to_type t of TypeArray a \<Rightarrow> Some (ar_heap a) | _ \<Rightarrow> Some False
   }"
| "heap_array_loop objs ty (i # is) = do {
     t \<leftarrow> deref objs ty;
     case to_type t of
       TypeStruct s \<Rightarrow> if unat i < length (so_fields s) then heap_array_loop objs (f_type (so_fields s ! unat i)) is else None
     | TypeArray a \<Rightarrow> if ar_sizing a = SizingMax \<and> i = 0 then Some False else heap_array_loop objs (ar_type a) is
     | TypePrimitif _ \<Rightarrow> heap_array_loop objs ty is
   }"

definition is_field_accessor_heap_array :: "TypeObject list \<Rightarrow> FieldAccessor \<Rightarrow> TypePtr option \<Rightarrow> bool option" where
  "is_field_accessor_heap_array objs fa base_type = heap_array_loop objs base_type (butlast (fa_indices fa))"

section \<open>Serialization\<close>

text \<open>The loop over the fields of constant size, with the offset of each; what it leaves are the
  arrays of variable size.\<close>

fun sized_loop :: "(FieldAccessor \<Rightarrow> u64 \<Rightarrow> string option) \<Rightarrow> FieldAccessor list \<Rightarrow> u64 \<Rightarrow> CurrentAlignment
    \<Rightarrow> (string \<times> u64 \<times> CurrentAlignment \<times> FieldAccessor list) option" where
  "sized_loop emit [] off al = Some ([], off, al, [])"
| "sized_loop emit (fa # fas) off al =
    (if fa_size fa = 0 then Some ([], off, al, fa # fas)
     else do {
       t \<leftarrow> emit fa off;
       (ts, r) \<leftarrow> sized_loop emit fas (off + fa_size fa) (calign_add al (ucast (fa_size fa)));
       Some (t @ ts, r)
     })"

definition len_accessor :: "FieldAccessor \<Rightarrow> FieldAccessor option" where
  "len_accessor fa = (if fa_indices fa = [] then None else Some (fa\<lparr>fa_indices := butlast (fa_indices fa) @ [0]\<rparr>))"

text \<open>The functions that are called: a struct with functions of its own, unless it is the one whose
  function is being printed.\<close>

definition called_struct :: "TypeObject list \<Rightarrow> Layout \<Rightarrow> bool \<Rightarrow> StringSlice option option" where
  "called_struct objs layout always_inline = do {
     t \<leftarrow> deref objs (Some (ly_type layout));
     case to_type t of
       TypeStruct s \<Rightarrow> if so_has_funcs s \<and> \<not> always_inline then Some (Some (pascal_to_snake_case (so_name s))) else Some None
     | _ \<Rightarrow> Some None
   }"

text \<open>The part after the fields of constant size, common to both directions: either the buffer is
  moved past the padding, or to the arrays, which are followed by an alignment of the pointer.\<close>

definition write_rest :: "(FieldAccessor \<Rightarrow> string option) \<Rightarrow> TypeObject list \<Rightarrow> Alignment \<Rightarrow> nat \<Rightarrow> u64 \<Rightarrow> CurrentAlignment
    \<Rightarrow> FieldAccessor list \<Rightarrow> string option" where
  "write_rest emit objs alignment indent off al rest = (case rest of
     [] \<Rightarrow> do {
       p \<leftarrow> calign_to al alignment;
       Some (pad indent @ ''buf += '' @ lu (off + ucast p) @ '';'' @ nl)
     }
   | fa # _ \<Rightarrow> do {
       t \<leftarrow> deref objs (fa_type fa);
       p \<leftarrow> calign_to al (to_align t);
       arrs \<leftarrow> emit_all emit rest;
       Some (pad indent @ ''buf += '' @ lu (off + ucast p) @ '';'' @ nl @ arrs @ write_align ''buf'' alignment indent)
     })"

primrec write_type_serialization :: "nat \<Rightarrow> TypeObject list \<Rightarrow> (TypePtr \<times> Layout) list \<Rightarrow> string \<Rightarrow> bool \<Rightarrow> Layout
    \<Rightarrow> CurrentAlignment \<Rightarrow> nat \<Rightarrow> nat \<Rightarrow> bool \<Rightarrow> string option" where
  "write_type_serialization 0 objs layouts base ptr layout al indent depth always_inline = None"
| "write_type_serialization (Suc n) objs layouts base ptr layout al indent depth always_inline = (case ly_fields layout of
     [] \<Rightarrow> Some []
   | fa # _ \<Rightarrow> do {
       t \<leftarrow> deref objs (fa_type fa);
       p \<leftarrow> calign_to al (to_align t);
       let off = ucast (ca_offset al) + ucast p;
       called \<leftarrow> called_struct objs layout always_inline;
       case called of
         Some name \<Rightarrow>
           Some (pad indent @ ''buf += '' @ chars name @ ''_serialize('' @ (if ptr then ''*'' else []) @ base @ '', &buf['' @ lu off @ '']);'' @ nl)
       | None \<Rightarrow> do {
           (ts, off, al', rest) \<leftarrow> sized_loop (\<lambda>fa off. do {
               ty \<leftarrow> write_type (Suc n) objs (fa_type fa) 0;
               acc \<leftarrow> write_accessor objs (Some (ly_type layout)) fa ptr;
               Some (pad indent @ ''*('' @ ty @ ''*)&buf['' @ lu off @ ''] = '' @ base @ acc @ '';'' @ nl)
             }) (ly_fields layout) off al;
           r \<leftarrow> write_rest (\<lambda>farr. do {
               flen \<leftarrow> len_accessor farr;
               len \<leftarrow> write_accessor objs (Some (ly_type layout)) flen ptr;
               acc \<leftarrow> write_accessor objs (Some (ly_type layout)) farr ptr;
               let vname = ''e'' @ decimal depth;
               ety \<leftarrow> fa_type farr;
               arr_layout \<leftarrow> map_of layouts ety;
               et \<leftarrow> deref objs (Some ety);
               inner \<leftarrow> write_type_serialization n objs layouts vname False arr_layout
                 \<lparr>ca_align = to_align et, ca_offset = 0\<rparr> (indent + INDENT) (depth + 1) False;
               Some (pad indent @ ''for(size_t i = 0; i < '' @ base @ len @ ''; i++) {'' @ nl @
                 pad (indent + INDENT) @ ''typeof('' @ base @ acc @ ''[i]) '' @ vname @ '' = '' @ base @ acc @ ''[i];'' @ nl @
                 inner @ pad indent @ ''}'' @ nl)
             }) objs (ca_align al) indent off al' rest;
           Some (ts @ r)
         }
     })"

primrec write_type_deserialization :: "nat \<Rightarrow> TypeObject list \<Rightarrow> (TypePtr \<times> Layout) list \<Rightarrow> string \<Rightarrow> bool \<Rightarrow> Layout
    \<Rightarrow> CurrentAlignment \<Rightarrow> nat \<Rightarrow> nat \<Rightarrow> bool \<Rightarrow> string option" where
  "write_type_deserialization 0 objs layouts base ptr layout al indent depth always_inline = None"
| "write_type_deserialization (Suc n) objs layouts base ptr layout al indent depth always_inline = (case ly_fields layout of
     [] \<Rightarrow> Some []
   | fa # _ \<Rightarrow> do {
       t \<leftarrow> deref objs (fa_type fa);
       p \<leftarrow> calign_to al (to_align t);
       let off = ucast (ca_offset al) + ucast p;
       called \<leftarrow> called_struct objs layout always_inline;
       case called of
         Some name \<Rightarrow>
           Some (pad indent @ ''buf += '' @ chars name @ ''_deserialize('' @ (if ptr then [] else ''&'') @ base @ '', &buf['' @ lu off @ '']);'' @ nl)
       | None \<Rightarrow> do {
           lt \<leftarrow> deref objs (Some (ly_type layout));
           let star = (case to_type lt of TypePrimitif _ \<Rightarrow> ''*'' | _ \<Rightarrow> []);
           (ts, off, al', rest) \<leftarrow> sized_loop (\<lambda>fa off. do {
               acc \<leftarrow> write_accessor objs (Some (ly_type layout)) fa ptr;
               ty \<leftarrow> write_type (Suc n) objs (fa_type fa) 0;
               Some (pad indent @ star @ base @ acc @ '' = *('' @ ty @ ''*)&buf['' @ lu off @ ''];'' @ nl)
             }) (ly_fields layout) off al;
           r \<leftarrow> write_rest (\<lambda>farr. do {
               flen \<leftarrow> len_accessor farr;
               len \<leftarrow> write_accessor objs (Some (ly_type layout)) flen ptr;
               acc \<leftarrow> write_accessor objs (Some (ly_type layout)) farr ptr;
               heap \<leftarrow> is_field_accessor_heap_array objs farr (Some (ly_type layout));
               let alloc = (if heap then pad indent @ base @ acc @ '' = malloc('' @ base @ len @ '' * sizeof(typeof(*'' @ base @ acc @ '')));'' @ nl
                            else []);
               let vname = ''e'' @ decimal depth;
               ety \<leftarrow> fa_type farr;
               arr_layout \<leftarrow> map_of layouts ety;
               et \<leftarrow> deref objs (Some ety);
               inner \<leftarrow> write_type_deserialization n objs layouts vname True arr_layout
                 \<lparr>ca_align = to_align et, ca_offset = 0\<rparr> (indent + INDENT) (depth + 1) False;
               Some (alloc @ pad indent @ ''for(size_t i = 0; i < '' @ base @ len @ ''; i++) {'' @ nl @
                 pad (indent + INDENT) @ ''typeof(&'' @ base @ acc @ ''[i]) '' @ vname @ '' = &'' @ base @ acc @ ''[i];'' @ nl @
                 inner @ pad indent @ ''}'' @ nl)
             }) objs (ca_align al) indent off al' rest;
           Some (ts @ r)
         }
     })"

section \<open>Release\<close>

text \<open>The text that frees what a value owns, with the number of things freed; the loop over an array
  is printed only when there is something to free in its elements.\<close>

fun free_fields :: "(string \<Rightarrow> TypePtr option \<Rightarrow> (nat \<times> string) option) \<Rightarrow> string \<Rightarrow> Field list \<Rightarrow> (nat \<times> string) option" where
  "free_fields free base [] = Some (0, [])"
| "free_fields free base (f # fs) = do {
     (k, t) \<leftarrow> free (base @ ''.'' @ chars (f_name f)) (f_type f);
     (ks, ts) \<leftarrow> free_fields free base fs;
     Some (k + ks, t @ ts)
   }"

primrec write_type_free :: "nat \<Rightarrow> TypeObject list \<Rightarrow> (TypePtr \<times> Layout) list \<Rightarrow> string \<Rightarrow> TypePtr option \<Rightarrow> nat \<Rightarrow> nat
    \<Rightarrow> bool \<Rightarrow> (nat \<times> string) option" where
  "write_type_free 0 objs layouts base ty indent depth always_inline = None"
| "write_type_free (Suc n) objs layouts base ty indent depth always_inline = do {
     t \<leftarrow> deref objs ty;
     case to_type t of
       TypePrimitif _ \<Rightarrow> Some (0, [])
     | TypeArray a \<Rightarrow> do {
         let e = ''e'' @ decimal depth;
         let header = pad indent @ ''for(size_t i = 0; i < '' @
           (if ar_sizing a = SizingMax
            then base @ ''.len; i++) {'' @ nl @
              pad (indent + INDENT) @ ''typeof('' @ base @ ''.data[i]) '' @ e @ '' = '' @ base @ ''.data[i];'' @ nl
            else lu (ar_size a) @ ''; i++) {'' @ nl @
              pad (indent + INDENT) @ ''typeof('' @ base @ ''[i]) '' @ e @ '' = '' @ base @ ''[i];'' @ nl);
         (total, inner) \<leftarrow> write_type_free n objs layouts e (ar_type a) (indent + INDENT) (depth + 1) False;
         let loop = (if total > 0 then header @ inner @ pad indent @ ''}'' @ nl else []);
         if ar_heap a then Some (total + 1, loop @ pad indent @ ''free('' @ base @ ''.data);'' @ nl)
         else Some (total, loop)
       }
     | TypeStruct s \<Rightarrow>
         if so_has_funcs s \<and> \<not> always_inline then do {
           ty \<leftarrow> ty;
           layout \<leftarrow> map_of layouts ty;
           Some (length (filter (\<lambda>fa. fa_size fa = 0) (ly_fields layout)),
             pad indent @ chars (pascal_to_snake_case (so_name s)) @ ''_free('' @ base @ '');'' @ nl)
         }
         else free_fields (\<lambda>b ty. write_type_free n objs layouts b ty indent depth False) base (so_fields s)
   }"

section \<open>The functions of a struct\<close>

definition set_has_funcs :: "TypeObject \<Rightarrow> TypeObject" where
  "set_has_funcs t = (case to_type t of
     TypeStruct s \<Rightarrow> t\<lparr>to_type := TypeStruct (s\<lparr>so_has_funcs := True\<rparr>)\<rparr>
   | _ \<Rightarrow> t)"

definition mark_has_funcs :: "TypePtr \<Rightarrow> TypeObject list \<Rightarrow> TypeObject list" where
  "mark_has_funcs obj objs = (case obj of Obj i \<Rightarrow> objs[i := set_has_funcs (objs ! i)] | PRIMITIF _ \<Rightarrow> objs)"

definition write_struct_func_decl :: "TypePtr \<Rightarrow> TypeObject list \<Rightarrow> (string \<times> TypeObject list) option" where
  "write_struct_func_decl obj objs = do {
     s \<leftarrow> struct_of objs obj;
     let sname = chars (so_name s);
     let name = chars (pascal_to_snake_case (so_name s));
     let attr = ''__attribute__((unused)) static '';
     Some (attr @ ''int '' @ name @ ''_serialize(struct '' @ sname @ '' val, byte *buf);'' @ nl @
       attr @ ''int '' @ name @ ''_deserialize(struct '' @ sname @ '' *val, const byte *buf);'' @ nl @
       attr @ ''void '' @ name @ ''_free(struct '' @ sname @ '' val);'' @ nl,
       mark_has_funcs obj objs)
   }"

definition write_struct_func :: "nat \<Rightarrow> (TypePtr \<times> Layout) list \<Rightarrow> TypePtr \<Rightarrow> TypeObject list
    \<Rightarrow> (string \<times> TypeObject list) option" where
  "write_struct_func n layouts obj objs = do {
     s \<leftarrow> struct_of objs obj;
     t \<leftarrow> deref objs (Some obj);
     layout \<leftarrow> map_of layouts obj;
     let sname = chars (so_name s);
     let name = chars (pascal_to_snake_case (so_name s));
     let al = \<lparr>ca_align = to_align t, ca_offset = 0\<rparr>;
     ser \<leftarrow> write_type_serialization n objs layouts ''val'' False layout al INDENT 0 True;
     des \<leftarrow> write_type_deserialization n objs layouts ''val'' True layout al INDENT 0 True;
     (f, fr) \<leftarrow> write_type_free n objs layouts ''val'' (Some obj) INDENT 0 True;
     Some (''static int '' @ name @ ''_serialize(struct '' @ sname @ '' val, byte *buf) {'' @ nl @
       pad INDENT @ ''byte * base_buf = buf;'' @ nl @ ser @
       pad INDENT @ ''return (int)(buf - base_buf);'' @ nl @ ''}'' @ nl @
       ''static int '' @ name @ ''_deserialize(struct '' @ sname @ '' *val, const byte *buf) {'' @ nl @
       pad INDENT @ ''const byte * base_buf = buf;'' @ nl @ des @
       pad INDENT @ ''return (int)(buf - base_buf);'' @ nl @ ''}'' @ nl @
       ''static void '' @ name @ ''_free(struct '' @ sname @ '' val) {'' @
       (if f > 0 then nl @ fr @ ''}'' @ nl @ nl else '' }'' @ nl @ nl),
       objs)
   }"

section \<open>The header\<close>

definition header_prologue :: "string \<Rightarrow> string" where
  "header_prologue uc_name =
    ''// Generated file'' @ nl @ ''#ifndef '' @ uc_name @ ''_H'' @ nl @ ''#define '' @ uc_name @ ''_H'' @ nl @
    ''#include <stdint.h>'' @ nl @ ''#include <stdlib.h>'' @ nl @ ''#include <stdbool.h>'' @ nl @ nl @
    ''typedef unsigned char byte;'' @ nl @ ''typedef uint64_t MsgMagic;'' @ nl @ nl @
    ''#define MSG_MAGIC_SIZE sizeof(MsgMagic)'' @ nl @
    ''static const MsgMagic MSG_MAGIC_START = 0x'' @ lX016 MSG_MAGIC_START @ '';'' @ nl @
    ''static const MsgMagic MSG_MAGIC_END = 0x'' @ lX016 MSG_MAGIC_END @ '';'' @ nl @ nl"

definition source_prologue :: "string \<Rightarrow> string" where
  "source_prologue name =
    ''// Generated file'' @ nl @ ''#include '' @ [CHR 0x22] @ name @ ''.h'' @ [CHR 0x22] @ nl @
    ''#include <stdio.h>'' @ nl @ nl"

definition version_name :: StringSlice where
  "version_name = [0x5F, 0x76, 0x65, 0x72, 0x73, 0x69, 0x6F, 0x6E]"

definition version_field :: Field where
  "version_field = \<lparr>f_name = version_name,
     f_name_span = \<lparr>loc = \<lparr>line = 0, column = 0, offset = 0\<rparr>, s_len = 0\<rparr>, f_type = Some (PRIMITIF Primitif_u64)\<rparr>"

definition versioned :: "MessageObject \<Rightarrow> bool" where
  "versioned m \<longleftrightarrow> Attr_versioned \<in> mo_attributes m"

fun enum_constants :: "string \<Rightarrow> MessageObject list \<Rightarrow> nat \<Rightarrow> string" where
  "enum_constants name [] j = []"
| "enum_constants name (m # ms) j =
    pad INDENT @ name @ ''Tag'' @ chars (mo_name m) @ '' = '' @ decimal (j + 1) @ '','' @ nl @ enum_constants name ms (j + 1)"

definition write_enum :: "string \<Rightarrow> MessageObject list \<Rightarrow> string" where
  "write_enum name ms =
    ''typedef enum '' @ name @ ''Tag {'' @ nl @ pad INDENT @ name @ ''TagNone = 0,'' @ nl @
    enum_constants name ms 0 @ ''} '' @ name @ ''Tag;'' @ nl @ nl"

definition write_message_struct :: "nat \<Rightarrow> TypeObject list \<Rightarrow> string \<Rightarrow> MessageObject \<Rightarrow> string option" where
  "write_message_struct n objs name m = do {
     let full = name @ chars (mo_name m);
     fs \<leftarrow> emit_all (\<lambda>f. do { t \<leftarrow> write_field n objs f [] INDENT; Some (t @ '';'' @ nl) }) (mo_fields m);
     v \<leftarrow> if versioned m then do { t \<leftarrow> write_field n objs version_field [] INDENT; Some (t @ '';'' @ nl) } else Some [];
     Some (''typedef struct '' @ full @ '' {'' @ nl @ pad INDENT @ name @ ''Tag tag;'' @ nl @ fs @ v @ ''} '' @ full @ '';'' @ nl @ nl)
   }"

definition write_union :: "string \<Rightarrow> MessageObject list \<Rightarrow> string" where
  "write_union name ms =
    ''typedef union '' @ name @ ''Message {'' @ nl @ pad INDENT @ name @ ''Tag tag;'' @ nl @
    concat (map (\<lambda>m. pad INDENT @ name @ chars (mo_name m) @ '' '' @ chars (pascal_to_snake_case (mo_name m)) @ '';'' @ nl) ms) @
    ''} '' @ name @ ''Message;'' @ nl @ nl"

definition write_prototypes :: "string \<Rightarrow> string \<Rightarrow> string" where
  "write_prototypes name msgs =
    ''// Serialize the message msg to buffer dst of size len, returns the length of the serialized message, or -1 on '' @
    ''error (buffer overflow)'' @ nl @
    ''int msg_'' @ name @ ''_serialize(byte *dst, size_t len, '' @ msgs @ ''Message *msg);'' @ nl @
    ''// Deserialize the message in the buffer src of size len into dst, return the length of the serialized message or '' @
    ''-1 on error.'' @ nl @
    ''int msg_'' @ name @ ''_deserialize(const byte *src, size_t len, '' @ msgs @ ''Message *dst);'' @ nl @ nl @
    ''// Free the message (created by msg_'' @ name @ ''_deserialize)'' @ nl @
    ''void msg_'' @ name @ ''_free('' @ msgs @ ''Message *msg);'' @ nl"

section \<open>The functions of a group of messages\<close>

text \<open>The struct made of a message: a new type object, after the ones of the program. The objects
  made for a group are freed after it.\<close>

definition message_object :: "MessageObject \<Rightarrow> TypeObject" where
  "message_object m = \<lparr>to_align = ALIGN_8,
     to_type = TypeStruct \<lparr>so_name = mo_name m, so_fields = mo_fields m @ (if versioned m then [version_field] else []),
       so_has_funcs = False\<rparr>\<rparr>"

fun message_tos :: "qsort \<Rightarrow> nat \<Rightarrow> MessageObject list \<Rightarrow> TypeObject list \<Rightarrow> (TypePtr \<times> Layout) list
    \<Rightarrow> (TypePtr list \<times> TypeObject list \<times> (TypePtr \<times> Layout) list) option" where
  "message_tos qs n [] objs layouts = Some ([], objs, layouts)"
| "message_tos qs n (m # ms) objs layouts = do {
     let to = Obj (length objs);
     let objs = objs @ [message_object m];
     layout \<leftarrow> type_layout qs n objs to;
     (tos, objs, layouts) \<leftarrow> message_tos qs n ms objs (AList.update to layout layouts);
     Some (to # tos, objs, layouts)
   }"

definition message_alignment :: CurrentAlignment where
  "message_alignment = \<lparr>ca_align = ALIGN_8, ca_offset = 2\<rparr>"

definition case_label :: "string \<Rightarrow> MessageObject \<Rightarrow> string" where
  "case_label tag_type m = pad INDENT @ ''case '' @ tag_type @ chars (mo_name m) @ '': {'' @ nl"

definition case_break :: string where
  "case_break = pad (INDENT * 2) @ ''break;'' @ nl @ pad INDENT @ ''}'' @ nl"

definition none_case :: "string \<Rightarrow> string" where
  "none_case tag_type = pad INDENT @ ''case '' @ tag_type @ ''None:'' @ nl @ pad (INDENT * 2) @ ''break;'' @ nl"

definition serialize_case :: "nat \<Rightarrow> TypeObject list \<Rightarrow> (TypePtr \<times> Layout) list \<Rightarrow> string \<Rightarrow> u64
    \<Rightarrow> MessageObject \<times> TypePtr \<Rightarrow> string option" where
  "serialize_case n objs layouts tag_type version mt = do {
     let (m, mtype) = mt;
     layout \<leftarrow> map_of layouts mtype;
     let name = chars (pascal_to_snake_case (mo_name m));
     body \<leftarrow> write_type_serialization n objs layouts (''msg->'' @ name) False layout message_alignment (INDENT * 2) 0 False;
     Some (case_label tag_type m @
       pad (INDENT * 2) @ ''*(uint16_t *)buf = '' @ tag_type @ chars (mo_name m) @ '';'' @ nl @
       (if versioned m then pad (INDENT * 2) @ ''msg->'' @ name @ ''._version = '' @ lu version @ ''UL;'' @ nl else []) @
       body @ case_break)
   }"

definition write_serialize :: "nat \<Rightarrow> TypeObject list \<Rightarrow> (TypePtr \<times> Layout) list \<Rightarrow> string \<Rightarrow> string \<Rightarrow> u64
    \<Rightarrow> (MessageObject \<times> TypePtr) list \<Rightarrow> string option" where
  "write_serialize n objs layouts name msgs version mts = do {
     cases \<leftarrow> emit_all (serialize_case n objs layouts (msgs @ ''Tag'') version) mts;
     Some (''int msg_'' @ name @ ''_serialize(byte *buf, size_t len, '' @ msgs @ ''Message *msg) {'' @ nl @
       pad INDENT @ ''const byte *base_buf = buf;'' @ nl @
       pad INDENT @ ''if(len < 2 * MSG_MAGIC_SIZE)'' @ nl @ pad (INDENT * 2) @ ''return -1;'' @ nl @
       pad INDENT @ ''*(MsgMagic*)buf = MSG_MAGIC_START;'' @ nl @
       pad INDENT @ ''buf += MSG_MAGIC_SIZE;'' @ nl @
       pad INDENT @ ''switch(msg->tag) {'' @ nl @ none_case (msgs @ ''Tag'') @ cases @ pad INDENT @ ''}'' @ nl @
       pad INDENT @ ''*(MsgMagic*)buf = MSG_MAGIC_END;'' @ nl @
       pad INDENT @ ''buf += MSG_MAGIC_SIZE;'' @ nl @
       pad INDENT @ ''if(buf > base_buf + len)'' @ nl @ pad (INDENT * 2) @ ''return -1;'' @ nl @
       pad INDENT @ ''return (int)(buf - base_buf);'' @ nl @ ''}'' @ nl)
   }"

definition free_and_fail :: "string \<Rightarrow> nat \<Rightarrow> string" where
  "free_and_fail name indent =
    pad indent @ ''msg_'' @ name @ ''_free(msg);'' @ nl @ pad indent @ ''return -1;'' @ nl"

definition version_check :: "string \<Rightarrow> string \<Rightarrow> u64 \<Rightarrow> string" where
  "version_check name field version =
    pad (INDENT * 2) @ ''if(msg->'' @ field @ ''._version != '' @ lu version @ ''UL) {'' @ nl @
    pad (INDENT * 3) @ ''printf('' @ [CHR 0x22] @ ''Mismatched version: peers aren'' @ [CHR 0x27] @ ''t the same version'' @
    '', expected '' @ lu version @ '' got %lu.'' @ [CHR 0x5C] @ ''n'' @ [CHR 0x22] @ '', msg->'' @ field @ ''._version);'' @ nl @
    free_and_fail name (INDENT * 3) @ pad (INDENT * 2) @ ''}'' @ nl"

definition deserialize_case :: "nat \<Rightarrow> TypeObject list \<Rightarrow> (TypePtr \<times> Layout) list \<Rightarrow> string \<Rightarrow> string \<Rightarrow> u64
    \<Rightarrow> MessageObject \<times> TypePtr \<Rightarrow> string option" where
  "deserialize_case n objs layouts name tag_type version mt = do {
     let (m, mtype) = mt;
     layout \<leftarrow> map_of layouts mtype;
     let field = chars (pascal_to_snake_case (mo_name m));
     body \<leftarrow> write_type_deserialization n objs layouts (''msg->'' @ field) False layout message_alignment (INDENT * 2) 0 False;
     Some (case_label tag_type m @
       pad (INDENT * 2) @ ''msg->tag = '' @ tag_type @ chars (mo_name m) @ '';'' @ nl @ body @
       (if versioned m then version_check name field version else []) @ case_break)
   }"

definition write_deserialize :: "nat \<Rightarrow> TypeObject list \<Rightarrow> (TypePtr \<times> Layout) list \<Rightarrow> string \<Rightarrow> string \<Rightarrow> u64
    \<Rightarrow> (MessageObject \<times> TypePtr) list \<Rightarrow> string option" where
  "write_deserialize n objs layouts name msgs version mts = do {
     cases \<leftarrow> emit_all (deserialize_case n objs layouts name (msgs @ ''Tag'') version) mts;
     Some (nl @ ''int msg_'' @ name @ ''_deserialize(const byte *buf, size_t len, '' @ msgs @ ''Message *msg) {'' @ nl @
       pad INDENT @ ''const byte *base_buf = buf;'' @ nl @
       pad INDENT @ ''if(len < 2 * MSG_MAGIC_SIZE)'' @ nl @ pad (INDENT * 2) @ ''return -1;'' @ nl @
       pad INDENT @ ''if(*(MsgMagic*)buf != MSG_MAGIC_START)'' @ nl @ pad (INDENT * 2) @ ''return -1;'' @ nl @
       pad INDENT @ ''buf += MSG_MAGIC_SIZE;'' @ nl @
       pad INDENT @ msgs @ ''Tag'' @ '' tag = *(uint16_t*)buf;'' @ nl @
       pad INDENT @ ''switch(tag) {'' @ nl @ none_case (msgs @ ''Tag'') @ cases @ pad INDENT @ ''}'' @ nl @
       pad INDENT @ ''if(*(MsgMagic*)buf != MSG_MAGIC_END) {'' @ nl @
       free_and_fail name (INDENT * 2) @ pad INDENT @ ''}'' @ nl @
       pad INDENT @ ''buf += MSG_MAGIC_SIZE;'' @ nl @
       pad INDENT @ ''if(buf > base_buf + len) {'' @ nl @
       free_and_fail name (INDENT * 2) @ pad INDENT @ ''}'' @ nl @
       pad INDENT @ ''return (int)(buf - base_buf);'' @ nl @ ''}'' @ nl)
   }"

definition free_case :: "nat \<Rightarrow> TypeObject list \<Rightarrow> (TypePtr \<times> Layout) list \<Rightarrow> string
    \<Rightarrow> MessageObject \<times> TypePtr \<Rightarrow> string option" where
  "free_case n objs layouts tag_type mt = do {
     let (m, mtype) = mt;
     let name = chars (pascal_to_snake_case (mo_name m));
     (_, body) \<leftarrow> write_type_free n objs layouts (''msg->'' @ name) (Some mtype) (INDENT * 2) 0 False;
     Some (case_label tag_type m @ body @ case_break)
   }"

definition write_free :: "nat \<Rightarrow> TypeObject list \<Rightarrow> (TypePtr \<times> Layout) list \<Rightarrow> string \<Rightarrow> string
    \<Rightarrow> (MessageObject \<times> TypePtr) list \<Rightarrow> string option" where
  "write_free n objs layouts name msgs mts = do {
     cases \<leftarrow> emit_all (free_case n objs layouts (msgs @ ''Tag'')) mts;
     Some (nl @ ''void msg_'' @ name @ ''_free('' @ msgs @ ''Message *msg) {'' @ nl @
       pad INDENT @ ''switch(msg->tag) {'' @ nl @ none_case (msgs @ ''Tag'') @ cases @ pad INDENT @ ''}'' @ nl @ ''}'' @ nl)
   }"

section \<open>The generator\<close>

definition messages_header :: "nat \<Rightarrow> TypeObject list \<Rightarrow> MessagesObject \<Rightarrow> string option" where
  "messages_header n objs msgs = do {
     let name = chars (mso_name msgs);
     let ms = mso_messages msgs;
     structs \<leftarrow> emit_all (write_message_struct n objs name) ms;
     Some (''// '' @ name @ nl @ nl @ write_enum name ms @ structs @ write_union name ms @
       write_prototypes (chars (pascal_to_snake_case (mso_name msgs))) name)
   }"

definition messages_source :: "qsort \<Rightarrow> nat \<Rightarrow> TypeObject list \<Rightarrow> MessagesObject \<Rightarrow> (TypePtr \<times> Layout) list
    \<Rightarrow> (string \<times> (TypePtr \<times> Layout) list) option" where
  "messages_source qs n objs msgs layouts = do {
     let name = chars (pascal_to_snake_case (mso_name msgs));
     let ms = mso_messages msgs;
     (tos, objs, layouts) \<leftarrow> message_tos qs n ms objs layouts;
     let mts = zip ms tos;
     ser \<leftarrow> write_serialize n objs layouts name (chars (mso_name msgs)) (mso_version msgs) mts;
     des \<leftarrow> write_deserialize n objs layouts name (chars (mso_name msgs)) (mso_version msgs) mts;
     fr \<leftarrow> write_free n objs layouts name (chars (mso_name msgs)) mts;
     Some (ser @ des @ fr, layouts)
   }"

fun groups_loop :: "qsort \<Rightarrow> nat \<Rightarrow> TypeObject list \<Rightarrow> MessagesObject list \<Rightarrow> (TypePtr \<times> Layout) list
    \<Rightarrow> (string \<times> string) option" where
  "groups_loop qs n objs [] layouts = Some ([], [])"
| "groups_loop qs n objs (msgs # ms) layouts = do {
     h \<leftarrow> messages_header n objs msgs;
     (s, layouts) \<leftarrow> messages_source qs n objs msgs layouts;
     (hs, ss) \<leftarrow> groups_loop qs n objs ms layouts;
     Some (h @ hs, s @ ss)
   }"

text \<open>The header and the source. The two arguments before the fuel are \<open>qsort\<close> on field accessors and on
  structs, \<open>it\<close> is the order in which the table of dependencies is visited.\<close>

definition codegen_c :: "qsort \<Rightarrow> struct_sort \<Rightarrow> (dependencies \<Rightarrow> dependencies) \<Rightarrow> nat \<Rightarrow> StringSlice \<Rightarrow> Program
    \<Rightarrow> (string \<times> string) option" where
  "codegen_c qs qp it n name p = do {
     let structs = (\<lambda>define objs. define_structs n it qp objs (pr_typedefs p) define objs);
     (types, objs) \<leftarrow> structs (write_struct n) (pr_type_objects p);
     (decls, objs) \<leftarrow> structs write_struct_func_decl objs;
     (funcs, objs) \<leftarrow> structs (write_struct_func n (pr_layouts p)) objs;
     (h, s) \<leftarrow> groups_loop qs n objs (pr_messages p) (pr_layouts p);
     Some (header_prologue (chars (snake_case_to_screaming_snake_case name)) @ types @ h @ ''#endif'' @ nl,
       source_prologue (chars name) @ decls @ nl @ funcs @ s)
   }"

end
