(* ===== verification/Codegen_C_Correct.thy ===== *)
theory Codegen_C_Correct
  imports Codegen_C
begin

text \<open>
  Declarators of the C generator, against the grammar of C; and where the offsets it prints go wrong.
\<close>

section \<open>The declarators of C\<close>

text \<open>A declarator is a pointer to what another one declares, or a direct declarator: a name, a declarator in
  parentheses, or an array.\<close>

datatype declarator = Pointer declarator | Direct direct_declarator
  and direct_declarator = Name | Paren declarator | Sized direct_declarator u64

primrec declarator_text :: "string \<Rightarrow> declarator \<Rightarrow> string"
  and direct_text :: "string \<Rightarrow> direct_declarator \<Rightarrow> string" where
  "declarator_text name (Pointer d) = ''*'' @ declarator_text name d"
| "declarator_text name (Direct t) = direct_text name t"
| "direct_text name Name = name"
| "direct_text name (Paren d) = ''('' @ declarator_text name d @ '')''"
| "direct_text name (Sized t n) = direct_text name t @ ''['' @ lu n @ '']''"

text \<open>What the name is declared to be, from the outside to the base type: a declarator reads inside out.\<close>

primrec declared :: "declarator \<Rightarrow> Modifier list"
  and direct_declared :: "direct_declarator \<Rightarrow> Modifier list" where
  "declared (Pointer d) = declared d @ [MOD_PTR]"
| "declared (Direct t) = direct_declared t"
| "direct_declared Name = []"
| "direct_declared (Paren d) = declared d"
| "direct_declared (Sized t n) = direct_declared t @ [MOD_ARRAY n]"

section \<open>One more modifier\<close>

definition ends_in_ptr :: "Modifier list \<Rightarrow> bool" where
  "ends_in_ptr mods \<longleftrightarrow> mods \<noteq> [] \<and> is_ptr (last mods)"

lemma nth_last: "mods \<noteq> [] \<Longrightarrow> (mods @ ms) ! (length mods - Suc 0) = last mods"
  by (simp add: nth_append last_conv_nth)

text \<open>The text of the pointer at the index \<open>i\<close>.\<close>

definition pointer_at :: "Modifier list \<Rightarrow> nat \<Rightarrow> string" where
  "pointer_at mods i = (if \<not> is_ptr (mods ! i) then []
     else if i = length mods - 1 \<or> is_ptr (mods ! (i + 1)) then ''*'' else ''(*'')"

lemma pointer_texts_at: "pointer_texts mods = concat (map (pointer_at mods) (rev [0..<length mods]))"
  by (simp add: pointer_texts_def pointer_at_def [abs_def])

lemma pointer_at_before:
  "Suc i < length mods \<Longrightarrow> pointer_at (mods @ [m]) i = pointer_at mods i"
  by (cases "length mods") (auto simp: pointer_at_def nth_append)

lemma pointers_before:
  assumes "mods \<noteq> []"
  shows "concat (map (pointer_at (mods @ [m])) (rev [0..<length mods - 1])) =
    concat (map (pointer_at mods) (rev [0..<length mods - 1]))"
  by (rule arg_cong [where f = concat], rule map_cong [OF refl]) (auto intro!: pointer_at_before)

lemma pointer_texts_split:
  assumes "mods \<noteq> []"
  shows "pointer_texts mods = pointer_at mods (length mods - 1) @ concat (map (pointer_at mods) (rev [0..<length mods - 1]))"
proof -
  obtain k where "length mods = Suc k" using assms by (cases "length mods") auto
  then show ?thesis by (simp add: pointer_texts_at)
qed

lemma pointer_texts_snoc:
  "pointer_texts (mods @ [m]) = (if is_ptr m then ''*'' else if ends_in_ptr mods then ''('' else []) @ pointer_texts mods"
proof -
  have last: "pointer_at (mods @ [m]) (length mods) = (if is_ptr m then ''*'' else [])"
    by (simp add: pointer_at_def)
  have "pointer_texts (mods @ [m]) = pointer_at (mods @ [m]) (length mods) @ concat (map (pointer_at (mods @ [m])) (rev [0..<length mods]))"
    by (simp add: pointer_texts_at)
  also have "concat (map (pointer_at (mods @ [m])) (rev [0..<length mods])) =
      (if \<not> is_ptr m \<and> ends_in_ptr mods then ''('' else []) @ pointer_texts mods"
  proof (cases "mods = []")
    case True
    then show ?thesis by (simp add: pointer_texts_def ends_in_ptr_def)
  next
    case False
    then obtain k where k: "length mods = Suc k" by (cases "length mods") auto
    then have "(mods @ [m]) ! Suc k = m" by (metis nth_append_length)
    then have "pointer_at (mods @ [m]) k = (if \<not> is_ptr m \<and> ends_in_ptr mods then ''('' else []) @ pointer_at mods k"
      using False k nth_last [OF False, of "[m]"] nth_last [OF False, of "[]"]
      by (simp add: pointer_at_def ends_in_ptr_def)
    then show ?thesis
      using pointers_before [OF False, of m] pointer_texts_split [OF False] k by simp
  qed
  finally show ?thesis using last by simp
qed

definition array_at :: "Modifier list \<Rightarrow> nat \<Rightarrow> string" where
  "array_at mods i = (case mods ! i of MOD_PTR \<Rightarrow> []
   | MOD_ARRAY sz \<Rightarrow> if i = 0 \<or> \<not> is_ptr (mods ! (i - 1)) then ''['' @ lu sz @ '']'' else '')['' @ lu sz @ '']'')"

lemma array_texts_at: "array_texts mods = concat (map (array_at mods) [0..<length mods])"
  by (simp add: array_texts_def array_at_def [abs_def])

lemma array_texts_snoc:
  "array_texts (mods @ [MOD_PTR]) = array_texts mods"
  "array_texts (mods @ [MOD_ARRAY n]) = array_texts mods @ (if ends_in_ptr mods then '')'' else []) @ ''['' @ lu n @ '']''"
proof -
  have "map (array_at (mods @ [m])) [0..<length mods] = map (array_at mods) [0..<length mods]" for m
    by (rule map_cong [OF refl]) (auto simp: array_at_def nth_append less_imp_diff_less split: Modifier.split)
  note before = this
  have a: "array_texts (mods @ [m]) = array_texts mods @ array_at (mods @ [m]) (length mods)" for m
    using before [of m] unfolding array_texts_at by (simp del: map_eq_conv)
  show "array_texts (mods @ [MOD_PTR]) = array_texts mods"
    by (simp add: a) (simp add: array_at_def)
  show "array_texts (mods @ [MOD_ARRAY n]) = array_texts mods @ (if ends_in_ptr mods then '')'' else []) @ ''['' @ lu n @ '']''"
  proof (cases "mods = []")
    case True
    then show ?thesis by (simp add: array_texts_at array_at_def ends_in_ptr_def)
  next
    case False
    then show ?thesis using nth_last [OF False, of "[MOD_ARRAY n]"] by (simp add: a array_at_def ends_in_ptr_def)
  qed
qed

section \<open>The declarator printed\<close>

lemma declarator_exists:
  "\<exists>d. declarator_text (chars name) d = write_declarator name mods \<and> declared d = mods \<and> (ends_in_ptr mods \<or> (\<exists>t. d = Direct t))"
proof (induction mods rule: rev_induct)
  case Nil
  then show ?case
    by (intro exI [of _ "Direct Name"]) (simp add: write_declarator_def pointer_texts_def array_texts_def)
next
  case (snoc m mods)
  then obtain d where d: "declarator_text (chars name) d = write_declarator name mods" "declared d = mods"
      "ends_in_ptr mods \<or> (\<exists>t. d = Direct t)" by blast
  show ?case
  proof (cases m)
    case MOD_PTR
    then show ?thesis
      using d by (intro exI [of _ "Pointer d"]) (simp add: write_declarator_def pointer_texts_snoc array_texts_snoc is_ptr_def ends_in_ptr_def)
  next
    case (MOD_ARRAY n)
    show ?thesis
    proof (cases "ends_in_ptr mods")
      case True
      then show ?thesis
        using d MOD_ARRAY
        by (intro exI [of _ "Direct (Sized (Paren d) n)"]) (simp add: write_declarator_def pointer_texts_snoc array_texts_snoc is_ptr_def)
    next
      case False
      then obtain t where "d = Direct t" using d(3) by blast
      then show ?thesis
        using d False MOD_ARRAY
        by (intro exI [of _ "Direct (Sized t n)"]) (simp add: write_declarator_def pointer_texts_snoc array_texts_snoc is_ptr_def)
    qed
  qed
qed


text \<open>A pointer to an array of three: the array type is the element of a fixed array on the heap.\<close>

definition pointer_to_array :: "TypeObject list" where
  "pointer_to_array =
    [\<lparr>to_align = ALIGN_1, to_type = TypeArray \<lparr>ar_sizing = SizingFixed, ar_size = 2, ar_heap = True, ar_type = Some (Obj 1)\<rparr>\<rparr>,
     \<lparr>to_align = ALIGN_1, to_type = TypeArray \<lparr>ar_sizing = SizingFixed, ar_size = 3, ar_heap = False, ar_type = Some (PRIMITIF Primitif_u8)\<rparr>\<rparr>]"

definition pointer_field :: Field where
  "pointer_field = \<lparr>f_name = bytes ''x'', f_name_span = \<lparr>loc = location 0 0 0, s_len = 1\<rparr>, f_type = Some (Obj 0)\<rparr>"


end
