(* ===== verification/Codegen_Net.thy ===== *)
theory Codegen_Net
  imports Codegen_C Eval_Layout_Correct
begin

text \<open>
  The schema of this repository and the code the C generator prints for it. The program the
  evaluator makes of \<^verbatim>\<open>net.ser\<close> is given as it is, the positions of the names left open, and the text printed
  for it is computed function by function: it is \<^verbatim>\<open>net.h\<close> and \<^verbatim>\<open>net.c\<close>.
\<close>

section \<open>Names and lines\<close>

definition unlines :: "string list \<Rightarrow> string" where "unlines ls = concat (map (\<lambda>l. l @ nl) ls)"

section \<open>The generated files of the repository\<close>

text \<open>\<^verbatim>\<open>net.h\<close> and \<^verbatim>\<open>net.c\<close>, line by line.\<close>

definition header_lines :: "string list" where
  "header_lines =
    [''// Generated file, do not edit (its not like it'' @ [CHR 0x27] @ ''ll explode if you do, but its better not to)'',
     ''#ifndef NET_H'',
     ''#define NET_H'',
     ''#include <stdint.h>'',
     ''#include <stdlib.h>'',
     ''#include <stdbool.h>'',
     '''',
     ''typedef unsigned char byte;'',
     ''typedef uint64_t MsgMagic;'',
     '''',
     ''#define MSG_MAGIC_SIZE sizeof(MsgMagic)'',
     ''static const MsgMagic MSG_MAGIC_START = 0xCAFEF00DBEEFDEAD;'',
     ''static const MsgMagic MSG_MAGIC_END = 0xF00DBEEFCAFEDEAD;'',
     '''']"

definition struct_lines :: "string list" where
  "struct_lines =
    [''typedef struct Abs {'',
     ''    uint16_t id;'',
     ''    uint32_t min;'',
     ''    uint32_t max;'',
     ''    uint32_t fuzz;'',
     ''    uint32_t flat;'',
     ''    uint32_t res;'',
     ''} Abs;'',
     '''',
     ''typedef struct Key {'',
     ''    uint16_t id;'',
     ''} Key;'',
     '''',
     ''typedef struct Rel {'',
     ''    uint16_t id;'',
     ''} Rel;'',
     '''',
     ''typedef struct TagList {'',
     ''    struct {'',
     ''        uint16_t len;'',
     ''        struct Tag *data;'',
     ''    } tags;'',
     ''} TagList;'',
     '''',
     ''typedef struct Tag {'',
     ''    struct {'',
     ''        uint16_t len;'',
     ''        char *data;'',
     ''    } name;'',
     ''} Tag;'',
     '''']"

definition message_lines :: "string list" where
  "message_lines =
    [''// Device'',
     '''',
     ''typedef enum DeviceTag {'',
     ''    DeviceTagNone = 0,'',
     ''    DeviceTagInfo = 1,'',
     ''    DeviceTagReport = 2,'',
     ''    DeviceTagControllerState = 3,'',
     ''    DeviceTagRequest = 4,'',
     ''    DeviceTagDestroy = 5,'',
     ''} DeviceTag;'',
     '''',
     ''typedef struct DeviceInfo {'',
     ''    DeviceTag tag;'',
     ''    uint8_t slot;'',
     ''    uint8_t index;'',
     ''    struct {'',
     ''        uint8_t len;'',
     ''        struct Abs data[64];'',
     ''    } abs;'',
     ''    struct {'',
     ''        uint8_t len;'',
     ''        struct Rel data[16];'',
     ''    } rel;'',
     ''    struct {'',
     ''        uint16_t len;'',
     ''        struct Key data[768];'',
     ''    } key;'',
     ''} DeviceInfo;'',
     '''',
     ''typedef struct DeviceReport {'',
     ''    DeviceTag tag;'',
     ''    uint8_t slot;'',
     ''    uint8_t index;'',
     ''    struct {'',
     ''        uint8_t len;'',
     ''        uint32_t data[64];'',
     ''    } abs;'',
     ''    struct {'',
     ''        uint8_t len;'',
     ''        uint32_t data[16];'',
     ''    } rel;'',
     ''    struct {'',
     ''        uint16_t len;'',
     ''        uint8_t data[768];'',
     ''    } key;'',
     ''} DeviceReport;'',
     '''',
     ''typedef struct DeviceControllerState {'',
     ''    DeviceTag tag;'',
     ''    uint16_t index;'',
     ''    uint8_t led[3];'',
     ''    uint8_t small_rumble;'',
     ''    uint8_t big_rumble;'',
     ''    uint8_t flash_on;'',
     ''    uint8_t flash_off;'',
     ''} DeviceControllerState;'',
     '''',
     ''typedef struct DeviceRequest {'',
     ''    DeviceTag tag;'',
     ''    struct {'',
     ''        uint16_t len;'',
     ''        struct TagList *data;'',
     ''    } requests;'',
     ''    uint64_t _version;'',
     ''} DeviceRequest;'',
     '''',
     ''typedef struct DeviceDestroy {'',
     ''    DeviceTag tag;'',
     ''    uint16_t index;'',
     ''} DeviceDestroy;'',
     '''',
     ''typedef union DeviceMessage {'',
     ''    DeviceTag tag;'',
     ''    DeviceInfo info;'',
     ''    DeviceReport report;'',
     ''    DeviceControllerState controller_state;'',
     ''    DeviceRequest request;'',
     ''    DeviceDestroy destroy;'',
     ''} DeviceMessage;'',
     '''',
     ''// Serialize the message msg to buffer dst of size len, returns the length of the serialized message, or -1 on error (buffer overflow)'',
     ''int msg_device_serialize(byte *dst, size_t len, DeviceMessage *msg);'',
     ''// Deserialize the message in the buffer src of size len into dst, return the length of the serialized message or -1 on error.'',
     ''int msg_device_deserialize(const byte *src, size_t len, DeviceMessage *dst);'',
     '''',
     ''// Free the message (created by msg_device_deserialize)'',
     ''void msg_device_free(DeviceMessage *msg);'']"

definition source_lines :: "string list" where
  "source_lines =
    [''// Generated file, do not edit (its not like it'' @ [CHR 0x27] @ ''ll explode if you do, but its better not to)'',
     ''#include '' @ [CHR 0x22] @ ''net.h'' @ [CHR 0x22],
     ''#include <stdio.h>'',
     '''']"

definition declaration_lines :: "string list" where
  "declaration_lines =
    [''__attribute__((unused)) static int abs_serialize(struct Abs val, byte *buf);'',
     ''__attribute__((unused)) static int abs_deserialize(struct Abs *val, const byte *buf);'',
     ''__attribute__((unused)) static void abs_free(struct Abs val);'',
     ''__attribute__((unused)) static int key_serialize(struct Key val, byte *buf);'',
     ''__attribute__((unused)) static int key_deserialize(struct Key *val, const byte *buf);'',
     ''__attribute__((unused)) static void key_free(struct Key val);'',
     ''__attribute__((unused)) static int rel_serialize(struct Rel val, byte *buf);'',
     ''__attribute__((unused)) static int rel_deserialize(struct Rel *val, const byte *buf);'',
     ''__attribute__((unused)) static void rel_free(struct Rel val);'',
     ''__attribute__((unused)) static int tag_list_serialize(struct TagList val, byte *buf);'',
     ''__attribute__((unused)) static int tag_list_deserialize(struct TagList *val, const byte *buf);'',
     ''__attribute__((unused)) static void tag_list_free(struct TagList val);'',
     ''__attribute__((unused)) static int tag_serialize(struct Tag val, byte *buf);'',
     ''__attribute__((unused)) static int tag_deserialize(struct Tag *val, const byte *buf);'',
     ''__attribute__((unused)) static void tag_free(struct Tag val);'']"

definition abs_lines :: "string list" where
  "abs_lines =
    [''static int abs_serialize(struct Abs val, byte *buf) {'',
     ''    byte * base_buf = buf;'',
     ''    *(uint32_t *)&buf[0] = val.min;'',
     ''    *(uint32_t *)&buf[4] = val.max;'',
     ''    *(uint32_t *)&buf[8] = val.fuzz;'',
     ''    *(uint32_t *)&buf[12] = val.flat;'',
     ''    *(uint32_t *)&buf[16] = val.res;'',
     ''    *(uint16_t *)&buf[20] = val.id;'',
     ''    buf += 24;'',
     ''    return (int)(buf - base_buf);'',
     ''}'',
     ''static int abs_deserialize(struct Abs *val, const byte *buf) {'',
     ''    const byte * base_buf = buf;'',
     ''    val->min = *(uint32_t *)&buf[0];'',
     ''    val->max = *(uint32_t *)&buf[4];'',
     ''    val->fuzz = *(uint32_t *)&buf[8];'',
     ''    val->flat = *(uint32_t *)&buf[12];'',
     ''    val->res = *(uint32_t *)&buf[16];'',
     ''    val->id = *(uint16_t *)&buf[20];'',
     ''    buf += 24;'',
     ''    return (int)(buf - base_buf);'',
     ''}'',
     ''static void abs_free(struct Abs val) { }'',
     '''']"

definition key_lines :: "string list" where
  "key_lines =
    [''static int key_serialize(struct Key val, byte *buf) {'',
     ''    byte * base_buf = buf;'',
     ''    *(uint16_t *)&buf[0] = val.id;'',
     ''    buf += 2;'',
     ''    return (int)(buf - base_buf);'',
     ''}'',
     ''static int key_deserialize(struct Key *val, const byte *buf) {'',
     ''    const byte * base_buf = buf;'',
     ''    val->id = *(uint16_t *)&buf[0];'',
     ''    buf += 2;'',
     ''    return (int)(buf - base_buf);'',
     ''}'',
     ''static void key_free(struct Key val) { }'',
     '''']"

definition rel_lines :: "string list" where
  "rel_lines =
    [''static int rel_serialize(struct Rel val, byte *buf) {'',
     ''    byte * base_buf = buf;'',
     ''    *(uint16_t *)&buf[0] = val.id;'',
     ''    buf += 2;'',
     ''    return (int)(buf - base_buf);'',
     ''}'',
     ''static int rel_deserialize(struct Rel *val, const byte *buf) {'',
     ''    const byte * base_buf = buf;'',
     ''    val->id = *(uint16_t *)&buf[0];'',
     ''    buf += 2;'',
     ''    return (int)(buf - base_buf);'',
     ''}'',
     ''static void rel_free(struct Rel val) { }'',
     '''']"

definition tag_list_lines :: "string list" where
  "tag_list_lines =
    [''static int tag_list_serialize(struct TagList val, byte *buf) {'',
     ''    byte * base_buf = buf;'',
     ''    *(uint16_t *)&buf[0] = val.tags.len;'',
     ''    buf += 2;'',
     ''    for(size_t i = 0; i < val.tags.len; i++) {'',
     ''        typeof(val.tags.data[i]) e0 = val.tags.data[i];'',
     ''        buf += tag_serialize(e0, &buf[0]);'',
     ''    }'',
     ''    buf = (byte*)(((((uintptr_t)buf - 1) >> 1) + 1) << 1);'',
     ''    return (int)(buf - base_buf);'',
     ''}'',
     ''static int tag_list_deserialize(struct TagList *val, const byte *buf) {'',
     ''    const byte * base_buf = buf;'',
     ''    val->tags.len = *(uint16_t *)&buf[0];'',
     ''    buf += 2;'',
     ''    val->tags.data = malloc(val->tags.len * sizeof(typeof(*val->tags.data)));'',
     ''    for(size_t i = 0; i < val->tags.len; i++) {'',
     ''        typeof(&val->tags.data[i]) e0 = &val->tags.data[i];'',
     ''        buf += tag_deserialize(e0, &buf[0]);'',
     ''    }'',
     ''    buf = (byte*)(((((uintptr_t)buf - 1) >> 1) + 1) << 1);'',
     ''    return (int)(buf - base_buf);'',
     ''}'',
     ''static void tag_list_free(struct TagList val) {'',
     ''    for(size_t i = 0; i < val.tags.len; i++) {'',
     ''        typeof(val.tags.data[i]) e0 = val.tags.data[i];'',
     ''        tag_free(e0);'',
     ''    }'',
     ''    free(val.tags.data);'',
     ''}'',
     '''']"

definition tag_lines :: "string list" where
  "tag_lines =
    [''static int tag_serialize(struct Tag val, byte *buf) {'',
     ''    byte * base_buf = buf;'',
     ''    *(uint16_t *)&buf[0] = val.name.len;'',
     ''    buf += 2;'',
     ''    for(size_t i = 0; i < val.name.len; i++) {'',
     ''        typeof(val.name.data[i]) e0 = val.name.data[i];'',
     ''        *(char *)&buf[0] = e0;'',
     ''        buf += 1;'',
     ''    }'',
     ''    buf = (byte*)(((((uintptr_t)buf - 1) >> 1) + 1) << 1);'',
     ''    return (int)(buf - base_buf);'',
     ''}'',
     ''static int tag_deserialize(struct Tag *val, const byte *buf) {'',
     ''    const byte * base_buf = buf;'',
     ''    val->name.len = *(uint16_t *)&buf[0];'',
     ''    buf += 2;'',
     ''    val->name.data = malloc(val->name.len * sizeof(typeof(*val->name.data)));'',
     ''    for(size_t i = 0; i < val->name.len; i++) {'',
     ''        typeof(&val->name.data[i]) e0 = &val->name.data[i];'',
     ''        *e0 = *(char *)&buf[0];'',
     ''        buf += 1;'',
     ''    }'',
     ''    buf = (byte*)(((((uintptr_t)buf - 1) >> 1) + 1) << 1);'',
     ''    return (int)(buf - base_buf);'',
     ''}'',
     ''static void tag_free(struct Tag val) {'',
     ''    free(val.name.data);'',
     ''}'',
     '''']"

definition serialize_lines :: "string list" where
  "serialize_lines =
    [''int msg_device_serialize(byte *buf, size_t len, DeviceMessage *msg) {'',
     ''    const byte *base_buf = buf;'',
     ''    if(len < 2 * MSG_MAGIC_SIZE)'',
     ''        return -1;'',
     ''    *(MsgMagic*)buf = MSG_MAGIC_START;'',
     ''    buf += MSG_MAGIC_SIZE;'',
     ''    switch(msg->tag) {'',
     ''    case DeviceTagNone:'',
     ''        break;'',
     ''    case DeviceTagInfo: {'',
     ''        *(uint16_t *)buf = DeviceTagInfo;'',
     ''        *(uint16_t *)&buf[2] = msg->info.key.len;'',
     ''        *(uint8_t *)&buf[4] = msg->info.slot;'',
     ''        *(uint8_t *)&buf[5] = msg->info.index;'',
     ''        *(uint8_t *)&buf[6] = msg->info.abs.len;'',
     ''        *(uint8_t *)&buf[7] = msg->info.rel.len;'',
     ''        buf += 8;'',
     ''        for(size_t i = 0; i < msg->info.abs.len; i++) {'',
     ''            typeof(msg->info.abs.data[i]) e0 = msg->info.abs.data[i];'',
     ''            buf += abs_serialize(e0, &buf[0]);'',
     ''        }'',
     ''        for(size_t i = 0; i < msg->info.rel.len; i++) {'',
     ''            typeof(msg->info.rel.data[i]) e0 = msg->info.rel.data[i];'',
     ''            buf += rel_serialize(e0, &buf[0]);'',
     ''        }'',
     ''        for(size_t i = 0; i < msg->info.key.len; i++) {'',
     ''            typeof(msg->info.key.data[i]) e0 = msg->info.key.data[i];'',
     ''            buf += key_serialize(e0, &buf[0]);'',
     ''        }'',
     ''        buf = (byte*)(((((uintptr_t)buf - 1) >> 3) + 1) << 3);'',
     ''        break;'',
     ''    }'',
     ''    case DeviceTagReport: {'',
     ''        *(uint16_t *)buf = DeviceTagReport;'',
     ''        *(uint16_t *)&buf[2] = msg->report.key.len;'',
     ''        *(uint8_t *)&buf[4] = msg->report.slot;'',
     ''        *(uint8_t *)&buf[5] = msg->report.index;'',
     ''        *(uint8_t *)&buf[6] = msg->report.abs.len;'',
     ''        *(uint8_t *)&buf[7] = msg->report.rel.len;'',
     ''        buf += 8;'',
     ''        for(size_t i = 0; i < msg->report.abs.len; i++) {'',
     ''            typeof(msg->report.abs.data[i]) e0 = msg->report.abs.data[i];'',
     ''            *(uint32_t *)&buf[0] = e0;'',
     ''            buf += 4;'',
     ''        }'',
     ''        for(size_t i = 0; i < msg->report.rel.len; i++) {'',
     ''            typeof(msg->report.rel.data[i]) e0 = msg->report.rel.data[i];'',
     ''            *(uint32_t *)&buf[0] = e0;'',
     ''            buf += 4;'',
     ''        }'',
     ''        for(size_t i = 0; i < msg->report.key.len; i++) {'',
     ''            typeof(msg->report.key.data[i]) e0 = msg->report.key.data[i];'',
     ''            *(uint8_t *)&buf[0] = e0;'',
     ''            buf += 1;'',
     ''        }'',
     ''        buf = (byte*)(((((uintptr_t)buf - 1) >> 3) + 1) << 3);'',
     ''        break;'',
     ''    }'',
     ''    case DeviceTagControllerState: {'',
     ''        *(uint16_t *)buf = DeviceTagControllerState;'',
     ''        *(uint16_t *)&buf[2] = msg->controller_state.index;'',
     ''        *(uint8_t *)&buf[4] = msg->controller_state.led[0];'',
     ''        *(uint8_t *)&buf[5] = msg->controller_state.led[1];'',
     ''        *(uint8_t *)&buf[6] = msg->controller_state.led[2];'',
     ''        *(uint8_t *)&buf[7] = msg->controller_state.small_rumble;'',
     ''        *(uint8_t *)&buf[8] = msg->controller_state.big_rumble;'',
     ''        *(uint8_t *)&buf[9] = msg->controller_state.flash_on;'',
     ''        *(uint8_t *)&buf[10] = msg->controller_state.flash_off;'',
     ''        buf += 16;'',
     ''        break;'',
     ''    }'',
     ''    case DeviceTagRequest: {'',
     ''        *(uint16_t *)buf = DeviceTagRequest;'',
     ''        msg->request._version = 1UL;'',
     ''        *(uint64_t *)&buf[8] = msg->request._version;'',
     ''        *(uint16_t *)&buf[16] = msg->request.requests.len;'',
     ''        buf += 18;'',
     ''        for(size_t i = 0; i < msg->request.requests.len; i++) {'',
     ''            typeof(msg->request.requests.data[i]) e0 = msg->request.requests.data[i];'',
     ''            buf += tag_list_serialize(e0, &buf[0]);'',
     ''        }'',
     ''        buf = (byte*)(((((uintptr_t)buf - 1) >> 3) + 1) << 3);'',
     ''        break;'',
     ''    }'',
     ''    case DeviceTagDestroy: {'',
     ''        *(uint16_t *)buf = DeviceTagDestroy;'',
     ''        *(uint16_t *)&buf[2] = msg->destroy.index;'',
     ''        buf += 8;'',
     ''        break;'',
     ''    }'',
     ''    }'',
     ''    *(MsgMagic*)buf = MSG_MAGIC_END;'',
     ''    buf += MSG_MAGIC_SIZE;'',
     ''    if(buf > base_buf + len)'',
     ''        return -1;'',
     ''    return (int)(buf - base_buf);'',
     ''}'']"

definition deserialize_lines :: "string list" where
  "deserialize_lines =
    ['''',
     ''int msg_device_deserialize(const byte *buf, size_t len, DeviceMessage *msg) {'',
     ''    const byte *base_buf = buf;'',
     ''    if(len < 2 * MSG_MAGIC_SIZE)'',
     ''        return -1;'',
     ''    if(*(MsgMagic*)buf != MSG_MAGIC_START)'',
     ''        return -1;'',
     ''    buf += MSG_MAGIC_SIZE;'',
     ''    DeviceTag tag = *(uint16_t*)buf;'',
     ''    switch(tag) {'',
     ''    case DeviceTagNone:'',
     ''        break;'',
     ''    case DeviceTagInfo: {'',
     ''        msg->tag = DeviceTagInfo;'',
     ''        msg->info.key.len = *(uint16_t *)&buf[2];'',
     ''        msg->info.slot = *(uint8_t *)&buf[4];'',
     ''        msg->info.index = *(uint8_t *)&buf[5];'',
     ''        msg->info.abs.len = *(uint8_t *)&buf[6];'',
     ''        msg->info.rel.len = *(uint8_t *)&buf[7];'',
     ''        buf += 8;'',
     ''        for(size_t i = 0; i < msg->info.abs.len; i++) {'',
     ''            typeof(&msg->info.abs.data[i]) e0 = &msg->info.abs.data[i];'',
     ''            buf += abs_deserialize(e0, &buf[0]);'',
     ''        }'',
     ''        for(size_t i = 0; i < msg->info.rel.len; i++) {'',
     ''            typeof(&msg->info.rel.data[i]) e0 = &msg->info.rel.data[i];'',
     ''            buf += rel_deserialize(e0, &buf[0]);'',
     ''        }'',
     ''        for(size_t i = 0; i < msg->info.key.len; i++) {'',
     ''            typeof(&msg->info.key.data[i]) e0 = &msg->info.key.data[i];'',
     ''            buf += key_deserialize(e0, &buf[0]);'',
     ''        }'',
     ''        buf = (byte*)(((((uintptr_t)buf - 1) >> 3) + 1) << 3);'',
     ''        break;'',
     ''    }'',
     ''    case DeviceTagReport: {'',
     ''        msg->tag = DeviceTagReport;'',
     ''        msg->report.key.len = *(uint16_t *)&buf[2];'',
     ''        msg->report.slot = *(uint8_t *)&buf[4];'',
     ''        msg->report.index = *(uint8_t *)&buf[5];'',
     ''        msg->report.abs.len = *(uint8_t *)&buf[6];'',
     ''        msg->report.rel.len = *(uint8_t *)&buf[7];'',
     ''        buf += 8;'',
     ''        for(size_t i = 0; i < msg->report.abs.len; i++) {'',
     ''            typeof(&msg->report.abs.data[i]) e0 = &msg->report.abs.data[i];'',
     ''            *e0 = *(uint32_t *)&buf[0];'',
     ''            buf += 4;'',
     ''        }'',
     ''        for(size_t i = 0; i < msg->report.rel.len; i++) {'',
     ''            typeof(&msg->report.rel.data[i]) e0 = &msg->report.rel.data[i];'',
     ''            *e0 = *(uint32_t *)&buf[0];'',
     ''            buf += 4;'',
     ''        }'',
     ''        for(size_t i = 0; i < msg->report.key.len; i++) {'',
     ''            typeof(&msg->report.key.data[i]) e0 = &msg->report.key.data[i];'',
     ''            *e0 = *(uint8_t *)&buf[0];'',
     ''            buf += 1;'',
     ''        }'',
     ''        buf = (byte*)(((((uintptr_t)buf - 1) >> 3) + 1) << 3);'',
     ''        break;'',
     ''    }'',
     ''    case DeviceTagControllerState: {'',
     ''        msg->tag = DeviceTagControllerState;'',
     ''        msg->controller_state.index = *(uint16_t *)&buf[2];'',
     ''        msg->controller_state.led[0] = *(uint8_t *)&buf[4];'',
     ''        msg->controller_state.led[1] = *(uint8_t *)&buf[5];'',
     ''        msg->controller_state.led[2] = *(uint8_t *)&buf[6];'',
     ''        msg->controller_state.small_rumble = *(uint8_t *)&buf[7];'',
     ''        msg->controller_state.big_rumble = *(uint8_t *)&buf[8];'',
     ''        msg->controller_state.flash_on = *(uint8_t *)&buf[9];'',
     ''        msg->controller_state.flash_off = *(uint8_t *)&buf[10];'',
     ''        buf += 16;'',
     ''        break;'',
     ''    }'',
     ''    case DeviceTagRequest: {'',
     ''        msg->tag = DeviceTagRequest;'',
     ''        msg->request._version = *(uint64_t *)&buf[8];'',
     ''        msg->request.requests.len = *(uint16_t *)&buf[16];'',
     ''        buf += 18;'',
     ''        msg->request.requests.data = malloc(msg->request.requests.len * sizeof(typeof(*msg->request.requests.data)));'',
     ''        for(size_t i = 0; i < msg->request.requests.len; i++) {'',
     ''            typeof(&msg->request.requests.data[i]) e0 = &msg->request.requests.data[i];'',
     ''            buf += tag_list_deserialize(e0, &buf[0]);'',
     ''        }'',
     ''        buf = (byte*)(((((uintptr_t)buf - 1) >> 3) + 1) << 3);'',
     ''        if(msg->request._version != 1UL) {'',
     ''            printf('' @ [CHR 0x22] @ ''Mismatched version: peers aren'' @ [CHR 0x27] @ ''t the same version, expected 1 got %lu.'' @ [CHR 0x5C] @ ''n'' @ [CHR 0x22] @ '', msg->request._version);'',
     ''            msg_device_free(msg);'',
     ''            return -1;'',
     ''        }'',
     ''        break;'',
     ''    }'',
     ''    case DeviceTagDestroy: {'',
     ''        msg->tag = DeviceTagDestroy;'',
     ''        msg->destroy.index = *(uint16_t *)&buf[2];'',
     ''        buf += 8;'',
     ''        break;'',
     ''    }'',
     ''    }'',
     ''    if(*(MsgMagic*)buf != MSG_MAGIC_END) {'',
     ''        msg_device_free(msg);'',
     ''        return -1;'',
     ''    }'',
     ''    buf += MSG_MAGIC_SIZE;'',
     ''    if(buf > base_buf + len) {'',
     ''        msg_device_free(msg);'',
     ''        return -1;'',
     ''    }'',
     ''    return (int)(buf - base_buf);'',
     ''}'']"

definition free_lines :: "string list" where
  "free_lines =
    ['''',
     ''void msg_device_free(DeviceMessage *msg) {'',
     ''    switch(msg->tag) {'',
     ''    case DeviceTagNone:'',
     ''        break;'',
     ''    case DeviceTagInfo: {'',
     ''        break;'',
     ''    }'',
     ''    case DeviceTagReport: {'',
     ''        break;'',
     ''    }'',
     ''    case DeviceTagControllerState: {'',
     ''        break;'',
     ''    }'',
     ''    case DeviceTagRequest: {'',
     ''        for(size_t i = 0; i < msg->request.requests.len; i++) {'',
     ''            typeof(msg->request.requests.data[i]) e0 = msg->request.requests.data[i];'',
     ''            tag_list_free(e0);'',
     ''        }'',
     ''        free(msg->request.requests.data);'',
     ''        break;'',
     ''    }'',
     ''    case DeviceTagDestroy: {'',
     ''        break;'',
     ''    }'',
     ''    }'',
     ''}'']"

definition net_h :: "string list" where
  "net_h = header_lines @ struct_lines @ message_lines @ [''#endif'']"

definition net_c :: "string list" where
  "net_c = source_lines @ declaration_lines @ [''''] @ abs_lines @ key_lines @ rel_lines @ tag_list_lines @ tag_lines @
     serialize_lines @ deserialize_lines @ free_lines"

lemmas line_defs = header_lines_def struct_lines_def message_lines_def source_lines_def declaration_lines_def abs_lines_def key_lines_def rel_lines_def tag_list_lines_def tag_lines_def serialize_lines_def deserialize_lines_def free_lines_def

lemmas snake_defs = bytes_def pascal_to_snake_case_def isupper_def tolower_def

lemma snake_names [simp]:
  "pascal_to_snake_case (bytes ''Abs'') = bytes ''abs''"
  "pascal_to_snake_case (bytes ''Rel'') = bytes ''rel''"
  "pascal_to_snake_case (bytes ''Key'') = bytes ''key''"
  "pascal_to_snake_case (bytes ''Tag'') = bytes ''tag''"
  "pascal_to_snake_case (bytes ''TagList'') = bytes ''tag_list''"
  "pascal_to_snake_case (bytes ''Device'') = bytes ''device''"
  "pascal_to_snake_case (bytes ''Info'') = bytes ''info''"
  "pascal_to_snake_case (bytes ''Report'') = bytes ''report''"
  "pascal_to_snake_case (bytes ''ControllerState'') = bytes ''controller_state''"
  "pascal_to_snake_case (bytes ''Request'') = bytes ''request''"
  "pascal_to_snake_case (bytes ''Destroy'') = bytes ''destroy''"
  by (simp_all add: snake_defs)

section \<open>The program of the schema\<close>

text \<open>The positions \<open>sp\<close> of the names, which the generator does not look at, are left open; \<open>b\<close> says
  whether the functions of the structs have been declared.\<close>

definition field :: "Span \<Rightarrow> string \<Rightarrow> TypePtr \<Rightarrow> Field" where
  "field sp name ty = \<lparr>f_name = bytes name, f_name_span = sp, f_type = Some ty\<rparr>"

definition struct :: "bool \<Rightarrow> Alignment \<Rightarrow> string \<Rightarrow> Field list \<Rightarrow> TypeObject" where
  "struct b al name fs = \<lparr>to_align = al, to_type = TypeStruct \<lparr>so_name = bytes name, so_fields = fs, so_has_funcs = b\<rparr>\<rparr>"

definition max_array :: "Alignment \<Rightarrow> u64 \<Rightarrow> bool \<Rightarrow> TypePtr \<Rightarrow> TypeObject" where
  "max_array al sz heap ty = \<lparr>to_align = al,
     to_type = TypeArray \<lparr>ar_sizing = SizingMax, ar_size = sz, ar_heap = heap, ar_type = Some ty\<rparr>\<rparr>"

definition fixed_array :: "Alignment \<Rightarrow> u64 \<Rightarrow> TypePtr \<Rightarrow> TypeObject" where
  "fixed_array al sz ty = \<lparr>to_align = al,
     to_type = TypeArray \<lparr>ar_sizing = SizingFixed, ar_size = sz, ar_heap = False, ar_type = Some ty\<rparr>\<rparr>"

abbreviation "U8 \<equiv> PRIMITIF Primitif_u8"
abbreviation "U16 \<equiv> PRIMITIF Primitif_u16"
abbreviation "U32 \<equiv> PRIMITIF Primitif_u32"
abbreviation "TCHAR \<equiv> PRIMITIF Primitif_char"

definition net_objs :: "(nat \<Rightarrow> Span) \<Rightarrow> bool \<Rightarrow> TypeObject list" where
  "net_objs sp b =
    [struct b ALIGN_4 ''Abs'' [field (sp 0) ''id'' U16, field (sp 1) ''min'' U32, field (sp 2) ''max'' U32,
       field (sp 3) ''fuzz'' U32, field (sp 4) ''flat'' U32, field (sp 5) ''res'' U32],
     struct b ALIGN_2 ''Rel'' [field (sp 6) ''id'' U16],
     struct b ALIGN_2 ''Key'' [field (sp 7) ''id'' U16],
     struct b ALIGN_2 ''Tag'' [field (sp 8) ''name'' (Obj 4)],
     max_array ALIGN_2 65535 True TCHAR,
     struct b ALIGN_2 ''TagList'' [field (sp 9) ''tags'' (Obj 6)],
     max_array ALIGN_2 65535 True (Obj 3),
     max_array ALIGN_4 64 False (Obj 0),
     max_array ALIGN_2 16 False (Obj 1),
     max_array ALIGN_2 768 False (Obj 2),
     max_array ALIGN_4 64 False U32,
     max_array ALIGN_4 16 False U32,
     max_array ALIGN_2 768 False U8,
     fixed_array ALIGN_1 3 U8,
     max_array ALIGN_2 65535 True (Obj 5)]"

definition acc :: "u64 list \<Rightarrow> u64 \<Rightarrow> TypePtr \<Rightarrow> FieldAccessor" where
  "acc is sz ty = \<lparr>fa_indices = is, fa_size = sz, fa_type = Some ty\<rparr>"

definition lay :: "TypePtr \<Rightarrow> FieldAccessor list \<Rightarrow> TypePtr \<times> Layout" where
  "lay ty fs = (ty, \<lparr>ly_fields = fs, ly_type = ty\<rparr>)"

definition net_layouts :: "(TypePtr \<times> Layout) list" where
  "net_layouts =
    [lay (Obj 0) [acc [1] 4 U32, acc [2] 4 U32, acc [3] 4 U32, acc [4] 4 U32, acc [5] 4 U32, acc [0] 2 U16],
     lay (Obj 1) [acc [0] 2 U16], lay (Obj 2) [acc [0] 2 U16],
     lay (Obj 3) [acc [0, 0] 2 U16, acc [0, 1] 0 TCHAR], lay (Obj 4) [acc [0] 2 U16, acc [1] 0 TCHAR],
     lay (Obj 5) [acc [0, 0] 2 U16, acc [0, 1] 0 (Obj 3)], lay (Obj 6) [acc [0] 2 U16, acc [1] 0 (Obj 3)],
     lay (Obj 7) [acc [0] 1 U8, acc [1] 0 (Obj 0)], lay (Obj 8) [acc [0] 1 U8, acc [1] 0 (Obj 1)],
     lay (Obj 9) [acc [0] 2 U16, acc [1] 0 (Obj 2)], lay (Obj 10) [acc [0] 1 U8, acc [1] 0 U32],
     lay (Obj 11) [acc [0] 1 U8, acc [1] 0 U32], lay (Obj 12) [acc [0] 2 U16, acc [1] 0 U8],
     lay (Obj 13) [acc [0] 1 U8, acc [1] 1 U8, acc [2] 1 U8], lay (Obj 14) [acc [0] 2 U16, acc [1] 0 (Obj 5)]] @
    map (\<lambda>p. lay (PRIMITIF p) [acc [] (primitif_size p) (PRIMITIF p)]) layout_primitifs"

lemma length_net_objs [simp]: "length (net_objs sp b) = 15" by (simp add: net_objs_def)

lemmas net_nth = net_objs_def struct_def max_array_def fixed_array_def

lemma nth_net_objs:
  "net_objs sp b ! 0 = struct b ALIGN_4 ''Abs'' [field (sp 0) ''id'' U16, field (sp 1) ''min'' U32, field (sp 2) ''max'' U32,
       field (sp 3) ''fuzz'' U32, field (sp 4) ''flat'' U32, field (sp 5) ''res'' U32]"
  "net_objs sp b ! Suc 0 = struct b ALIGN_2 ''Rel'' [field (sp 6) ''id'' U16]"
  "net_objs sp b ! 2 = struct b ALIGN_2 ''Key'' [field (sp 7) ''id'' U16]"
  "net_objs sp b ! 3 = struct b ALIGN_2 ''Tag'' [field (sp 8) ''name'' (Obj 4)]"
  "net_objs sp b ! 4 = max_array ALIGN_2 65535 True TCHAR"
  "net_objs sp b ! 5 = struct b ALIGN_2 ''TagList'' [field (sp 9) ''tags'' (Obj 6)]"
  "net_objs sp b ! 6 = max_array ALIGN_2 65535 True (Obj 3)"
  "net_objs sp b ! 7 = max_array ALIGN_4 64 False (Obj 0)"
  "net_objs sp b ! 8 = max_array ALIGN_2 16 False (Obj 1)"
  "net_objs sp b ! 9 = max_array ALIGN_2 768 False (Obj 2)"
  "net_objs sp b ! 10 = max_array ALIGN_4 64 False U32"
  "net_objs sp b ! 11 = max_array ALIGN_4 16 False U32"
  "net_objs sp b ! 12 = max_array ALIGN_2 768 False U8"
  "net_objs sp b ! 13 = fixed_array ALIGN_1 3 U8"
  "net_objs sp b ! 14 = max_array ALIGN_2 65535 True (Obj 5)"
  by (simp_all add: net_objs_def)

lemma deref_net_objs:
  "i < 15 \<Longrightarrow> deref (net_objs sp b @ xs) (Some (Obj i)) = Some (net_objs sp b ! i)"
  "i < 15 \<Longrightarrow> deref (net_objs sp b) (Some (Obj i)) = Some (net_objs sp b ! i)"
  "deref objs (Some (PRIMITIF p)) = Some \<lparr>to_align = primitif_align p, to_type = TypePrimitif p\<rparr>"
  by (simp_all add: deref_def nth_append)

lemma map_of_net_layouts:
  "map_of net_layouts (Obj 0) = Some (snd (lay (Obj 0) [acc [1] 4 U32, acc [2] 4 U32, acc [3] 4 U32, acc [4] 4 U32, acc [5] 4 U32, acc [0] 2 U16]))"
  "map_of net_layouts (Obj (Suc 0)) = Some (snd (lay (Obj 1) [acc [0] 2 U16]))"
  "map_of net_layouts (Obj 2) = Some (snd (lay (Obj 2) [acc [0] 2 U16]))"
  "map_of net_layouts (Obj 3) = Some (snd (lay (Obj 3) [acc [0, 0] 2 U16, acc [0, 1] 0 TCHAR]))"
  "map_of net_layouts (Obj 5) = Some (snd (lay (Obj 5) [acc [0, 0] 2 U16, acc [0, 1] 0 (Obj 3)]))"
  "map_of net_layouts U8 = Some (snd (lay U8 [acc [] 1 U8]))"
  "map_of net_layouts U32 = Some (snd (lay U32 [acc [] 4 U32]))"
  "map_of net_layouts TCHAR = Some (snd (lay TCHAR [acc [] 1 TCHAR]))"
  by (simp_all add: net_layouts_def lay_def layout_primitifs_def)

lemmas lookups = nth_net_objs deref_net_objs map_of_net_layouts

lemma decimal_digit: "n < 10 \<Longrightarrow> decimal n = [digit n]"
  and decimal_digits: "10 \<le> n \<Longrightarrow> decimal n = decimal (n div 10) @ [digit (n mod 10)]"
  by (simp_all add: decimal.simps [of n])

lemma pad_values: "pad 0 = []" "pad 4 = ''    ''" "pad 8 = ''        ''" "pad 12 = ''            ''"
  by (simp_all add: pad_def eval_nat_numeral)

lemmas prints = nl_def pad_values INDENT_def lu_def decimal_digit decimal_digits digit_def unlines_def line_defs

lemmas shapes = struct_def max_array_def fixed_array_def field_def acc_def lay_def

text \<open>Four levels of nesting suffice.\<close>

abbreviation fuel :: "nat \<Rightarrow> nat" where "fuel n \<equiv> Suc (Suc (Suc (Suc n)))"

text \<open>Congruence rules that keep the simplifier from unfolding the continuation of a step before the step
  has been evaluated.\<close>

lemma lazy_bind: "a = a' \<Longrightarrow> Option.bind a f = Option.bind a' f" by simp

lemma lazy_sized: "fas = fas' \<Longrightarrow> off = off' \<Longrightarrow> al = al' \<Longrightarrow> sized_loop emit fas off al = sized_loop emit fas' off' al'"
  by simp

lemma lazy_rest: "off = off' \<Longrightarrow> al = al' \<Longrightarrow> rest = rest' \<Longrightarrow>
    write_rest emit objs a indent off al rest = write_rest emit objs a indent off' al' rest'"
  by simp

lemma lazy_emit: "xs = xs' \<Longrightarrow> emit_all emit xs = emit_all emit xs'" by simp

lemma lazy_free: "fs = fs' \<Longrightarrow> free_fields free base fs = free_fields free base fs'" by simp

lemmas lazy = lazy_bind lazy_sized lazy_rest lazy_emit lazy_free

section \<open>The functions of the structs\<close>

lemmas funcs = write_struct_func_def struct_of_def sized_loop.simps write_rest_def called_struct_def write_align_def
  write_accessor_def accessor_loop.simps len_accessor_def calign_to_def calign_add_def ALIGN_defs
  is_field_accessor_heap_array_def

lemma abs_functions:
  "write_struct_func (fuel n) net_layouts (Obj 0) (net_objs sp True) = Some (unlines
    abs_lines, net_objs sp True)"
  by (simp add: funcs lookups shapes prints Let_def cong: lazy)

lemma key_functions:
  "write_struct_func (fuel n) net_layouts (Obj 2) (net_objs sp True) = Some (unlines
    key_lines, net_objs sp True)"
  by (simp add: funcs lookups shapes prints Let_def cong: lazy)

lemma rel_functions:
  "write_struct_func (fuel n) net_layouts (Obj (Suc 0)) (net_objs sp True) = Some (unlines
    rel_lines, net_objs sp True)"
  by (simp add: funcs lookups shapes prints Let_def cong: lazy)

lemma tag_list_functions:
  "write_struct_func (fuel n) net_layouts (Obj 5) (net_objs sp True) = Some (unlines
    tag_list_lines, net_objs sp True)"
  by (simp add: funcs lookups shapes prints Let_def cong: lazy)

lemma tag_functions:
  "write_struct_func (fuel n) net_layouts (Obj 3) (net_objs sp True) = Some (unlines
    tag_lines, net_objs sp True)"
  by (simp add: funcs lookups shapes prints Let_def cong: lazy)

section \<open>The order of the structs\<close>

definition net_typedefs :: "TypePtr option table" where
  "net_typedefs = map (\<lambda>(name, p). (name, Some (PRIMITIF p))) primitif_names @
    [(bytes ''Abs'', Some (Obj 0)), (bytes ''Rel'', Some (Obj 1)), (bytes ''Key'', Some (Obj 2)),
     (bytes ''Tag'', Some (Obj 3)), (bytes ''TagList'', Some (Obj 5))]"

lemma net_dependencies:
  "collect_structs (fuel n) (net_objs sp b) (map snd net_typedefs) [] =
     Some [(Obj 0, []), (Obj 1, []), (Obj 2, []), (Obj 3, []), (Obj 5, [])]"
  by (simp add: net_typedefs_def primitif_names_def lookups shapes cong: lazy)

lemma net_compare:
  "insertion_sort (struct_object_compare (net_objs sp b)) [Obj 5, Obj 3, Obj 2, Obj (Suc 0), Obj 0] =
     Some [Obj 0, Obj 2, Obj (Suc 0), Obj 5, Obj 3]"
  by (simp add: struct_object_compare_def struct_of_def lookups shapes bytes_def Let_def cong: lazy)

lemma net_order:
  "define_structs (fuel n) rev insertion_sort (net_objs sp b) net_typedefs define s =
     define_all define [Obj 0, Obj 2, Obj (Suc 0), Obj 5, Obj 3] s"
proof -
  have "to_define [(Obj 5, []), (Obj 3, []), (Obj 2, []), (Obj (Suc 0), []), (Obj 0, [])] =
      [Obj 5, Obj 3, Obj 2, Obj (Suc 0), Obj 0]"
    by (simp add: to_define_def)
  moreover have "define_passes rev insertion_sort (net_objs sp b) define [] s' = Some ([], s', [])" for s'
    by (simp add: define_passes.simps [of _ _ _ _ "[]"] to_define_def)
  ultimately show ?thesis
    by (cases "define_all define [Obj 0, Obj 2, Obj (Suc 0), Obj 5, Obj 3] s")
      (simp_all add: define_structs_def net_dependencies define_passes.simps [of _ _ _ _ "_ # _"] net_compare
        del: insertion_sort.simps define_all.simps)
qed

lemma fixed_names: "data_name = bytes ''data''" "version_name = bytes ''_version''"
  by (simp_all add: data_name_def version_name_def bytes_def)

lemma net_structs:
  "define_all (write_struct (fuel n)) [Obj 0, Obj 2, Obj (Suc 0), Obj 5, Obj 3] (net_objs sp b) = Some (unlines
    struct_lines, net_objs sp b)"
  by (simp add: write_struct_def write_field_def write_field_with_def write_declarator_def pointer_texts_def array_texts_def
      is_ptr_def fixed_names array_size_type_def funcs lookups shapes prints Let_def cong: lazy)

lemma net_declarations:
  "define_all write_struct_func_decl [Obj 0, Obj 2, Obj (Suc 0), Obj 5, Obj 3] (net_objs sp False) = Some (unlines
    declaration_lines, net_objs sp True)"
  by (simp add: write_struct_func_decl_def net_objs_def mark_has_funcs_def set_has_funcs_def struct_of_def deref_def
      shapes prints Let_def cong: lazy)

lemma unlines_append: "unlines xs @ unlines ys = unlines (xs @ ys)"
  by (simp add: unlines_def)

section \<open>The messages\<close>

definition net_messages :: "(nat \<Rightarrow> Span) \<Rightarrow> MessageObject list" where
  "net_messages sp =
    [\<lparr>mo_name = bytes ''Info'', mo_fields = [field (sp 10) ''slot'' U8, field (sp 11) ''index'' U8,
        field (sp 12) ''abs'' (Obj 7), field (sp 13) ''rel'' (Obj 8), field (sp 14) ''key'' (Obj 9)], mo_attributes = {}\<rparr>,
     \<lparr>mo_name = bytes ''Report'', mo_fields = [field (sp 15) ''slot'' U8, field (sp 16) ''index'' U8,
        field (sp 17) ''abs'' (Obj 10), field (sp 18) ''rel'' (Obj 11), field (sp 19) ''key'' (Obj 12)], mo_attributes = {}\<rparr>,
     \<lparr>mo_name = bytes ''ControllerState'', mo_fields = [field (sp 20) ''index'' U16, field (sp 21) ''led'' (Obj 13),
        field (sp 22) ''small_rumble'' U8, field (sp 23) ''big_rumble'' U8, field (sp 24) ''flash_on'' U8,
        field (sp 25) ''flash_off'' U8], mo_attributes = {}\<rparr>,
     \<lparr>mo_name = bytes ''Request'', mo_fields = [field (sp 26) ''requests'' (Obj 14)], mo_attributes = {Attr_versioned}\<rparr>,
     \<lparr>mo_name = bytes ''Destroy'', mo_fields = [field (sp 27) ''index'' U16], mo_attributes = {}\<rparr>]"

definition net_group :: "(nat \<Rightarrow> Span) \<Rightarrow> MessagesObject" where
  "net_group sp = \<lparr>mso_name = bytes ''Device'', mso_messages = net_messages sp, mso_version = 1\<rparr>"

definition message_objs :: "(nat \<Rightarrow> Span) \<Rightarrow> TypeObject list" where
  "message_objs sp = net_objs sp True @ map message_object (net_messages sp)"

definition message_layouts :: "(TypePtr \<times> Layout) list" where
  "message_layouts = foldl (\<lambda>ls (ty, l). AList.update ty l ls) net_layouts
    [lay (Obj 15) [acc [4, 0] 2 U16, acc [0] 1 U8, acc [1] 1 U8, acc [2, 0] 1 U8, acc [3, 0] 1 U8,
       acc [2, 1] 0 (Obj 0), acc [3, 1] 0 (Obj 1), acc [4, 1] 0 (Obj 2)],
     lay (Obj 16) [acc [4, 0] 2 U16, acc [0] 1 U8, acc [1] 1 U8, acc [2, 0] 1 U8, acc [3, 0] 1 U8,
       acc [2, 1] 0 U32, acc [3, 1] 0 U32, acc [4, 1] 0 U8],
     lay (Obj 17) [acc [0] 2 U16, acc [1, 0] 1 U8, acc [1, 1] 1 U8, acc [1, 2] 1 U8, acc [2] 1 U8, acc [3] 1 U8,
       acc [4] 1 U8, acc [5] 1 U8],
     lay (Obj 18) [acc [1] 8 (PRIMITIF Primitif_u64), acc [0, 0] 2 U16, acc [0, 1] 0 (Obj 5)],
     lay (Obj 19) [acc [0] 2 U16]]"

lemma deref_message_objs:
  "15 \<le> i \<Longrightarrow> i - 15 < length xs \<Longrightarrow> deref (net_objs sp b @ xs) (Some (Obj i)) = Some (xs ! (i - 15))"
  by (auto simp: deref_def nth_append)

lemma replicate_3: "replicate 3 x = [x, x, x]" by (simp add: numeral_3_eq_3)

lemmas layout_defs = replicate_3 type_layout_def length_accessor_def fa_compare_def message_object_def versioned_def version_field_def

lemma net_message_tos:
  "message_tos insertion_sort (fuel n) (net_messages sp) (net_objs sp True) net_layouts =
     Some ([Obj 15, Obj 16, Obj 17, Obj 18, Obj 19], message_objs sp, message_layouts)"
  by (simp add: net_messages_def message_objs_def message_layouts_def layout_defs lookups deref_message_objs shapes
      ALIGN_defs Let_def cong: lazy)

lemma length_message_objs [simp]: "length (message_objs sp) = 20"
  by (simp add: message_objs_def net_messages_def)

lemma deref_messages:
  "i < 15 \<Longrightarrow> deref (message_objs sp) (Some (Obj i)) = Some (net_objs sp True ! i)"
  "15 \<le> i \<Longrightarrow> i < 20 \<Longrightarrow> deref (message_objs sp) (Some (Obj i)) = Some (message_object (net_messages sp ! (i - 15)))"
proof -
  show "deref (message_objs sp) (Some (Obj i)) = Some (net_objs sp True ! i)" if "i < 15"
    using that by (simp add: message_objs_def deref_net_objs)
  have "length (net_messages sp) = 5" by (simp add: net_messages_def)
  then show "deref (message_objs sp) (Some (Obj i)) = Some (message_object (net_messages sp ! (i - 15)))" if "15 \<le> i" "i < 20"
    using that by (simp add: message_objs_def deref_message_objs)
qed

lemma nth_net_messages:
  "net_messages sp ! 0 = \<lparr>mo_name = bytes ''Info'', mo_fields = [field (sp 10) ''slot'' U8, field (sp 11) ''index'' U8,
        field (sp 12) ''abs'' (Obj 7), field (sp 13) ''rel'' (Obj 8), field (sp 14) ''key'' (Obj 9)], mo_attributes = {}\<rparr>"
  "net_messages sp ! Suc 0 = \<lparr>mo_name = bytes ''Report'', mo_fields = [field (sp 15) ''slot'' U8, field (sp 16) ''index'' U8,
        field (sp 17) ''abs'' (Obj 10), field (sp 18) ''rel'' (Obj 11), field (sp 19) ''key'' (Obj 12)], mo_attributes = {}\<rparr>"
  "net_messages sp ! 2 = \<lparr>mo_name = bytes ''ControllerState'', mo_fields = [field (sp 20) ''index'' U16, field (sp 21) ''led'' (Obj 13),
        field (sp 22) ''small_rumble'' U8, field (sp 23) ''big_rumble'' U8, field (sp 24) ''flash_on'' U8,
        field (sp 25) ''flash_off'' U8], mo_attributes = {}\<rparr>"
  "net_messages sp ! 3 = \<lparr>mo_name = bytes ''Request'', mo_fields = [field (sp 26) ''requests'' (Obj 14)], mo_attributes = {Attr_versioned}\<rparr>"
  "net_messages sp ! 4 = \<lparr>mo_name = bytes ''Destroy'', mo_fields = [field (sp 27) ''index'' U16], mo_attributes = {}\<rparr>"
  by (simp_all add: net_messages_def)

lemma map_of_message_layouts:
  "map_of message_layouts (Obj 15) = Some (snd (lay (Obj 15) [acc [4, 0] 2 U16, acc [0] 1 U8, acc [1] 1 U8, acc [2, 0] 1 U8,
       acc [3, 0] 1 U8, acc [2, 1] 0 (Obj 0), acc [3, 1] 0 (Obj 1), acc [4, 1] 0 (Obj 2)]))"
  "map_of message_layouts (Obj 16) = Some (snd (lay (Obj 16) [acc [4, 0] 2 U16, acc [0] 1 U8, acc [1] 1 U8, acc [2, 0] 1 U8,
       acc [3, 0] 1 U8, acc [2, 1] 0 U32, acc [3, 1] 0 U32, acc [4, 1] 0 U8]))"
  "map_of message_layouts (Obj 17) = Some (snd (lay (Obj 17) [acc [0] 2 U16, acc [1, 0] 1 U8, acc [1, 1] 1 U8, acc [1, 2] 1 U8,
       acc [2] 1 U8, acc [3] 1 U8, acc [4] 1 U8, acc [5] 1 U8]))"
  "map_of message_layouts (Obj 18) = Some (snd (lay (Obj 18) [acc [1] 8 (PRIMITIF Primitif_u64), acc [0, 0] 2 U16, acc [0, 1] 0 (Obj 5)]))"
  "map_of message_layouts (Obj 19) = Some (snd (lay (Obj 19) [acc [0] 2 U16]))"
  "map_of message_layouts (Obj 0) = map_of net_layouts (Obj 0)"
  "map_of message_layouts (Obj (Suc 0)) = map_of net_layouts (Obj (Suc 0))"
  "map_of message_layouts (Obj 2) = map_of net_layouts (Obj 2)"
  "map_of message_layouts (Obj 5) = map_of net_layouts (Obj 5)"
  "map_of message_layouts (PRIMITIF p) = map_of net_layouts (PRIMITIF p)"
  by (simp_all add: message_layouts_def lay_def update_conv')

definition net_mts :: "(nat \<Rightarrow> Span) \<Rightarrow> (MessageObject \<times> TypePtr) list" where
  "net_mts sp = zip (net_messages sp) [Obj 15, Obj 16, Obj 17, Obj 18, Obj 19]"

lemma net_mts_eq:
  "net_mts sp = map (\<lambda>i. (net_messages sp ! i, Obj (15 + i))) [0, 1, 2, 3, 4]"
  by (simp add: net_mts_def net_messages_def)

lemmas cases = case_label_def case_break_def none_case_def versioned_def message_object_def version_field_def
  message_alignment_def nth_net_messages deref_messages map_of_message_layouts

lemma net_serialize:
  "write_serialize (fuel n) (message_objs sp) message_layouts ''device'' ''Device'' 1 (net_mts sp) = Some (unlines
    serialize_lines)"
  by (simp add: write_serialize_def serialize_case_def net_mts_eq cases fixed_names funcs lookups shapes prints Let_def cong: lazy)

lemma net_deserialize:
  "write_deserialize (fuel n) (message_objs sp) message_layouts ''device'' ''Device'' 1 (net_mts sp) = Some (unlines
    deserialize_lines)"
  by (simp add: write_deserialize_def deserialize_case_def version_check_def free_and_fail_def net_mts_eq cases fixed_names
      funcs lookups shapes prints Let_def cong: lazy)

lemma net_free:
  "write_free (fuel n) (message_objs sp) message_layouts ''device'' ''Device'' (net_mts sp) = Some (unlines
    free_lines)"
  by (simp add: write_free_def free_case_def net_mts_eq cases fixed_names funcs lookups shapes prints Let_def cong: lazy)

lemma net_messages_header:
  "messages_header (fuel n) (net_objs sp True) (net_group sp) = Some (unlines
    message_lines)"
  by (simp add: messages_header_def net_group_def net_messages_def write_message_struct_def write_enum_def write_union_def
      write_prototypes_def versioned_def version_field_def write_field_def write_field_with_def write_declarator_def
      pointer_texts_def array_texts_def is_ptr_def fixed_names array_size_type_def funcs lookups shapes prints Let_def cong: lazy)

section \<open>The files\<close>

definition net_program :: "(nat \<Rightarrow> Span) \<Rightarrow> Program" where
  "net_program sp = \<lparr>pr_typedefs = net_typedefs, pr_layouts = net_layouts, pr_messages = [net_group sp],
     pr_type_objects = net_objs sp False\<rparr>"

lemma net_functions:
  "define_all (write_struct_func (fuel n) net_layouts) [Obj 0, Obj 2, Obj (Suc 0), Obj 5, Obj 3] (net_objs sp True) =
     Some (unlines (abs_lines @ key_lines @ rel_lines @ tag_list_lines @ tag_lines), net_objs sp True)"
  by (simp add: abs_functions key_functions rel_functions tag_list_functions tag_functions unlines_append)

lemma net_source:
  "messages_source insertion_sort (fuel n) (net_objs sp True) (net_group sp) net_layouts =
     Some (unlines (serialize_lines @ deserialize_lines @ free_lines), message_layouts)"
proof -
  have "zip (net_messages sp) [Obj 15, Obj 16, Obj 17, Obj 18, Obj 19] = net_mts sp" by (simp add: net_mts_def)
  then show ?thesis
    by (simp add: messages_source_def net_group_def net_message_tos net_serialize net_deserialize net_free Let_def unlines_append
        del: message_tos.simps)
qed

lemma upt_16: "[0..<16] = [0, 1, 2, 3, 4, 5, 6, 7, 8, 9, 10, 11, 12, 13, 14, 15]"
  by (simp add: upt_rec)

lemma net_prologues:
  "header_prologue ''NET'' = unlines (''// Generated file'' # tl header_lines)"
  "source_prologue ''net'' = unlines (''// Generated file'' # tl source_lines)"
  by (simp_all add: header_prologue_def source_prologue_def lX016_def MSG_MAGIC_START_def MSG_MAGIC_END_def upt_16 prints)

lemma screaming_net: "snake_case_to_screaming_snake_case (bytes ''net'') = bytes ''NET''"
  by (simp add: snake_case_to_screaming_snake_case_def bytes_def)

lemma net_codegen:
  "codegen_c insertion_sort insertion_sort rev (fuel n) (bytes ''net'') (net_program sp) =
     Some (unlines (''// Generated file'' # tl net_h), unlines (''// Generated file'' # tl net_c))"
proof -
  have "''#endif'' @ nl = unlines [''#endif'']" "\<And>ls. nl @ unlines ls = unlines ('''' # ls)" by (simp_all add: unlines_def)
  moreover have "header_lines \<noteq> []" "source_lines \<noteq> []" by (simp_all add: header_lines_def source_lines_def)
  ultimately show ?thesis
    by (simp add: codegen_c_def net_program_def net_order net_structs net_declarations net_functions net_messages_header net_source
        net_prologues screaming_net net_h_def net_c_def Let_def unlines_append del: define_all.simps)
qed


end
