(* ===== verification/Codegen_Python.thy ===== *)
theory Codegen_Python
  imports Codegen
begin

text \<open>
  The Python code generator (\<^verbatim>\<open>ser/codegen_python.c\<close>), function by function; each returns the text
  it prints. The functions that print the two methods of a class at once return both texts.
\<close>

section \<open>Types\<close>

definition quote :: string where "quote = [CHR 0x27]"

fun py_primitif :: "PrimitifType \<Rightarrow> string" where
  "py_primitif Primitif_f32 = ''float''"
| "py_primitif Primitif_f64 = ''float''"
| "py_primitif Primitif_bool = ''bool''"
| "py_primitif Primitif_char = ''str''"
| "py_primitif _ = ''int''"

fun pack_format :: "PrimitifType \<Rightarrow> string" where
  "pack_format Primitif_u8 = ''B''"
| "pack_format Primitif_u16 = ''H''"
| "pack_format Primitif_u32 = ''I''"
| "pack_format Primitif_u64 = ''Q''"
| "pack_format Primitif_i8 = ''b''"
| "pack_format Primitif_i16 = ''h''"
| "pack_format Primitif_i32 = ''i''"
| "pack_format Primitif_i64 = ''q''"
| "pack_format Primitif_f32 = ''f''"
| "pack_format Primitif_f64 = ''d''"
| "pack_format Primitif_bool = ''?''"
| "pack_format Primitif_char = ''c''"

text \<open>\<open>defined\<close> is the set of the structs that have been defined, or a null pointer.\<close>

primrec write_type_name :: "nat \<Rightarrow> TypeObject list \<Rightarrow> TypePtr option \<Rightarrow> TypePtr list option \<Rightarrow> string option" where
  "write_type_name 0 objs ty defined = None"
| "write_type_name (Suc n) objs ty defined = do {
     t \<leftarrow> deref objs ty;
     case to_type t of
       TypePrimitif p \<Rightarrow> Some (py_primitif p)
     | TypeArray a \<Rightarrow> do {
         et \<leftarrow> deref objs (ar_type a);
         if to_type et = TypePrimitif Primitif_char then Some ''str''
         else do {
           t \<leftarrow> write_type_name n objs (ar_type a) defined;
           Some (''List['' @ t @ '']'')
         }
       }
     | TypeStruct s \<Rightarrow>
         (case defined of
            None \<Rightarrow> Some (chars (so_name s))
          | Some ds \<Rightarrow> if the ty \<in> set ds then Some (chars (so_name s)) else Some (quote @ chars (so_name s) @ quote))
   }"

section \<open>Accesses\<close>

datatype Access = Read | Write

text \<open>The path of a field, and whether it ends in the length of an array.\<close>

fun access_path :: "TypeObject list \<Rightarrow> TypePtr option \<Rightarrow> u64 list \<Rightarrow> (string \<times> bool) option" where
  "access_path objs ty [] = Some ([], False)"
| "access_path objs ty (i # is) = do {
     t \<leftarrow> deref objs ty;
     case to_type t of
       TypeStruct s \<Rightarrow>
         if unat i < length (so_fields s) then do {
           let f = so_fields s ! unat i;
           (r, len) \<leftarrow> access_path objs (f_type f) is;
           Some (''.'' @ chars (f_name f) @ r, len)
         }
         else None
     | TypeArray a \<Rightarrow>
         if ar_sizing a = SizingMax then Some ([], i = 0)
         else do {
           (r, len) \<leftarrow> access_path objs (ar_type a) is;
           Some (''['' @ lu i @ '']'' @ r, len)
         }
     | TypePrimitif _ \<Rightarrow> access_path objs ty is
   }"

definition write_field_accessor :: "TypeObject list \<Rightarrow> string \<Rightarrow> FieldAccessor \<Rightarrow> TypePtr option \<Rightarrow> Access \<Rightarrow> string option" where
  "write_field_accessor objs base fa ty access =
    (if fa_indices fa = [] then Some base
     else do {
       (p, len) \<leftarrow> access_path objs ty (fa_indices fa);
       Some (if \<not> len then base @ p
             else if access = Read then ''len('' @ base @ p @ '')''
             else map (\<lambda>c. if c = CHR ''.'' then CHR ''_'' else c) (base @ p) @ ''_len'')
     })"

fun walk_type :: "TypeObject list \<Rightarrow> TypePtr option \<Rightarrow> u64 list \<Rightarrow> TypePtr option option" where
  "walk_type objs ty [] = Some ty"
| "walk_type objs ty (i # is) = do {
     t \<leftarrow> deref objs ty;
     case to_type t of
       TypeStruct s \<Rightarrow> if unat i < length (so_fields s) then walk_type objs (f_type (so_fields s ! unat i)) is else None
     | TypeArray a \<Rightarrow> walk_type objs (ar_type a) is
     | TypePrimitif _ \<Rightarrow> walk_type objs ty is
   }"

definition primitif_of :: "TypeObject list \<Rightarrow> TypePtr option \<Rightarrow> PrimitifType option option" where
  "primitif_of objs ty = do { t \<leftarrow> deref objs ty; Some (case to_type t of TypePrimitif p \<Rightarrow> Some p | _ \<Rightarrow> None) }"

definition field_accessor_is_array_length :: "TypeObject list \<Rightarrow> FieldAccessor \<Rightarrow> TypePtr option \<Rightarrow> bool option" where
  "field_accessor_is_array_length objs fa ty = do {
     p \<leftarrow> primitif_of objs (fa_type fa);
     if fa_indices fa = [] \<or> last (fa_indices fa) \<noteq> 0 \<or> p = None then Some False
     else do {
       ty \<leftarrow> walk_type objs ty (butlast (fa_indices fa));
       t \<leftarrow> deref objs ty;
       Some (case to_type t of TypeArray a \<Rightarrow> ar_sizing a = SizingMax | _ \<Rightarrow> False)
     }
   }"

text \<open>The position of the accessor of the length of an array, among the fields of constant size; when
  there is none the program exits.\<close>

fun length_index :: "FieldAccessor list \<Rightarrow> FieldAccessor \<Rightarrow> nat \<Rightarrow> nat option" where
  "length_index [] fa j = None"
| "length_index (f # fs) fa j =
    (if fa_size f = 0 then None
     else if length (fa_indices f) = length (fa_indices fa) \<and> butlast (fa_indices f) = butlast (fa_indices fa) \<and>
       fa_indices f \<noteq> [] \<and> last (fa_indices f) = 0 then Some j
     else length_index fs fa (j + 1))"

definition get_array_length_field_index :: "Layout \<Rightarrow> FieldAccessor \<Rightarrow> nat option" where
  "get_array_length_field_index layout fa = length_index (ly_fields layout) fa 0"

definition write_type_uninit :: "TypeObject list \<Rightarrow> TypePtr option \<Rightarrow> string option" where
  "write_type_uninit objs ty = do {
     t \<leftarrow> deref objs ty;
     case to_type t of
       TypeStruct s \<Rightarrow> emit_all (\<lambda>f. do {
         ft \<leftarrow> deref objs (f_type f);
         case to_type ft of
           TypeStruct fs \<Rightarrow> Some (pad (INDENT * 2) @ ''self.'' @ chars (f_name f) @ '' = '' @ chars (so_name fs) @ ''.uninit()'' @ nl)
         | TypeArray _ \<Rightarrow> Some (pad (INDENT * 2) @ ''self.'' @ chars (f_name f) @ '' = []'' @ nl)
         | TypePrimitif _ \<Rightarrow> Some []
       }) (so_fields s)
     | _ \<Rightarrow> Some []
   }"

section \<open>The two methods\<close>

text \<open>The format of the fields of constant size, with the alignment and the size after them and the
  arrays of variable size they are followed by.\<close>

fun pack_loop :: "TypeObject list \<Rightarrow> FieldAccessor list \<Rightarrow> CurrentAlignment \<Rightarrow> u64
    \<Rightarrow> (string \<times> CurrentAlignment \<times> u64 \<times> FieldAccessor list) option" where
  "pack_loop objs [] al sz = Some ([], al, sz, [])"
| "pack_loop objs (fa # fas) al sz =
    (if fa_size fa = 0 then Some ([], al, sz, fa # fas)
     else do {
       p \<leftarrow> primitif_of objs (fa_type fa);
       p \<leftarrow> p;
       (t, r) \<leftarrow> pack_loop objs fas (calign_add al (ucast (fa_size fa))) (sz + fa_size fa);
       Some (pack_format p @ t, r)
     })"

fun emit_both :: "('a \<Rightarrow> (string \<times> string) option) \<Rightarrow> 'a list \<Rightarrow> (string \<times> string) option" where
  "emit_both emit [] = Some ([], [])"
| "emit_both emit (x # xs) = do { (s, d) \<leftarrow> emit x; (ss, ds) \<leftarrow> emit_both emit xs; Some (s @ ss, d @ ds) }"

definition encode_ascii :: string where
  "encode_ascii = ''.encode(encoding='' @ quote @ ''ASCII'' @ quote @ '', errors='' @ quote @ ''replace'' @ quote @ '')''"

definition decode_ascii :: string where
  "decode_ascii = ''.decode(encoding='' @ quote @ ''ASCII'' @ quote @ '', errors='' @ quote @ ''replace'' @ quote @ '')''"

text \<open>One value of constant size: an argument of \<open>pack\<close>, and an assignment from the values unpacked.\<close>

definition write_value :: "TypeObject list \<Rightarrow> TypePtr option \<Rightarrow> string \<Rightarrow> nat \<Rightarrow> nat \<Rightarrow> nat \<Rightarrow> nat \<times> FieldAccessor
    \<Rightarrow> (string \<times> string) option" where
  "write_value objs ty base indent depth k jf = do {
     let (j, fa) = jf;
     rd \<leftarrow> write_field_accessor objs base fa ty Read;
     p \<leftarrow> primitif_of objs (fa_type fa);
     is_len \<leftarrow> field_accessor_is_array_length objs fa ty;
     wr \<leftarrow> write_field_accessor objs base fa ty Write;
     Some (pad indent @ ''            '' @ rd @ (if p = Some Primitif_char then encode_ascii else []) @
         (if j < k - 1 then '','' @ nl else '')'' @ nl),
       if is_len then []
       else pad indent @ wr @ '' = xs'' @ decimal depth @ ''['' @ decimal j @ '']'' @
         (if p = Some Primitif_char then decode_ascii else []) @ nl)
   }"

definition element_init :: "TypeObject \<Rightarrow> string \<Rightarrow> nat \<Rightarrow> string" where
  "element_init t e indent = (case to_type t of
     TypeArray a \<Rightarrow> if ar_sizing a = SizingFixed then pad indent @ e @ '' = [None] * '' @ lu (ar_size a) @ nl else []
   | TypeStruct s \<Rightarrow> pad indent @ e @ '' = '' @ chars (so_name s) @ ''.uninit()'' @ nl
   | TypePrimitif _ \<Rightarrow> [])"

text \<open>One array of variable size; the elements are printed by \<open>inner\<close>, from their type, name,
  alignment, indentation and depth.\<close>

definition write_array :: "(TypePtr option \<Rightarrow> string \<Rightarrow> CurrentAlignment \<Rightarrow> nat \<Rightarrow> nat \<Rightarrow> (string \<times> string) option)
    \<Rightarrow> TypeObject list \<Rightarrow> Layout \<Rightarrow> TypePtr option \<Rightarrow> string \<Rightarrow> nat \<Rightarrow> nat \<Rightarrow> FieldAccessor \<Rightarrow> (string \<times> string) option" where
  "write_array inner objs layout ty base indent depth fa = do {
     k \<leftarrow> get_array_length_field_index layout fa;
     p \<leftarrow> primitif_of objs (fa_type fa);
     rd \<leftarrow> write_field_accessor objs base fa ty Read;
     wr \<leftarrow> write_field_accessor objs base fa ty Write;
     let xs = ''xs'' @ decimal depth @ ''['' @ decimal k @ '']'';
     if p = Some Primitif_char then
       Some (pad indent @ ''buf += '' @ rd @ encode_ascii @ nl,
         pad indent @ wr @ '' = buf[off:off + '' @ xs @ '']'' @ decode_ascii @ nl @
         pad indent @ ''off += '' @ xs @ nl)
     else do {
       let e = ''e'' @ decimal depth;
       t \<leftarrow> deref objs (fa_type fa);
       (s, d) \<leftarrow> inner (fa_type fa) e \<lparr>ca_align = to_align t, ca_offset = 0\<rparr> (indent + INDENT) (depth + 1);
       Some (pad indent @ ''for '' @ e @ '' in '' @ rd @ '':'' @ nl @ s,
         pad indent @ wr @ '' = []'' @ nl @
         pad indent @ ''for _ in range('' @ xs @ ''):'' @ nl @
         element_init t e (indent + INDENT) @ d @
         pad (indent + INDENT) @ wr @ ''.append('' @ e @ '')'' @ nl)
     }
   }"

text \<open>The fields themselves: a call of \<open>pack\<close> or \<open>unpack\<close>, the arrays, and the padding at the end.\<close>

definition write_fields :: "(TypePtr option \<Rightarrow> string \<Rightarrow> CurrentAlignment \<Rightarrow> nat \<Rightarrow> nat \<Rightarrow> (string \<times> string) option)
    \<Rightarrow> TypeObject list \<Rightarrow> Layout \<Rightarrow> TypePtr option \<Rightarrow> string \<Rightarrow> CurrentAlignment \<Rightarrow> nat \<Rightarrow> nat \<Rightarrow> (string \<times> string) option" where
  "write_fields inner objs layout ty base al indent depth = do {
     (fmt, al', sz, rest) \<leftarrow> pack_loop objs (ly_fields layout) al 0;
     padding \<leftarrow> (case rest of [] \<Rightarrow> Some 0 | fa # _ \<Rightarrow> do {
       t \<leftarrow> deref objs (fa_type fa);
       p \<leftarrow> calign_to al' (to_align t);
       Some (ucast p)
     });
     let sized = take (length (ly_fields layout) - length rest) (ly_fields layout);
     (vs, vd) \<leftarrow> emit_both (write_value objs ty base indent depth (length sized)) (List.enumerate 0 sized);
     total \<leftarrow> (if rest = [] then do { p \<leftarrow> calign_to al' (ca_align al); Some (padding + sz + ucast p) } else Some (padding + sz));
     (arrs, arrd) \<leftarrow> emit_both (write_array inner objs layout ty base indent depth) rest;
     let value = decimal (unat (al_value (ca_align al)));
     let mask = decimal (unat (al_mask (ca_align al)));
     Some (pad indent @ ''buf += pack('' @ quote @ ''<'' @ fmt @ (if rest = [] then [] else lu padding @ ''x'') @ quote @ '','' @ nl @
         vs @ arrs @
         (if rest = [] then [] else pad indent @ ''buf += bytes(('' @ value @ '' - len(buf)) & '' @ mask @ '')'' @ nl),
       pad indent @ ''xs'' @ decimal depth @ '' = unpack('' @ quote @ ''<'' @ fmt @ quote @ '', buf[off:off + '' @ lu sz @ ''])'' @ nl @
         vd @ pad indent @ ''off += '' @ lu total @ nl @ arrd @
         (if rest = [] then [] else pad indent @ ''off += ('' @ value @ '' - off) & '' @ mask @ nl))
   }"

definition is_struct :: "TypeObject \<Rightarrow> bool" where
  "is_struct t = (case to_type t of TypeStruct _ \<Rightarrow> True | _ \<Rightarrow> False)"

definition padding_texts :: "nat \<Rightarrow> string \<Rightarrow> u8 \<Rightarrow> string \<times> string" where
  "padding_texts indent op p =
    (if p = 0 then ([], [])
     else (pad indent @ ''buf += bytes('' @ lu (ucast p) @ '')'' @ nl, pad indent @ ''off '' @ op @ '' '' @ lu (ucast p) @ nl))"

primrec write_type_funcs :: "nat \<Rightarrow> TypeObject list \<Rightarrow> (TypePtr \<times> Layout) list \<Rightarrow> TypePtr option \<Rightarrow> string \<Rightarrow> CurrentAlignment
    \<Rightarrow> nat \<Rightarrow> nat \<Rightarrow> bool \<Rightarrow> (string \<times> string) option" where
  "write_type_funcs 0 objs layouts ty base al indent depth always_inline = None"
| "write_type_funcs (Suc n) objs layouts ty base al indent depth always_inline = do {
     key \<leftarrow> ty;
     layout \<leftarrow> map_of layouts key;
     t \<leftarrow> deref objs ty;
     case ly_fields layout of [] \<Rightarrow> Some ([], []) | fa # _ \<Rightarrow> do {
       ft \<leftarrow> deref objs (fa_type fa);
       p \<leftarrow> calign_to al (to_align ft);
       let (s0, d0) = padding_texts indent ''+='' p;
       if is_struct t \<and> \<not> always_inline then do {
         lt \<leftarrow> deref objs (Some (ly_type layout));
         p \<leftarrow> calign_to al (to_align lt);
         let (s1, d1) = padding_texts indent ''='' p;
         Some (s0 @ s1 @ pad indent @ base @ ''.serialize(buf)'' @ nl,
           d0 @ d1 @ pad indent @ ''off += '' @ base @ ''.deserialize(buf[off:])'' @ nl)
       }
       else do {
         (s, d) \<leftarrow> write_fields (\<lambda>ty e al indent depth. write_type_funcs n objs layouts ty e al indent depth False)
           objs layout ty base (calign_add al p) indent depth;
         Some (s0 @ s, d0 @ d)
       }
     }
   }"

section \<open>Classes\<close>

definition write_uninit :: "string \<Rightarrow> string \<Rightarrow> string" where
  "write_uninit name inits =
    pad INDENT @ nl @ pad INDENT @ ''@classmethod'' @ nl @
    pad INDENT @ ''def uninit(cls) -> '' @ quote @ name @ quote @ '':'' @ nl @
    pad (INDENT * 2) @ ''self = cls.__new__(cls)'' @ nl @ inits @ pad (INDENT * 2) @ ''return self'' @ nl @ pad INDENT @ nl"

definition write_annotations :: "nat \<Rightarrow> TypeObject list \<Rightarrow> TypePtr list option \<Rightarrow> Field list \<Rightarrow> string option" where
  "write_annotations n objs defined fs = emit_all (\<lambda>f. do {
     t \<leftarrow> write_type_name n objs (f_type f) defined;
     Some (pad INDENT @ chars (f_name f) @ '': '' @ t @ nl)
   }) fs"

definition write_struct_class :: "nat \<Rightarrow> TypeObject list \<Rightarrow> (TypePtr \<times> Layout) list \<Rightarrow> TypePtr \<Rightarrow> TypePtr list
    \<Rightarrow> (string \<times> TypePtr list) option" where
  "write_struct_class n objs layouts obj defined = do {
     s \<leftarrow> struct_of objs obj;
     t \<leftarrow> deref objs (Some obj);
     let name = chars (so_name s);
     fields \<leftarrow> write_annotations n objs (Some defined) (so_fields s);
     (ser, deser) \<leftarrow> write_type_funcs n objs layouts (Some obj) ''self'' \<lparr>ca_align = to_align t, ca_offset = 0\<rparr> (INDENT * 2) 0 True;
     uninit \<leftarrow> write_type_uninit objs (Some obj);
     Some (''@dataclass'' @ nl @ ''class '' @ name @ '':'' @ nl @ fields @ write_uninit name uninit @
       pad INDENT @ ''def serialize(self, buf: bytearray):'' @ nl @ pad (INDENT * 2) @ ''base = len(buf)'' @ nl @ ser @
       pad (INDENT * 2) @ ''return len(buf) - base'' @ nl @ pad INDENT @ nl @
       pad INDENT @ ''def deserialize(self, buf: bytes):'' @ nl @ pad (INDENT * 2) @ ''off = 0'' @ nl @ deser @
       pad (INDENT * 2) @ ''return off'' @ nl @ nl,
       obj # defined)
   }"

definition define_struct_classes :: "nat \<Rightarrow> (dependencies \<Rightarrow> dependencies) \<Rightarrow> struct_sort \<Rightarrow> Program \<Rightarrow> string option" where
  "define_struct_classes n it qp p = do {
     (t, _) \<leftarrow> define_structs n it qp (pr_type_objects p) (pr_typedefs p)
       (write_struct_class n (pr_type_objects p) (pr_layouts p)) [];
     Some t
   }"

section \<open>Messages\<close>

text \<open>The magics and the tag of a message are packed big-endian.\<close>

definition message_serialize :: "nat \<Rightarrow> string \<Rightarrow> string" where
  "message_serialize tag ser =
    pad INDENT @ ''def serialize(self, buf: bytearray):'' @ nl @ pad (INDENT * 2) @ ''base = len(buf)'' @ nl @
    pad (INDENT * 2) @ ''buf += pack('' @ quote @ ''>QH'' @ quote @ '', MSG_MAGIC_START, '' @ decimal tag @ '')'' @ nl @ ser @
    pad (INDENT * 2) @ ''buf += pack('' @ quote @ ''>Q'' @ quote @ '', MSG_MAGIC_END)'' @ nl @
    pad (INDENT * 2) @ ''return len(buf) - base'' @ nl @ pad INDENT @ nl"

definition message_deserialize :: "nat \<Rightarrow> string \<Rightarrow> string \<Rightarrow> string" where
  "message_deserialize tag name deser =
    pad INDENT @ ''@classmethod'' @ nl @
    pad INDENT @ ''def _deserialize(cls, buf: bytes) -> Tuple['' @ quote @ name @ quote @ '', int]:'' @ nl @
    pad (INDENT * 2) @ ''magic_start, tag = unpack('' @ quote @ ''>QH'' @ quote @ '', buf[0:10])'' @ nl @
    pad (INDENT * 2) @ ''if magic_start != MSG_MAGIC_START or tag != '' @ decimal tag @ '':'' @ nl @
    pad (INDENT * 3) @ ''raise ValueError'' @ nl @ pad (INDENT * 2) @ ''off = 10'' @ nl @
    pad (INDENT * 2) @ ''self = '' @ name @ ''.uninit()'' @ nl @ deser @
    pad (INDENT * 2) @ ''magic_end = unpack('' @ quote @ ''>Q'' @ quote @ '', buf[off:off + 8])[0]'' @ nl @
    pad (INDENT * 2) @ ''if magic_end != MSG_MAGIC_END:'' @ nl @ pad (INDENT * 3) @ ''raise ValueError'' @ nl @
    pad (INDENT * 2) @ ''off += 8'' @ nl @ pad (INDENT * 2) @ ''return self, off'' @ nl @ nl"

definition py_version_field :: Field where
  "py_version_field = \<lparr>f_name = [0x5F, 0x76, 0x65, 0x72, 0x73, 0x69, 0x6F, 0x6E],
     f_name_span = \<lparr>loc = \<lparr>line = 0, column = 0, offset = 0\<rparr>, s_len = 0\<rparr>, f_type = Some (PRIMITIF Primitif_u64)\<rparr>"

text \<open>The struct made of a message is freed when its class is printed; its layout stays in the table.\<close>

definition define_message :: "qsort \<Rightarrow> nat \<Rightarrow> TypeObject list \<Rightarrow> StringSlice \<Rightarrow> nat \<Rightarrow> u64 \<Rightarrow> MessageObject
    \<Rightarrow> (TypePtr \<times> Layout) list \<Rightarrow> (string \<times> (TypePtr \<times> Layout) list) option" where
  "define_message qs n objs prefix tag version m layouts = do {
     let name = prefix @ mo_name m;
     let is_versioned = Attr_versioned \<in> mo_attributes m;
     let fields = mo_fields m @ (if is_versioned then [py_version_field] else []);
     let ty = Obj (length objs);
     let objs = objs @ [\<lparr>to_align = ALIGN_8, to_type = TypeStruct \<lparr>so_name = name, so_fields = fields, so_has_funcs = False\<rparr>\<rparr>];
     layout \<leftarrow> type_layout qs n objs ty;
     let layouts = AList.update ty layout layouts;
     annotations \<leftarrow> write_annotations n objs None (mo_fields m);
     (ser, deser) \<leftarrow> write_type_funcs n objs layouts (Some ty) ''self'' \<lparr>ca_align = ALIGN_8, ca_offset = 2\<rparr> (INDENT * 2) 0 True;
     uninit \<leftarrow> write_type_uninit objs (Some ty);
     Some (''@dataclass'' @ nl @ ''class '' @ chars name @ ''('' @ chars prefix @ ''Message):'' @ nl @ annotations @
       (if is_versioned then pad INDENT @ ''_version: int = '' @ lu version @ nl else []) @
       write_uninit (chars name) uninit @ message_serialize (tag mod 2 ^ 16) ser @
       message_deserialize (tag mod 2 ^ 16) (chars name) deser, layouts)
   }"

fun dispatch :: "StringSlice \<Rightarrow> MessageObject list \<Rightarrow> nat \<Rightarrow> string" where
  "dispatch prefix [] i = []"
| "dispatch prefix (m # ms) i =
    pad (INDENT * 2) @ (if i = 0 then ''if tag == 0:'' else ''elif tag == '' @ decimal i @ '':'') @ nl @
    pad (INDENT * 3) @ ''return '' @ chars prefix @ chars (mo_name m) @ ''._deserialize(buf)'' @ nl @ dispatch prefix ms (i + 1)"

definition message_base :: "StringSlice \<Rightarrow> MessageObject list \<Rightarrow> string" where
  "message_base prefix ms =
    ''class '' @ chars prefix @ ''Message(ABC):'' @ nl @
    pad INDENT @ ''@abstractmethod'' @ nl @
    pad INDENT @ ''def serialize(self, buf: bytearray) -> int:'' @ nl @ pad (INDENT * 2) @ ''pass'' @ nl @
    pad INDENT @ ''@classmethod'' @ nl @
    pad INDENT @ ''def deserialize(cls, buf: bytes) -> Tuple['' @ quote @ ''Message'' @ quote @ '', int]:'' @ nl @
    pad (INDENT * 2) @ ''magic_start, tag = unpack('' @ quote @ ''>QH'' @ quote @ '', buf[0:10])'' @ nl @
    pad (INDENT * 2) @ ''if magic_start != MSG_MAGIC_START:'' @ nl @ pad (INDENT * 3) @ ''raise ValueError'' @ nl @
    dispatch prefix ms 0 @
    pad (INDENT * 2) @ ''else:'' @ nl @ pad (INDENT * 3) @ ''raise ValueError'' @ nl"

fun define_message_list :: "(nat \<Rightarrow> MessageObject \<Rightarrow> (TypePtr \<times> Layout) list \<Rightarrow> (string \<times> (TypePtr \<times> Layout) list) option)
    \<Rightarrow> nat \<Rightarrow> MessageObject list \<Rightarrow> (TypePtr \<times> Layout) list \<Rightarrow> (string \<times> (TypePtr \<times> Layout) list) option" where
  "define_message_list define i [] layouts = Some ([], layouts)"
| "define_message_list define i (m # ms) layouts = do {
     (t, layouts) \<leftarrow> define i m layouts;
     (ts, layouts) \<leftarrow> define_message_list define (i + 1) ms layouts;
     Some (t @ ts, layouts)
   }"

fun define_messages :: "qsort \<Rightarrow> nat \<Rightarrow> TypeObject list \<Rightarrow> MessagesObject list \<Rightarrow> (TypePtr \<times> Layout) list \<Rightarrow> string option" where
  "define_messages qs n objs [] layouts = Some []"
| "define_messages qs n objs (msgs # groups) layouts = do {
     (t, layouts) \<leftarrow> define_message_list (\<lambda>i. define_message qs n objs (mso_name msgs) i (mso_version msgs)) 0 (mso_messages msgs) layouts;
     ts \<leftarrow> define_messages qs n objs groups layouts;
     Some (message_base (mso_name msgs) (mso_messages msgs) @ t @ ts)
   }"

definition python_prologue :: string where
  "python_prologue =
    ''# generated file'' @ nl @ ''from dataclasses import dataclass'' @ nl @ ''from typing import List, Tuple'' @ nl @
    ''from abc import ABC, abstractmethod'' @ nl @ ''from struct import pack, unpack'' @ nl @ nl @
    ''MSG_MAGIC_START = 0x'' @ lX016 MSG_MAGIC_START @ nl @
    ''MSG_MAGIC_END = 0x'' @ lX016 MSG_MAGIC_END @ nl @ nl"

definition codegen_python :: "qsort \<Rightarrow> struct_sort \<Rightarrow> (dependencies \<Rightarrow> dependencies) \<Rightarrow> nat \<Rightarrow> Program \<Rightarrow> string option" where
  "codegen_python qs qp it n p = do {
     classes \<leftarrow> define_struct_classes n it qp p;
     ms \<leftarrow> define_messages qs n (pr_type_objects p) (pr_messages p) (pr_layouts p);
     Some (python_prologue @ classes @ ms)
   }"

end
