(* ===== verification/Codegen_Deviations.thy ===== *)
theory Codegen_Deviations
  imports Codegen_Net Codegen_Python
begin

text \<open>
  Schemas on which the code generators print code that does not do what it means to.
\<close>

section \<open>Offsets after padding\<close>

text \<open>A message with one field of four bytes. The position behind the tag is 2 modulo 8, so the field
  starts at 4 and ends at the multiple 8; but the padding before it is not counted in the position.\<close>

definition one_field :: MessageObject where
  "one_field = \<lparr>mo_name = bytes ''M'', mo_fields = [\<lparr>f_name = bytes ''a'', f_name_span = \<lparr>loc = location 0 0 0, s_len = 1\<rparr>,
     f_type = Some U32\<rparr>], mo_attributes = {}\<rparr>"


section \<open>Padding in Python\<close>

definition abs_writer :: "string list" where
  "abs_writer = [''        buf += pack('' @ quote @ ''<IIIIIH'' @ quote @ '','', ''                    self.min,'',
     ''                    self.max,'', ''                    self.fuzz,'', ''                    self.flat,'',
     ''                    self.res,'', ''                    self.id)'']"

definition abs_reader :: "string list" where
  "abs_reader = [''        xs0 = unpack('' @ quote @ ''<IIIIIH'' @ quote @ '', buf[off:off + 22])'', ''        self.min = xs0[0]'',
     ''        self.max = xs0[1]'', ''        self.fuzz = xs0[2]'', ''        self.flat = xs0[3]'', ''        self.res = xs0[4]'',
     ''        self.id = xs0[5]'', ''        off += 24'']"


end
