(* ===== verification/Writer.thy ===== *)
theory Writer
  imports Vectors
begin

text \<open>
  The writers of \<^verbatim>\<open>ser/codegen.c\<close>: a buffer in memory that is closed by a NUL, a file, and a writer
  that drops what it is given. The text of a formatted write is an argument; \<open>vsnprintf\<close> stores as much
  of it as there is room for. The locale \<open>writer\<close> is the contract the code generators rely on: a write
  appends its text. Writing to a file is taken to succeed.
\<close>

section \<open>The writers\<close>

type_synonym BufferedWriter = "char Vector"

datatype Writer = is_Buffered: Buffered BufferedWriter | is_File: File string | Null

definition NUL :: char where "NUL = CHR 0x00"

definition buffered_writer_write :: "string \<Rightarrow> BufferedWriter \<Rightarrow> BufferedWriter option" where
  "buffered_writer_write text w = do {
     let w = vector_grow w (len w + length text + 1);
     d \<leftarrow> store (map Some text) (slots w) (len w);
     d \<leftarrow> store [Some NUL] d (len w + length text);
     Some (w\<lparr>data := Some d, len := len w + length text\<rparr>)
   }"

text \<open>At most \<open>n\<close> characters are stored, the last one a NUL; the result is the length of the whole text.\<close>

definition vsnprintf :: "char option list \<Rightarrow> nat \<Rightarrow> nat \<Rightarrow> string \<Rightarrow> (char option list \<times> nat) option" where
  "vsnprintf d p n text =
    (if n = 0 then Some (d, length text)
     else do {
       d \<leftarrow> store (map Some (take (n - 1) text @ [NUL])) d p;
       Some (d, length text)
     })"

definition buffered_writer_format :: "string \<Rightarrow> BufferedWriter \<Rightarrow> BufferedWriter option" where
  "buffered_writer_format text w = do {
     let room = cap w - len w;
     (d, n) \<leftarrow> vsnprintf (slots w) (len w) room text;
     let w = with_slots w d;
     if room \<le> n then do {
       let w = vector_grow w (len w + n + 1);
       (d, _) \<leftarrow> vsnprintf (slots w) (len w) (n + 1) text;
       Some ((with_slots w d)\<lparr>len := len w + n\<rparr>)
     }
     else Some (w\<lparr>len := len w + n\<rparr>)
   }"

definition buffered_writer_init :: Writer where
  "buffered_writer_init = Buffered (vector_grow vector_init 512)"

text \<open>Opening a file empties it; when that fails the program stops.\<close>

definition file_writer_init :: "bool \<Rightarrow> Writer option" where
  "file_writer_init opened = (if opened then Some (File []) else None)"

definition null_writer_init :: Writer where "null_writer_init = Null"

fun wt_write :: "string \<Rightarrow> Writer \<Rightarrow> Writer option" where
  "wt_write text (Buffered w) = map_option Buffered (buffered_writer_write text w)"
| "wt_write text (File t) = Some (File (t @ text))"
| "wt_write text Null = Some Null"

fun wt_format :: "string \<Rightarrow> Writer \<Rightarrow> Writer option" where
  "wt_format text (Buffered w) = map_option Buffered (buffered_writer_format text w)"
| "wt_format text (File t) = Some (File (t @ text))"
| "wt_format text Null = Some Null"

section \<open>The contract\<close>

datatype print_call = Write string | Format string

primrec call_text :: "print_call \<Rightarrow> string" where
  "call_text (Write t) = t"
| "call_text (Format t) = t"

fun print_calls :: "(string \<Rightarrow> 'w \<Rightarrow> 'w option) \<Rightarrow> (string \<Rightarrow> 'w \<Rightarrow> 'w option) \<Rightarrow> print_call list \<Rightarrow> 'w \<Rightarrow> 'w option" where
  "print_calls wr fmt [] w = Some w"
| "print_calls wr fmt (c # cs) w = do {
     w \<leftarrow> (case c of Write t \<Rightarrow> wr t w | Format t \<Rightarrow> fmt t w);
     print_calls wr fmt cs w
   }"

locale writer =
  fixes inv :: "'w \<Rightarrow> bool"
    and printed :: "'w \<Rightarrow> string"
    and wr :: "string \<Rightarrow> 'w \<Rightarrow> 'w option"
    and fmt :: "string \<Rightarrow> 'w \<Rightarrow> 'w option"
  assumes write_ok: "inv w \<Longrightarrow> \<exists>w'. wr t w = Some w' \<and> inv w' \<and> printed w' = printed w @ t"
    and format_ok: "inv w \<Longrightarrow> \<exists>w'. fmt t w = Some w' \<and> inv w' \<and> printed w' = printed w @ t"
begin

lemma calls_print:
  "inv w \<Longrightarrow> \<exists>w'. print_calls wr fmt cs w = Some w' \<and> inv w' \<and> printed w' = printed w @ concat (map call_text cs)"
proof (induction cs arbitrary: w)
  case Nil
  then show ?case by simp
next
  case (Cons c cs)
  obtain w1 where w1: "(case c of Write t \<Rightarrow> wr t w | Format t \<Rightarrow> fmt t w) = Some w1" "inv w1"
      "printed w1 = printed w @ call_text c"
  proof -
    have "\<exists>w1. (case c of Write t \<Rightarrow> wr t w | Format t \<Rightarrow> fmt t w) = Some w1 \<and> inv w1 \<and> printed w1 = printed w @ call_text c"
      using write_ok [OF Cons.prems] format_ok [OF Cons.prems] by (cases c) simp_all
    then show ?thesis using that by blast
  qed
  show ?case using Cons.IH [OF w1(2)] w1 by auto
qed

end

section \<open>The buffer\<close>

lemma store_twice:
  assumes "holds d n xs" and "n + length ys + 1 \<le> length d"
  shows "store (map Some (ys @ [z])) d n = Some (put (map Some (ys @ [z])) d n)"
    and "length (put (map Some (ys @ [z])) d n) = length d"
    and "holds (put (map Some (ys @ [z])) d n) (n + length ys) (xs @ ys)"
    and "put (map Some (ys @ [z])) d n ! (n + length ys) = Some z"
    and "\<exists>d'. store (map Some ys) d n = Some d' \<and> store [Some z] d' (n + length ys) = Some (put (map Some (ys @ [z])) d n)"
proof -
  have len: "n \<le> length d" "take n d = map Some xs" "length xs = n"
    using assms(1) holds_length [OF assms(1)] by (auto simp: holds_def)
  show "store (map Some (ys @ [z])) d n = Some (put (map Some (ys @ [z])) d n)"
    using assms(2) by (simp add: store_def)
  show "length (put (map Some (ys @ [z])) d n) = length d"
    using assms(2) by (simp add: length_put)
  show "holds (put (map Some (ys @ [z])) d n) (n + length ys) (xs @ ys)"
    using assms(2) len by (simp add: holds_def put_def)
  show "put (map Some (ys @ [z])) d n ! (n + length ys) = Some z"
    using len by (simp add: put_def nth_append min_def)
  let ?d = "put (map Some ys) d n"
  have l: "length ?d = length d" using assms(2) by (simp add: length_put)
  have "take (n + length ys) ?d = take n d @ map Some ys" "drop (n + length ys + 1) ?d = drop (n + length ys + 1) d"
    using len assms(2) by (simp_all add: put_def min_def)
  moreover have "put [Some z] ?d (n + length ys) = take (n + length ys) ?d @ [Some z] @ drop (n + length ys + 1) ?d"
    by (simp add: put_def [of "[Some z]"])
  ultimately have "put [Some z] ?d (n + length ys) = put (map Some (ys @ [z])) d n"
    by (simp add: put_def [of "map Some ys @ [Some z]"])
  then show "\<exists>d'. store (map Some ys) d n = Some d' \<and> store [Some z] d' (n + length ys) = Some (put (map Some (ys @ [z])) d n)"
    using assms(2) l by (simp add: store_def)
qed

text \<open>A buffer that something has been written to is closed by a NUL.\<close>

definition terminated :: "BufferedWriter \<Rightarrow> bool" where
  "terminated w \<longleftrightarrow> len w < cap w \<and> slots w ! len w = Some NUL"

lemma buffered_write_rep:
  assumes "vector_rep w xs"
  shows "\<exists>w'. buffered_writer_write t w = Some w' \<and> vector_rep w' (xs @ t) \<and> terminated w'"
proof -
  let ?w = "vector_grow w (len w + length t + 1)"
  have w: "vector_rep ?w xs" "len w + length t + 1 \<le> cap ?w" "len ?w = len w"
    using vector_grow_rep [OF assms] by auto
  then have h: "holds (slots ?w) (len w) xs" and l: "len w + length t + 1 \<le> length (slots ?w)" "length (slots ?w) = cap ?w"
    by (auto simp: vector_rep_def)
  note s = store_twice [OF h l(1), of NUL]
  obtain d where d: "store (map Some t) (slots ?w) (len w) = Some d"
      "store [Some NUL] d (len w + length t) = Some (put (map Some (t @ [NUL])) (slots ?w) (len w))"
    using s(5) by blast
  show ?thesis
    using d s(2-4) w(2,3) l by (simp add: buffered_writer_write_def vector_rep_def terminated_def Let_def)
qed

lemma vsnprintf_fits:
  "length t < n \<Longrightarrow> vsnprintf d p n t = map_option (\<lambda>d. (d, length t)) (store (map Some (t @ [NUL])) d p)"
  by (cases "store (map Some (t @ [NUL])) d p") (simp_all add: vsnprintf_def)

lemma vsnprintf_short:
  assumes "vector_rep w xs"
  shows "\<exists>d. vsnprintf (slots w) (len w) (cap w - len w) t = Some (d, length t) \<and> vector_rep (with_slots w d) xs \<and>
    len (with_slots w d) = len w \<and> cap (with_slots w d) = cap w"
proof (cases "cap w - len w = 0")
  case True
  moreover have "with_slots w (slots w) = w" by (cases w) (auto simp: with_slots_def slots_def split: option.split)
  ultimately show ?thesis using assms by (simp add: vsnprintf_def)
next
  case False
  have h: "holds (slots w) (len w) xs" "length (slots w) = cap w" using assms by (auto simp: vector_rep_def)
  have "len w + length (take (cap w - len w - 1) t) + 1 \<le> length (slots w)" using False h(2) by simp
  note s = store_twice [OF h(1) this, of NUL]
  have "take (len w) (put (map Some (take (cap w - len w - 1) t @ [NUL])) (slots w) (len w)) = take (len w) (slots w)"
    using False h(2) by (simp add: put_def min_def)
  then show ?thesis
    using False s(1,2) h by (auto simp: vsnprintf_def vector_rep_def holds_def)
qed

lemma buffered_format_rep:
  assumes "vector_rep w xs"
  shows "\<exists>w'. buffered_writer_format t w = Some w' \<and> vector_rep w' (xs @ t) \<and> terminated w'"
proof -
  obtain d where d: "vsnprintf (slots w) (len w) (cap w - len w) t = Some (d, length t)"
    and r: "vector_rep (with_slots w d) xs" "len (with_slots w d) = len w" "cap (with_slots w d) = cap w"
    using vsnprintf_short [OF assms] by blast
  have "\<exists>d. store (map Some (t @ [NUL])) (slots v) (len w) = Some d \<and> vector_rep ((with_slots v d)\<lparr>len := len w + length t\<rparr>) (xs @ t)
      \<and> terminated ((with_slots v d)\<lparr>len := len w + length t\<rparr>)"
    if v: "vector_rep v xs" "len v = len w" "len w + length t + 1 \<le> cap v" for v
  proof -
    have h: "holds (slots v) (len w) xs" and l: "len w + length t + 1 \<le> length (slots v)" "length (slots v) = cap v"
      using v by (auto simp: vector_rep_def)
    note s = store_twice [OF h l(1), of NUL]
    show ?thesis
      using s(1-4) v(3) l(2) by (auto simp: vector_rep_def terminated_def)
  qed
  note stored = this
  show ?thesis
  proof (cases "cap w - len w \<le> length t")
    case True
    let ?v = "vector_grow (with_slots w d) (len w + length t + 1)"
    have "vector_rep ?v xs" "len ?v = len w" "len w + length t + 1 \<le> cap ?v"
      using vector_grow_rep [OF r(1)] r(2) by auto
    from stored [OF this] this(2) show ?thesis
      using d True r by (auto simp: buffered_writer_format_def vsnprintf_fits)
  next
    case False
    then have "len w + length t + 1 \<le> cap w" by simp
    from stored [OF assms refl this] show ?thesis
      using d False by (auto simp: buffered_writer_format_def vsnprintf_fits)
  qed
qed

section \<open>The contract holds\<close>

fun writer_inv :: "Writer \<Rightarrow> bool" where
  "writer_inv (Buffered w) = vector_inv w"
| "writer_inv (File t) = True"
| "writer_inv Null = False"

fun writer_text :: "Writer \<Rightarrow> string" where
  "writer_text (Buffered w) = vector_elems w"
| "writer_text (File t) = t"
| "writer_text Null = []"

lemma buffered_ok:
  assumes "\<And>xs. vector_rep w xs \<Longrightarrow> \<exists>w'. op w = Some w' \<and> vector_rep w' (xs @ t) \<and> terminated w'" and "vector_inv w"
  shows "\<exists>w'. op w = Some w' \<and> vector_inv w' \<and> vector_elems w' = vector_elems w @ t"
proof -
  obtain w' where "op w = Some w'" "vector_rep w' (vector_elems w @ t)"
    using assms by (auto simp: vector_inv_def)
  then show ?thesis using vector_inv_rep vector_elems_rep by blast
qed

interpretation any_writer: writer writer_inv writer_text wt_write wt_format
proof unfold_locales
  show "\<exists>w'. wt_write t w = Some w' \<and> writer_inv w' \<and> writer_text w' = writer_text w @ t" if "writer_inv w" for w t
  proof (cases w)
    case (Buffered b)
    with that buffered_ok [where w = b and t = t and op = "buffered_writer_write t", OF buffered_write_rep] show ?thesis by auto
  qed (use that in auto)
  show "\<exists>w'. wt_format t w = Some w' \<and> writer_inv w' \<and> writer_text w' = writer_text w @ t" if "writer_inv w" for w t
  proof (cases w)
    case (Buffered b)
    with that buffered_ok [where w = b and t = t and op = "buffered_writer_format t", OF buffered_format_rep] show ?thesis by auto
  qed (use that in auto)
qed

lemma writers_start: "writer_inv buffered_writer_init" "writer_text buffered_writer_init = []" "writer_inv (File [])"
  using vector_grow_rep(1) [OF vector_init_rep, of 512]
  by (auto simp: buffered_writer_init_def dest: vector_inv_rep vector_elems_rep)

lemma same_kind:
  "wt_write t v = Some v' \<Longrightarrow> is_Buffered v' = is_Buffered v \<and> is_File v' = is_File v"
  "wt_format t v = Some v' \<Longrightarrow> is_Buffered v' = is_Buffered v \<and> is_File v' = is_File v"
  by (cases v; auto)+

lemma calls_same_kind:
  "print_calls wt_write wt_format cs v = Some v' \<Longrightarrow> is_Buffered v' = is_Buffered v \<and> is_File v' = is_File v"
proof (induction cs arbitrary: v)
  case (Cons c cs)
  then show ?case by (cases c) (auto split: bind_splits dest!: same_kind Cons.IH)
qed simp

text \<open>C26: Whatever is written to a fresh buffered writer, piece by piece and formatted or not, no write
  leaves its allocation and the buffer then holds all the texts in order; a file holds the same.\<close>
theorem writers_append:
  "\<exists>w. print_calls wt_write wt_format cs buffered_writer_init = Some (Buffered w) \<and>
     vector_rep w (concat (map call_text cs)) \<and>
     map_option (print_calls wt_write wt_format cs) (file_writer_init True) = Some (Some (File (concat (map call_text cs))))"
proof -
  obtain v where v: "print_calls wt_write wt_format cs buffered_writer_init = Some v" "writer_inv v"
      "writer_text v = concat (map call_text cs)"
    using any_writer.calls_print [OF writers_start(1), of cs] writers_start(2) by auto
  obtain f where f: "print_calls wt_write wt_format cs (File []) = Some f" "writer_text f = concat (map call_text cs)"
    using any_writer.calls_print [OF writers_start(3), of cs] by auto
  have "is_Buffered v" "is_File f"
    using calls_same_kind [OF v(1)] calls_same_kind [OF f(1)] by (simp_all add: buffered_writer_init_def)
  then obtain b t where "v = Buffered b" "f = File t" by (cases v; cases f) auto
  with v f show ?thesis
    by (auto simp: file_writer_init_def vector_inv_def)
qed

end
