(* ===== verification/Driver.thy ===== *)
theory Driver
  imports Codegen_C Codegen_Python Parser Writer
begin

text \<open>
  The compiler as a whole (\<^verbatim>\<open>ser/main.c\<close>): its arguments, the passes, and the files it writes. The files
  there are, the byte behind the bytes of a file in memory and the paths that can be written to are
  arguments. A result of \<^const>\<open>None\<close> is a crash, a failed assertion, a pass that does not end, or fuel
  that does not suffice.
\<close>

datatype Backend = BackendC | BackendPython

definition backend_map :: "(StringSlice \<times> Backend) list" where
  "backend_map = [(bytes ''c'', BackendC), (bytes ''python'', BackendPython)]"

text \<open>Without a result the program reports the backend and exits.\<close>

definition parse_backend :: "StringSlice \<Rightarrow> Backend option" where
  "parse_backend b = map_of backend_map b"

text \<open>What follows the last slash.\<close>

definition basename :: "StringSlice \<Rightarrow> StringSlice" where
  "basename output = rev (takeWhile (\<lambda>c. c \<noteq> 0x2F) (rev output))"

datatype Outcome = Failure | Written "(StringSlice \<times> Writer) list"

text \<open>An argument that was not given is a null pointer, which is a crash where it is used.\<close>

definition argument :: "StringSlice list \<Rightarrow> nat \<Rightarrow> StringSlice option" where
  "argument argv i = (if i < length argv then Some (argv ! i) else None)"

definition write_c :: "qsort \<Rightarrow> struct_sort \<Rightarrow> (dependencies \<Rightarrow> dependencies) \<Rightarrow> nat \<Rightarrow> (StringSlice \<Rightarrow> bool)
    \<Rightarrow> StringSlice \<Rightarrow> Program \<Rightarrow> Outcome option" where
  "write_c qs qp it n writable output p = do {
     let header_path = output @ bytes ''.h'';
     let source_path = output @ bytes ''.c'';
     header \<leftarrow> file_writer_init (writable header_path);
     source \<leftarrow> file_writer_init (writable source_path);
     (h, s) \<leftarrow> codegen_c qs qp it n (basename output) p;
     header \<leftarrow> wt_format h header;
     source \<leftarrow> wt_format s source;
     Some (Written [(header_path, header), (source_path, source)])
   }"

definition write_python :: "qsort \<Rightarrow> struct_sort \<Rightarrow> (dependencies \<Rightarrow> dependencies) \<Rightarrow> nat \<Rightarrow> (StringSlice \<Rightarrow> bool)
    \<Rightarrow> StringSlice \<Rightarrow> Program \<Rightarrow> Outcome option" where
  "write_python qs qp it n writable output p = do {
     source \<leftarrow> file_writer_init (writable output);
     t \<leftarrow> codegen_python qs qp it n p;
     source \<leftarrow> wt_format t source;
     Some (Written [(output, source)])
   }"

text \<open>The passes; each stops the program when it reports an error. A number of arguments other than three is
  reported, but the program goes on.\<close>

definition compile_source :: "qsort \<Rightarrow> nat \<Rightarrow> Source \<Rightarrow> Program option option" where
  "compile_source qs n source = do {
     lexing_result \<leftarrow> lex_source source;
     if lr_errors lexing_result \<noteq> [] then Some None
     else do {
       (root, es) \<leftarrow> parse (lr_tokens lexing_result);
       if es \<noteq> [] then Some None
       else do {
         (p, es) \<leftarrow> resolve_statics qs n root;
         if es \<noteq> [] then Some None else Some (Some p)
       }
     }
   }"

definition ser_main :: "qsort \<Rightarrow> struct_sort \<Rightarrow> (dependencies \<Rightarrow> dependencies) \<Rightarrow> nat
    \<Rightarrow> (StringSlice \<Rightarrow> (byte list \<times> nat) option) \<Rightarrow> byte \<Rightarrow> (StringSlice \<Rightarrow> bool) \<Rightarrow> StringSlice list \<Rightarrow> Outcome option" where
  "ser_main qs qp it n files junk writable argv = do {
     b \<leftarrow> argument argv 2;
     case parse_backend b of
       None \<Rightarrow> Some Failure
     | Some back \<Rightarrow> do {
         source_path \<leftarrow> argument argv 1;
         case source_open source_path (files source_path) junk of
           (SourceErrorNoError, Some source) \<Rightarrow> do {
             result \<leftarrow> compile_source qs n source;
             case result of
               None \<Rightarrow> Some Failure
             | Some p \<Rightarrow> do {
                 output \<leftarrow> argument argv 3;
                 case back of
                   BackendC \<Rightarrow> write_c qs qp it n writable output p
                 | BackendPython \<Rightarrow> write_python qs qp it n writable output p
               }
           }
         | _ \<Rightarrow> Some Failure
       }
   }"

end
