(* ===== verification/Compile_Net.thy ===== *)
theory Compile_Net
  imports Codegen_Net Parser_Correct Driver
begin

text \<open>
  The whole compiler on the schema of this repository: from the bytes of \<^verbatim>\<open>net.ser\<close> through the lexer,
  the parser and the evaluator to the program of the theory \<open>Codegen_Net\<close>, and so to \<^verbatim>\<open>net.h\<close> and
  \<^verbatim>\<open>net.c\<close>.
\<close>

section \<open>The declarations\<close>

definition plain :: "string \<Rightarrow> string \<Rightarrow> SField" where "plain name ty = (bytes name, bytes ty, [])"

definition array_of :: "string \<Rightarrow> string \<Rightarrow> bool \<Rightarrow> SSize \<Rightarrow> SField" where
  "array_of name ty heap sz = (bytes name, bytes ty, [(heap, sz)])"

definition net_schema :: "SItem list" where
  "net_schema =
    [SStruct (bytes ''Abs'') [plain ''id'' ''u16'', plain ''min'' ''u32'', plain ''max'' ''u32'', plain ''fuzz'' ''u32'',
       plain ''flat'' ''u32'', plain ''res'' ''u32''],
     SStruct (bytes ''Rel'') [plain ''id'' ''u16''],
     SStruct (bytes ''Key'') [plain ''id'' ''u16''],
     SConst (bytes ''ABS_CNT'') (SLit (bytes ''64'')),
     SConst (bytes ''REL_CNT'') (SLit (bytes ''16'')),
     SConst (bytes ''KEY_CNT'') (SLit (bytes ''768'')),
     SStruct (bytes ''Tag'') [array_of ''name'' ''char'' True SNone],
     SStruct (bytes ''TagList'') [array_of ''tags'' ''Tag'' True SNone],
     SVersion (SLit (bytes ''1'')),
     SMessages (bytes ''Device'')
      [SMessage (bytes ''Info'') [plain ''slot'' ''u8'', plain ''index'' ''u8'',
         array_of ''abs'' ''Abs'' False (SMax (SRef (bytes ''ABS_CNT''))),
         array_of ''rel'' ''Rel'' False (SMax (SRef (bytes ''REL_CNT''))),
         array_of ''key'' ''Key'' False (SMax (SRef (bytes ''KEY_CNT'')))],
       SMessage (bytes ''Report'') [plain ''slot'' ''u8'', plain ''index'' ''u8'',
         array_of ''abs'' ''u32'' False (SMax (SRef (bytes ''ABS_CNT''))),
         array_of ''rel'' ''u32'' False (SMax (SRef (bytes ''REL_CNT''))),
         array_of ''key'' ''u8'' False (SMax (SRef (bytes ''KEY_CNT'')))],
       SMessage (bytes ''ControllerState'') [plain ''index'' ''u16'', array_of ''led'' ''u8'' False (SFixed (SLit (bytes ''3''))),
         plain ''small_rumble'' ''u8'', plain ''big_rumble'' ''u8'', plain ''flash_on'' ''u8'', plain ''flash_off'' ''u8''],
       SAttribute attr_versioned,
       SMessage (bytes ''Request'') [array_of ''requests'' ''TagList'' True SNone],
       SMessage (bytes ''Destroy'') [plain ''index'' ''u16'']]]"

section \<open>What a tree of given declarations looks like\<close>

lemma bytes_eq [simp]: "bytes s = bytes t \<longleftrightarrow> s = t"
  by (metis chars_bytes)

lemma bytes_Nil [simp]: "bytes s = [] \<longleftrightarrow> s = []"
  by (simp add: bytes_def)

lemma abs_item_iff:
  "abs_item i = SStruct n fs \<longleftrightarrow> (\<exists>s. i = AstItem.ATStruct s \<and> token_text (st_ident s) = n \<and> map abs_field (st_fields s) = fs)"
  "abs_item i = SConst n v \<longleftrightarrow> (\<exists>c. i = AstItem.ATConstant c \<and> token_text (co_name c) = n \<and> abs_number (co_value c) = v)"
  "abs_item i = SVersion v \<longleftrightarrow> (\<exists>d. i = AstItem.ATVersion d \<and> abs_number (ver_number d) = v)"
  "abs_item i = SMessages n cs \<longleftrightarrow> (\<exists>m. i = AstItem.ATMessages m \<and> token_text (ms_name m) = n \<and> map abs_child (ms_children m) = cs)"
  by (cases i; auto)+

lemma abs_child_iff:
  "abs_child c = SAttribute n \<longleftrightarrow> (\<exists>a. c = AstAttributeOrMessage.ATAttribute a \<and> token_text (at_ident a) = n)"
  "abs_child c = SMessage n fs \<longleftrightarrow> (\<exists>m. c = AstAttributeOrMessage.ATMessage m \<and> token_text (mg_ident m) = n \<and> map abs_field (mg_fields m) = fs)"
  by (cases c; auto)+

lemma abs_number_iff:
  "ds \<noteq> [] \<Longrightarrow> abs_number k = SLit ds \<longleftrightarrow>
     t_type (num_token k) = Number \<and> token_text (num_token k) = ds \<and> lit (num_token k) = of_nat (digits_nat 0 ds)"
  "abs_number k = SRef n \<longleftrightarrow> t_type (num_token k) = Ident \<and> token_text (num_token k) = n"
  by (auto simp: abs_number_def Let_def)

lemma abs_type_cases:
  "abs_type t = (n, []) \<longleftrightarrow> (\<exists>i. t = AstType.ATIdent i \<and> token_text (id_token i) = n)"
  "abs_type t = (n, [(True, sz)]) \<longleftrightarrow> (\<exists>s i z. t = AstType.ATHeapArray s (AstType.ATIdent i) z \<and> token_text (id_token i) = n \<and> abs_size z = sz)"
  "abs_type t = (n, [(False, sz)]) \<longleftrightarrow> (\<exists>s i z. t = AstType.ATFieldArray s (AstType.ATIdent i) z \<and> token_text (id_token i) = n \<and> abs_size z = sz)"
proof -
  show a: "abs_type t = (n, []) \<longleftrightarrow> (\<exists>i. t = AstType.ATIdent i \<and> token_text (id_token i) = n)" for t n
    by (cases t) auto
  have b: "abs_type u = (fst (abs_type u), [])" if "snd (abs_type u) = []" for u
    using that by (metis prod.collapse)
  show "abs_type t = (n, [(True, sz)]) \<longleftrightarrow> (\<exists>s i z. t = AstType.ATHeapArray s (AstType.ATIdent i) z \<and> token_text (id_token i) = n \<and> abs_size z = sz)"
    by (cases t) (auto simp: a dest!: b)
  show "abs_type t = (n, [(False, sz)]) \<longleftrightarrow> (\<exists>s i z. t = AstType.ATFieldArray s (AstType.ATIdent i) z \<and> token_text (id_token i) = n \<and> abs_size z = sz)"
    by (cases t) (auto simp: a dest!: b)
qed

lemma abs_size_iff:
  "abs_size z = SNone \<longleftrightarrow> (\<exists>s. z = AstSize.ATNoSize s)"
  "abs_size z = SMax m \<longleftrightarrow> (\<exists>s k. z = AstSize.ATMaxSize s k \<and> abs_number k = m)"
  "abs_size z = SFixed m \<longleftrightarrow> (\<exists>s k. z = AstSize.ATFixedSize s k \<and> abs_number k = m)"
  by (cases z; auto)+

section \<open>Fields\<close>

lemma resolve_known:
  "map_of (ec_typedefs ctx) (token_text t) = Some v \<Longrightarrow> resolve_type (Suc n) (sss_from_token t) ctx = Some (v, ctx)"
  by (simp add: sss_from_token_def)

lemma resolve_plain:
  assumes "abs_field f = plain name ty" and "map_of (ec_typedefs ctx) (bytes ty) = Some (Some p)"
  shows "resolve_field (resolve_type (Suc n)) f ctx = Some (field (span (fd_name f)) name p, ctx)"
proof -
  obtain i where "fd_type f = AstType.ATIdent i" "token_text (id_token i) = bytes ty" "token_text (fd_name f) = bytes name"
    using assms(1) by (auto simp: abs_field_def plain_def abs_type_cases)
  with assms(2) show ?thesis
    by (simp add: resolve_field_def resolve_known field_def string_slice_from_token_def del: resolve_type.simps)
qed

lemma resolve_array:
  assumes f: "abs_field f = array_of name ty heap sz" and ty: "map_of (ec_typedefs ctx) (bytes ty) = Some (Some p)"
    and sz: "\<And>z c. abs_size z = sz \<Longrightarrow> ec_constants c = ec_constants ctx \<Longrightarrow> ast_size_to_sizing z c = ((v, k), c)"
  shows "resolve_field (resolve_type (Suc n)) f ctx = Some (field (span (fd_name f)) name (Obj (length (ec_type_objects ctx))),
     ctx\<lparr>ec_type_objects := ec_type_objects ctx @
       [\<lparr>to_align = unresolved_align, to_type = TypeArray \<lparr>ar_sizing = v, ar_size = k, ar_heap = heap, ar_type = Some p\<rparr>\<rparr>]\<rparr>)"
proof -
  obtain s i z where t: "fd_type f = (if heap then AstType.ATHeapArray else AstType.ATFieldArray) s (AstType.ATIdent i) z"
      "token_text (id_token i) = bytes ty" "token_text (fd_name f) = bytes name" "abs_size z = sz"
    using f by (cases heap) (auto simp: abs_field_def array_of_def abs_type_cases)
  define c where "c = snd (new_object raw_array ctx)"
  have c: "new_object raw_array ctx = (length (ec_type_objects ctx), c)" "ec_constants c = ec_constants ctx"
    "ec_typedefs c = ec_typedefs ctx"
    by (simp_all add: c_def new_object_def)
  have r: "resolve_type (Suc n) (sss_from_token (id_token i)) c = Some (Some p, c)"
    using resolve_known [of c "id_token i" "Some p" n] ty t(2) c(3) by simp
  have "set_object (length (ec_type_objects ctx)) ty' c =
      ctx\<lparr>ec_type_objects := ec_type_objects ctx @ [\<lparr>to_align = unresolved_align, to_type = ty'\<rparr>]\<rparr>" for ty'
    by (simp add: c_def new_object_def set_object_def nth_append)
  then show ?thesis
    by (cases heap) (simp_all add: resolve_field_def t c(1) sz [OF t(4) c(2)] r field_def string_slice_from_token_def
        del: resolve_type.simps)
qed

lemma sizes:
  "abs_size z = SNone \<Longrightarrow> ast_size_to_sizing z c = ((SizingMax, 65535), c)"
  "abs_size z = SMax (SRef n) \<Longrightarrow> map_of (ec_constants c) n = Some \<lparr>c_valid = True, c_value = k\<rparr> \<Longrightarrow>
     ast_size_to_sizing z c = ((SizingMax, k), c)"
  "abs_size z = SFixed (SLit ds) \<Longrightarrow> ds \<noteq> [] \<Longrightarrow> ast_size_to_sizing z c = ((SizingFixed, of_nat (digits_nat 0 ds)), c)"
  by (auto simp: abs_size_iff abs_number_iff get_ast_number_value_def string_slice_from_token_def)

lemmas resolve_unbounded = resolve_array [where sz = SNone, OF _ _ sizes(1)]

lemma resolve_max:
  assumes "abs_field f = array_of name ty heap (SMax (SRef m))" and "map_of (ec_typedefs ctx) (bytes ty) = Some (Some p)"
    and "map_of (ec_constants ctx) m = Some \<lparr>c_valid = True, c_value = k\<rparr>"
  shows "resolve_field (resolve_type (Suc n)) f ctx = Some (field (span (fd_name f)) name (Obj (length (ec_type_objects ctx))),
     ctx\<lparr>ec_type_objects := ec_type_objects ctx @ [max_array unresolved_align k heap p]\<rparr>)"
  unfolding max_array_def
  by (rule resolve_array [OF assms(1,2)]) (rule sizes(2), assumption, simp add: assms(3))

lemma resolve_fixed:
  assumes "abs_field f = array_of name ty False (SFixed (SLit ds))" and "map_of (ec_typedefs ctx) (bytes ty) = Some (Some p)" and "ds \<noteq> []"
  shows "resolve_field (resolve_type (Suc n)) f ctx = Some (field (span (fd_name f)) name (Obj (length (ec_type_objects ctx))),
     ctx\<lparr>ec_type_objects := ec_type_objects ctx @ [fixed_array unresolved_align (of_nat (digits_nat 0 ds)) p]\<rparr>)"
  unfolding fixed_array_def
  by (rule resolve_array [OF assms(1,2)]) (rule sizes(3), assumption, rule assms(3))

section \<open>Structs\<close>

abbreviation raw_struct :: "string \<Rightarrow> Field list \<Rightarrow> TypeObject" where
  "raw_struct name fs \<equiv> struct False unresolved_align name fs"

lemma push_field_last:
  assumes "ec_type_objects ctx = objs @ raw_struct name gs # os"
  shows "push_field (length objs) f ctx = ctx\<lparr>ec_type_objects := objs @ raw_struct name (gs @ [f]) # os\<rparr>"
  using assms by (simp add: push_field_def set_object_def struct_def)

lemma resolve_struct:
  assumes "map_of (ec_typedefs ctx) (bytes name) = None" and "token_text t = bytes name"
    and "ec_unresolved ctx = Some un" and "map_of un (bytes name) = Some untd" and "ut_value untd = NodeStruct s"
    and "struct_fields_loop (resolve_type n) (length (ec_type_objects ctx)) (st_fields s)
      (ctx\<lparr>ec_type_objects := ec_type_objects ctx @ [raw_struct name []],
        ec_typedefs := AList.update (bytes name) (Some (Obj (length (ec_type_objects ctx)))) (ec_typedefs ctx)\<rparr>) = Some ctx'"
  shows "resolve_type (Suc n) (sss_from_token t) ctx = Some (Some (Obj (length (ec_type_objects ctx))), ctx')"
  using assms by (simp add: sss_from_token_def unresolved_type_def new_object_def set_typedef_def struct_def)

lemma plain_fields:
  assumes "list_all2 (\<lambda>f (name, ty, p). abs_field f = plain name ty \<and> map_of tds (bytes ty) = Some (Some p)) fs xs"
    and "ec_typedefs ctx = tds" and "ec_type_objects ctx = objs @ [raw_struct nm gs]"
  shows "struct_fields_loop (resolve_type (Suc n)) (length objs) fs ctx = Some (ctx\<lparr>ec_type_objects := objs @
     [raw_struct nm (gs @ map2 (\<lambda>f (name, ty, p). field (span (fd_name f)) name p) fs xs)]\<rparr>)"
  using assms
proof (induction fs xs arbitrary: ctx gs rule: list_all2_induct)
  case (Cons f fs x xs)
  obtain name ty p where x: "x = (name, ty, p)" by (metis prod_cases3)
  let ?c = "ctx\<lparr>ec_type_objects := objs @ [raw_struct nm (gs @ [field (span (fd_name f)) name p])]\<rparr>"
  have "resolve_field (resolve_type (Suc n)) f ctx = Some (field (span (fd_name f)) name p, ctx)"
    by (rule resolve_plain [of f name ty]) (use Cons.hyps(1) Cons.prems(1) x in auto)
  moreover have "push_field (length objs) (field (span (fd_name f)) name p) ctx = ?c"
    using push_field_last [of ctx objs nm gs "[]"] Cons.prems by simp
  ultimately show ?case using Cons.IH [of ?c "gs @ [field (span (fd_name f)) name p]"] x Cons.hyps Cons.prems
    by (simp del: resolve_type.simps)
qed simp

lemma array_field:
  assumes "abs_field f = array_of name ty True SNone" and "map_of (ec_typedefs ctx) (bytes ty) = Some (Some p)"
    and "ec_type_objects ctx = objs @ [raw_struct nm []]"
  shows "struct_fields_loop (resolve_type (Suc n)) (length objs) [f] ctx = Some (ctx\<lparr>ec_type_objects := objs @
     [raw_struct nm [field (span (fd_name f)) name (Obj (Suc (length objs)))], max_array unresolved_align 65535 True p]\<rparr>)"
proof -
  let ?a = "max_array unresolved_align 65535 True p"
  let ?f = "field (span (fd_name f)) name (Obj (Suc (length objs)))"
  have "resolve_field (resolve_type (Suc n)) f ctx = Some (?f, ctx\<lparr>ec_type_objects := objs @ [raw_struct nm [], ?a]\<rparr>)"
    using resolve_unbounded [OF assms(1,2)] assms(3) by (simp add: max_array_def del: resolve_type.simps)
  moreover have "push_field (length objs) ?f (ctx\<lparr>ec_type_objects := objs @ [raw_struct nm [], ?a]\<rparr>) =
      ctx\<lparr>ec_type_objects := objs @ [raw_struct nm [?f], ?a]\<rparr>"
    using push_field_last [of "ctx\<lparr>ec_type_objects := objs @ [raw_struct nm [], ?a]\<rparr>" objs nm "[]" "[?a]" ?f] by simp
  ultimately show ?thesis by (simp del: resolve_type.simps)
qed

section \<open>The schema evaluated\<close>

text \<open>The items of a tree of the schema.\<close>

definition net_items :: "AstItem list \<Rightarrow> AstStruct list \<Rightarrow> AstConstant list \<Rightarrow> AstVersion \<Rightarrow> AstMessages \<Rightarrow> bool" where
  "net_items items ss ks v m \<longleftrightarrow>
     items = map AstItem.ATStruct (take 3 ss) @ map AstItem.ATConstant ks @ map AstItem.ATStruct (drop 3 ss) @
       [AstItem.ATVersion v, AstItem.ATMessages m] \<and>
     map (\<lambda>s. SStruct (token_text (st_ident s)) (map abs_field (st_fields s))) ss = take 3 net_schema @ take 2 (drop 6 net_schema) \<and>
     map (\<lambda>k. SConst (token_text (co_name k)) (abs_number (co_value k))) ks = take 3 (drop 3 net_schema) \<and>
     [SVersion (abs_number (ver_number v)), SMessages (token_text (ms_name m)) (map abs_child (ms_children m))] = drop 8 net_schema"

lemma net_items_exist:
  assumes "map abs_item items = net_schema"
  shows "\<exists>s0 s1 s2 s3 s4 k0 k1 k2 v m. net_items items [s0, s1, s2, s3, s4] [k0, k1, k2] v m"
  using assms
  by (auto simp: net_schema_def map_eq_Cons_conv abs_item_iff net_items_def eval_nat_numeral)

definition net_constants :: "Constant table" where
  "net_constants = [(bytes ''ABS_CNT'', \<lparr>c_valid = True, c_value = 64\<rparr>), (bytes ''REL_CNT'', \<lparr>c_valid = True, c_value = 16\<rparr>),
     (bytes ''KEY_CNT'', \<lparr>c_valid = True, c_value = 768\<rparr>)]"

lemma follow_literal: "t_type v = Number \<Longrightarrow> follow un unc names v cs es = Some (v, cs, es)"
  by (simp add: follow.simps)

lemma digit_values:
  "digits_nat 0 (bytes ''64'') = 64" "digits_nat 0 (bytes ''16'') = 16" "digits_nat 0 (bytes ''768'') = 768"
  "digits_nat 0 (bytes ''3'') = 3" "digits_nat 0 (bytes ''1'') = 1"
  by (simp_all add: bytes_def digits_nat_def to_digit_def)

lemma net_resolve_constants:
  assumes "net_items items [s0, s1, s2, s3, s4] [k0, k1, k2] v m"
  shows "resolve_constants (context_init items) = Some ((context_init items)\<lparr>ec_constants := net_constants\<rparr>)"
proof -
  have items: "items = [AstItem.ATStruct s0, AstItem.ATStruct s1, AstItem.ATStruct s2, AstItem.ATConstant k0, AstItem.ATConstant k1,
      AstItem.ATConstant k2, AstItem.ATStruct s3, AstItem.ATStruct s4, AstItem.ATVersion v, AstItem.ATMessages m]"
    using assms by (simp add: net_items_def)
  have k: "token_text (co_name k0) = bytes ''ABS_CNT''" "token_text (co_name k1) = bytes ''REL_CNT''"
      "token_text (co_name k2) = bytes ''KEY_CNT''"
      "t_type (num_token (co_value k0)) = Number" "lit (num_token (co_value k0)) = 64"
      "t_type (num_token (co_value k1)) = Number" "lit (num_token (co_value k1)) = 16"
      "t_type (num_token (co_value k2)) = Number" "lit (num_token (co_value k2)) = 768"
    using assms by (simp_all add: net_items_def net_schema_def eval_nat_numeral abs_number_iff digit_values)
  show ?thesis
    by (simp add: resolve_constants_def context_init_def items string_slice_from_token_def k resolve_constant_def follow_literal
        net_constants_def Let_def)
qed

text \<open>The positions of the names of all fields.\<close>

fun child_fields :: "AstAttributeOrMessage \<Rightarrow> AstField list" where
  "child_fields (AstAttributeOrMessage.ATMessage m) = mg_fields m"
| "child_fields (AstAttributeOrMessage.ATAttribute _) = []"

definition field_spans :: "AstStruct list \<Rightarrow> AstMessages \<Rightarrow> nat \<Rightarrow> Span" where
  "field_spans ss m i = span (fd_name ((concat (map st_fields ss) @ concat (map child_fields (ms_children m))) ! i))"

definition raw_structs :: "(nat \<Rightarrow> Span) \<Rightarrow> TypeObject list" where
  "raw_structs sp =
    [raw_struct ''Abs'' [field (sp 0) ''id'' U16, field (sp 1) ''min'' U32, field (sp 2) ''max'' U32,
       field (sp 3) ''fuzz'' U32, field (sp 4) ''flat'' U32, field (sp 5) ''res'' U32],
     raw_struct ''Rel'' [field (sp 6) ''id'' U16],
     raw_struct ''Key'' [field (sp 7) ''id'' U16],
     raw_struct ''Tag'' [field (sp 8) ''name'' (Obj 4)],
     max_array unresolved_align 65535 True TCHAR,
     raw_struct ''TagList'' [field (sp 9) ''tags'' (Obj 6)],
     max_array unresolved_align 65535 True (Obj 3)]"

lemma primitif_names_bytes:
  "primitif_names = [(bytes ''u8'', Primitif_u8), (bytes ''u16'', Primitif_u16), (bytes ''u32'', Primitif_u32),
     (bytes ''u64'', Primitif_u64), (bytes ''i8'', Primitif_i8), (bytes ''i16'', Primitif_i16),
     (bytes ''i32'', Primitif_i32), (bytes ''i64'', Primitif_i64), (bytes ''f32'', Primitif_f32),
     (bytes ''f64'', Primitif_f64), (bytes ''char'', Primitif_char), (bytes ''bool'', Primitif_bool)]"
  by (simp add: primitif_names_def bytes_def)

lemma context_init_eq:
  "context_init items = \<lparr>ec_constants = [], ec_typedefs = map (\<lambda>(n, p). (n, Some (PRIMITIF p))) primitif_names,
     ec_layouts = [], ec_unresolved = None, ec_type_objects = [], ec_items = items, ec_errors = [], ec_messages = []\<rparr>"
  by (simp add: context_init_def primitif_names_bytes)

definition unresolved_struct :: "AstStruct \<Rightarrow> UnresolvedTypeDef" where
  "unresolved_struct s = \<lparr>ut_value = NodeStruct s, ut_name_span = span (st_ident s), ut_span = st_span s\<rparr>"

text \<open>The evaluation after \<open>k\<close> of the structs.\<close>

definition after_structs :: "AstItem list \<Rightarrow> AstStruct list \<Rightarrow> nat \<Rightarrow> TypeObject list \<Rightarrow> EvaluationContext" where
  "after_structs items ss k os = \<lparr>ec_constants = net_constants, ec_typedefs = take (12 + k) net_typedefs, ec_layouts = [],
    ec_unresolved = Some (map (\<lambda>s. (token_text (st_ident s), unresolved_struct s)) ss),
    ec_type_objects = os, ec_items = items, ec_errors = [], ec_messages = []\<rparr>"

lemma length_typedefs: "length net_typedefs = 17"
  by (simp add: net_typedefs_def primitif_names_def)

lemma update_new: "map_of al k = None \<Longrightarrow> AList.update k v al = al @ [(k, v)]"
  by (induction al) (auto split: if_splits)

lemma struct_step:
  assumes "k < 5" and "k < length ss" and "s = ss ! k" and "distinct (map (token_text \<circ> st_ident) ss)"
    and "token_text (st_ident s) = bytes name" and "net_typedefs ! (12 + k) = (bytes name, Some (Obj (length os)))"
    and "map_of (take (12 + k) net_typedefs) (bytes name) = None"
    and "struct_fields_loop (resolve_type n) (length os) (st_fields s) (after_structs items ss (Suc k) (os @ [raw_struct name []])) =
      Some (after_structs items ss (Suc k) os')"
  shows "resolve_type (Suc n) (sss_from_token (st_ident s)) (after_structs items ss k os) =
    Some (Some (Obj (length os)), after_structs items ss (Suc k) os')"
proof -
  have "take (12 + Suc k) net_typedefs = take (12 + k) net_typedefs @ [(bytes name, Some (Obj (length os)))]"
    using assms(1) length_typedefs unfolding assms(6) [symmetric] add_Suc_right by (intro take_Suc_conv_app_nth) simp
  then have tds: "AList.update (bytes name) (Some (Obj (length os))) (take (12 + k) net_typedefs) = take (12 + Suc k) net_typedefs"
    using update_new [OF assms(7)] by simp
  have "(token_text (st_ident s), unresolved_struct s) \<in> set (map (\<lambda>s. (token_text (st_ident s), unresolved_struct s)) ss)"
    using assms(2,3) by simp
  then have un: "map_of (map (\<lambda>s. (token_text (st_ident s), unresolved_struct s)) ss) (bytes name) = Some (unresolved_struct s)"
    using assms(4,5) by (intro map_of_is_SomeI) (simp_all add: comp_def)
  show ?thesis
    using resolve_struct [of "after_structs items ss k os" name "st_ident s" _ "unresolved_struct s" s n "after_structs items ss (Suc k) os'"]
      assms(5,7,8) un tds
    by (simp add: after_structs_def unresolved_struct_def del: resolve_type.simps add_Suc_right)
qed

lemma after_structs_simps:
  "ec_type_objects (after_structs items ss k os) = os" "ec_typedefs (after_structs items ss k os) = take (12 + k) net_typedefs"
  "(after_structs items ss k os)\<lparr>ec_type_objects := os'\<rparr> = after_structs items ss k os'"
  by (simp_all add: after_structs_def)

lemma net_take:
  "take (12 + k) net_typedefs = map (\<lambda>(name, p). (name, Some (PRIMITIF p))) primitif_names @
    take k [(bytes ''Abs'', Some (Obj 0)), (bytes ''Rel'', Some (Obj 1)), (bytes ''Key'', Some (Obj 2)),
     (bytes ''Tag'', Some (Obj 3)), (bytes ''TagList'', Some (Obj 5))]"
proof -
  have "length primitif_names = 12" by (simp add: primitif_names_def)
  then show ?thesis unfolding net_typedefs_def by simp
qed

lemma net_typedefs_nth:
  "net_typedefs ! (12 + k) = [(bytes ''Abs'', Some (Obj 0)), (bytes ''Rel'', Some (Obj 1)), (bytes ''Key'', Some (Obj 2)),
     (bytes ''Tag'', Some (Obj 3)), (bytes ''TagList'', Some (Obj 5))] ! k"
proof -
  have "length primitif_names = 12" by (simp add: primitif_names_def)
  then show ?thesis unfolding net_typedefs_def by (simp add: nth_append)
qed

text \<open>A name of none of the primitive types.\<close>

lemma not_primitif:
  "name \<notin> set [''u8'', ''u16'', ''u32'', ''u64'', ''i8'', ''i16'', ''i32'', ''i64'', ''f32'', ''f64'', ''char'', ''bool''] \<Longrightarrow>
     map_of (map (\<lambda>(name, p). (name, Some (PRIMITIF p))) primitif_names) (bytes name) = None"
  by (auto simp: primitif_names_bytes)

lemma take_typedefs:
  "map_of (take (12 + k) net_typedefs) (bytes ''u8'') = Some (Some U8)"
  "map_of (take (12 + k) net_typedefs) (bytes ''u16'') = Some (Some U16)"
  "map_of (take (12 + k) net_typedefs) (bytes ''u32'') = Some (Some U32)"
  "map_of (take (12 + k) net_typedefs) (bytes ''char'') = Some (Some TCHAR)"
proof -
  have "map_of (map (\<lambda>(name, p). (name, Some (PRIMITIF p))) primitif_names) n = Some v \<Longrightarrow>
      map_of (take (12 + k) net_typedefs) n = Some v" for n v
    by (simp add: net_take map_add_Some_iff)
  note prim = this
  show "map_of (take (12 + k) net_typedefs) (bytes ''u8'') = Some (Some U8)"
    "map_of (take (12 + k) net_typedefs) (bytes ''u16'') = Some (Some U16)"
    "map_of (take (12 + k) net_typedefs) (bytes ''u32'') = Some (Some U32)"
    "map_of (take (12 + k) net_typedefs) (bytes ''char'') = Some (Some TCHAR)"
    by (rule prim, simp add: primitif_names_bytes)+
qed

lemma plain_step:
  assumes "k < 5" and "k < length ss" and "distinct (map (token_text \<circ> st_ident) ss)"
    and "token_text (st_ident (ss ! k)) = bytes name" and "net_typedefs ! (12 + k) = (bytes name, Some (Obj (length os)))"
    and "map_of (take (12 + k) net_typedefs) (bytes name) = None"
    and "list_all2 (\<lambda>f (name, ty, p). abs_field f = plain name ty \<and> map_of (take (12 + Suc k) net_typedefs) (bytes ty) = Some (Some p))
      (st_fields (ss ! k)) xs"
  shows "resolve_type (Suc (Suc n)) (sss_from_token (st_ident (ss ! k))) (after_structs items ss k os) = Some (Some (Obj (length os)),
    after_structs items ss (Suc k) (os @ [raw_struct name (map2 (\<lambda>f (name, ty, p). field (span (fd_name f)) name p) (st_fields (ss ! k)) xs)]))"
proof (rule struct_step [OF assms(1,2) refl assms(3-6)])
  have "ec_typedefs (after_structs items ss (Suc k) (os @ [raw_struct name []])) = take (12 + Suc k) net_typedefs"
    "ec_type_objects (after_structs items ss (Suc k) (os @ [raw_struct name []])) = os @ [raw_struct name []]"
    by (simp_all add: after_structs_def)
  from plain_fields [OF assms(7) this] show "struct_fields_loop (resolve_type (Suc n)) (length os) (st_fields (ss ! k))
      (after_structs items ss (Suc k) (os @ [raw_struct name []])) = Some (after_structs items ss (Suc k)
        (os @ [raw_struct name (map2 (\<lambda>f (name, ty, p). field (span (fd_name f)) name p) (st_fields (ss ! k)) xs)]))"
    by (simp add: after_structs_simps del: resolve_type.simps)
qed

lemma array_step:
  assumes "k < 5" and "k < length ss" and "distinct (map (token_text \<circ> st_ident) ss)"
    and "token_text (st_ident (ss ! k)) = bytes name" and "net_typedefs ! (12 + k) = (bytes name, Some (Obj (length os)))"
    and "map_of (take (12 + k) net_typedefs) (bytes name) = None"
    and "st_fields (ss ! k) = [f]" and "abs_field f = array_of fname ty True SNone"
    and "map_of (take (12 + Suc k) net_typedefs) (bytes ty) = Some (Some p)"
  shows "resolve_type (Suc (Suc n)) (sss_from_token (st_ident (ss ! k))) (after_structs items ss k os) = Some (Some (Obj (length os)),
    after_structs items ss (Suc k) (os @ [raw_struct name [field (span (fd_name f)) fname (Obj (Suc (length os)))], max_array unresolved_align 65535 True p]))"
proof (rule struct_step [OF assms(1,2) refl assms(3-6)])
  have "map_of (ec_typedefs (after_structs items ss (Suc k) (os @ [raw_struct name []]))) (bytes ty) = Some (Some p)"
    "ec_type_objects (after_structs items ss (Suc k) (os @ [raw_struct name []])) = os @ [raw_struct name []]"
    using assms(9) by (simp_all add: after_structs_def)
  from array_field [OF assms(8) this] show "struct_fields_loop (resolve_type (Suc n)) (length os) (st_fields (ss ! k))
      (after_structs items ss (Suc k) (os @ [raw_struct name []])) = Some (after_structs items ss (Suc k)
        (os @ [raw_struct name [field (span (fd_name f)) fname (Obj (Suc (length os)))], max_array unresolved_align 65535 True p]))"
    by (simp add: after_structs_simps assms(7) del: resolve_type.simps)
qed

lemma net_structs_resolved:
  assumes "net_items items [s0, s1, s2, s3, s4] ks v m"
  defines "ss \<equiv> [s0, s1, s2, s3, s4]" and "sp \<equiv> field_spans [s0, s1, s2, s3, s4] m"
  shows "resolve_types_loop (fuel n) items (after_structs items ss 0 []) = Some (after_structs items ss 5 (raw_structs sp))"
proof -
  obtain k0 k1 k2 where items: "items = [AstItem.ATStruct s0, AstItem.ATStruct s1, AstItem.ATStruct s2, AstItem.ATConstant k0, AstItem.ATConstant k1,
      AstItem.ATConstant k2, AstItem.ATStruct s3, AstItem.ATStruct s4, AstItem.ATVersion v, AstItem.ATMessages m]"
    using assms by (auto simp: net_items_def net_schema_def map_eq_Cons_conv eval_nat_numeral)
  have names: "map (token_text \<circ> st_ident) ss = [bytes ''Abs'', bytes ''Rel'', bytes ''Key'', bytes ''Tag'', bytes ''TagList'']"
    using assms by (simp add: net_items_def net_schema_def eval_nat_numeral)
  obtain f0 f1 f2 f3 f4 f5 f6 f7 f8 f9 where fs: "st_fields s0 = [f0, f1, f2, f3, f4, f5]" "st_fields s1 = [f6]"
      "st_fields s2 = [f7]" "st_fields s3 = [f8]" "st_fields s4 = [f9]"
    and f: "abs_field f0 = plain ''id'' ''u16''" "abs_field f1 = plain ''min'' ''u32''" "abs_field f2 = plain ''max'' ''u32''"
      "abs_field f3 = plain ''fuzz'' ''u32''" "abs_field f4 = plain ''flat'' ''u32''" "abs_field f5 = plain ''res'' ''u32''"
      "abs_field f6 = plain ''id'' ''u16''" "abs_field f7 = plain ''id'' ''u16''"
      "abs_field f8 = array_of ''name'' ''char'' True SNone" "abs_field f9 = array_of ''tags'' ''Tag'' True SNone"
    using assms by (auto simp: net_items_def net_schema_def eval_nat_numeral map_eq_Cons_conv)
  have sp: "sp 0 = span (fd_name f0)" "sp (Suc 0) = span (fd_name f1)" "sp 2 = span (fd_name f2)" "sp 3 = span (fd_name f3)"
      "sp 4 = span (fd_name f4)" "sp 5 = span (fd_name f5)" "sp 6 = span (fd_name f6)" "sp 7 = span (fd_name f7)"
      "sp 8 = span (fd_name f8)" "sp 9 = span (fd_name f9)"
    by (simp_all add: sp_def field_spans_def fs)
  have d: "distinct (map (token_text \<circ> st_ident) ss)" unfolding names by simp
  have nm: "token_text (st_ident s0) = bytes ''Abs''" "token_text (st_ident s1) = bytes ''Rel''" "token_text (st_ident s2) = bytes ''Key''"
      "token_text (st_ident s3) = bytes ''Tag''" "token_text (st_ident s4) = bytes ''TagList''"
    using names by (simp_all add: ss_def)
  have ss: "ss ! 0 = s0" "ss ! Suc 0 = s1" "ss ! 2 = s2" "ss ! 3 = s3" "ss ! 4 = s4" "length ss = 5" by (simp_all add: ss_def)
  note p = plain_step [where ss = ss and items = items and n = "Suc (Suc n)", OF _ _ d]
  note tds = take_typedefs net_typedefs_nth not_primitif net_take
  have nums: "Suc (Suc (Suc (Suc 0))) = 4" "Suc (Suc (Suc (Suc (Suc 0)))) = 5" "Suc (Suc (Suc (Suc (Suc (Suc 0))))) = 6" by simp_all
  note tds = ss nm fs f raw_structs_def sp not_primitif map_add_def nums
  note q = array_step [where ss = ss and items = items and n = "Suc (Suc n)", OF _ _ d]
  have 0: "resolve_type (fuel n) (sss_from_token (st_ident s0)) (after_structs items ss 0 []) =
      Some (Some (Obj 0), after_structs items ss 1 (take 1 (raw_structs sp)))"
    using p [of 0 "''Abs''" "[]" "[(''id'', ''u16'', U16), (''min'', ''u32'', U32), (''max'', ''u32'', U32), (''fuzz'', ''u32'', U32), (''flat'', ''u32'', U32), (''res'', ''u32'', U32)]"]
      take_typedefs [of 1] net_typedefs_nth [of 0] net_take [of 0]
    by (simp add: tds del: resolve_type.simps)
  have 1: "resolve_type (fuel n) (sss_from_token (st_ident s1)) (after_structs items ss 1 (take 1 (raw_structs sp))) =
      Some (Some (Obj 1), after_structs items ss 2 (take 2 (raw_structs sp)))"
    using p [of 1 "''Rel''" "take 1 (raw_structs sp)" "[(''id'', ''u16'', U16)]"]
      take_typedefs [of 2] net_typedefs_nth [of 1] net_take [of 1]
    by (simp add: tds numeral_2_eq_2 [symmetric] del: resolve_type.simps)
  have 2: "resolve_type (fuel n) (sss_from_token (st_ident s2)) (after_structs items ss 2 (take 2 (raw_structs sp))) =
      Some (Some (Obj 2), after_structs items ss 3 (take 3 (raw_structs sp)))"
    using p [of 2 "''Key''" "take 2 (raw_structs sp)" "[(''id'', ''u16'', U16)]"]
      take_typedefs [of 3] net_typedefs_nth [of 2] net_take [of 2]
    by (simp add: tds del: resolve_type.simps)
  have 3: "resolve_type (fuel n) (sss_from_token (st_ident s3)) (after_structs items ss 3 (take 3 (raw_structs sp))) =
      Some (Some (Obj 3), after_structs items ss 4 (take 5 (raw_structs sp)))"
    using q [of 3 "''Tag''" "take 3 (raw_structs sp)" f8 "''name''" "''char''" TCHAR]
      take_typedefs [of 4] net_typedefs_nth [of 3] net_take [of 3]
    by (simp add: tds del: resolve_type.simps)
  have 4: "resolve_type (fuel n) (sss_from_token (st_ident s4)) (after_structs items ss 4 (take 5 (raw_structs sp))) =
      Some (Some (Obj 5), after_structs items ss 5 (raw_structs sp))"
    using q [of 4 "''TagList''" "take 5 (raw_structs sp)" f9 "''tags''" "''Tag''" "Obj 3"]
      take_typedefs [of 5] net_typedefs_nth [of 4] net_take [of 4] net_take [of 5]
    by (simp add: tds del: resolve_type.simps)
  show ?thesis
    using 0 1 2 3 4 by (simp add: items after_structs_simps del: resolve_type.simps)
qed

text \<open>The evaluation with all types resolved.\<close>

definition net_resolved :: "AstItem list \<Rightarrow> TypeObject list \<Rightarrow> EvaluationContext" where
  "net_resolved items os = \<lparr>ec_constants = net_constants, ec_typedefs = net_typedefs, ec_layouts = [], ec_unresolved = None,
    ec_type_objects = os, ec_items = items, ec_errors = [], ec_messages = []\<rparr>"

lemma net_lookup:
  "map_of net_typedefs (bytes ''Abs'') = Some (Some (Obj 0))" "map_of net_typedefs (bytes ''Rel'') = Some (Some (Obj 1))"
  "map_of net_typedefs (bytes ''Key'') = Some (Some (Obj 2))" "map_of net_typedefs (bytes ''Tag'') = Some (Some (Obj 3))"
  "map_of net_typedefs (bytes ''TagList'') = Some (Some (Obj 5))"
  by (simp_all add: net_typedefs_def not_primitif map_add_def)

lemmas raw_objects = raw_structs_def struct_def max_array_def field_def deref_def struct_of_def

lemma net_no_recursion:
  assumes "root \<in> {Obj 0, Obj 1, Obj 2, Obj 3, Obj 5}"
  shows "\<exists>checked. check_for_recursion (fuel n) un (raw_structs sp) root root
      \<lparr>rs_structs = [], rs_fields = [], rs_checked = [], rs_invalids = []\<rparr> =
    Some (False, \<lparr>rs_structs = [], rs_fields = [], rs_checked = checked, rs_invalids = []\<rparr>)"
  using assms by (elim insertE emptyE) (simp_all add: raw_objects set_add_def cong: lazy)

lemma net_resolve_types:
  assumes "net_items items [s0, s1, s2, s3, s4] [k0, k1, k2] v m"
  defines "sp \<equiv> field_spans [s0, s1, s2, s3, s4] m"
  shows "resolve_types (fuel n) ((context_init items)\<lparr>ec_constants := net_constants\<rparr>) = Some (net_resolved items (raw_structs sp))"
proof -
  have items: "items = [AstItem.ATStruct s0, AstItem.ATStruct s1, AstItem.ATStruct s2, AstItem.ATConstant k0, AstItem.ATConstant k1,
      AstItem.ATConstant k2, AstItem.ATStruct s3, AstItem.ATStruct s4, AstItem.ATVersion v, AstItem.ATMessages m]"
    using assms by (simp add: net_items_def)
  have nm: "token_text (st_ident s0) = bytes ''Abs''" "token_text (st_ident s1) = bytes ''Rel''" "token_text (st_ident s2) = bytes ''Key''"
      "token_text (st_ident s3) = bytes ''Tag''" "token_text (st_ident s4) = bytes ''TagList''"
    and ne: "st_fields s0 \<noteq> []" "st_fields s1 \<noteq> []" "st_fields s2 \<noteq> []" "st_fields s3 \<noteq> []" "st_fields s4 \<noteq> []"
    using assms by (auto simp: net_items_def net_schema_def eval_nat_numeral)
  let ?ss = "[s0, s1, s2, s3, s4]"
  let ?un = "map (\<lambda>s. (token_text (st_ident s), unresolved_struct s)) ?ss"
  have load: "load_types items [] [] = (items, ?un, [])"
    using ne by (simp add: items nm unresolved_struct_def empty_struct_errors_def string_slice_from_token_def)
  have decls: "decl_cycles_loop ?un items tds [] = Some (tds, [])" for tds
    by (simp add: items)
  have start: "(context_init items)\<lparr>ec_constants := net_constants, ec_items := items, ec_unresolved := Some ?un,
      ec_typedefs := ec_typedefs (context_init items), ec_errors := []\<rparr> = after_structs items ?ss 0 []"
    using net_take [of 0] by (simp add: context_init_eq after_structs_def)
  have typedefs: "take 17 net_typedefs = net_typedefs" by (simp add: length_typedefs)
  have rec: "recursion_check_loop (fuel n) ?un (raw_structs sp) net_typedefs items [] [] = Some []"
    using net_no_recursion [of "Obj 0" n ?un sp] net_no_recursion [of "Obj 1" n ?un sp] net_no_recursion [of "Obj 2" n ?un sp]
      net_no_recursion [of "Obj 3" n ?un sp] net_no_recursion [of "Obj 5" n ?un sp]
    by (auto simp: items nm net_lookup string_slice_from_token_def simp del: check_for_recursion.simps)
  have dup: "duplicate_fields_loop (raw_structs sp) net_typedefs items [] = Some []"
    by (simp add: items nm net_lookup raw_objects string_slice_from_token_def cong: lazy)
  show ?thesis
    using net_structs_resolved [OF assms(1), of n] load decls start rec dup typedefs
    by (simp add: resolve_types_def context_init_eq after_structs_def net_resolved_def sp_def)
qed

section \<open>The messages evaluated\<close>

definition with_messages :: "AstItem list \<Rightarrow> TypeObject list \<Rightarrow> MessagesObject list \<Rightarrow> EvaluationContext" where
  "with_messages items os ms = (net_resolved items os)\<lparr>ec_messages := ms\<rparr>"

lemma with_messages_simps:
  "ec_typedefs (with_messages items os ms) = net_typedefs" "ec_constants (with_messages items os ms) = net_constants"
  "ec_type_objects (with_messages items os ms) = os" "ec_errors (with_messages items os ms) = []"
  "(with_messages items os ms)\<lparr>ec_type_objects := os'\<rparr> = with_messages items os' ms"
  "ec_items (with_messages items os ms) = items" "ec_messages (with_messages items os ms) = ms"
  "(with_messages items os ms)\<lparr>ec_messages := ms'\<rparr> = with_messages items os ms'"
  "net_resolved items os = with_messages items os []"
  by (simp_all add: with_messages_def net_resolved_def)

lemma message_field:
  assumes "resolve_field (resolve_type n) f (with_messages items os ms) =
      Some (field (span (fd_name f)) name p, with_messages items os' ms)"
    and "map_of names (bytes name) = None"
  shows "message_fields_loop n (f # fs) names fds (with_messages items os ms) =
    message_fields_loop n fs (names @ [(bytes name, span (fd_name f))]) (fds @ [field (span (fd_name f)) name p]) (with_messages items os' ms)"
  using assms update_new [of names "bytes name"] by (simp add: add_name_def field_def)

lemma message_plain:
  assumes "abs_field f = plain name ty" and "map_of net_typedefs (bytes ty) = Some (Some p)" and "map_of names (bytes name) = None"
  shows "message_fields_loop (Suc n) (f # fs) names fds (with_messages items os ms) =
    message_fields_loop (Suc n) fs (names @ [(bytes name, span (fd_name f))]) (fds @ [field (span (fd_name f)) name p]) (with_messages items os ms)"
  by (rule message_field [OF resolve_plain [OF assms(1)] assms(3)]) (simp add: assms(2) with_messages_simps)

lemma message_max:
  assumes "abs_field f = array_of name ty heap (SMax (SRef m))" and "map_of net_typedefs (bytes ty) = Some (Some p)"
    and "map_of net_constants m = Some \<lparr>c_valid = True, c_value = k\<rparr>" and "map_of names (bytes name) = None"
  shows "message_fields_loop (Suc n) (f # fs) names fds (with_messages items os ms) =
    message_fields_loop (Suc n) fs (names @ [(bytes name, span (fd_name f))]) (fds @ [field (span (fd_name f)) name (Obj (length os))])
      (with_messages items (os @ [max_array unresolved_align k heap p]) ms)"
  using resolve_max [OF assms(1), of "with_messages items os ms" p k n] assms(2-4)
  by (intro message_field) (simp_all add: with_messages_simps del: resolve_type.simps)

lemma message_fixed:
  assumes "abs_field f = array_of name ty False (SFixed (SLit ds))" and "map_of net_typedefs (bytes ty) = Some (Some p)"
    and "ds \<noteq> []" and "map_of names (bytes name) = None"
  shows "message_fields_loop (Suc n) (f # fs) names fds (with_messages items os ms) =
    message_fields_loop (Suc n) fs (names @ [(bytes name, span (fd_name f))]) (fds @ [field (span (fd_name f)) name (Obj (length os))])
      (with_messages items (os @ [fixed_array unresolved_align (of_nat (digits_nat 0 ds)) p]) ms)"
  using resolve_fixed [OF assms(1), of "with_messages items os ms" p n] assms(2-4)
  by (intro message_field) (simp_all add: with_messages_simps del: resolve_type.simps)

lemma message_unbounded:
  assumes "abs_field f = array_of name ty heap SNone" and "map_of net_typedefs (bytes ty) = Some (Some p)"
    and "map_of names (bytes name) = None"
  shows "message_fields_loop (Suc n) (f # fs) names fds (with_messages items os ms) =
    message_fields_loop (Suc n) fs (names @ [(bytes name, span (fd_name f))]) (fds @ [field (span (fd_name f)) name (Obj (length os))])
      (with_messages items (os @ [max_array unresolved_align 65535 heap p]) ms)"
  using resolve_unbounded [OF assms(1), of "with_messages items os ms" p n] assms(2,3)
  by (intro message_field) (simp_all add: with_messages_simps max_array_def del: resolve_type.simps)

lemma net_primitif_lookup:
  "map_of net_typedefs (bytes ''u8'') = Some (Some U8)" "map_of net_typedefs (bytes ''u16'') = Some (Some U16)"
  "map_of net_typedefs (bytes ''u32'') = Some (Some U32)"
  using take_typedefs [of 5] by (simp_all add: length_typedefs)

lemma net_constant_lookup:
  "map_of net_constants (bytes ''ABS_CNT'') = Some \<lparr>c_valid = True, c_value = 64\<rparr>"
  "map_of net_constants (bytes ''REL_CNT'') = Some \<lparr>c_valid = True, c_value = 16\<rparr>"
  "map_of net_constants (bytes ''KEY_CNT'') = Some \<lparr>c_valid = True, c_value = 768\<rparr>"
  by (simp_all add: net_constants_def)

lemmas message_steps = message_plain message_max message_fixed message_unbounded net_primitif_lookup net_constant_lookup net_lookup

lemma info_fields:
  assumes "map abs_field fs = [plain ''slot'' ''u8'', plain ''index'' ''u8'',
         array_of ''abs'' ''Abs'' False (SMax (SRef (bytes ''ABS_CNT''))),
         array_of ''rel'' ''Rel'' False (SMax (SRef (bytes ''REL_CNT''))),
         array_of ''key'' ''Key'' False (SMax (SRef (bytes ''KEY_CNT'')))]"
  shows "message_fields_loop (Suc n) fs [] [] (with_messages items os ms) = Some (
    [field (span (fd_name (fs ! 0))) ''slot'' U8, field (span (fd_name (fs ! 1))) ''index'' U8,
        field (span (fd_name (fs ! 2))) ''abs'' (Obj (length os)), field (span (fd_name (fs ! 3))) ''rel'' (Obj (length os + 1)),
        field (span (fd_name (fs ! 4))) ''key'' (Obj (length os + 2))],
    with_messages items (os @ [max_array unresolved_align 64 False (Obj 0), max_array unresolved_align 16 False (Obj 1),
     max_array unresolved_align 768 False (Obj 2)]) ms)"
  using assms by (auto simp: map_eq_Cons_conv message_steps simp del: message_fields_loop.simps(2))

lemma report_fields:
  assumes "map abs_field fs = [plain ''slot'' ''u8'', plain ''index'' ''u8'',
         array_of ''abs'' ''u32'' False (SMax (SRef (bytes ''ABS_CNT''))),
         array_of ''rel'' ''u32'' False (SMax (SRef (bytes ''REL_CNT''))),
         array_of ''key'' ''u8'' False (SMax (SRef (bytes ''KEY_CNT'')))]"
  shows "message_fields_loop (Suc n) fs [] [] (with_messages items os ms) = Some (
    [field (span (fd_name (fs ! 0))) ''slot'' U8, field (span (fd_name (fs ! 1))) ''index'' U8,
        field (span (fd_name (fs ! 2))) ''abs'' (Obj (length os)), field (span (fd_name (fs ! 3))) ''rel'' (Obj (length os + 1)),
        field (span (fd_name (fs ! 4))) ''key'' (Obj (length os + 2))],
    with_messages items (os @ [max_array unresolved_align 64 False U32, max_array unresolved_align 16 False U32,
     max_array unresolved_align 768 False U8]) ms)"
  using assms by (auto simp: map_eq_Cons_conv message_steps simp del: message_fields_loop.simps(2))

lemma controller_fields:
  assumes "map abs_field fs = [plain ''index'' ''u16'', array_of ''led'' ''u8'' False (SFixed (SLit (bytes ''3''))),
         plain ''small_rumble'' ''u8'', plain ''big_rumble'' ''u8'', plain ''flash_on'' ''u8'', plain ''flash_off'' ''u8'']"
  shows "message_fields_loop (Suc n) fs [] [] (with_messages items os ms) = Some (
    [field (span (fd_name (fs ! 0))) ''index'' U16, field (span (fd_name (fs ! 1))) ''led'' (Obj (length os)),
        field (span (fd_name (fs ! 2))) ''small_rumble'' U8, field (span (fd_name (fs ! 3))) ''big_rumble'' U8,
        field (span (fd_name (fs ! 4))) ''flash_on'' U8, field (span (fd_name (fs ! 5))) ''flash_off'' U8],
    with_messages items (os @ [fixed_array unresolved_align 3 U8]) ms)"
  using assms by (auto simp: map_eq_Cons_conv message_steps digit_values simp del: message_fields_loop.simps(2))

lemma request_fields:
  assumes "map abs_field fs = [array_of ''requests'' ''TagList'' True SNone]"
  shows "message_fields_loop (Suc n) fs [] [] (with_messages items os ms) = Some (
    [field (span (fd_name (fs ! 0))) ''requests'' (Obj (length os))],
    with_messages items (os @ [max_array unresolved_align 65535 True (Obj 5)]) ms)"
  using assms by (auto simp: map_eq_Cons_conv message_steps simp del: message_fields_loop.simps(2))

lemma destroy_fields:
  assumes "map abs_field fs = [plain ''index'' ''u16'']"
  shows "message_fields_loop (Suc n) fs [] [] (with_messages items os ms) = Some (
    [field (span (fd_name (fs ! 0))) ''index'' U16], with_messages items os ms)"
  using assms by (auto simp: map_eq_Cons_conv message_steps simp del: message_fields_loop.simps(2))

text \<open>The type objects before their alignments are computed.\<close>

definition unaligned :: "TypeObject \<Rightarrow> TypeObject" where "unaligned t = t\<lparr>to_align := unresolved_align\<rparr>"

lemma unaligned_shapes:
  "unaligned (struct b al name fs) = struct b unresolved_align name fs"
  "unaligned (max_array al sz heap ty) = max_array unresolved_align sz heap ty"
  "unaligned (fixed_array al sz ty) = fixed_array unresolved_align sz ty"
  by (simp_all add: unaligned_def struct_def max_array_def fixed_array_def)

lemma raw_structs_unaligned: "raw_structs sp = map unaligned (take 7 (net_objs sp False))"
  by (simp add: raw_structs_def net_objs_def unaligned_shapes)

lemma net_resolve_messages:
  assumes "net_items items [s0, s1, s2, s3, s4] [k0, k1, k2] v m"
  defines "sp \<equiv> field_spans [s0, s1, s2, s3, s4] m"
  shows "resolve_messages (Suc n) (net_resolved items (raw_structs sp)) =
    Some (with_messages items (map unaligned (net_objs sp False)) [net_group sp])"
proof -
  have items: "items = [AstItem.ATStruct s0, AstItem.ATStruct s1, AstItem.ATStruct s2, AstItem.ATConstant k0, AstItem.ATConstant k1,
      AstItem.ATConstant k2, AstItem.ATStruct s3, AstItem.ATStruct s4, AstItem.ATVersion v, AstItem.ATMessages m]"
    using assms by (simp add: net_items_def)
  have ver: "t_type (num_token (ver_number v)) = Number" "lit (num_token (ver_number v)) = 1"
    and name: "token_text (ms_name m) = bytes ''Device''"
    using assms by (simp_all add: net_items_def net_schema_def abs_number_iff digit_values)
  obtain a m0 m1 m2 m3 m4 where ms: "ms_children m = map AstAttributeOrMessage.ATMessage [m0, m1, m2] @
      [AstAttributeOrMessage.ATAttribute a] @ map AstAttributeOrMessage.ATMessage [m3, m4]"
    and a: "token_text (at_ident a) = attr_versioned"
    and names: "token_text (mg_ident m0) = bytes ''Info''" "token_text (mg_ident m1) = bytes ''Report''"
      "token_text (mg_ident m2) = bytes ''ControllerState''" "token_text (mg_ident m3) = bytes ''Request''"
      "token_text (mg_ident m4) = bytes ''Destroy''"
    and fs: "map abs_field (mg_fields m0) = [plain ''slot'' ''u8'', plain ''index'' ''u8'',
         array_of ''abs'' ''Abs'' False (SMax (SRef (bytes ''ABS_CNT''))),
         array_of ''rel'' ''Rel'' False (SMax (SRef (bytes ''REL_CNT''))),
         array_of ''key'' ''Key'' False (SMax (SRef (bytes ''KEY_CNT'')))]"
      "map abs_field (mg_fields m1) = [plain ''slot'' ''u8'', plain ''index'' ''u8'',
         array_of ''abs'' ''u32'' False (SMax (SRef (bytes ''ABS_CNT''))),
         array_of ''rel'' ''u32'' False (SMax (SRef (bytes ''REL_CNT''))),
         array_of ''key'' ''u8'' False (SMax (SRef (bytes ''KEY_CNT'')))]"
      "map abs_field (mg_fields m2) = [plain ''index'' ''u16'', array_of ''led'' ''u8'' False (SFixed (SLit (bytes ''3''))),
         plain ''small_rumble'' ''u8'', plain ''big_rumble'' ''u8'', plain ''flash_on'' ''u8'', plain ''flash_off'' ''u8'']"
      "map abs_field (mg_fields m3) = [array_of ''requests'' ''TagList'' True SNone]"
      "map abs_field (mg_fields m4) = [plain ''index'' ''u16'']"
    using assms by (auto simp: net_items_def net_schema_def map_eq_Cons_conv abs_child_iff)
  have "length (st_fields s0) = 6" "length (st_fields s1) = 1" "length (st_fields s2) = 1" "length (st_fields s3) = 1"
      "length (st_fields s4) = 1"
    using assms by (auto simp: net_items_def net_schema_def eval_nat_numeral map_eq_Cons_conv)
  moreover have "length (mg_fields m0) = 5" "length (mg_fields m1) = 5" "length (mg_fields m2) = 6" "length (mg_fields m3) = 1"
      "length (mg_fields m4) = 1"
    using fs [THEN arg_cong [of _ _ length]] by simp_all
  ultimately have sp: "sp 10 = span (fd_name (mg_fields m0 ! 0))" "sp 11 = span (fd_name (mg_fields m0 ! Suc 0))"
      "sp 12 = span (fd_name (mg_fields m0 ! 2))" "sp 13 = span (fd_name (mg_fields m0 ! 3))" "sp 14 = span (fd_name (mg_fields m0 ! 4))"
      "sp 15 = span (fd_name (mg_fields m1 ! 0))" "sp 16 = span (fd_name (mg_fields m1 ! Suc 0))"
      "sp 17 = span (fd_name (mg_fields m1 ! 2))" "sp 18 = span (fd_name (mg_fields m1 ! 3))" "sp 19 = span (fd_name (mg_fields m1 ! 4))"
      "sp 20 = span (fd_name (mg_fields m2 ! 0))" "sp 21 = span (fd_name (mg_fields m2 ! Suc 0))"
      "sp 22 = span (fd_name (mg_fields m2 ! 2))" "sp 23 = span (fd_name (mg_fields m2 ! 3))" "sp 24 = span (fd_name (mg_fields m2 ! 4))"
      "sp 25 = span (fd_name (mg_fields m2 ! 5))" "sp 26 = span (fd_name (mg_fields m3 ! 0))" "sp 27 = span (fd_name (mg_fields m4 ! 0))"
    by (simp_all add: sp_def field_spans_def ms nth_append)
  have len: "length (raw_structs sp) = 7" by (simp add: raw_structs_def)
  have objs: "map unaligned (net_objs sp False) = raw_structs sp @ [max_array unresolved_align 64 False (Obj 0),
      max_array unresolved_align 16 False (Obj 1), max_array unresolved_align 768 False (Obj 2), max_array unresolved_align 64 False U32,
      max_array unresolved_align 16 False U32, max_array unresolved_align 768 False U8, fixed_array unresolved_align 3 U8,
      max_array unresolved_align 65535 True (Obj 5)]"
    by (simp add: raw_structs_unaligned net_objs_def unaligned_shapes)
  show ?thesis
    unfolding objs
    by (simp add: resolve_messages_def with_messages_simps items get_ast_number_value_def ver name ms add_name_def names a
        sss_from_token_def string_slice_from_token_def attribute_of_def len sp net_group_def net_messages_def
        info_fields [OF fs(1)] report_fields [OF fs(2)] controller_fields [OF fs(3)] request_fields [OF fs(4)] destroy_fields [OF fs(5)]
        del: message_fields_loop.simps)
qed

section \<open>Alignments and layouts\<close>

text \<open>The type objects once the first \<open>k\<close> of them are aligned.\<close>

definition partly :: "(nat \<Rightarrow> Span) \<Rightarrow> nat \<Rightarrow> TypeObject list" where
  "partly sp k = take k (net_objs sp False) @ map unaligned (drop k (net_objs sp False))"

lemma deref_partly:
  "k \<le> 15 \<Longrightarrow> i < 15 \<Longrightarrow> deref (partly sp k) (Some (Obj i)) =
     Some (if i < k then net_objs sp False ! i else unaligned (net_objs sp False ! i))"
  by (auto simp: deref_def partly_def nth_append)

lemma partly_step:
  assumes "k < 15"
  shows "(partly sp k)[k := (partly sp k ! k)\<lparr>to_align := to_align (net_objs sp False ! k)\<rparr>] = partly sp (Suc k)"
proof -
  have "(unaligned t)\<lparr>to_align := to_align t\<rparr> = t" for t by (simp add: unaligned_def)
  then show ?thesis
    using assms by (simp add: partly_def nth_append list_update_append take_Suc_conv_app_nth Cons_nth_drop_Suc [symmetric])
qed

lemma net_alignment:
  assumes "k < 15"
  shows "\<exists>seen. resolve_alignment (fuel n) (partly sp k) (Some (Obj k)) [] = Some (to_align (net_objs sp False ! k), seen)"
proof -
  have k: "k \<in> {0, Suc 0, 2, 3, 4, 5, 6, 7, 8, 9, 10, 11, 12, 13, 14}" using assms unfolding insert_iff empty_iff by arith
  then show ?thesis
    by (elim insertE emptyE) (simp_all add: deref_partly nth_net_objs deref_net_objs(3) unaligned_def shapes set_add_def
        unresolved_align_def ALIGN_defs max_alignment_def size_alignment_def cong: lazy)
qed

lemma net_alignment_loop: "alignment_loop (fuel n) [0..<15] (map unaligned (net_objs sp False)) = Some (net_objs sp False)"
proof -
  have "alignment_loop (fuel n) [k..<15] (partly sp k) = Some (partly sp 15)" if "k \<le> 15" for k
    using that
  proof (induction rule: inc_induct)
    case (step k)
    obtain seen where "resolve_alignment (fuel n) (partly sp k) (Some (Obj k)) [] = Some (to_align (net_objs sp False ! k), seen)"
      using net_alignment step.hyps(2) by blast
    with step show ?case using partly_step [of k sp] by (simp add: upt_conv_Cons del: resolve_alignment.simps)
  qed simp
  from this [of 0] show ?thesis by (simp add: partly_def)
qed

lemma net_layout_loop:
  "layout_loop insertion_sort (fuel n) (net_objs sp False) (map Obj [0..<15] @ map PRIMITIF layout_primitifs) [] = Some net_layouts"
proof -
  have "[0..<15] = [0, Suc 0, 2, 3, 4, 5, 6, 7, 8, 9, 10, 11, 12, 13, 14]" by (simp add: upt_rec)
  then show ?thesis
    by (simp add: layout_primitifs_def net_layouts_def layout_defs lookups shapes ALIGN_defs Let_def cong: lazy)
qed

lemma net_statics:
  assumes "map abs_item (it_items tree) = net_schema"
  shows "\<exists>sp. resolve_statics insertion_sort (fuel n) tree = Some (net_program sp, [])"
proof -
  obtain s0 s1 s2 s3 s4 k0 k1 k2 v m where i: "net_items (it_items tree) [s0, s1, s2, s3, s4] [k0, k1, k2] v m"
    using net_items_exist [OF assms] by blast
  let ?sp = "field_spans [s0, s1, s2, s3, s4] m"
  have "resolve_statics insertion_sort (fuel n) tree = Some (net_program ?sp, [])"
    using net_alignment_loop [of n ?sp] net_layout_loop [of n ?sp]
    by (simp add: resolve_statics_def net_resolve_constants [OF i] net_resolve_types [OF i] net_resolve_messages [OF i]
        resolve_additional_type_info_def with_messages_simps(1-4))
      (simp add: net_program_def with_messages_def net_resolved_def)
  then show ?thesis by blast
qed

section \<open>The text of the schema\<close>

definition net_ser :: "string list" where
  "net_ser =
    [''struct Abs {'', ''    id: u16,'', ''    min: u32,'', ''    max: u32,'', ''    fuzz: u32,'', ''    flat: u32,'',
     ''    res: u32,'', ''}'', '''', ''struct Rel {'', ''    id: u16,'', ''}'', '''', ''struct Key {'', ''    id: u16,'',
     ''}'', '''', ''const ABS_CNT = 64;'', ''const REL_CNT = 16;'', ''const KEY_CNT = 768;'', '''', ''struct Tag {'',
     ''    name: char[],'', ''}'', '''', ''struct TagList {'', ''    tags: Tag[],'', ''}'', '''', ''version(1);'',
     ''messages Device {'', ''    Info {'', ''        slot: u8,'', ''        index: u8,'', '''',
     ''        abs: Abs[^ABS_CNT],'', ''        rel: Rel[^REL_CNT],'', ''        key: Key[^KEY_CNT],'', ''    }'',
     ''    Report {'', ''        slot: u8,'', ''        index: u8,'', '''', ''        abs: u32[^ABS_CNT],'',
     ''        rel: u32[^REL_CNT],'', ''        key: u8[^KEY_CNT],'', ''    }'', ''    ControllerState {'',
     ''        index: u16,'', ''        led: u8[3],'', ''        small_rumble: u8,'', ''        big_rumble: u8,'',
     ''        flash_on: u8,'', ''        flash_off: u8,'', ''    }'', ''    #[versioned]'', ''    Request {'',
     ''        requests: TagList[],'', ''    }'', ''    Destroy {'', ''        index: u16,'', ''    }'', ''}'']"

definition word :: "string \<Rightarrow> string \<Rightarrow> Lexeme \<times> Blank list" where "word w b = (Word (bytes w), map Space (bytes b))"
definition num :: "string \<Rightarrow> string \<Rightarrow> Lexeme \<times> Blank list" where "num ds b = (Num (bytes ds), map Space (bytes b))"
definition sym :: "TokenType \<Rightarrow> string \<Rightarrow> Lexeme \<times> Blank list" where "sym ty b = (Sym ty, map Space (bytes b))"

definition net_layout :: "(Lexeme \<times> Blank list) list" where
  "net_layout =
   [word ''struct'' '' '', word ''Abs'' '' '', sym LeftBrace (nl @ ''    ''), word ''id'' '''', sym Colon '' '',
     word ''u16'' '''', sym Comma (nl @ ''    ''), word ''min'' '''', sym Colon '' '', word ''u32'' '''',
     sym Comma (nl @ ''    ''), word ''max'' '''', sym Colon '' '', word ''u32'' '''', sym Comma (nl @ ''    ''),
     word ''fuzz'' '''', sym Colon '' '', word ''u32'' '''', sym Comma (nl @ ''    ''), word ''flat'' '''', sym Colon '' '',
     word ''u32'' '''', sym Comma (nl @ ''    ''), word ''res'' '''', sym Colon '' '', word ''u32'' '''', sym Comma nl] @
   [sym RightBrace (nl @ nl)] @
   [word ''struct'' '' '', word ''Rel'' '' '', sym LeftBrace (nl @ ''    ''), word ''id'' '''', sym Colon '' '',
     word ''u16'' '''', sym Comma nl] @
   [sym RightBrace (nl @ nl)] @
   [word ''struct'' '' '', word ''Key'' '' '', sym LeftBrace (nl @ ''    ''), word ''id'' '''', sym Colon '' '',
     word ''u16'' '''', sym Comma nl] @
   [sym RightBrace (nl @ nl)] @
   [word ''const'' '' '', word ''ABS_CNT'' '' '', sym Equal '' '', num ''64'' '''', sym Semicolon nl] @
   [word ''const'' '' '', word ''REL_CNT'' '' '', sym Equal '' '', num ''16'' '''', sym Semicolon nl] @
   [word ''const'' '' '', word ''KEY_CNT'' '' '', sym Equal '' '', num ''768'' '''', sym Semicolon (nl @ nl)] @
   [word ''struct'' '' '', word ''Tag'' '' '', sym LeftBrace (nl @ ''    ''), word ''name'' '''', sym Colon '' '',
     word ''char'' '''', sym LeftBracket '''', sym RightBracket '''', sym Comma nl] @
   [sym RightBrace (nl @ nl)] @
   [word ''struct'' '' '', word ''TagList'' '' '', sym LeftBrace (nl @ ''    ''), word ''tags'' '''', sym Colon '' '',
     word ''Tag'' '''', sym LeftBracket '''', sym RightBracket '''', sym Comma nl] @
   [sym RightBrace (nl @ nl)] @
   [word ''version'' '''', sym LeftParen '''', num ''1'' '''', sym RightParen '''', sym Semicolon nl] @
   [word ''messages'' '' '', word ''Device'' '' '', sym LeftBrace (nl @ ''    ''), word ''Info'' '' '',
     sym LeftBrace (nl @ ''        ''), word ''slot'' '''', sym Colon '' '', word ''u8'' '''',
     sym Comma (nl @ ''        ''), word ''index'' '''', sym Colon '' '', word ''u8'' '''',
     sym Comma (nl @ nl @ ''        ''), word ''abs'' '''', sym Colon '' '', word ''Abs'' '''', sym LeftBracket '''',
     sym Caret '''', word ''ABS_CNT'' '''', sym RightBracket '''', sym Comma (nl @ ''        ''), word ''rel'' '''',
     sym Colon '' '', word ''Rel'' '''', sym LeftBracket '''', sym Caret '''', word ''REL_CNT'' '''', sym RightBracket '''',
     sym Comma (nl @ ''        ''), word ''key'' '''', sym Colon '' '', word ''Key'' '''', sym LeftBracket '''',
     sym Caret '''', word ''KEY_CNT'' '''', sym RightBracket '''', sym Comma (nl @ ''    ''),
     sym RightBrace (nl @ ''    ''), word ''Report'' '' '', sym LeftBrace (nl @ ''        ''), word ''slot'' '''',
     sym Colon '' '', word ''u8'' '''', sym Comma (nl @ ''        ''), word ''index'' '''', sym Colon '' '',
     word ''u8'' '''', sym Comma (nl @ nl @ ''        ''), word ''abs'' '''', sym Colon '' '', word ''u32'' '''',
     sym LeftBracket '''', sym Caret '''', word ''ABS_CNT'' '''', sym RightBracket '''', sym Comma (nl @ ''        ''),
     word ''rel'' '''', sym Colon '' '', word ''u32'' '''', sym LeftBracket '''', sym Caret '''', word ''REL_CNT'' '''',
     sym RightBracket '''', sym Comma (nl @ ''        ''), word ''key'' '''', sym Colon '' '', word ''u8'' '''',
     sym LeftBracket '''', sym Caret '''', word ''KEY_CNT'' '''', sym RightBracket '''', sym Comma (nl @ ''    ''),
     sym RightBrace (nl @ ''    ''), word ''ControllerState'' '' '', sym LeftBrace (nl @ ''        ''), word ''index'' '''',
     sym Colon '' '', word ''u16'' '''', sym Comma (nl @ ''        ''), word ''led'' '''', sym Colon '' '',
     word ''u8'' '''', sym LeftBracket '''', num ''3'' '''', sym RightBracket '''', sym Comma (nl @ ''        ''),
     word ''small_rumble'' '''', sym Colon '' '', word ''u8'' '''', sym Comma (nl @ ''        ''), word ''big_rumble'' '''',
     sym Colon '' '', word ''u8'' '''', sym Comma (nl @ ''        ''), word ''flash_on'' '''', sym Colon '' '',
     word ''u8'' '''', sym Comma (nl @ ''        ''), word ''flash_off'' '''', sym Colon '' '', word ''u8'' '''',
     sym Comma (nl @ ''    ''), sym RightBrace (nl @ ''    ''), sym Hash '''', sym LeftBracket '''',
     word ''versioned'' '''', sym RightBracket (nl @ ''    ''), word ''Request'' '' '', sym LeftBrace (nl @ ''        ''),
     word ''requests'' '''', sym Colon '' '', word ''TagList'' '''', sym LeftBracket '''', sym RightBracket '''',
     sym Comma (nl @ ''    ''), sym RightBrace (nl @ ''    ''), word ''Destroy'' '' '', sym LeftBrace (nl @ ''        ''),
     word ''index'' '''', sym Colon '' '', word ''u16'' '''', sym Comma (nl @ ''    ''), sym RightBrace nl] @
   [sym RightBrace nl]"

lemma blanks_bytes [simp]: "blanks_text (map Space bs) = bs"
  by (induction bs) (auto simp: blanks_text_def)

lemma bytes_append: "bytes s @ bytes t = bytes (s @ t)"
  by (simp add: bytes_def)

lemma bytes_simps: "bytes [] = []" "bytes (c # s) = of_char c # bytes s"
  by (simp_all add: bytes_def)

lemma layout_pieces:
  "layout_text [] = bytes []"
  "layout_text (word w b # xs) = bytes (w @ b) @ layout_text xs"
  "layout_text (num w b # xs) = bytes (w @ b) @ layout_text xs"
  "layout_text (sym LeftParen b # xs) = bytes (''('' @ b) @ layout_text xs"
  "layout_text (sym RightParen b # xs) = bytes ('')'' @ b) @ layout_text xs"
  "layout_text (sym LeftBrace b # xs) = bytes (''{'' @ b) @ layout_text xs"
  "layout_text (sym RightBrace b # xs) = bytes (''}'' @ b) @ layout_text xs"
  "layout_text (sym LeftBracket b # xs) = bytes (''['' @ b) @ layout_text xs"
  "layout_text (sym RightBracket b # xs) = bytes ('']'' @ b) @ layout_text xs"
  "layout_text (sym Comma b # xs) = bytes ('','' @ b) @ layout_text xs"
  "layout_text (sym Semicolon b # xs) = bytes ('';'' @ b) @ layout_text xs"
  "layout_text (sym Caret b # xs) = bytes (''^'' @ b) @ layout_text xs"
  "layout_text (sym Colon b # xs) = bytes ('':'' @ b) @ layout_text xs"
  "layout_text (sym Equal b # xs) = bytes (''='' @ b) @ layout_text xs"
  "layout_text (sym Hash b # xs) = bytes (''#'' @ b) @ layout_text xs"
  by (simp_all add: word_def num_def sym_def punctuation_table_def bytes_simps bytes_append [symmetric])

lemma net_text: "layout_text net_layout = bytes (unlines net_ser)"
  by (simp add: net_layout_def net_ser_def layout_pieces bytes_append unlines_def nl_def del: layout_text.simps)

text \<open>What a lexeme must be for the text to be read back, piece by piece.\<close>

fun next_byte :: "byte \<Rightarrow> Blank list \<Rightarrow> (Lexeme \<times> Blank list) list \<Rightarrow> byte" where
  "next_byte e (b # bs) xs = hd (blank_text b)"
| "next_byte e [] ((l, bs) # xs) = hd (lexeme_text l)"
| "next_byte e [] [] = e"

lemma layout_ok_Cons:
  assumes "lexeme_ok l" and "list_all blank_ok bs" and "ends l (next_byte e bs xs)" and "layout_ok e xs"
  shows "layout_ok e ((l, bs) # xs)"
proof -
  have ne: "lexeme_ok l \<Longrightarrow> lexeme_text l \<noteq> []" for l
    by (cases l) (auto split: option.splits simp: map_of_eq_None_iff)
  have "hd (blanks_text bs @ layout_text xs @ [e]) = next_byte e bs xs"
  proof (cases bs)
    case Nil
    with assms(4) ne show ?thesis by (cases xs) (auto simp: blanks_text_def)
  next
    case (Cons b bs')
    have "blank_text b \<noteq> []" by (cases b) auto
    with Cons show ?thesis by (simp add: blanks_text_def)
  qed
  with assms show ?thesis by simp
qed

fun layout_check :: "byte \<Rightarrow> (Lexeme \<times> Blank list) list \<Rightarrow> bool" where
  "layout_check e [] = True"
| "layout_check e ((l, bs) # xs) \<longleftrightarrow>
     lexeme_ok l \<and> list_all blank_ok bs \<and> ends l (next_byte e bs xs) \<and> layout_check e xs"

lemma layout_check_ok: "layout_check e xs \<Longrightarrow> layout_ok e xs"
  by (induction e xs rule: layout_check.induct) (auto intro!: layout_ok_Cons simp del: layout_ok.simps(2))

lemma net_layout_ok: "layout_ok e net_layout"
proof (rule layout_check_ok)
  show "layout_check e net_layout"
    by (simp add: net_layout_def word_def num_def sym_def bytes_simps nl_def is_ident_def is_ident_start_def is_digit_def
        punctuation_table_def digits_nat_def to_digit_def)
qed

lemma keyword_bytes:
  "kw_struct = bytes ''struct''" "kw_const = bytes ''const''" "kw_version = bytes ''version''" "kw_type = bytes ''type''"
  "kw_messages = bytes ''messages''" "attr_versioned = bytes ''versioned''"
  by (simp_all add: kw_struct_def kw_const_def kw_version_def kw_type_def kw_messages_def attr_versioned_def bytes_def)

lemma net_lexemes: "map fst net_layout = program_lexemes True net_schema"
  by (simp add: net_layout_def net_schema_def word_def num_def sym_def program_lexemes_def field_lexemes_def type_lexemes_def
      suffix_lexemes_def plain_def array_of_def keyword_bytes)

lemma net_schema_ok: "list_all item_ok net_schema" "net_schema \<noteq> []"
  by (simp_all add: net_schema_def plain_def array_of_def name_ok_def field_ok_def type_ok_def word_type_def keyword_table_def keyword_bytes)

section \<open>The compiler on the schema\<close>

definition net_files :: "StringSlice \<Rightarrow> (StringSlice \<times> Writer) list" where
  "net_files output = [(output @ bytes ''.h'', File (unlines (''// Generated file'' # tl net_h))),
     (output @ bytes ''.c'', File (unlines (''// Generated file'' # tl net_c)))]"



end
