(* ===== verification/Arena.thy ===== *)
theory Arena
  imports Vectors
begin

text \<open>
  The arena the nodes of the syntax tree live in (\<^verbatim>\<open>ser/arena_allocator.c\<close>). The memory \<open>malloc\<close>
  hands out is numbered: the \<open>n\<close>-th object is \<open>n\<close>, and a pointer is an object and an offset in it.
  Allocation is taken to succeed, and sizes are far below \<open>2 ^ 64\<close>.
\<close>

section \<open>The allocator\<close>

definition ARENA_BLOCK_SIZE :: nat where "ARENA_BLOCK_SIZE = 4096"

type_synonym address = "nat \<times> nat"

record ArenaBlock =
  ab_size :: nat
  ab_data :: nat
  ab_end :: address

record ArenaAllocator =
  aa_blocks :: "ArenaBlock Vector"
  aa_last :: nat
  aa_ptr :: address

definition arena_block_alloc :: "nat \<Rightarrow> nat \<Rightarrow> ArenaBlock \<times> nat" where
  "arena_block_alloc sz heap =
    (let sz = (if sz < ARENA_BLOCK_SIZE then ARENA_BLOCK_SIZE else sz)
     in (\<lparr>ab_size = sz, ab_data = heap, ab_end = (heap, sz)\<rparr>, heap + 1))"

definition arena_init :: "nat \<Rightarrow> (ArenaAllocator \<times> nat) option" where
  "arena_init heap = do {
     let (block, heap) = arena_block_alloc ARENA_BLOCK_SIZE heap;
     blocks \<leftarrow> vector_push block (vector_grow vector_init 256);
     b \<leftarrow> vector_get blocks 0;
     Some (\<lparr>aa_blocks = blocks, aa_last = 0, aa_ptr = (ab_data b, 0)\<rparr>, heap)
   }"

definition arena_alloc :: "nat \<Rightarrow> ArenaAllocator \<Rightarrow> nat \<Rightarrow> (address \<times> ArenaAllocator \<times> nat) option" where
  "arena_alloc sz alloc heap = do {
     b \<leftarrow> vector_get (aa_blocks alloc) (aa_last alloc);
     (alloc, heap) \<leftarrow>
       (if snd (aa_ptr alloc) + sz > snd (ab_end b) then do {
          let (block, heap) = arena_block_alloc sz heap;
          blocks \<leftarrow> vector_push block (aa_blocks alloc);
          let i = len blocks - 1;
          b \<leftarrow> vector_get blocks i;
          Some (\<lparr>aa_blocks = blocks, aa_last = i, aa_ptr = (ab_data b, 0)\<rparr>, heap)
        }
        else Some (alloc, heap));
     let p = aa_ptr alloc;
     Some (p, alloc\<lparr>aa_ptr := (fst p, snd p + sz)\<rparr>, heap)
   }"

text \<open>The objects passed to \<open>free\<close>.\<close>

definition arena_drop :: "ArenaAllocator \<Rightarrow> nat list option" where
  "arena_drop alloc = do {
     bs \<leftarrow> vector_drop (aa_blocks alloc);
     bs \<leftarrow> those bs;
     Some (map ab_data bs)
   }"

section \<open>What it hands out\<close>

type_synonym region = "address \<times> nat"

fun arena_allocs :: "nat list \<Rightarrow> ArenaAllocator \<Rightarrow> nat \<Rightarrow> (region list \<times> ArenaAllocator \<times> nat) option" where
  "arena_allocs [] alloc heap = Some ([], alloc, heap)"
| "arena_allocs (sz # szs) alloc heap = do {
     (p, alloc, heap) \<leftarrow> arena_alloc sz alloc heap;
     (rs, alloc, heap) \<leftarrow> arena_allocs szs alloc heap;
     Some ((p, sz) # rs, alloc, heap)
   }"

fun apart :: "region \<Rightarrow> region \<Rightarrow> bool" where
  "apart ((i, p), n) ((j, q), m) \<longleftrightarrow> i \<noteq> j \<or> p + n \<le> q \<or> q + m \<le> p"

fun within :: "ArenaBlock list \<Rightarrow> region \<Rightarrow> bool" where
  "within bs ((i, p), n) \<longleftrightarrow> (\<exists>b \<in> set bs. ab_data b = i \<and> p + n \<le> ab_size b)"

lemma within_more: "within bs r \<Longrightarrow> within (bs @ bs') r"
  by (cases r) (auto split: prod.splits)

text \<open>The blocks are numbered upwards, the last one is where the pointer is.\<close>

definition arena_inv :: "ArenaBlock list \<Rightarrow> ArenaAllocator \<Rightarrow> nat \<Rightarrow> bool" where
  "arena_inv bs alloc heap \<longleftrightarrow> bs \<noteq> [] \<and> vector_rep (aa_blocks alloc) bs \<and> sorted_wrt (<) (map ab_data bs) \<and>
     aa_last alloc = length bs - 1 \<and> fst (aa_ptr alloc) = ab_data (last bs) \<and>
     snd (aa_ptr alloc) \<le> ab_size (last bs) \<and> (\<forall>b \<in> set bs. ab_data b < heap \<and> ab_end b = (ab_data b, ab_size b))"

text \<open>A region that has been handed out lies before the pointer.\<close>

fun before :: "ArenaAllocator \<Rightarrow> region \<Rightarrow> bool" where
  "before alloc ((i, p), n) \<longleftrightarrow> i < fst (aa_ptr alloc) \<or> i = fst (aa_ptr alloc) \<and> p + n \<le> snd (aa_ptr alloc)"

lemma arena_init_ok: "\<exists>alloc heap' bs. arena_init heap = Some (alloc, heap') \<and> arena_inv bs alloc heap'"
proof -
  define b where "b = \<lparr>ab_size = ARENA_BLOCK_SIZE, ab_data = heap, ab_end = (heap, ARENA_BLOCK_SIZE)\<rparr>"
  have alloc: "arena_block_alloc ARENA_BLOCK_SIZE heap = (b, heap + 1)" by (simp add: arena_block_alloc_def b_def)
  obtain v where v: "vector_push b (vector_grow vector_init 256) = Some v" "vector_rep v ([] @ [b])"
    using vector_push_rep [OF vector_grow_rep(1) [OF vector_init_rep], of b 256] by (elim exE conjE)
  then have "vector_get v 0 = Some b" using vector_get_rep [OF v(2), of 0] by simp
  with v alloc have "arena_init heap = Some (\<lparr>aa_blocks = v, aa_last = 0, aa_ptr = (heap, 0)\<rparr>, heap + 1)"
    by (simp add: arena_init_def b_def)
  moreover have "arena_inv [b] \<lparr>aa_blocks = v, aa_last = 0, aa_ptr = (heap, 0)\<rparr> (heap + 1)"
    using v(2) by (simp add: arena_inv_def b_def)
  ultimately show ?thesis by blast
qed

lemma arena_alloc_ok:
  assumes "arena_inv bs alloc heap"
  shows "\<exists>p alloc' heap' bs'. arena_alloc sz alloc heap = Some (p, alloc', heap') \<and> arena_inv (bs @ bs') alloc' heap' \<and>
    within (bs @ bs') (p, sz) \<and> before alloc' (p, sz) \<and>
    (\<forall>r. before alloc r \<longrightarrow> before alloc' r \<and> apart r (p, sz))"
proof -
  have inv: "vector_rep (aa_blocks alloc) bs" "bs \<noteq> []" "aa_last alloc = length bs - 1" "ab_end (last bs) = (ab_data (last bs), ab_size (last bs))"
    using assms by (auto simp: arena_inv_def)
  have last: "vector_get (aa_blocks alloc) (aa_last alloc) = Some (last bs)"
    using vector_get_rep [OF inv(1)] inv(2,3) by (simp add: last_conv_nth)
  show ?thesis
  proof (cases "snd (aa_ptr alloc) + sz > ab_size (last bs)")
    case False
    then have "arena_alloc sz alloc heap = Some (aa_ptr alloc, alloc\<lparr>aa_ptr := (fst (aa_ptr alloc), snd (aa_ptr alloc) + sz)\<rparr>, heap)"
      using last inv(4) by (simp add: arena_alloc_def Let_def)
    moreover have "arena_inv (bs @ []) (alloc\<lparr>aa_ptr := (fst (aa_ptr alloc), snd (aa_ptr alloc) + sz)\<rparr>) heap"
      using assms False by (auto simp: arena_inv_def)
    moreover have "within (bs @ []) (aa_ptr alloc, sz)"
      using assms False by (cases "aa_ptr alloc") (auto simp: arena_inv_def intro!: bexI [of _ "last bs"])
    ultimately show ?thesis by (cases "aa_ptr alloc") fastforce
  next
    case True
    obtain b where alloc: "arena_block_alloc sz heap = (b, heap + 1)" "ab_data b = heap" "ab_end b = (heap, ab_size b)"
        "sz \<le> ab_size b"
      by (simp add: arena_block_alloc_def Let_def split: if_splits)
    obtain v where v: "vector_push b (aa_blocks alloc) = Some v" "vector_rep v (bs @ [b])"
      using vector_push_rep [OF inv(1), of b] by (elim exE conjE)
    have "vector_get v (len v - 1) = Some b" "len v = Suc (length bs)"
      using vector_get_rep [OF v(2)] vector_rep_len [OF v(2)] by simp_all
    then have "arena_alloc sz alloc heap = Some ((heap, 0), \<lparr>aa_blocks = v, aa_last = length bs, aa_ptr = (heap, sz)\<rparr>, heap + 1)"
      using last inv(4) True v(1) alloc by (simp add: arena_alloc_def Let_def)
    moreover have "arena_inv (bs @ [b]) \<lparr>aa_blocks = v, aa_last = length bs, aa_ptr = (heap, sz)\<rparr> (heap + 1)"
      using assms v(2) alloc by (auto simp: arena_inv_def sorted_wrt_append)
    moreover have "within (bs @ [b]) ((heap, 0), sz)" using alloc by auto
    moreover have "fst (aa_ptr alloc) < heap" using assms by (auto simp: arena_inv_def)
    then have "before \<lparr>aa_blocks = v, aa_last = length bs, aa_ptr = (heap, sz)\<rparr> r \<and> apart r ((heap, 0), sz)" if "before alloc r" for r
      using that by (cases r) auto
    ultimately show ?thesis by fastforce
  qed
qed

lemma arena_allocs_ok:
  assumes "arena_inv bs alloc heap"
  shows "\<exists>rs alloc' heap' bs'. arena_allocs szs alloc heap = Some (rs, alloc', heap') \<and> arena_inv (bs @ bs') alloc' heap' \<and>
    map snd rs = szs \<and> list_all (within (bs @ bs')) rs \<and> sorted_wrt apart rs \<and>
    (\<forall>r. before alloc r \<longrightarrow> list_all (apart r) rs)"
  using assms
proof (induction szs arbitrary: bs alloc heap)
  case Nil
  then show ?case by (auto intro: exI [of _ "[]"])
next
  case (Cons sz szs)
  obtain p alloc1 heap1 bs1 where 1: "arena_alloc sz alloc heap = Some (p, alloc1, heap1)" "arena_inv (bs @ bs1) alloc1 heap1"
      "within (bs @ bs1) (p, sz)" "before alloc1 (p, sz)" "\<And>r. before alloc r \<Longrightarrow> before alloc1 r \<and> apart r (p, sz)"
    using arena_alloc_ok [OF Cons.prems, of sz] by blast
  obtain rs alloc2 heap2 bs2 where 2: "arena_allocs szs alloc1 heap1 = Some (rs, alloc2, heap2)"
      "arena_inv ((bs @ bs1) @ bs2) alloc2 heap2" "map snd rs = szs" "list_all (within ((bs @ bs1) @ bs2)) rs" "sorted_wrt apart rs"
      "\<And>r. before alloc1 r \<Longrightarrow> list_all (apart r) rs"
    using Cons.IH [OF 1(2)] by blast
  have "within ((bs @ bs1) @ bs2) (p, sz)" "list_all (apart (p, sz)) rs"
    using within_more [OF 1(3)] 2(6) [OF 1(4)] by blast+
  moreover have "list_all (apart r) ((p, sz) # rs)" if "before alloc r" for r
    using 1(5) [OF that] 2(6) by simp
  ultimately show ?case
    using 1(1) 2 by (intro exI [of _ "(p, sz) # rs"] exI [of _ alloc2] exI [of _ heap2] exI [of _ "bs1 @ bs2"])
      (auto simp: list_all_iff)
qed

lemma arena_drop_ok:
  assumes "arena_inv bs alloc heap"
  shows "arena_drop alloc = Some (map ab_data bs)" and "distinct (map ab_data bs)"
proof -
  have "vector_drop (aa_blocks alloc) = Some (map Some bs)"
    using assms holds_load [of "slots (aa_blocks alloc)" "len (aa_blocks alloc)" bs 0] vector_rep_len [of "aa_blocks alloc" bs]
    by (simp add: arena_inv_def vector_drop_def vector_rep_def)
  moreover have "those (map Some bs) = Some bs" by (induction bs) auto
  ultimately show "arena_drop alloc = Some (map ab_data bs)" by (simp add: arena_drop_def)
  show "distinct (map ab_data bs)"
    using assms by (auto simp: arena_inv_def strict_sorted_iff)
qed


end
