(* ===== verification/Gen_Vec.thy ===== *)
theory Gen_Vec
  imports Prelude
begin

text \<open>
  The generational vector of \<^verbatim>\<open>ser/gen_vec.c\<close>, at the level of bytes, since what matters is where its
  entries lie. An access outside the allocation is \<^const>\<open>None\<close>; \<open>junk\<close> is what fresh memory holds.
\<close>

record GenVec =
  gv_size :: nat
  gv_entry_size :: nat
  gv_cap :: nat
  gv_len :: nat
  gv_count :: nat
  gv_gen :: u64
  gv_data :: "byte list"
  gv_last_free :: u64
  gv_drop :: bool

record GenIndex =
  gi_gen :: u64
  gi_index :: nat

definition NONE :: u64 where "NONE = - 1"

definition sizeof_Entry :: nat where "sizeof_Entry = 16"

definition genvec_init :: "nat \<Rightarrow> bool \<Rightarrow> GenVec" where
  "genvec_init data_size dropped = \<lparr>gv_size = data_size, gv_entry_size = data_size + 8, gv_cap = 0, gv_len = 0, gv_count = 0,
     gv_gen = 1, gv_data = [], gv_last_free = NONE, gv_drop = dropped\<rparr>"

definition genvec_grow :: "byte \<Rightarrow> GenVec \<Rightarrow> nat \<Rightarrow> GenVec" where
  "genvec_grow junk v n =
    (if n \<le> gv_cap v then v
     else let n = (if gv_cap v * 2 > n then gv_cap v * 2 else n); bytes = n * gv_entry_size v
       in v\<lparr>gv_data := take bytes (gv_data v) @ replicate (bytes - length (gv_data v)) junk, gv_cap := n\<rparr>)"

definition genvec_push :: "byte \<Rightarrow> byte list \<Rightarrow> GenVec \<Rightarrow> (GenVec \<times> GenIndex) option" where
  "genvec_push junk item v = do {
     item \<leftarrow> load (gv_size v) item 0;
     if gv_last_free v = NONE then do {
       let v = genvec_grow junk v (gv_len v + 1);
       let ptr = gv_len v * gv_entry_size v;
       d \<leftarrow> store64 (gv_gen v) (gv_data v) ptr;
       d \<leftarrow> store item d (ptr + sizeof_Entry);
       Some (v\<lparr>gv_len := gv_len v + 1, gv_data := d, gv_count := gv_count v + 1\<rparr>,
         \<lparr>gi_gen = gv_gen v, gi_index = gv_len v\<rparr>)
     }
     else do {
       let index = unat (gv_last_free v);
       let ptr = index * gv_entry_size v;
       next \<leftarrow> load64 (gv_data v) (ptr + 8);
       d \<leftarrow> store64 (gv_gen v) (gv_data v) ptr;
       d \<leftarrow> store item d (ptr + sizeof_Entry);
       Some (v\<lparr>gv_last_free := next, gv_data := d, gv_count := gv_count v + 1\<rparr>,
         \<lparr>gi_gen = gv_gen v, gi_index = index\<rparr>)
     }
   }"

text \<open>The offset of the item the destructor is called on, if any, is part of the result.\<close>

definition genvec_remove :: "GenIndex \<Rightarrow> GenVec \<Rightarrow> (GenVec \<times> nat option) option" where
  "genvec_remove idx v = do {
     let ptr = gi_index idx * gv_entry_size v;
     gen \<leftarrow> load64 (gv_data v) ptr;
     if gen = 0 \<or> gen \<noteq> gi_gen idx then Some (v, None)
     else do {
       d \<leftarrow> store64 0 (gv_data v) ptr;
       d \<leftarrow> store64 (gv_last_free v) d (ptr + 8);
       Some (v\<lparr>gv_data := d, gv_last_free := of_nat (gi_index idx), gv_count := gv_count v - 1, gv_gen := gv_gen v + 1\<rparr>,
         if gv_drop v then Some (ptr + sizeof_Entry) else None)
     }
   }"

definition genvec_get :: "GenIndex \<Rightarrow> GenVec \<Rightarrow> nat option option" where
  "genvec_get idx v = do {
     let ptr = gi_index idx * gv_entry_size v;
     gen \<leftarrow> load64 (gv_data v) ptr;
     if gen = 0 \<or> gen \<noteq> gi_gen idx then Some None else Some (Some (ptr + sizeof_Entry))
   }"

text \<open>The allocations passed to \<open>free\<close>.\<close>

definition genvec_drop :: "GenVec \<Rightarrow> byte list list" where
  "genvec_drop v = (if gv_cap v \<ge> 0 then [gv_data v] else [])"

lemma store64_length: "store64 w m p = Some m' \<Longrightarrow> length m' = length m"
  by (auto simp: store64_def store_def length_put split: if_splits)

text \<open>An entry is allocated for its generation and the item, but the item is stored after the two words
  of an entry: the first push, of an item of any size, writes behind the allocation.\<close>
theorem genvec_push_overflows: "genvec_push junk item (genvec_init sz dropped) = None"
proof (cases "load sz item 0")
  case (Some x)
  then have "length x = sz" by (auto simp: load_def split: if_splits)
  then show ?thesis
    using Some by (auto simp: genvec_push_def genvec_init_def genvec_grow_def Let_def store_def sizeof_Entry_def
        dest!: store64_length split: bind_splits)
qed (simp add: genvec_push_def genvec_init_def)

end
