(* ===== verification/Spec2Isabelle.thy ===== *)
theory Spec2Isabelle
  imports Net_Safety Net_Correct Vectors Hashmap_Correct Util Json_Correct Lexer_Safety Parser_Correct
    Eval_Program Forward Config_Correct Codegen_Order Codegen_C_Correct Codegen_Deviations Compile_Net Arena Gen_Vec
begin

text \<open>
  A verification of jsfw, a forwarder of game controllers over the network, and of \<^verbatim>\<open>ser\<close>, the
  compiler of its message schemas.

  \<^bold>\<open>The program.\<close> The server (\<^verbatim>\<open>src/server.c\<close>) reads controllers found by the device scanner
  (\<^verbatim>\<open>src/hid.c\<close>) and sends their descriptions and reports to the client (\<^verbatim>\<open>src/client.c\<close>), which
  recreates them; both exchange the messages of \<^verbatim>\<open>src/net.c\<close> and read JSON configuration files with
  \<^verbatim>\<open>src/json.c\<close> and the filters of \<^verbatim>\<open>src/util.c\<close>. \<^verbatim>\<open>src/net.c\<close> is the output of the compiler in
  \<^verbatim>\<open>src/ser\<close>, which lexes, parses and evaluates a schema and prints C and Python code.

  \<^bold>\<open>Theories and the code they model.\<close>
  \<^item> \<open>Prelude\<close>: lemmas on words, lists and options, the collections of simplification rules, and the
    locales of sequences and of association tables that the containers interpret.
  \<^item> \<open>Wire_Codec\<close>, \<open>Net\<close>, \<open>Net_Codecs\<close>, \<open>Net_Correct\<close>, \<open>Net_Safety\<close>: \<^verbatim>\<open>net.c\<close>, \<^verbatim>\<open>net.h\<close>. Messages are
    records and a datatype, buffers are lists of bytes at an address, since the code aligns pointers;
    a read or write outside of them is \<^const>\<open>None\<close>. The heap of a decoded request is a list of
    blocks. Round trip, the size of packets, what is accepted, ownership of the request's blocks.
  \<^item> \<open>Vec\<close>: \<^verbatim>\<open>vec.c\<close>. \<open>Vectors\<close>: the functions \<^verbatim>\<open>ser/vector_impl.h\<close> generates. Refinement of lists, and
    where the code leaves the allocation.
  \<^item> \<open>Hashmap\<close>, \<open>Hashmap_Correct\<close>: \<^verbatim>\<open>ser/hashmap.c\<close> with its hash function and the key functions of
    \<^verbatim>\<open>ser/utils.c\<close>. Refinement of a set of items with distinct keys, iteration, deletion.
  \<^item> \<open>Util\<close>: \<^verbatim>\<open>util.c\<close>, \<^verbatim>\<open>util.h\<close>. \<open>Json\<close>, \<open>Json_Correct\<close>, \<open>Json_Safety\<close>: the parser of \<^verbatim>\<open>json.c\<close>, with the
    conversion of decimal numbers to floating point as a parameter. \<open>Json_Adapt\<close>: \<open>json_adapt\<close>, which reads
    structures out of the parsed encoding; \<open>Json_Adapt_Correct\<close> shows that it computes \<open>adapt_value\<close>, the
    same over JSON values. \<open>Config\<close>, \<open>Config_Correct\<close>: the tables of \<^verbatim>\<open>server.c\<close> and \<^verbatim>\<open>client.c\<close>, the
    configurations and messages read with them.
  \<^item> \<open>Source\<close>, \<open>Lexer\<close>, \<open>Lexer_Correct\<close>, \<open>Lexer_Safety\<close>: \<^verbatim>\<open>ser/source.c\<close> and \<^verbatim>\<open>ser/lexer.c\<close>. \<open>Ast\<close>,
    \<open>Parser\<close>, \<open>Parser_Correct\<close>: \<^verbatim>\<open>ser/ast.c\<close> and \<^verbatim>\<open>ser/parser.c\<close>. The text of a schema is read back.
  \<^item> \<open>Eval_Types\<close>, \<open>Eval_Constants\<close>, \<open>Eval_Resolve\<close>, \<open>Eval_Layout\<close>, \<open>Eval\<close>: \<^verbatim>\<open>ser/eval.c\<close>, pass by pass.
    \<open>Eval_Layout_Correct\<close>, \<open>Eval_Resolve_Correct\<close>, \<open>Eval_Correct\<close> and \<open>Eval_Program\<close> show what each
    pass computes and that a returned program is faithful to its schema.
  \<^item> \<open>Codegen\<close>, \<open>Codegen_C\<close>, \<open>Codegen_Python\<close>: \<^verbatim>\<open>ser/codegen.c\<close>, \<^verbatim>\<open>ser/codegen_c.c\<close> and \<^verbatim>\<open>ser/codegen_python.c\<close>.
    A function that prints is the text it prints; \<open>Writer\<close> models the writers the text goes to and shows
    that they keep the contract this rests on, the locale \<open>writer\<close>. \<open>Codegen_Order\<close>: the order of the
    structs. \<open>Codegen_C_Correct\<close>: declarators, against the grammar of C. \<open>Codegen_Net\<close>: what is printed for
    the program of this repository's schema. \<open>Codegen_Deviations\<close>: what goes wrong.
  \<^item> \<open>Driver\<close>: \<^verbatim>\<open>ser/main.c\<close>. \<open>Compile_Net\<close> runs it on the text of \<^verbatim>\<open>net.ser\<close>, through all passes, and obtains
    \<^verbatim>\<open>net.h\<close> and \<^verbatim>\<open>net.c\<close>, the files whose meaning the theory \<open>Net\<close> models.
  \<^item> \<open>Arena\<close>: \<^verbatim>\<open>ser/arena_allocator.c\<close>. \<open>Gen_Vec\<close>: \<^verbatim>\<open>ser/gen_vec.c\<close>, which the program does not use.
  \<^item> \<open>Hid\<close>, \<open>Hid_Correct\<close>: \<^verbatim>\<open>hid.c\<close>, \<^verbatim>\<open>hid.h\<close> and the filters of \<^verbatim>\<open>server.h\<close>. What the kernel answers about
    a device file is the record \<open>EventFile\<close>; \<open>setup_device\<close> numbers its features both ways; the lists of
    devices are \<open>HidState\<close>, and \<open>poll_entry\<close>, \<open>get_device\<close>, \<open>return_device\<close> and \<open>forget_device\<close> are the
    critical sections on it. \<open>Device_Pool\<close>: the scanner and the threads of all clients, interleaved, as
    the step relation \<open>pool_step\<close>; who may use a device, and what goes wrong when one is lost.
  \<^item> \<open>Server\<close>: \<^verbatim>\<open>server.c\<close>. \<open>device_round\<close> is one turn of \<^verbatim>\<open>device_thread\<close>, from the events read from a device
    to the packets sent; \<open>connection_step\<close> is one turn of \<^verbatim>\<open>server_handle_conn\<close>. \<open>Client\<close>: \<^verbatim>\<open>client.c\<close>, from
    the bytes received to the operations on the virtual devices. \<open>Forward\<close> composes both with the
    scanner and the wire format: what the client emits for the events the server has read.

  \<^bold>\<open>Fuel.\<close> A loop that may not end is a partial function or carries fuel, and \<^const>\<open>None\<close> is also the
  value of running out of it. Each theorem that a pass returns says how much is enough: for the
  lexer and the JSON parser the length of the input, for the adapters the length of the encoding, for the evaluator the number of declared names
  (types) and of type objects (alignments), for the client the number of packets received. The depth
  to which a layout descends into nested types carries fuel too, for which no bound is proved.

  The code generators carry fuel for the nesting of types; four levels are enough for the schema of this
  repository.

  \<^bold>\<open>Not modelled.\<close> Sockets, threads and files beyond what they deliver; what is printed to the
  terminal, such as the layout of error reports; the release of memory at exit; logging, and the command
  lines of the server and the client.
\<close>

end
